(* ===== verification/Cfa_Prelude.thy ===== *)
theory Cfa_Prelude
  imports Main "HOL-Library.Word" "HOL-Library.Sublist"
begin

text \<open>
  The prelude of the development: the machine integers and bytes of the Go sources, the outcome
  type of a Go call (it returns, panics or blocks), slices and \<^verbatim>\<open>copy\<close>, the generic lemmas on lists,
  maps and words that the component theories share, and the locale of transition systems with an
  invariant.
\<close>

section \<open>Machine types\<close>

type_synonym byte = "8 word"
type_synonym u8 = "8 word"
type_synonym u16 = "16 word"
type_synonym u32 = "32 word"
type_synonym u64 = "64 word"

text \<open>
  Facts about record updates and outcomes that the component proofs rewrite with
  (\<open>go_simps\<close>), and the word facts that move a goal to \<^typ>\<open>nat\<close> (\<open>unat_simps\<close>).
\<close>

named_theorems go_simps "outcomes of Go calls"
named_theorems unat_simps "machine words as natural numbers"

section \<open>Outcomes of Go calls\<close>

text \<open>
  A call returns (\<open>Ret\<close>), panics (a failed \<^verbatim>\<open>Assert\<close>, an index out of range, a division by zero) or
  does not return as long as no other goroutine moves (\<open>Block\<close>: a lock that is held, a full
  channel). Error values that the Go code returns are ordinary results, not outcomes.
\<close>

datatype 'a go = Ret 'a | Panic | Block

primrec bindG :: "'a go \<Rightarrow> ('a \<Rightarrow> 'b go) \<Rightarrow> 'b go" where
  "bindG (Ret x) f = f x"
| "bindG Panic f = Panic"
| "bindG Block f = Block"

definition Assert :: "bool \<Rightarrow> unit go" where
  "Assert bOk = (if bOk then Ret () else Panic)"

definition returns :: "'a go \<Rightarrow> bool" where
  "returns m \<longleftrightarrow> (case m of Ret _ \<Rightarrow> True | Panic \<Rightarrow> False | Block \<Rightarrow> False)"

lemma bindG_Ret_iff [go_simps]: "bindG m f = Ret y \<longleftrightarrow> (\<exists>x. m = Ret x \<and> f x = Ret y)"
  by (cases m) auto

lemma Assert_Ret_iff [go_simps]: "Assert b = Ret u \<longleftrightarrow> b"
  by (simp add: Assert_def)

lemma Assert_True [simp]: "b \<Longrightarrow> bindG (Assert b) f = f ()"
  by (simp add: Assert_def)

lemma Assert_False [simp]: "\<not> b \<Longrightarrow> bindG (Assert b) f = Panic"
  by (simp add: Assert_def)

lemma bindG_assoc: "bindG (bindG m f) g = bindG m (\<lambda>x. bindG (f x) g)"
  by (cases m) auto

lemma bindG_cong [fundef_cong]:
  "m = m' \<Longrightarrow> (\<And>x. m' = Ret x \<Longrightarrow> f x = f' x) \<Longrightarrow> bindG m f = bindG m' f'"
  by (cases m') auto

lemma bindG_split:
  "P (bindG m f) \<longleftrightarrow> (\<forall>x. m = Ret x \<longrightarrow> P (f x)) \<and> (m = Panic \<longrightarrow> P Panic) \<and> (m = Block \<longrightarrow> P Block)"
  by (cases m) auto

lemma returns_iff: "returns m \<longleftrightarrow> (\<exists>x. m = Ret x)"
  by (cases m) (auto simp: returns_def)

lemma returns_simps [simp]: "returns (Ret x)" "\<not> returns Panic" "\<not> returns Block"
  by (auto simp: returns_def)

text \<open>
  \<open>okG w m Q\<close>: the call \<open>m\<close> does not panic, its result satisfies \<open>Q\<close> if it returns, and it may block only
  when \<open>w\<close> holds. With \<open>w = False\<close> it returns.
\<close>

definition okG :: "bool \<Rightarrow> 'a go \<Rightarrow> ('a \<Rightarrow> bool) \<Rightarrow> bool" where
  "okG w m Q \<longleftrightarrow> (case m of Ret x \<Rightarrow> Q x | Panic \<Rightarrow> False | Block \<Rightarrow> w)"

lemma okG_simps [simp]: "okG w (Ret x) Q \<longleftrightarrow> Q x" "\<not> okG w Panic Q" "okG w Block Q \<longleftrightarrow> w"
  by (simp_all add: okG_def)

lemma okG_bind: "okG w m P \<Longrightarrow> (\<And>x. P x \<Longrightarrow> okG w (f x) Q) \<Longrightarrow> okG w (bindG m f) Q"
  by (cases m) auto

lemma okG_mono: "okG w m P \<Longrightarrow> (w \<Longrightarrow> w') \<Longrightarrow> (\<And>x. P x \<Longrightarrow> Q x) \<Longrightarrow> okG w' m Q"
  by (cases m) auto

lemma okG_returns: "okG False m Q \<longleftrightarrow> (\<exists>x. m = Ret x \<and> Q x)"
  by (cases m) auto

lemma okG_Ret: "okG w m Q \<Longrightarrow> m = Ret x \<Longrightarrow> Q x"
  by simp

section \<open>Signed integers\<close>

text \<open>\<^verbatim>\<open>int64\<close>, also the type of \<^verbatim>\<open>time.Duration\<close> and of \<^verbatim>\<open>UnixNano\<close>: numbers wrap around.\<close>

definition int64 :: "int \<Rightarrow> int" where
  "int64 x = (x + 2 ^ 63) mod 2 ^ 64 - 2 ^ 63"

lemma int64_id: "- (2 ^ 63) \<le> x \<Longrightarrow> x < 2 ^ 63 \<Longrightarrow> int64 x = x"
  by (simp add: int64_def)

section \<open>Slices\<close>

text \<open>\<^verbatim>\<open>xs[i:j]\<close> of a slice whose capacity is its length.\<close>

definition slice :: "nat \<Rightarrow> nat \<Rightarrow> 'a list \<Rightarrow> 'a list go" where
  "slice i j xs = (if i \<le> j \<and> j \<le> length xs then Ret (take (j - i) (drop i xs)) else Panic)"

text \<open>
  \<^verbatim>\<open>copy(dst[k:], src)\<close>: as many elements as fit are copied, the length of \<open>dst\<close> never changes;
  \<^verbatim>\<open>dst[k:]\<close> itself panics when \<open>k\<close> is out of range.
\<close>

definition copy_at :: "nat \<Rightarrow> 'a list \<Rightarrow> 'a list \<Rightarrow> 'a list" where
  "copy_at k src dst = take k dst @ take (length dst - k) src @ drop (k + length src) dst"

definition go_copy :: "nat \<Rightarrow> 'a list \<Rightarrow> 'a list \<Rightarrow> 'a list go" where
  "go_copy k src dst = (if k \<le> length dst then Ret (copy_at k src dst) else Panic)"

lemma slice_Ret [go_simps]:
  "slice i j xs = Ret ys \<longleftrightarrow> i \<le> j \<and> j \<le> length xs \<and> ys = take (j - i) (drop i xs)"
  by (auto simp: slice_def)

lemma slice_in [simp]: "i \<le> j \<Longrightarrow> j \<le> length xs \<Longrightarrow> slice i j xs = Ret (take (j - i) (drop i xs))"
  by (simp add: slice_def)

lemma go_copy_in [simp]: "k \<le> length dst \<Longrightarrow> go_copy k src dst = Ret (copy_at k src dst)"
  by (simp add: go_copy_def)

lemma length_copy_at [simp]: "k \<le> length dst \<Longrightarrow> length (copy_at k src dst) = length dst"
  by (simp add: copy_at_def)

lemma nth_copy_at:
  assumes "k \<le> length dst" and "i < length dst"
  shows "copy_at k src dst ! i = (if k \<le> i \<and> i < k + length src then src ! (i - k) else dst ! i)"
  using assms by (auto simp: copy_at_def nth_append min_def)

lemma copy_at_0_full: "length src = length dst \<Longrightarrow> copy_at 0 src dst = src"
  by (simp add: copy_at_def)

section \<open>Words as natural numbers\<close>

lemma unat_plus [unat_simps]:
  "unat a + unat b < 2 ^ LENGTH('a) \<Longrightarrow> unat (a + b) = unat a + unat (b :: 'a :: len word)"
  by (simp add: unat_add_lem [symmetric])

lemma unat_minus [unat_simps]:
  "unat b \<le> unat a \<Longrightarrow> unat (a - b) = unat a - unat (b :: 'a :: len word)"
  by (simp add: unat_sub word_le_nat_alt)

lemma unat_times [unat_simps]:
  "unat a * unat b < 2 ^ LENGTH('a) \<Longrightarrow> unat (a * b) = unat a * unat (b :: 'a :: len word)"
  by (simp add: unat_mult_lem [symmetric])

lemma unat_u32_bound: "unat (x :: u32) < 2 ^ 32"
  using unsigned_less [of x] by simp

lemma unat_u64_bound: "unat (x :: u64) < 2 ^ 64"
  using unsigned_less [of x] by simp

lemma unat_u64_of_u32 [unat_simps, simp]: "unat (ucast (x :: u32) :: u64) = unat x"
proof -
  have "unat x < 2 ^ 64" using unat_u32_bound [of x] by simp
  then show ?thesis by (simp add: unsigned_ucast_eq take_bit_nat_eq_self)
qed

lemma unat_u32_of_u64 [unat_simps]: "unat (x :: u64) < 2 ^ 32 \<Longrightarrow> unat (ucast x :: u32) = unat x"
  by (simp add: unsigned_ucast_eq take_bit_nat_eq_self)

lemma unat_of_nat_u32 [unat_simps]: "n < 2 ^ 32 \<Longrightarrow> unat (of_nat n :: u32) = n"
  by (simp add: unat_of_nat)

lemma unat_of_nat_u64 [unat_simps]: "n < 2 ^ 64 \<Longrightarrow> unat (of_nat n :: u64) = n"
  by (simp add: unat_of_nat)

text \<open>Loop counters: incrementing below a bound does not wrap.\<close>

lemma unat_inc: "a < b \<Longrightarrow> unat (a + 1) = Suc (unat (a :: 'a :: len word))"
proof -
  assume "a < b"
  then have "unat a < unat b" by (simp add: word_less_nat_alt)
  moreover have "unat b < 2 ^ LENGTH('a)" by (rule unsigned_less)
  ultimately have "Suc (unat a) < 2 ^ LENGTH('a)" by linarith
  then show ?thesis by (simp add: unat_plus)
qed

section \<open>Transition systems\<close>

text \<open>
  The step relations of the development share one contract: an initial condition, a step relation
  and a predicate that holds initially and is kept by every step. What is proved here once is
  that the predicate then holds in every state a run can reach.
\<close>

locale invariant_system =
  fixes init :: "'s \<Rightarrow> bool"
    and step :: "'s \<Rightarrow> 's \<Rightarrow> bool"
    and inv :: "'s \<Rightarrow> bool"
  assumes inv_init: "init s \<Longrightarrow> inv s"
    and inv_step: "step s t \<Longrightarrow> inv s \<Longrightarrow> inv t"
begin

lemma inv_steps: "step\<^sup>*\<^sup>* s t \<Longrightarrow> inv s \<Longrightarrow> inv t"
  by (induction rule: rtranclp_induct) (auto intro: inv_step)

lemma inv_reachable: "init s \<Longrightarrow> step\<^sup>*\<^sup>* s t \<Longrightarrow> inv t"
  by (blast intro: inv_steps inv_init)

end

text \<open>
  Labelled runs, and the contract of a refinement: every step of the detailed system from a state
  that satisfies the invariant keeps it and is matched, under the abstraction, by a step of the
  abstract system with the same label. Then runs are matched by runs.
\<close>

fun runs :: "('c \<Rightarrow> 'l \<Rightarrow> 'c \<Rightarrow> bool) \<Rightarrow> 'c \<Rightarrow> 'l list \<Rightarrow> 'c \<Rightarrow> bool" where
  "runs step s [] t \<longleftrightarrow> t = s"
| "runs step s (l # ls) t \<longleftrightarrow> (\<exists>u. step s l u \<and> runs step u ls t)"

locale simulation =
  fixes cstep :: "'c \<Rightarrow> 'l \<Rightarrow> 'c \<Rightarrow> bool"
    and astep :: "'a \<Rightarrow> 'l \<Rightarrow> 'a \<Rightarrow> bool"
    and inv :: "'c \<Rightarrow> bool"
    and abs :: "'c \<Rightarrow> 'a"
  assumes sim_inv: "cstep c l c' \<Longrightarrow> inv c \<Longrightarrow> inv c'"
    and sim_step: "cstep c l c' \<Longrightarrow> inv c \<Longrightarrow> astep (abs c) l (abs c')"
begin

lemma runs_inv: "runs cstep c ls c' \<Longrightarrow> inv c \<Longrightarrow> inv c'"
  by (induction ls arbitrary: c) (auto intro: sim_inv)

lemma runs_match: "runs cstep c ls c' \<Longrightarrow> inv c \<Longrightarrow> runs astep (abs c) ls (abs c')"
  by (induction ls arbitrary: c) (auto intro: sim_inv sim_step)

end

end
