(* ===== verification/Cfa_Errors.thy ===== *)
theory Cfa_Errors
  imports Cfa_Prelude
begin

text \<open>
  Error values: \<^verbatim>\<open>lib/proto/err_code.go\<close>, \<^verbatim>\<open>lib/proto/posix_code.go\<close>, the translation \<^verbatim>\<open>toErr\<close> of server
  replies in \<^verbatim>\<open>lib/libfs/mount.go\<close>, and the translation to a FUSE status in \<^verbatim>\<open>client/lib/code.go\<close> and
  \<^verbatim>\<open>client/cfafuse/fuse_op.go\<close>. The properties say that no failure is reported as success on the way
  from the server to the kernel, and that the errno the kernel sees is the one the library chose.
\<close>

section \<open>Go error values\<close>

text \<open>
  The dynamic types of \<^verbatim>\<open>error\<close> the client meets: \<^verbatim>\<open>Errno\<close>, a plain text error, \<^verbatim>\<open>*url.Error\<close> (operation,
  URL, cause, \<^verbatim>\<open>Timeout()\<close>, \<^verbatim>\<open>Temporary()\<close>) and an error wrapped with a message. The value \<^verbatim>\<open>nil\<close> is
  \<^const>\<open>None\<close> of type \<open>go_error option\<close>.
\<close>

datatype go_error =
    Errno int
  | ErrNew string
  | UrlError string string go_error bool bool
  | WithMessage go_error string

definition SUCCESS :: int where "SUCCESS = 0"

definition E_POSXI_ERRNO_FLAG :: int where "E_POSXI_ERRNO_FLAG = 0"

definition E_UTIL_ERRNO_FLAG :: int where "E_UTIL_ERRNO_FLAG = - 500"

definition E_UTIL_FAULT :: int where "E_UTIL_FAULT = E_UTIL_ERRNO_FLAG - 0"

definition E_POSIX_EAGAIN :: int where "E_POSIX_EAGAIN = 11"

definition E_POSIX_EACCES :: int where "E_POSIX_EACCES = 13"

definition E_POSIX_EBADF :: int where "E_POSIX_EBADF = 9"

definition E_POSIX_EBUSY :: int where "E_POSIX_EBUSY = 16"

definition E_POSIX_EEXIST :: int where "E_POSIX_EEXIST = 17"

definition E_POSIX_EFAULT :: int where "E_POSIX_EFAULT = 14"

definition E_POSIX_EFBIG :: int where "E_POSIX_EFBIG = 27"

definition E_POSIX_EINVAL :: int where "E_POSIX_EINVAL = 22"

definition E_POSIX_EIO :: int where "E_POSIX_EIO = 5"

definition E_POSIX_EISDIR :: int where "E_POSIX_EISDIR = 21"

definition E_POSIX_ELOOP :: int where "E_POSIX_ELOOP = 40"

definition E_POSIX_EMLINK :: int where "E_POSIX_EMLINK = 31"

definition E_POSIX_ENAMETOOLONG :: int where "E_POSIX_ENAMETOOLONG = 36"

definition E_POSIX_ENODATA :: int where "E_POSIX_ENODATA = 61"

definition E_POSIX_ENOENT :: int where "E_POSIX_ENOENT = 2"

definition E_POSIX_ENOTCONN :: int where "E_POSIX_ENOTCONN = 107"

definition E_POSIX_ENOTDIR :: int where "E_POSIX_ENOTDIR = 20"

definition E_POSIX_ENOTEMPTY :: int where "E_POSIX_ENOTEMPTY = 39"

definition E_POSIX_ENOTSUP :: int where "E_POSIX_ENOTSUP = 95"

definition E_POSIX_EPERM :: int where "E_POSIX_EPERM = 1"

definition E_POSIX_ERANEG :: int where "E_POSIX_ERANEG = 34"

lemmas posix_defs =
  E_POSIX_EAGAIN_def E_POSIX_EACCES_def E_POSIX_EBADF_def E_POSIX_EBUSY_def E_POSIX_EEXIST_def
  E_POSIX_EFAULT_def E_POSIX_EFBIG_def E_POSIX_EINVAL_def E_POSIX_EIO_def E_POSIX_EISDIR_def
  E_POSIX_ELOOP_def E_POSIX_EMLINK_def E_POSIX_ENAMETOOLONG_def E_POSIX_ENODATA_def
  E_POSIX_ENOENT_def E_POSIX_ENOTCONN_def E_POSIX_ENOTDIR_def E_POSIX_ENOTEMPTY_def
  E_POSIX_ENOTSUP_def E_POSIX_EPERM_def E_POSIX_ERANEG_def

definition IsSuccess :: "int \<Rightarrow> bool" where
  "IsSuccess e \<longleftrightarrow> e = SUCCESS"

definition IsPosixErrno :: "int \<Rightarrow> bool" where
  "IsPosixErrno e \<longleftrightarrow> e > E_POSXI_ERRNO_FLAG"

definition Errno_Equal :: "int \<Rightarrow> int \<Rightarrow> bool" where
  "Errno_Equal e e1 \<longleftrightarrow> e = e1"

text \<open>One step of \<^verbatim>\<open>errors.Unwrap\<close>, and the loop that looks for an \<^verbatim>\<open>Errno\<close> along the chain.\<close>

fun Unwrap :: "go_error \<Rightarrow> go_error option" where
  "Unwrap (UrlError _ _ e _ _) = Some e"
| "Unwrap (WithMessage e _) = Some e"
| "Unwrap _ = None"

lemma Unwrap_size: "Unwrap e = Some e' \<Longrightarrow> size e' < size e"
  by (cases e) auto

function chain_errno :: "go_error option \<Rightarrow> int option" where
  "chain_errno tmp =
     (case tmp of
        None \<Rightarrow> None
      | Some e \<Rightarrow> (case e of Errno res \<Rightarrow> Some res | _ \<Rightarrow> chain_errno (Unwrap e)))"
  by pat_completeness auto
termination
  by (relation "measure (\<lambda>tmp. case tmp of None \<Rightarrow> 0 | Some e \<Rightarrow> size e + 1)")
     (auto split: option.splits dest: Unwrap_size)

declare chain_errno.simps [simp del]

definition ToErrno :: "go_error option \<Rightarrow> int" where
  "ToErrno err =
     (case err of
        None \<Rightarrow> SUCCESS
      | Some _ \<Rightarrow> (case chain_errno err of Some res \<Rightarrow> res | None \<Rightarrow> E_UTIL_FAULT))"

definition TryToErrno :: "go_error option \<Rightarrow> go_error option" where
  "TryToErrno err = (case chain_errno err of Some res \<Rightarrow> Some (Errno res) | None \<Rightarrow> err)"

section \<open>Error texts\<close>

definition PosixErrnoMsgs_init :: "(nat \<times> string) list" where
  "PosixErrnoMsgs_init = [
    (1, ''operation not permitted''),
    (2, ''no such file or directory''),
    (3, ''no such process''),
    (4, ''interrupted system call''),
    (5, ''input/output error''),
    (6, ''no such device or address''),
    (7, ''argument list too long''),
    (8, ''exec format error''),
    (9, ''bad file descriptor''),
    (10, ''no child processes''),
    (11, ''resource temporarily unavailable''),
    (12, ''cannot allocate memory''),
    (13, ''permission denied''),
    (14, ''bad address''),
    (15, ''block device required''),
    (16, ''device or resource busy''),
    (17, ''file exists''),
    (18, ''invalid cross-device link''),
    (19, ''no such device''),
    (20, ''not a directory''),
    (21, ''is a directory''),
    (22, ''invalid argument''),
    (23, ''too many open files in system''),
    (24, ''too many open files''),
    (25, ''inappropriate ioctl for device''),
    (26, ''text file busy''),
    (27, ''file too large''),
    (28, ''no space left on device''),
    (29, ''illegal seek''),
    (30, ''read-only file system''),
    (31, ''too many links''),
    (32, ''broken pipe''),
    (33, ''numerical argument out of domain''),
    (34, ''numerical result out of range''),
    (35, ''resource deadlock avoided''),
    (36, ''file name too long''),
    (37, ''no locks available''),
    (38, ''function not implemented''),
    (39, ''directory not empty''),
    (40, ''too many levels of symbolic links''),
    (42, ''no message of desired type''),
    (43, ''identifier removed''),
    (44, ''channel number out of range''),
    (45, ''level 2 not synchronized''),
    (46, ''level 3 halted''),
    (47, ''level 3 reset''),
    (48, ''link number out of range''),
    (49, ''protocol driver not attached''),
    (50, ''no CSI structure available''),
    (51, ''level 2 halted''),
    (52, ''invalid exchange''),
    (53, ''invalid request descriptor''),
    (54, ''exchange full''),
    (55, ''no anode''),
    (56, ''invalid request code''),
    (57, ''invalid slot''),
    (59, ''bad font file format''),
    (60, ''device not a stream''),
    (61, ''no data available''),
    (62, ''timer expired''),
    (63, ''out of streams resources''),
    (64, ''machine is not on the network''),
    (65, ''package not installed''),
    (66, ''object is remote''),
    (67, ''link has been severed''),
    (68, ''advertise error''),
    (69, ''srmount error''),
    (70, ''communication error on send''),
    (71, ''protocol error''),
    (72, ''multihop attempted''),
    (73, ''RFS specific error''),
    (74, ''bad message''),
    (75, ''value too large for defined data type''),
    (76, ''name not unique on network''),
    (77, ''file descriptor in bad state''),
    (78, ''remote address changed''),
    (79, ''can not access a needed shared library''),
    (80, ''accessing a corrupted shared library''),
    (81, ''.lib section in a.out corrupted''),
    (82, ''attempting to link in too many shared libraries''),
    (83, ''cannot exec a shared library directly''),
    (84, ''invalid or incomplete multibyte or wide character''),
    (85, ''interrupted system call should be restarted''),
    (86, ''streams pipe error''),
    (87, ''too many users''),
    (88, ''socket operation on non-socket''),
    (89, ''destination address required''),
    (90, ''message too long''),
    (91, ''protocol wrong type for socket''),
    (92, ''protocol not available''),
    (93, ''protocol not supported''),
    (94, ''socket type not supported''),
    (95, ''operation not supported''),
    (96, ''protocol family not supported''),
    (97, ''address family not supported by protocol''),
    (98, ''address already in use''),
    (99, ''cannot assign requested address''),
    (100, ''network is down''),
    (101, ''network is unreachable''),
    (102, ''network dropped connection on reset''),
    (103, ''software caused connection abort''),
    (104, ''connection reset by peer''),
    (105, ''no buffer space available''),
    (106, ''transport endpoint is already connected''),
    (107, ''transport endpoint is not connected''),
    (108, ''cannot send after transport endpoint shutdown''),
    (109, ''too many references: cannot splice''),
    (110, ''connection timed out''),
    (111, ''connection refused''),
    (112, ''host is down''),
    (113, ''no route to host''),
    (114, ''operation already in progress''),
    (115, ''operation now in progress''),
    (116, ''stale file handle''),
    (117, ''structure needs cleaning''),
    (118, ''not a XENIX named type file''),
    (119, ''no XENIX semaphores available''),
    (120, ''is a named type file''),
    (121, ''remote I/O error''),
    (122, ''disk quota exceeded''),
    (123, ''no medium found''),
    (124, ''wrong medium type''),
    (125, ''operation canceled''),
    (126, ''required key not available''),
    (127, ''key has expired''),
    (128, ''key has been revoked''),
    (129, ''key was rejected by service''),
    (130, ''owner died''),
    (131, ''state not recoverable''),
    (132, ''operation not possible due to RF-kill''),
    (133, ''memory page has hardware error'')]"

text \<open>The array literal with index keys: positions that are not named hold the empty string.\<close>

definition PosixErrnoMsgs :: "string list" where
  "PosixErrnoMsgs =
     map (\<lambda>i. case map_of PosixErrnoMsgs_init i of None \<Rightarrow> [] | Some m \<Rightarrow> m) [0..<134]"

fun nat_digits :: "nat \<Rightarrow> string" where
  "nat_digits n =
     (if n < 10 then [char_of (48 + n)] else nat_digits (n div 10) @ [char_of (48 + n mod 10)])"

declare nat_digits.simps [simp del]

definition Itoa :: "int \<Rightarrow> string" where
  "Itoa i = (if i < 0 then CHR ''-'' # nat_digits (nat (- i)) else nat_digits (nat i))"

definition Errno_Error :: "int \<Rightarrow> string" where
  "Errno_Error e =
     (if IsSuccess e then ''success''
      else if IsPosixErrno e then
        (if e < int (length PosixErrnoMsgs) then PosixErrnoMsgs ! nat e
         else ''unknown errno '' @ Itoa e)
      else ''unknown errno '' @ Itoa e)"

fun Error_text :: "go_error \<Rightarrow> string" where
  "Error_text (Errno e) = Errno_Error e"
| "Error_text (ErrNew m) = m"
| "Error_text (UrlError op url e _ _) = op @ '' '' @ url @ '': '' @ Error_text e"
| "Error_text (WithMessage e m) = m @ '': '' @ Error_text e"

section \<open>Server replies to library errors\<close>

definition toErr :: "go_error option \<Rightarrow> int \<Rightarrow> go_error option" where
  "toErr err0 code =
     (let err = TryToErrno err0 in
      case err of
        Some (Errno errno) \<Rightarrow> Some (Errno errno)
      | _ \<Rightarrow>
        if err = None \<and> code = 0 then None
        else if code = 1001 then Some (Errno E_POSIX_EAGAIN)
        else if code = 1002 then Some (Errno E_POSIX_EEXIST)
        else if code = 1003 then Some (Errno E_POSIX_ENOENT)
        else if code = 1004 then Some (Errno E_POSIX_ENOTSUP)
        else if code = 1005 then Some (Errno E_POSIX_EIO)
        else if code = 1006 then Some (Errno E_POSIX_ENOTEMPTY)
        else if code = 1007 then Some (Errno E_POSIX_EPERM)
        else Some (Errno E_POSIX_EIO))"

section \<open>Library errors to FUSE status\<close>

text \<open>The Linux numbers of the \<^verbatim>\<open>syscall\<close> constants; \<^verbatim>\<open>fuse.OK\<close> is 0 and \<^verbatim>\<open>fuse.EIO\<close> is \<^verbatim>\<open>syscall.EIO\<close>.\<close>

definition sys_EACCES :: int where "sys_EACCES = 13"

definition sys_EBADF :: int where "sys_EBADF = 9"

definition sys_EBUSY :: int where "sys_EBUSY = 16"

definition sys_EEXIST :: int where "sys_EEXIST = 17"

definition sys_EFAULT :: int where "sys_EFAULT = 14"

definition sys_EFBIG :: int where "sys_EFBIG = 27"

definition sys_EINVAL :: int where "sys_EINVAL = 22"

definition sys_EIO :: int where "sys_EIO = 5"

definition sys_EISDIR :: int where "sys_EISDIR = 21"

definition sys_ELOOP :: int where "sys_ELOOP = 40"

definition sys_EMLINK :: int where "sys_EMLINK = 31"

definition sys_ENAMETOOLONG :: int where "sys_ENAMETOOLONG = 36"

definition sys_ENODATA :: int where "sys_ENODATA = 61"

definition sys_ENOENT :: int where "sys_ENOENT = 2"

definition sys_ENOTCONN :: int where "sys_ENOTCONN = 107"

definition sys_ENOTDIR :: int where "sys_ENOTDIR = 20"

definition sys_ENOTEMPTY :: int where "sys_ENOTEMPTY = 39"

definition sys_ENOTSUP :: int where "sys_ENOTSUP = 95"

definition sys_EPERM :: int where "sys_EPERM = 1"

definition sys_ERANGE :: int where "sys_ERANGE = 34"

definition sys_EAGAIN :: int where "sys_EAGAIN = 11"

definition fuse_OK :: int where "fuse_OK = 0"

lemmas sys_defs =
  sys_EACCES_def sys_EBADF_def sys_EBUSY_def sys_EEXIST_def sys_EFAULT_def sys_EFBIG_def
  sys_EINVAL_def sys_EIO_def sys_EISDIR_def sys_ELOOP_def sys_EMLINK_def sys_ENAMETOOLONG_def
  sys_ENODATA_def sys_ENOENT_def sys_ENOTCONN_def sys_ENOTDIR_def sys_ENOTEMPTY_def
  sys_ENOTSUP_def sys_EPERM_def sys_ERANGE_def sys_EAGAIN_def fuse_OK_def

definition ToFuseStatus :: "int \<Rightarrow> int" where
  "ToFuseStatus err =
     (if \<not> IsPosixErrno err then sys_EIO
      else if err = E_POSIX_EACCES then sys_EACCES
      else if err = E_POSIX_EBADF then sys_EBADF
      else if err = E_POSIX_EBUSY then sys_EBUSY
      else if err = E_POSIX_EEXIST then sys_EEXIST
      else if err = E_POSIX_EFAULT then sys_EFAULT
      else if err = E_POSIX_EFBIG then sys_EFBIG
      else if err = E_POSIX_EINVAL then sys_EINVAL
      else if err = E_POSIX_EIO then sys_EIO
      else if err = E_POSIX_EISDIR then sys_EISDIR
      else if err = E_POSIX_ELOOP then sys_ELOOP
      else if err = E_POSIX_EMLINK then sys_EMLINK
      else if err = E_POSIX_ENAMETOOLONG then sys_ENAMETOOLONG
      else if err = E_POSIX_ENODATA then sys_ENODATA
      else if err = E_POSIX_ENOENT then sys_ENOENT
      else if err = E_POSIX_ENOTCONN then sys_ENOTCONN
      else if err = E_POSIX_ENOTDIR then sys_ENOTDIR
      else if err = E_POSIX_ENOTEMPTY then sys_ENOTEMPTY
      else if err = E_POSIX_ENOTSUP then sys_ENOTSUP
      else if err = E_POSIX_EPERM then sys_EPERM
      else if err = E_POSIX_ERANEG then sys_ERANGE
      else if err = E_POSIX_EAGAIN then sys_EAGAIN
      else sys_EIO)"

definition parseErr :: "go_error option \<Rightarrow> int" where
  "parseErr err =
     (case err of
        None \<Rightarrow> fuse_OK
      | Some e \<Rightarrow> (case e of Errno sErr \<Rightarrow> ToFuseStatus sErr | _ \<Rightarrow> sys_EIO))"

section \<open>Properties\<close>

lemma chain_errno_simps [simp]:
  "chain_errno None = None"
  "chain_errno (Some (Errno n)) = Some n"
  "chain_errno (Some (ErrNew m)) = None"
  "chain_errno (Some (UrlError op url e t u)) = chain_errno (Some e)"
  "chain_errno (Some (WithMessage e m)) = chain_errno (Some e)"
  by (subst chain_errno.simps, simp)+

text \<open>The errnos the library defines, which are the ones a FUSE reply can carry.\<close>

definition posix_errnos :: "int list" where
  "posix_errnos = [1, 2, 5, 9, 11, 13, 14, 16, 17, 20, 21, 22, 27, 31, 34, 36, 39, 40, 61, 95, 107]"

lemma ToFuseStatus_cases:
  "ToFuseStatus e = (if e \<in> set posix_errnos then e else sys_EIO)"
  by (simp add: ToFuseStatus_def posix_errnos_def posix_defs sys_defs IsPosixErrno_def
        E_POSXI_ERRNO_FLAG_def)

lemma toErr_Errno: "toErr err code = Some e \<Longrightarrow> \<exists>n. e = Errno n"
  by (auto simp: toErr_def Let_def split: option.splits go_error.splits if_splits)

lemma TryToErrno_None_iff: "TryToErrno err = None \<longleftrightarrow> err = None"
  by (cases err) (auto simp: TryToErrno_def split: option.splits)

lemma toErr_None_iff: "toErr err code = None \<longleftrightarrow> err = None \<and> code = 0"
  using TryToErrno_None_iff [of err]
  by (auto simp: toErr_def Let_def split: option.splits go_error.splits)

lemma ToErrno_chain: "chain_errno (Some e) = Some n \<Longrightarrow> ToErrno (Some e) = n"
  by (simp add: ToErrno_def)

lemma posix_errnos_set: "n \<in> set posix_errnos \<Longrightarrow> n \<noteq> 0" "sys_EIO \<in> set posix_errnos"
  by (auto simp: posix_errnos_def sys_defs)

lemma toErr_chain: "chain_errno err = Some n \<Longrightarrow> toErr err code = Some (Errno n)"
  by (simp add: toErr_def TryToErrno_def)

text \<open>
  C38: What FUSE is told about a request. The status is OK exactly when the request had no transport
  error and the server answered code 0; it is always OK or one of the errnos of the library; an
  errno anywhere in the chain of a transport error is passed on unchanged; and the codes 1001 to
  1007 of the server become EAGAIN, EEXIST, ENOENT, ENOTSUP, EIO, ENOTEMPTY and EPERM.
\<close>

theorem fuse_reply_faithful:
  "(parseErr (toErr err code) = fuse_OK \<longleftrightarrow> err = None \<and> code = 0) \<and>
   parseErr (toErr err code) \<in> insert fuse_OK (set posix_errnos) \<and>
   (chain_errno err = Some n \<and> n \<in> set posix_errnos \<longrightarrow> parseErr (toErr err code) = n) \<and>
   map (\<lambda>c. parseErr (toErr None c)) [1001, 1002, 1003, 1004, 1005, 1006, 1007] =
     [sys_EAGAIN, sys_EEXIST, sys_ENOENT, sys_ENOTSUP, sys_EIO, sys_ENOTEMPTY, sys_EPERM]"
proof -
  have st: "ToFuseStatus m \<in> set posix_errnos \<and> ToFuseStatus m \<noteq> fuse_OK" for m
    using posix_errnos_set by (auto simp: ToFuseStatus_cases fuse_OK_def)
  have "parseErr (toErr err code) = fuse_OK \<longleftrightarrow> err = None \<and> code = 0"
    using toErr_None_iff [of err code] toErr_Errno [of err code] st
    by (cases "toErr err code") (auto simp: parseErr_def)
  moreover have "parseErr (toErr err code) \<in> insert fuse_OK (set posix_errnos)"
    using toErr_Errno [of err code] st by (cases "toErr err code") (auto simp: parseErr_def)
  moreover have "chain_errno err = Some n \<and> n \<in> set posix_errnos \<longrightarrow> parseErr (toErr err code) = n"
    by (auto simp: toErr_chain parseErr_def ToFuseStatus_cases)
  moreover have "map (\<lambda>c. parseErr (toErr None c)) [1001, 1002, 1003, 1004, 1005, 1006, 1007] =
     [sys_EAGAIN, sys_EEXIST, sys_ENOENT, sys_ENOTSUP, sys_EIO, sys_ENOTEMPTY, sys_EPERM]" by code_simp
  ultimately show ?thesis by blast
qed

theorem fuse_reply_faithful_witness:
  "parseErr (toErr (Some (UrlError ''Post'' ''/x'' (Errno 2) False False)) 0) = 2"
  using fuse_reply_faithful [of "Some (UrlError ''Post'' ''/x'' (Errno 2) False False)" 0 2]
  by (simp add: posix_errnos_def)

end
