(* ===== verification/Cfa_FileCache.thy ===== *)
theory Cfa_FileCache
  imports Cfa_Errors
begin

text \<open>
  The table of open files, \<^verbatim>\<open>lib/libfs/filecache.go\<close>: \<^verbatim>\<open>FileEntry\<close>, the reference counts \<^verbatim>\<open>fileRefer\<close> and
  \<^verbatim>\<open>FileCache\<close> with its handle allocation. The invariant \<open>fc_inv\<close> says that the allocation cursor is
  the least free handle and that the reference counts are the numbers of open cached handles; every
  operation keeps it, and none of the panics of the code can happen under it.
\<close>

unbundle bit_operations_syntax

section \<open>State\<close>

text \<open>Times are nanoseconds; the channel \<^verbatim>\<open>close\<close> is represented by whether it has been closed.\<close>

record FileEntry =
  fe_Id :: u64
  fe_BlockSize :: u32
  fe_Handle :: int
  fe_FilePath :: string
  fe_OpenFlag :: int
  fe_Mode :: u32
  fe_DirectIO :: bool
  fe_Owner :: string
  fe_Pid :: u32
  fe_LastAccessTime :: int
  fe_closed :: bool

type_synonym fileRefer = "u64 \<rightharpoonup> int"

record FileCache =
  fileEntryIndex :: u32
  fileEntryVecSize :: u32
  fileEntryVec :: "FileEntry option list"
  fc_fileRefer :: fileRefer

text \<open>\<^verbatim>\<open>syscall.O_DIRECT\<close> on linux/amd64.\<close>

definition O_DIRECT :: int where "O_DIRECT = 0x4000"

section \<open>Reference counts\<close>

definition AddRef :: "u64 \<Rightarrow> fileRefer \<Rightarrow> fileRefer" where
  "AddRef fId fr = (case fr fId of None \<Rightarrow> fr(fId \<mapsto> 1) | Some ref \<Rightarrow> fr(fId \<mapsto> ref + 1))"

definition DelRef :: "u64 \<Rightarrow> fileRefer \<Rightarrow> fileRefer go" where
  "DelRef fId fr =
     (case fr fId of
        None \<Rightarrow> Panic
      | Some ref \<Rightarrow>
          bindG (Assert (ref \<ge> 1)) (\<lambda>_.
          if ref = 1 then Ret (fr(fId := None)) else Ret (fr(fId \<mapsto> ref - 1))))"

definition LastRef :: "u64 \<Rightarrow> fileRefer \<Rightarrow> bool go" where
  "LastRef fId fr =
     (case fr fId of
        None \<Rightarrow> Panic
      | Some ref \<Rightarrow> bindG (Assert (ref \<ge> 1)) (\<lambda>_. Ret (ref = 1)))"

section \<open>Open files\<close>

definition NewFileCache :: "nat \<Rightarrow> FileCache" where
  "NewFileCache openFileMax =
     \<lparr> fileEntryIndex = 0,
       fileEntryVecSize = of_nat openFileMax,
       fileEntryVec = replicate openFileMax None,
       fc_fileRefer = Map.empty \<rparr>"

text \<open>An array read: out of range panics.\<close>

definition index_at :: "'a list \<Rightarrow> nat \<Rightarrow> 'a go" where
  "index_at xs i = (if i < length xs then Ret (xs ! i) else Panic)"

text \<open>The loop of \<^verbatim>\<open>GetMinEntryIndex\<close>: from \<open>next\<close> to the first \<^verbatim>\<open>nil\<close> slot or the end.\<close>

function GetMinEntryIndex_loop :: "FileEntry option list \<Rightarrow> u32 \<Rightarrow> u32 \<Rightarrow> u32 go" where
  "GetMinEntryIndex_loop vec vsize next =
     (if next < vsize then
        (if unat next < length vec then
           (if vec ! unat next = None then Ret next
            else GetMinEntryIndex_loop vec vsize (next + 1))
         else Panic)
      else Ret next)"
  by pat_completeness auto

termination
  by (relation "measure (\<lambda>(vec, vsize, next). unat vsize - unat next)")
     (auto simp: unat_inc word_less_nat_alt)

declare GetMinEntryIndex_loop.simps [simp del]

definition GetMinEntryIndex :: "FileCache \<Rightarrow> u32 go" where
  "GetMinEntryIndex fc =
     GetMinEntryIndex_loop (fileEntryVec fc) (fileEntryVecSize fc) (fileEntryIndex fc)"

text \<open>
  \<^verbatim>\<open>NewFile\<close> reports the handle through its first argument and an error; here both are results, with
  \<open>fd\<close> unchanged on failure. The new entry drops the caller's \<^verbatim>\<open>Owner\<close> and \<^verbatim>\<open>Pid\<close>, as the code does.
\<close>

definition NewFile :: "int \<Rightarrow> int \<Rightarrow> FileEntry \<Rightarrow> FileCache \<Rightarrow> (int \<times> go_error option \<times> FileCache) go" where
  "NewFile now fd fileEntry fc =
     (let DirectIO = (fe_OpenFlag fileEntry AND O_DIRECT > 0);
          ix = fileEntryIndex fc
      in if ix \<ge> fileEntryVecSize fc then Ret (fd, Some (ErrNew ''NewFile fail!''), fc)
         else
           bindG (index_at (fileEntryVec fc) (unat ix)) (\<lambda>slot.
           if slot \<noteq> None then Panic
           else
             let entry = \<lparr> fe_Id = fe_Id fileEntry,
                           fe_BlockSize = fe_BlockSize fileEntry,
                           fe_Handle = int (unat ix),
                           fe_FilePath = fe_FilePath fileEntry,
                           fe_OpenFlag = fe_OpenFlag fileEntry,
                           fe_Mode = fe_Mode fileEntry,
                           fe_DirectIO = DirectIO,
                           fe_Owner = [],
                           fe_Pid = 0,
                           fe_LastAccessTime = now,
                           fe_closed = False \<rparr>;
                 fc1 = fc\<lparr> fileEntryVec := (fileEntryVec fc)[unat ix := Some entry] \<rparr>;
                 fc2 = (if \<not> DirectIO
                        then fc1\<lparr> fc_fileRefer := AddRef (fe_Id fileEntry) (fc_fileRefer fc1) \<rparr>
                        else fc1)
             in bindG (GetMinEntryIndex fc2) (\<lambda>next.
                Ret (int (unat ix), None, fc2\<lparr> fileEntryIndex := next \<rparr>))))"

definition GetFileEntry :: "int \<Rightarrow> u32 \<Rightarrow> FileCache \<Rightarrow> (FileEntry option \<times> go_error option \<times> FileCache) go" where
  "GetFileEntry now handle fc =
     (if handle \<ge> fileEntryVecSize fc
      then Ret (None, Some (ErrNew ''GetFileEntry invalid handle''), fc)
      else bindG (index_at (fileEntryVec fc) (unat handle)) (\<lambda>slot.
        case slot of
          None \<Rightarrow> Ret (None, Some (ErrNew ''GetFileEntry invalid handle''), fc)
        | Some e \<Rightarrow>
            let e' = e\<lparr> fe_LastAccessTime := now \<rparr>
            in Ret (Some e', None,
                    fc\<lparr> fileEntryVec := (fileEntryVec fc)[unat handle := Some e'] \<rparr>)))"

definition CloseFile :: "u32 \<Rightarrow> FileCache \<Rightarrow> (go_error option \<times> FileCache) go" where
  "CloseFile handle fc =
     (if handle \<ge> fileEntryVecSize fc
      then Ret (Some (ErrNew ''fileCache.CloseFile, invalid handle''), fc)
      else bindG (index_at (fileEntryVec fc) (unat handle)) (\<lambda>slot.
        case slot of
          None \<Rightarrow> Ret (Some (ErrNew ''fileCache.CloseFile, invalid handle''), fc)
        | Some e \<Rightarrow>
            bindG (if \<not> fe_DirectIO e then DelRef (fe_Id e) (fc_fileRefer fc)
                   else Ret (fc_fileRefer fc)) (\<lambda>fr.
            if fe_closed e then Panic
            else Ret (None,
              fc\<lparr> fc_fileRefer := fr,
                  fileEntryVec := (fileEntryVec fc)[unat handle := None],
                  fileEntryIndex :=
                    (if handle < fileEntryIndex fc then handle else fileEntryIndex fc) \<rparr>))))"

definition IsLastRefer :: "FileEntry \<Rightarrow> FileCache \<Rightarrow> bool go" where
  "IsLastRefer fileEntry fc = LastRef (fe_Id fileEntry) (fc_fileRefer fc)"

section \<open>The invariant\<close>

text \<open>How many handles of file \<open>fId\<close> are open through the cache.\<close>

definition open_refs :: "u64 \<Rightarrow> FileEntry option list \<Rightarrow> nat" where
  "open_refs fId vec =
     length (filter (\<lambda>s. case s of None \<Rightarrow> False | Some e \<Rightarrow> fe_Id e = fId \<and> \<not> fe_DirectIO e) vec)"

definition refs_ok :: "FileCache \<Rightarrow> bool" where
  "refs_ok fc \<longleftrightarrow>
     (\<forall>fId. fc_fileRefer fc fId =
        (if open_refs fId (fileEntryVec fc) = 0 then None
         else Some (int (open_refs fId (fileEntryVec fc)))))"

definition cursor_ok :: "FileCache \<Rightarrow> bool" where
  "cursor_ok fc \<longleftrightarrow>
     length (fileEntryVec fc) = unat (fileEntryVecSize fc) \<and>
     unat (fileEntryIndex fc) \<le> unat (fileEntryVecSize fc) \<and>
     (\<forall>i < unat (fileEntryIndex fc). fileEntryVec fc ! i \<noteq> None) \<and>
     (unat (fileEntryIndex fc) < unat (fileEntryVecSize fc) \<longrightarrow>
        fileEntryVec fc ! unat (fileEntryIndex fc) = None)"

definition slots_ok :: "FileCache \<Rightarrow> bool" where
  "slots_ok fc \<longleftrightarrow>
     (\<forall>i < length (fileEntryVec fc). \<forall>e. fileEntryVec fc ! i = Some e \<longrightarrow>
        fe_Handle e = int i \<and> \<not> fe_closed e)"

definition fc_inv :: "FileCache \<Rightarrow> bool" where
  "fc_inv fc \<longleftrightarrow> cursor_ok fc \<and> slots_ok fc \<and> refs_ok fc"

section \<open>Lemmas\<close>

lemma index_at_in [simp]: "i < length xs \<Longrightarrow> index_at xs i = Ret (xs ! i)"
  by (simp add: index_at_def)

lemma GetMinEntryIndex_loop_spec:
  assumes "length vec = unat vsize" and "unat next \<le> unat vsize"
  shows "\<exists>r. GetMinEntryIndex_loop vec vsize next = Ret r \<and>
     unat next \<le> unat r \<and> unat r \<le> unat vsize \<and>
     (\<forall>i. unat next \<le> i \<and> i < unat r \<longrightarrow> vec ! i \<noteq> None) \<and>
     (unat r < unat vsize \<longrightarrow> vec ! unat r = None)"
  using assms
proof (induction vec vsize "next" rule: GetMinEntryIndex_loop.induct)
  case (1 vec vsize "next")
  show ?case
  proof (cases "next < vsize \<and> vec ! unat next \<noteq> None")
    case True
    then have lt: "unat next < unat vsize" by (simp add: word_less_nat_alt)
    moreover have S: "unat (next + 1) = Suc (unat next)" using True unat_inc by blast
    ultimately obtain r where r: "GetMinEntryIndex_loop vec vsize (next + 1) = Ret r"
      "Suc (unat next) \<le> unat r" "unat r \<le> unat vsize"
      "\<forall>i. Suc (unat next) \<le> i \<and> i < unat r \<longrightarrow> vec ! i \<noteq> None"
      "unat r < unat vsize \<longrightarrow> vec ! unat r = None"
      using "1.IH" "1.prems" True by auto
    have "vec ! i \<noteq> None" if "unat next \<le> i" "i < unat r" for i
      using r(4) True that by (cases "i = unat next") auto
    then show ?thesis
      using r True lt "1.prems" by (subst GetMinEntryIndex_loop.simps) auto
  next
    case False
    then show ?thesis
      using "1.prems" by (subst GetMinEntryIndex_loop.simps) (auto simp: word_less_nat_alt)
  qed
qed

lemma open_refs_split:
  "open_refs fId (xs @ x # ys) = open_refs fId xs + open_refs fId [x] + open_refs fId ys"
  by (simp add: open_refs_def)

lemma open_refs_update:
  assumes "i < length vec"
  shows "open_refs fId (vec[i := s]) + open_refs fId [vec ! i] = open_refs fId vec + open_refs fId [s]"
proof -
  have "open_refs fId vec = open_refs fId (take i vec @ vec ! i # drop (Suc i) vec)"
    using id_take_nth_drop [OF assms] by simp
  moreover have "open_refs fId (vec[i := s]) = open_refs fId (take i vec @ s # drop (Suc i) vec)"
    by (simp add: upd_conv_take_nth_drop [OF assms])
  ultimately show ?thesis unfolding open_refs_split by linarith
qed

lemma open_refs_single:
  "open_refs fId [None] = 0"
  "open_refs fId [Some e] = (if fe_Id e = fId \<and> \<not> fe_DirectIO e then 1 else 0)"
  by (auto simp: open_refs_def)

lemma open_refs_pos:
  "i < length vec \<Longrightarrow> vec ! i = Some e \<Longrightarrow> \<not> fe_DirectIO e \<Longrightarrow> 0 < open_refs (fe_Id e) vec"
  using open_refs_update [of i vec "fe_Id e" None] by (simp add: open_refs_single)

lemma NewFileCache_inv: "n < 2 ^ 32 \<Longrightarrow> fc_inv (NewFileCache n)"
  by (auto simp: fc_inv_def cursor_ok_def slots_ok_def refs_ok_def NewFileCache_def open_refs_def
        unat_of_nat_u32 filter_empty_conv)

text \<open>The table as a partial function from handles to entries, the view its clients have.\<close>

definition handles :: "FileCache \<Rightarrow> nat \<rightharpoonup> FileEntry" where
  "handles fc i = (if i < length (fileEntryVec fc) then fileEntryVec fc ! i else None)"

definition new_entry :: "int \<Rightarrow> nat \<Rightarrow> FileEntry \<Rightarrow> FileEntry" where
  "new_entry now i e =
     \<lparr> fe_Id = fe_Id e, fe_BlockSize = fe_BlockSize e, fe_Handle = int i,
       fe_FilePath = fe_FilePath e, fe_OpenFlag = fe_OpenFlag e, fe_Mode = fe_Mode e,
       fe_DirectIO = (fe_OpenFlag e AND O_DIRECT > 0), fe_Owner = [], fe_Pid = 0,
       fe_LastAccessTime = now, fe_closed = False \<rparr>"

lemma handles_update:
  "i < length (fileEntryVec fc) \<Longrightarrow>
   handles (fc\<lparr>fileEntryVec := (fileEntryVec fc)[i := s]\<rparr>) = (handles fc)(i := s)"
  by (auto simp: handles_def fun_eq_iff)

lemma handles_frame [simp]:
  "handles (fc\<lparr>fc_fileRefer := fr\<rparr>) = handles fc"
  "handles (fc\<lparr>fileEntryIndex := ix\<rparr>) = handles fc"
  by (auto simp: handles_def fun_eq_iff)

lemma refs_ok_AddRef:
  assumes "refs_ok fc" and "i < length (fileEntryVec fc)" and "fileEntryVec fc ! i = None"
    and "\<not> fe_DirectIO e"
  shows "refs_ok (fc\<lparr>fileEntryVec := (fileEntryVec fc)[i := Some e],
                     fc_fileRefer := AddRef (fe_Id e) (fc_fileRefer fc)\<rparr>)"
proof -
  have "open_refs fId ((fileEntryVec fc)[i := Some e])
      = open_refs fId (fileEntryVec fc) + (if fe_Id e = fId then 1 else 0)" for fId
    using open_refs_update [OF assms(2), of fId "Some e"] assms(3,4) by (auto simp: open_refs_single)
  then show ?thesis using assms(1) by (auto simp: refs_ok_def AddRef_def)
qed

lemma refs_ok_same:
  assumes "refs_ok fc" and "i < length (fileEntryVec fc)"
    and "\<And>f. open_refs f [fileEntryVec fc ! i] = open_refs f [s]"
  shows "refs_ok (fc\<lparr>fileEntryVec := (fileEntryVec fc)[i := s]\<rparr>)"
proof -
  have "open_refs fId ((fileEntryVec fc)[i := s]) = open_refs fId (fileEntryVec fc)" for fId
    using open_refs_update [OF assms(2), of fId s] assms(3) [of fId] by simp
  then show ?thesis using assms(1) by (simp add: refs_ok_def)
qed

lemma DelRef_refs_ok:
  assumes "refs_ok fc" and "i < length (fileEntryVec fc)" and "fileEntryVec fc ! i = Some e"
    and "\<not> fe_DirectIO e"
  shows "\<exists>fr. DelRef (fe_Id e) (fc_fileRefer fc) = Ret fr \<and>
     refs_ok (fc\<lparr>fileEntryVec := (fileEntryVec fc)[i := None], fc_fileRefer := fr\<rparr>)"
proof -
  have eq: "open_refs fId ((fileEntryVec fc)[i := None]) + (if fe_Id e = fId then 1 else 0)
      = open_refs fId (fileEntryVec fc)" for fId
    using open_refs_update [OF assms(2), of fId None] assms(3,4) by (simp add: open_refs_single)
  have neq: "fe_Id e \<noteq> fId \<Longrightarrow>
      open_refs fId ((fileEntryVec fc)[i := None]) = open_refs fId (fileEntryVec fc)" for fId
    using eq [of fId] by simp
  obtain n where n: "open_refs (fe_Id e) (fileEntryVec fc) = Suc n"
    "open_refs (fe_Id e) ((fileEntryVec fc)[i := None]) = n"
    using eq [of "fe_Id e"] by simp
  then have "fc_fileRefer fc (fe_Id e) = Some (int (Suc n))"
    using assms(1) by (simp add: refs_ok_def)
  then show ?thesis using assms(1) n neq by (cases n) (auto simp: DelRef_def refs_ok_def)
qed

lemma cursor_unat: "cursor_ok fc \<Longrightarrow> fileEntryIndex fc < fileEntryVecSize fc \<Longrightarrow>
    unat (fileEntryIndex fc) < length (fileEntryVec fc) \<and>
    fileEntryVec fc ! unat (fileEntryIndex fc) = None"
  by (simp add: cursor_ok_def word_less_nat_alt)

lemma GetMinEntryIndex_cursor:
  assumes "cursor_ok fc" and "fileEntryIndex fc < fileEntryVecSize fc"
    and "fc' = fc\<lparr>fileEntryVec := (fileEntryVec fc)[unat (fileEntryIndex fc) := Some e],
                 fc_fileRefer := fr\<rparr>"
  shows "\<exists>r. GetMinEntryIndex fc' = Ret r \<and> cursor_ok (fc'\<lparr>fileEntryIndex := r\<rparr>)"
proof -
  let ?v = "(fileEntryVec fc)[unat (fileEntryIndex fc) := Some e]"
  obtain r where r: "GetMinEntryIndex_loop ?v (fileEntryVecSize fc) (fileEntryIndex fc) = Ret r"
    "unat (fileEntryIndex fc) \<le> unat r" "unat r \<le> unat (fileEntryVecSize fc)"
    "\<forall>i. unat (fileEntryIndex fc) \<le> i \<and> i < unat r \<longrightarrow> ?v ! i \<noteq> None"
    "unat r < unat (fileEntryVecSize fc) \<longrightarrow> ?v ! unat r = None"
    using GetMinEntryIndex_loop_spec [of ?v "fileEntryVecSize fc" "fileEntryIndex fc"] assms(1)
    by (auto simp: cursor_ok_def)
  have "?v ! i \<noteq> None" if "i < unat r" for i
  proof (cases "i < unat (fileEntryIndex fc)")
    case True
    then show ?thesis using assms(1) by (simp add: cursor_ok_def)
  next
    case False
    then show ?thesis using r(4) that by (meson not_less)
  qed
  then show ?thesis
    using r assms by (auto simp: GetMinEntryIndex_def cursor_ok_def)
qed

section \<open>What each operation does\<close>

lemma refs_ok_frame [simp]: "refs_ok (fc\<lparr>fileEntryIndex := r\<rparr>) = refs_ok fc"
  by (simp add: refs_ok_def)

lemma slots_ok_set:
  "slots_ok fc \<Longrightarrow> (\<And>e. s = Some e \<Longrightarrow> fe_Handle e = int i \<and> \<not> fe_closed e) \<Longrightarrow>
   slots_ok (fc\<lparr>fileEntryVec := (fileEntryVec fc)[i := s], fc_fileRefer := fr, fileEntryIndex := r\<rparr>)"
  unfolding slots_ok_def by (auto, (metis nth_list_update_eq nth_list_update_neq)+)

lemma NewFile_spec:
  assumes inv: "fc_inv fc" and lt: "fileEntryIndex fc < fileEntryVecSize fc"
  defines "i \<equiv> unat (fileEntryIndex fc)"
  shows "\<exists>fc'. NewFile now fd e fc = Ret (int i, None, fc') \<and> fc_inv fc' \<and>
     handles fc' = (handles fc)(i \<mapsto> new_entry now i e) \<and> fileEntryVecSize fc' = fileEntryVecSize fc \<and>
     handles fc i = None \<and> (\<forall>j < i. handles fc j \<noteq> None)"
proof -
  let ?e = "new_entry now i e"
  let ?fr = "if fe_DirectIO ?e then fc_fileRefer fc else AddRef (fe_Id e) (fc_fileRefer fc)"
  let ?fc = "fc\<lparr>fileEntryVec := (fileEntryVec fc)[i := Some ?e], fc_fileRefer := ?fr\<rparr>"
  from inv have c: "cursor_ok fc" and sl: "slots_ok fc" and rf: "refs_ok fc" by (auto simp: fc_inv_def)
  from cursor_unat [OF c lt] have i: "i < length (fileEntryVec fc)" "fileEntryVec fc ! i = None"
    by (auto simp: i_def)
  obtain r where r: "GetMinEntryIndex ?fc = Ret r" "cursor_ok (?fc\<lparr>fileEntryIndex := r\<rparr>)"
    using GetMinEntryIndex_cursor [OF c lt refl, where e = ?e and fr = ?fr] unfolding i_def by blast
  have "refs_ok ?fc"
  proof (cases "fe_DirectIO ?e")
    case True
    then show ?thesis using refs_ok_same [OF rf i(1), of "Some ?e"] i(2) by (simp add: open_refs_single)
  next
    case False
    then show ?thesis using refs_ok_AddRef [OF rf i False] by (simp add: new_entry_def)
  qed
  then have "fc_inv (?fc\<lparr>fileEntryIndex := r\<rparr>)"
    using r(2) slots_ok_set [OF sl, where s = "Some ?e" and i = i and fr = ?fr and r = r] by (simp add: fc_inv_def new_entry_def)
  moreover have "NewFile now fd e fc = Ret (int i, None, ?fc\<lparr>fileEntryIndex := r\<rparr>)"
    using lt i r(1) by (simp add: NewFile_def Let_def i_def new_entry_def not_le [symmetric] split: if_splits)
  moreover have "handles (?fc\<lparr>fileEntryIndex := r\<rparr>) = (handles fc)(i \<mapsto> ?e)"
    using handles_update [OF i(1)] by simp
  moreover have "\<forall>j < i. handles fc j \<noteq> None"
    using c i(1) by (auto simp: cursor_ok_def handles_def i_def)
  ultimately show ?thesis using i by (auto simp: handles_def)
qed

lemma NewFile_full:
  assumes "fc_inv fc" and "\<not> fileEntryIndex fc < fileEntryVecSize fc"
  shows "NewFile now fd e fc = Ret (fd, Some (ErrNew ''NewFile fail!''), fc) \<and>
     (\<forall>i < unat (fileEntryVecSize fc). handles fc i \<noteq> None)"
  using assms by (auto simp: NewFile_def fc_inv_def cursor_ok_def handles_def word_less_nat_alt not_less
      word_le_nat_alt Let_def)

lemma handles_in: "fc_inv fc \<Longrightarrow> handles fc (unat h) = Some e \<Longrightarrow>
    h < fileEntryVecSize fc \<and> unat h < length (fileEntryVec fc) \<and> fileEntryVec fc ! unat h = Some e"
  by (auto simp: handles_def fc_inv_def cursor_ok_def word_less_nat_alt split: if_splits)

lemma handles_out: "fc_inv fc \<Longrightarrow> handles fc (unat h) = None \<Longrightarrow> h < fileEntryVecSize fc \<Longrightarrow>
    unat h < length (fileEntryVec fc) \<and> fileEntryVec fc ! unat h = None"
  by (auto simp: handles_def fc_inv_def cursor_ok_def word_less_nat_alt split: if_splits)

lemma CloseFile_spec:
  assumes inv: "fc_inv fc" and e: "handles fc (unat h) = Some e"
  shows "\<exists>fc'. CloseFile h fc = Ret (None, fc') \<and> fc_inv fc' \<and> handles fc' = (handles fc)(unat h := None) \<and>
     fileEntryVecSize fc' = fileEntryVecSize fc"
proof -
  let ?v = "(fileEntryVec fc)[unat h := None]"
  let ?ix = "if h < fileEntryIndex fc then h else fileEntryIndex fc"
  from handles_in [OF inv e] have h: "h < fileEntryVecSize fc" "unat h < length (fileEntryVec fc)"
    "fileEntryVec fc ! unat h = Some e" by auto
  from inv have c: "cursor_ok fc" and sl: "slots_ok fc" and rf: "refs_ok fc" by (auto simp: fc_inv_def)
  obtain fr where fr: "(if \<not> fe_DirectIO e then DelRef (fe_Id e) (fc_fileRefer fc)
      else Ret (fc_fileRefer fc)) = Ret fr" "refs_ok (fc\<lparr>fileEntryVec := ?v, fc_fileRefer := fr\<rparr>)"
  proof (cases "fe_DirectIO e")
    case True
    then show ?thesis using that refs_ok_same [OF rf h(2), of None] h(3) by (simp add: open_refs_single)
  next
    case False
    then show ?thesis using that DelRef_refs_ok [OF rf h(2,3) False] by auto
  qed
  let ?fc = "fc\<lparr>fc_fileRefer := fr, fileEntryVec := ?v, fileEntryIndex := ?ix\<rparr>"
  have "\<not> fe_closed e" using sl h by (auto simp: slots_ok_def)
  then have ret: "CloseFile h fc = Ret (None, ?fc)"
    using h fr(1) by (simp add: CloseFile_def not_le [symmetric] split: if_splits)
  have "unat (fileEntryIndex fc) \<noteq> unat h" using c h by (auto simp: cursor_ok_def)
  then have "cursor_ok ?fc"
    using c h(1,2) by (auto simp: cursor_ok_def word_less_nat_alt nth_list_update)
  moreover have "slots_ok ?fc"
    using slots_ok_set [OF sl, where s = None and i = "unat h" and fr = fr and r = ?ix]
    by (simp add: slots_ok_def)
  moreover have "refs_ok ?fc" using fr(2) by (simp add: refs_ok_def)
  ultimately have "fc_inv ?fc" by (simp add: fc_inv_def)
  moreover have "handles ?fc = (handles fc)(unat h := None)"
    using h(2) by (auto simp: handles_def fun_eq_iff nth_list_update)
  ultimately show ?thesis using ret by fastforce
qed

lemma CloseFile_bad:
  assumes "fc_inv fc" and "handles fc (unat h) = None"
  shows "CloseFile h fc = Ret (Some (ErrNew ''fileCache.CloseFile, invalid handle''), fc)"
  using handles_out [OF assms] by (cases "h < fileEntryVecSize fc") (auto simp: CloseFile_def not_less not_le)

lemma GetFileEntry_spec:
  assumes inv: "fc_inv fc" and e: "handles fc (unat h) = Some e"
  shows "\<exists>fc'. GetFileEntry now h fc = Ret (Some (e\<lparr> fe_LastAccessTime := now \<rparr>), None, fc') \<and> fc_inv fc' \<and>
     handles fc' = (handles fc)(unat h \<mapsto> e\<lparr> fe_LastAccessTime := now \<rparr>)"
proof -
  let ?e = "e\<lparr> fe_LastAccessTime := now \<rparr>"
  let ?fc = "fc\<lparr> fileEntryVec := (fileEntryVec fc)[unat h := Some ?e] \<rparr>"
  from handles_in [OF inv e] have h: "h < fileEntryVecSize fc" "unat h < length (fileEntryVec fc)"
    "fileEntryVec fc ! unat h = Some e" by auto
  from inv have c: "cursor_ok fc" and sl: "slots_ok fc" and rf: "refs_ok fc" by (auto simp: fc_inv_def)
  have "refs_ok (fc\<lparr>fileEntryVec := (fileEntryVec fc)[unat h := Some ?e]\<rparr>)"
    using refs_ok_same [OF rf h(2), of "Some ?e"] h(3) by (simp add: open_refs_single)
  moreover have "cursor_ok ?fc" using c h by (auto simp: cursor_ok_def nth_list_update)
  moreover have "slots_ok ?fc"
    using sl h by (auto simp: slots_ok_def nth_list_update)
  ultimately have "fc_inv ?fc" by (simp add: fc_inv_def)
  moreover have "handles ?fc = (handles fc)(unat h \<mapsto> ?e)" using handles_update [OF h(2)] by simp
  ultimately show ?thesis using h by (simp add: GetFileEntry_def Let_def not_le [symmetric])
qed

lemma GetFileEntry_bad:
  assumes "fc_inv fc" and "handles fc (unat h) = None"
  shows "GetFileEntry now h fc = Ret (None, Some (ErrNew ''GetFileEntry invalid handle''), fc)"
  using handles_out [OF assms] by (cases "h < fileEntryVecSize fc") (auto simp: GetFileEntry_def not_less not_le)

text \<open>A table is determined by its size and the handles it holds.\<close>

lemma fc_determined:
  assumes a: "fc_inv a" and b: "fc_inv b" and h: "handles a = handles b"
    and n: "fileEntryVecSize a = fileEntryVecSize b"
  shows "a = (b :: FileCache)"
proof -
  have len: "length (fileEntryVec a) = length (fileEntryVec b)"
    using a b n by (simp add: fc_inv_def cursor_ok_def)
  have "fileEntryVec a ! i = fileEntryVec b ! i" if "i < length (fileEntryVec a)" for i
    using fun_cong [OF h, of i] that len by (simp add: handles_def)
  then have vec: "fileEntryVec a = fileEntryVec b" using len by (intro nth_equalityI) auto
  have refs: "fc_fileRefer a = fc_fileRefer b"
    using a b vec by (auto simp: fc_inv_def refs_ok_def fun_eq_iff)
  have "unat (fileEntryIndex a) = unat (fileEntryIndex b)"
    using a b vec n unfolding fc_inv_def cursor_ok_def by (metis le_neq_implies_less nat_neq_iff)
  then have "fileEntryIndex a = fileEntryIndex b" by (simp add: word_unat_eq_iff)
  then show ?thesis using vec refs n by simp
qed

text \<open>The handles of a file that are open through the cache.\<close>

definition cached_handles :: "u64 \<Rightarrow> FileCache \<Rightarrow> nat set" where
  "cached_handles fId fc = {i. \<exists>e. handles fc i = Some e \<and> fe_Id e = fId \<and> \<not> fe_DirectIO e}"

lemma finite_cached_handles: "finite (cached_handles fId fc)"
  by (rule finite_subset [of _ "{..<length (fileEntryVec fc)}"])
     (auto simp: cached_handles_def handles_def split: if_splits)

lemma card_cached_handles: "card (cached_handles fId fc) = open_refs fId (fileEntryVec fc)"
proof -
  have "cached_handles fId fc = {i. i < length (fileEntryVec fc) \<and>
      (case fileEntryVec fc ! i of None \<Rightarrow> False | Some e \<Rightarrow> fe_Id e = fId \<and> \<not> fe_DirectIO e)}"
    by (auto simp: cached_handles_def handles_def split: if_splits option.splits)
  then show ?thesis by (simp add: open_refs_def length_filter_conv_card)
qed

section \<open>Sequences of calls\<close>

datatype fc_op = OpenOp int FileEntry | GetOp int u32 | CloseOp u32

text \<open>A call of the table; its results other than the table are dropped.\<close>

fun fc_call :: "fc_op \<Rightarrow> FileCache \<Rightarrow> FileCache go" where
  "fc_call (OpenOp now e) fc = bindG (NewFile now (-1) e fc) (\<lambda>(_, _, fc'). Ret fc')"
| "fc_call (GetOp now h) fc = bindG (GetFileEntry now h fc) (\<lambda>(_, _, fc'). Ret fc')"
| "fc_call (CloseOp h) fc = bindG (CloseFile h fc) (\<lambda>(_, fc'). Ret fc')"

fun fc_calls :: "fc_op list \<Rightarrow> FileCache \<Rightarrow> FileCache go" where
  "fc_calls [] fc = Ret fc"
| "fc_calls (op # ops) fc = bindG (fc_call op fc) (fc_calls ops)"

lemma fc_call_inv: "fc_inv fc \<Longrightarrow> okG False (fc_call op fc) fc_inv"
proof (cases op)
  case (OpenOp now e)
  assume "fc_inv fc"
  then show ?thesis using NewFile_spec [of fc now "-1" e] NewFile_full [of fc now "-1" e] OpenOp
    by (cases "fileEntryIndex fc < fileEntryVecSize fc") auto
next
  case (GetOp now h)
  assume "fc_inv fc"
  then show ?thesis using GetFileEntry_spec [of fc h _ now] GetFileEntry_bad [of fc h now] GetOp
    by (cases "handles fc (unat h)") auto
next
  case (CloseOp h)
  assume "fc_inv fc"
  then show ?thesis using CloseFile_spec [of fc h] CloseFile_bad [of fc h] CloseOp
    by (cases "handles fc (unat h)") auto
qed

lemma fc_calls_inv: "fc_inv fc \<Longrightarrow> okG False (fc_calls ops fc) fc_inv"
  by (induction ops arbitrary: fc) (auto intro!: okG_bind [OF fc_call_inv])

section \<open>Properties\<close>

text \<open>
  C30: No sequence of open, lookup and close calls, valid or not, makes the file table panic: the
  slot under the cursor is free, every close finds a positive reference count and closes a channel
  that is open. In the end the cursor is the least free handle and the counts are exact.
\<close>

theorem file_table_never_panics:
  assumes "n < 2 ^ 32"
  shows "\<exists>fc. fc_calls ops (NewFileCache n) = Ret fc \<and> fc_inv fc"
  using fc_calls_inv [OF NewFileCache_inv [OF assms], of ops] by (simp add: okG_returns)

definition some_entry :: FileEntry where
  "some_entry = \<lparr> fe_Id = 5, fe_BlockSize = 4, fe_Handle = 0, fe_FilePath = ''/a'', fe_OpenFlag = 0, fe_Mode = 0,
     fe_DirectIO = False, fe_Owner = [], fe_Pid = 1, fe_LastAccessTime = 0, fe_closed = False \<rparr>"

theorem file_table_never_panics_witness:
  "\<exists>fc. fc_calls [OpenOp 1 some_entry, CloseOp 3, CloseOp 0, CloseOp 0] (NewFileCache 2) = Ret fc \<and> fc_inv fc"
  by (rule file_table_never_panics) simp

text \<open>
  Opening a file gives the least free handle, with the entry of the caller behind it and all
  other handles as before; the table refuses only when every handle is taken, and then it is
  unchanged.
\<close>

theorem open_gives_least_handle:
  assumes "fc_inv fc"
  shows "\<exists>r err fc'. NewFile now fd e fc = Ret (r, err, fc') \<and> fc_inv fc' \<and>
     (if \<exists>i < unat (fileEntryVecSize fc). handles fc i = None
      then err = None \<and> r = int (LEAST i. handles fc i = None) \<and>
           handles fc' = (handles fc)(nat r \<mapsto> new_entry now (nat r) e)
      else err \<noteq> None \<and> r = fd \<and> fc' = fc)"
proof (cases "fileEntryIndex fc < fileEntryVecSize fc")
  case True
  let ?i = "unat (fileEntryIndex fc)"
  obtain fc' where n: "NewFile now fd e fc = Ret (int ?i, None, fc')" "fc_inv fc'"
      "handles fc' = (handles fc)(?i \<mapsto> new_entry now ?i e)" "handles fc ?i = None" "\<forall>j < ?i. handles fc j \<noteq> None"
    using NewFile_spec [OF assms True, of now fd e] by blast
  have "(LEAST i. handles fc i = None) = ?i" using n(4,5) by (intro Least_equality) (auto simp: not_less [symmetric])
  moreover have "?i < unat (fileEntryVecSize fc)" using True by (simp add: word_less_nat_alt)
  ultimately show ?thesis using n by auto
next
  case False
  then show ?thesis using NewFile_full [OF assms False, of now fd e] assms by auto
qed

theorem open_gives_least_handle_witness:
  "\<exists>r err fc'. NewFile 1 (-1) some_entry (NewFileCache 2) = Ret (r, err, fc') \<and> fc_inv fc'"
  using open_gives_least_handle [OF NewFileCache_inv, of 2 1 "-1" some_entry] by auto

text \<open>
  \<^verbatim>\<open>IsLastRefer\<close> of a file opened through the cache does not panic and tells exactly whether no
  other cached handle of the same file is open; the caches of the file are dropped on its answer.
\<close>

theorem last_reference_exact:
  assumes "fc_inv fc" and "handles fc h = Some e" and "\<not> fe_DirectIO e"
  shows "IsLastRefer e fc = Ret (\<forall>h' e'. handles fc h' = Some e' \<and> fe_Id e' = fe_Id e \<and> \<not> fe_DirectIO e' \<longrightarrow> h' = h)"
proof -
  let ?A = "cached_handles (fe_Id e) fc"
  have "h \<in> ?A" using assms by (auto simp: cached_handles_def)
  then have "card ?A = 1 \<longleftrightarrow> ?A \<subseteq> {h}"
    by (metis card_1_singletonE insert_absorb is_singletonI is_singleton_altdef singleton_insert_inj_eq' subset_singletonD)
  moreover have "open_refs (fe_Id e) (fileEntryVec fc) \<noteq> 0"
    using \<open>h \<in> ?A\<close> card_cached_handles [of "fe_Id e" fc] finite_cached_handles [of "fe_Id e" fc]
    by (metis card_0_eq empty_iff)
  ultimately have "IsLastRefer e fc = Ret (?A \<subseteq> {h})"
    using assms(1) card_cached_handles [of "fe_Id e" fc]
    by (simp add: IsLastRefer_def LastRef_def fc_inv_def refs_ok_def)
  then show ?thesis by (auto simp: cached_handles_def)
qed

theorem last_reference_exact_witness:
  "\<exists>fc e. handles fc 0 = Some e \<and>
     IsLastRefer e fc = Ret (\<forall>h' e'. handles fc h' = Some e' \<and> fe_Id e' = fe_Id e \<and> \<not> fe_DirectIO e' \<longrightarrow> h' = 0)"
proof -
  obtain fc where n: "NewFile 1 (-1) some_entry (NewFileCache 2) = Ret (0, None, fc)" "fc_inv fc"
      "handles fc = (handles (NewFileCache 2))(0 \<mapsto> new_entry 1 0 some_entry)"
    using NewFile_spec [OF NewFileCache_inv, of 2 1 "-1" some_entry] by (auto simp: NewFileCache_def)
  have "\<not> fe_DirectIO (new_entry 1 0 some_entry)" by (simp add: new_entry_def some_entry_def)
  then have "IsLastRefer (new_entry 1 0 some_entry) fc = Ret (\<forall>h' e'. handles fc h' = Some e' \<and>
      fe_Id e' = fe_Id (new_entry 1 0 some_entry) \<and> \<not> fe_DirectIO e' \<longrightarrow> h' = 0)"
    using n(3) by (intro last_reference_exact [OF n(2)]) auto
  moreover have "handles fc 0 = Some (new_entry 1 0 some_entry)" using n(3) by simp
  ultimately show ?thesis by blast
qed

text \<open>
  Closing the handle that an open returned gives back exactly the table before the open: slots,
  cursor and reference counts.
\<close>

theorem open_close_round_trip:
  assumes "fc_inv fc" and "fileEntryIndex fc < fileEntryVecSize fc"
  shows "bindG (NewFile now fd e fc) (\<lambda>(r, err, fc1). CloseFile (of_int r) fc1) = Ret (None, fc)"
proof -
  let ?i = "unat (fileEntryIndex fc)"
  obtain fc1 where n: "NewFile now fd e fc = Ret (int ?i, None, fc1)" "fc_inv fc1"
      "handles fc1 = (handles fc)(?i \<mapsto> new_entry now ?i e)" "fileEntryVecSize fc1 = fileEntryVecSize fc"
      "handles fc ?i = None"
    using NewFile_spec [OF assms, of now fd e] by blast
  have "handles fc1 ?i = Some (new_entry now ?i e)" using n(3) by simp
  then obtain fc2 where c: "CloseFile (fileEntryIndex fc) fc1 = Ret (None, fc2)" "fc_inv fc2"
      "handles fc2 = (handles fc1)(?i := None)" "fileEntryVecSize fc2 = fileEntryVecSize fc1"
    using CloseFile_spec [OF n(2), of "fileEntryIndex fc"] by blast
  have "handles fc2 = handles fc" using c(3) n(3,5) by (auto simp: fun_eq_iff)
  then have "fc2 = fc" using fc_determined [OF c(2) assms(1)] c(4) n(4) by simp
  then show ?thesis using n(1) c(1) by simp
qed

theorem open_close_round_trip_witness:
  "bindG (NewFile 1 (-1) some_entry (NewFileCache 2)) (\<lambda>(r, err, fc1). CloseFile (of_int r) fc1) = Ret (None, NewFileCache 2)"
  by (rule open_close_round_trip [OF NewFileCache_inv]) (simp_all add: NewFileCache_def)

end
