(* ===== verification/Cfa_Buffers.thy ===== *)
theory Cfa_Buffers
  imports Cfa_FileCache "HOL-Library.AList"
begin

text \<open>
  \<^verbatim>\<open>lib/libfs/cache.go\<close>: the data buffers of the read and write caches, the per-block operations a
  request is cut into, the prefetch window, and the per-file table of buffers and block locks.
  Buffers are objects that the caches share through pointers; a pointer is the position of the
  buffer in the cache's store, which is its \<^verbatim>\<open>Id\<close>. The properties are the reader/writer exclusion of
  the block locks under every interleaving and the behaviour of a buffer as a window of one block.
\<close>

section \<open>Buffers\<close>

text \<open>\<^verbatim>\<open>elm\<close> is \<^const>\<open>True\<close> when the buffer holds its element of the cache's LRU list, \<^const>\<open>False\<close> when it is \<^verbatim>\<open>nil\<close>.\<close>

record Buffer =
  buf_Id :: u32
  buf_fe :: "FileEntry option"
  buf_BlkIdx :: u64
  buf_Offset :: u32
  buf_Len :: u32
  buf_dataBuf :: "byte list"
  buf_LastUpdateTime :: int
  buf_elm :: bool

definition NewBuffer :: "u32 \<Rightarrow> Buffer" where
  "NewBuffer bId =
     \<lparr> buf_Id = bId, buf_fe = None, buf_BlkIdx = 0, buf_Offset = 0, buf_Len = 0, buf_dataBuf = [],
       buf_LastUpdateTime = 0, buf_elm = False \<rparr>"

definition ReSet :: "FileEntry \<Rightarrow> u64 \<Rightarrow> Buffer \<Rightarrow> Buffer go" where
  "ReSet fe BlkIdx buf =
     (let buf1 = buf\<lparr> buf_fe := Some fe, buf_BlkIdx := BlkIdx, buf_Offset := 0, buf_Len := 0 \<rparr>;
          buf2 = (if buf_dataBuf buf1 = [] \<or> of_nat (length (buf_dataBuf buf1)) < fe_BlockSize fe
                  then buf1\<lparr> buf_dataBuf := replicate (unat (fe_BlockSize fe)) 0 \<rparr>
                  else buf1);
          buf3 = buf2\<lparr> buf_LastUpdateTime := 0 \<rparr>
      in bindG (Assert (\<not> buf_elm buf3)) (\<lambda>_. Ret (buf3\<lparr> buf_elm := False \<rparr>)))"

definition CanMerge :: "u32 \<Rightarrow> Buffer \<Rightarrow> bool" where
  "CanMerge Offset buf \<longleftrightarrow> buf_Offset buf + buf_Len buf = Offset"

definition MergeData :: "int \<Rightarrow> byte list \<Rightarrow> Buffer \<Rightarrow> Buffer go" where
  "MergeData now data buf =
     bindG (go_copy (unat (buf_Offset buf + buf_Len buf)) data (buf_dataBuf buf)) (\<lambda>d.
     Ret (buf\<lparr> buf_dataBuf := d, buf_Len := buf_Len buf + of_nat (length data),
               buf_LastUpdateTime := now \<rparr>))"

definition Buffer_IsFull :: "u32 \<Rightarrow> Buffer \<Rightarrow> bool go" where
  "Buffer_IsFull BlockSize buf =
     bindG (Assert (buf_Offset buf + buf_Len buf \<le> BlockSize)) (\<lambda>_.
     Ret (buf_Offset buf + buf_Len buf = BlockSize))"

definition Skip :: "u32 \<Rightarrow> Buffer \<Rightarrow> Buffer go" where
  "Skip Offset buf =
     bindG (Assert (buf_Offset buf = 0)) (\<lambda>_.
     Ret (buf\<lparr> buf_Offset := buf_Offset buf + Offset \<rparr>))"

definition GetData :: "Buffer \<Rightarrow> byte list go" where
  "GetData buf =
     slice (unat (buf_Offset buf)) (unat (buf_Offset buf + buf_Len buf)) (buf_dataBuf buf)"

definition GetRangeData :: "u32 \<Rightarrow> u32 \<Rightarrow> Buffer \<Rightarrow> byte list go" where
  "GetRangeData Start End buf =
     bindG (Assert (buf_Offset buf \<le> Start)) (\<lambda>_.
     bindG (Assert (End \<le> buf_Offset buf + buf_Len buf)) (\<lambda>_.
     slice (unat Start) (unat End) (buf_dataBuf buf)))"

definition Buffer_GetAlignOffset :: "Buffer \<Rightarrow> u64 go" where
  "Buffer_GetAlignOffset buf =
     (case buf_fe buf of None \<Rightarrow> Panic | Some fe \<Rightarrow> Ret (buf_BlkIdx buf * ucast (fe_BlockSize fe)))"

definition Buffer_GetFileOffset :: "Buffer \<Rightarrow> u64 go" where
  "Buffer_GetFileOffset buf =
     bindG (Buffer_GetAlignOffset buf) (\<lambda>a. Ret (a + ucast (buf_Offset buf)))"

definition GetTailOffset :: "Buffer \<Rightarrow> u64 go" where
  "GetTailOffset buf =
     bindG (Buffer_GetAlignOffset buf) (\<lambda>a. Ret (a + ucast (buf_Offset buf) + ucast (buf_Len buf)))"

section \<open>Block operations\<close>

record RWBlockOp =
  op_fe :: FileEntry
  op_Index :: u64
  op_RwOffset :: u32
  op_RwSize :: u32
  op_rwBuf :: "byte list"

definition Op_GetAlignOffset :: "RWBlockOp \<Rightarrow> u64" where
  "Op_GetAlignOffset bop = op_Index bop * ucast (fe_BlockSize (op_fe bop))"

definition Op_GetFileOffset :: "RWBlockOp \<Rightarrow> u64" where
  "Op_GetFileOffset bop = Op_GetAlignOffset bop + ucast (op_RwOffset bop)"

definition Op_IsFull :: "RWBlockOp \<Rightarrow> bool go" where
  "Op_IsFull bop =
     bindG (Assert (op_RwSize bop = of_nat (length (op_rwBuf bop)))) (\<lambda>_.
     bindG (Assert (op_RwOffset bop + op_RwSize bop \<le> fe_BlockSize (op_fe bop))) (\<lambda>_.
     Ret (op_RwOffset bop + op_RwSize bop = fe_BlockSize (op_fe bop))))"

section \<open>The prefetch window\<close>

record PrefetchWindow =
  BlkStart :: u64
  BlkEnd :: u64

definition NewPrefetchWindow :: PrefetchWindow where
  "NewPrefetchWindow = \<lparr> BlkStart = 0, BlkEnd = 0 \<rparr>"

definition pw_Reset :: "PrefetchWindow \<Rightarrow> PrefetchWindow" where
  "pw_Reset pw = pw\<lparr> BlkStart := 0, BlkEnd := 0 \<rparr>"

definition pw_Size :: "PrefetchWindow \<Rightarrow> u32 go" where
  "pw_Size pw = bindG (Assert (BlkStart pw \<le> BlkEnd pw)) (\<lambda>_. Ret (ucast (BlkEnd pw - BlkStart pw)))"

definition pw_Shift :: "u64 \<Rightarrow> PrefetchWindow \<Rightarrow> PrefetchWindow" where
  "pw_Shift Step pw = pw\<lparr> BlkStart := BlkStart pw + Step, BlkEnd := BlkEnd pw + Step \<rparr>"

definition pw_Move :: "PrefetchWindow \<Rightarrow> PrefetchWindow" where
  "pw_Move pw = pw_Shift (BlkEnd pw - BlkStart pw) pw"

definition pw_Extend :: "u32 \<Rightarrow> PrefetchWindow \<Rightarrow> PrefetchWindow" where
  "pw_Extend Times pw =
     (let Step = BlkEnd pw - BlkStart pw in pw\<lparr> BlkEnd := BlkStart pw + Step * ucast Times \<rparr>)"

definition pw_Cross :: "PrefetchWindow \<Rightarrow> PrefetchWindow \<Rightarrow> bool" where
  "pw_Cross pw rw \<longleftrightarrow> \<not> (BlkEnd pw \<le> BlkStart rw \<or> BlkEnd rw \<le> BlkStart pw)"

section \<open>The buffers and block locks of one file\<close>

datatype LockType = WriteLock | ReadLock

record CacheLock =
  lock_tp :: LockType
  lock_refer :: int

text \<open>The Go maps are association lists: iteration visits the keys in some order.\<close>

record FileBuffer =
  fb_fe :: FileEntry
  BufferMap :: "(u64 \<times> nat) list"
  LockMap :: "(u64 \<times> CacheLock) list"
  fb_pw :: PrefetchWindow

definition NewFileBuffer :: "FileEntry \<Rightarrow> FileBuffer" where
  "NewFileBuffer fe = \<lparr> fb_fe = fe, BufferMap = [], LockMap = [], fb_pw = NewPrefetchWindow \<rparr>"

definition GetAllBufferIndex :: "FileBuffer \<Rightarrow> u64 list" where
  "GetAllBufferIndex fb = map fst (BufferMap fb)"

definition UpperIdx :: "FileBuffer \<Rightarrow> u64" where
  "UpperIdx fb = foldl (\<lambda>TailIndex (Index, _). if TailIndex < Index then Index else TailIndex) 0 (BufferMap fb)"

definition IsZeroCache :: "FileBuffer \<Rightarrow> bool" where
  "IsZeroCache fb \<longleftrightarrow> length (BufferMap fb) = 0"

definition GetBuffer :: "u64 \<Rightarrow> FileBuffer \<Rightarrow> nat option" where
  "GetBuffer blkIdx fb = map_of (BufferMap fb) blkIdx"

definition AttachBuffer :: "u64 \<Rightarrow> nat \<Rightarrow> FileBuffer \<Rightarrow> FileBuffer go" where
  "AttachBuffer blkIdx buffer fb =
     bindG (Assert (map_of (BufferMap fb) blkIdx = None)) (\<lambda>_.
     Ret (fb\<lparr> BufferMap := AList.update blkIdx buffer (BufferMap fb) \<rparr>))"

definition DetachBuffer :: "u64 \<Rightarrow> FileBuffer \<Rightarrow> FileBuffer" where
  "DetachBuffer blkIdx fb = fb\<lparr> BufferMap := AList.delete blkIdx (BufferMap fb) \<rparr>"

text \<open>The spinning loops: one successful round, or \<^const>\<open>Block\<close> when the lock is held.\<close>

definition LockBuffer :: "u64 \<Rightarrow> FileBuffer \<Rightarrow> FileBuffer go" where
  "LockBuffer blkIdx fb =
     (case map_of (LockMap fb) blkIdx of
        Some _ \<Rightarrow> Block
      | None \<Rightarrow> Ret (fb\<lparr> LockMap :=
                  AList.update blkIdx \<lparr> lock_tp = WriteLock, lock_refer = 0 \<rparr> (LockMap fb) \<rparr>))"

definition UnLockBuffer :: "u64 \<Rightarrow> FileBuffer \<Rightarrow> FileBuffer go" where
  "UnLockBuffer blkIdx fb =
     (case map_of (LockMap fb) blkIdx of
        None \<Rightarrow> Panic
      | Some v \<Rightarrow>
          bindG (Assert (lock_tp v = WriteLock \<and> lock_refer v = 0)) (\<lambda>_.
          Ret (fb\<lparr> LockMap := AList.delete blkIdx (LockMap fb) \<rparr>)))"

definition RLockBuffer :: "u64 \<Rightarrow> FileBuffer \<Rightarrow> FileBuffer go" where
  "RLockBuffer blkIdx fb =
     (case map_of (LockMap fb) blkIdx of
        None \<Rightarrow> Ret (fb\<lparr> LockMap :=
                  AList.update blkIdx \<lparr> lock_tp = ReadLock, lock_refer = 1 \<rparr> (LockMap fb) \<rparr>)
      | Some v \<Rightarrow>
          if lock_tp v = WriteLock then Block
          else Ret (fb\<lparr> LockMap :=
                  AList.update blkIdx (v\<lparr> lock_refer := lock_refer v + 1 \<rparr>) (LockMap fb) \<rparr>))"

definition RUnLockBuffer :: "u64 \<Rightarrow> FileBuffer \<Rightarrow> FileBuffer go" where
  "RUnLockBuffer blkIdx fb =
     (case map_of (LockMap fb) blkIdx of
        None \<Rightarrow> Panic
      | Some v \<Rightarrow>
          bindG (Assert (lock_tp v = ReadLock \<and> lock_refer v \<ge> 1)) (\<lambda>_.
          let v' = v\<lparr> lock_refer := lock_refer v - 1 \<rparr>
          in if lock_refer v' = 0
             then Ret (fb\<lparr> LockMap := AList.delete blkIdx (LockMap fb) \<rparr>)
             else Ret (fb\<lparr> LockMap := AList.update blkIdx v' (LockMap fb) \<rparr>)))"

definition fb_Wait :: "FileBuffer \<Rightarrow> FileBuffer go" where
  "fb_Wait fb = (if length (LockMap fb) > 0 then Block else Ret fb)"

section \<open>Block locks under interleaving\<close>

text \<open>
  The goroutines that use one \<^verbatim>\<open>FileBuffer\<close>, with ghost counters of how many of them are between a
  successful lock call of a block and the matching unlock call. A goroutine that finds the lock
  held keeps spinning, which is no step.
\<close>

record LockSys =
  ls_fb :: FileBuffer
  ls_writers :: "u64 \<Rightarrow> nat"
  ls_readers :: "u64 \<Rightarrow> nat"

definition lock_init :: "LockSys \<Rightarrow> bool" where
  "lock_init s \<longleftrightarrow> LockMap (ls_fb s) = [] \<and> ls_writers s = (\<lambda>_. 0) \<and> ls_readers s = (\<lambda>_. 0)"

inductive lock_step :: "LockSys \<Rightarrow> LockSys \<Rightarrow> bool" where
  lock: "LockBuffer i (ls_fb s) = Ret fb \<Longrightarrow>
     lock_step s (s\<lparr> ls_fb := fb, ls_writers := (ls_writers s)(i := ls_writers s i + 1) \<rparr>)"
| unlock: "ls_writers s i > 0 \<Longrightarrow> UnLockBuffer i (ls_fb s) = Ret fb \<Longrightarrow>
     lock_step s (s\<lparr> ls_fb := fb, ls_writers := (ls_writers s)(i := ls_writers s i - 1) \<rparr>)"
| rlock: "RLockBuffer i (ls_fb s) = Ret fb \<Longrightarrow>
     lock_step s (s\<lparr> ls_fb := fb, ls_readers := (ls_readers s)(i := ls_readers s i + 1) \<rparr>)"
| runlock: "ls_readers s i > 0 \<Longrightarrow> RUnLockBuffer i (ls_fb s) = Ret fb \<Longrightarrow>
     lock_step s (s\<lparr> ls_fb := fb, ls_readers := (ls_readers s)(i := ls_readers s i - 1) \<rparr>)"

definition lock_agrees :: "CacheLock option \<Rightarrow> nat \<Rightarrow> nat \<Rightarrow> bool" where
  "lock_agrees l w r \<longleftrightarrow>
     (case l of
        None \<Rightarrow> w = 0 \<and> r = 0
      | Some v \<Rightarrow>
          (case lock_tp v of
             WriteLock \<Rightarrow> lock_refer v = 0 \<and> w = 1 \<and> r = 0
           | ReadLock \<Rightarrow> lock_refer v = int r \<and> r > 0 \<and> w = 0))"

definition lock_inv :: "LockSys \<Rightarrow> bool" where
  "lock_inv s \<longleftrightarrow> (\<forall>i. lock_agrees (map_of (LockMap (ls_fb s)) i) (ls_writers s i) (ls_readers s i))"

lemma lock_invD: "lock_inv s \<Longrightarrow> lock_agrees (map_of (LockMap (ls_fb s)) i) (ls_writers s i) (ls_readers s i)"
  by (simp add: lock_inv_def)

lemma LockType_not [simp]: "t \<noteq> WriteLock \<longleftrightarrow> t = ReadLock" "t \<noteq> ReadLock \<longleftrightarrow> t = WriteLock"
  by (cases t; simp)+

text \<open>The lock calls change the entry of their block only.\<close>

lemma LockBuffer_Ret:
  "LockBuffer i fb = Ret fb' \<Longrightarrow> map_of (LockMap fb) i = None \<and>
   map_of (LockMap fb') = (map_of (LockMap fb))(i \<mapsto> \<lparr> lock_tp = WriteLock, lock_refer = 0 \<rparr>)"
  by (auto simp: LockBuffer_def update_conv' split: option.splits)

lemma UnLockBuffer_Ret:
  "UnLockBuffer i fb = Ret fb' \<Longrightarrow> (\<exists>v. map_of (LockMap fb) i = Some v \<and> lock_tp v = WriteLock) \<and>
   map_of (LockMap fb') = (map_of (LockMap fb))(i := None)"
  by (auto simp: UnLockBuffer_def delete_conv' go_simps split: option.splits)

lemma RLockBuffer_Ret:
  "RLockBuffer i fb = Ret fb' \<Longrightarrow>
   (\<exists>l. map_of (LockMap fb') = (map_of (LockMap fb))(i \<mapsto> l) \<and> lock_tp l = ReadLock \<and>
     (case map_of (LockMap fb) i of
        None \<Rightarrow> lock_refer l = 1
      | Some v \<Rightarrow> lock_tp v = ReadLock \<and> lock_refer l = lock_refer v + 1))"
  by (auto simp: RLockBuffer_def update_conv' split: option.splits if_splits)

lemma RUnLockBuffer_Ret:
  "RUnLockBuffer i fb = Ret fb' \<Longrightarrow> \<exists>v. map_of (LockMap fb) i = Some v \<and> lock_tp v = ReadLock \<and>
     map_of (LockMap fb') = (map_of (LockMap fb))
       (i := if lock_refer v = 1 then None else Some (v\<lparr> lock_refer := lock_refer v - 1 \<rparr>))"
  by (cases "map_of (LockMap fb) i")
     (simp_all add: RUnLockBuffer_def Assert_def Let_def split: if_split_asm,
      (metis FileBuffer.select_convs(3) FileBuffer.surjective FileBuffer.update_convs(3) delete_conv' update_conv')+)

lemma lock_inv_writers:
  assumes "lock_inv s" and "map_of (LockMap fb) = (map_of (LockMap (ls_fb s)))(i := l)"
    and "lock_agrees l w (ls_readers s i)"
  shows "lock_inv (s\<lparr> ls_fb := fb, ls_writers := (ls_writers s)(i := w) \<rparr>)"
  using assms by (simp add: lock_inv_def)

lemma lock_inv_readers:
  assumes "lock_inv s" and "map_of (LockMap fb) = (map_of (LockMap (ls_fb s)))(i := l)"
    and "lock_agrees l (ls_writers s i) r"
  shows "lock_inv (s\<lparr> ls_fb := fb, ls_readers := (ls_readers s)(i := r) \<rparr>)"
  using assms by (simp add: lock_inv_def)

lemma lock_inv_step: "lock_step s t \<Longrightarrow> lock_inv s \<Longrightarrow> lock_inv t"
proof (induction rule: lock_step.induct)
  case (lock i s fb)
  note eff = LockBuffer_Ret [OF lock(1)] and agr = lock_invD [OF lock(2), of i]
  show ?case
    by (rule lock_inv_writers [OF lock(2) conjunct2 [OF eff]])
       (use eff agr in \<open>simp add: lock_agrees_def\<close>)
next
  case (unlock s i fb)
  note eff = UnLockBuffer_Ret [OF unlock(2)] and agr = lock_invD [OF unlock(3), of i]
  show ?case
    by (rule lock_inv_writers [OF unlock(3) conjunct2 [OF eff]])
       (use eff agr in \<open>auto simp: lock_agrees_def\<close>)
next
  case (rlock i s fb)
  obtain l where l: "map_of (LockMap fb) = (map_of (LockMap (ls_fb s)))(i \<mapsto> l)" "lock_tp l = ReadLock"
    "case map_of (LockMap (ls_fb s)) i of None \<Rightarrow> lock_refer l = 1
      | Some v \<Rightarrow> lock_tp v = ReadLock \<and> lock_refer l = lock_refer v + 1"
    using RLockBuffer_Ret [OF rlock(1)] by blast
  show ?case
    by (rule lock_inv_readers [OF rlock(2) l(1)])
       (use l(2,3) lock_invD [OF rlock(2), of i] in \<open>auto simp: lock_agrees_def split: option.splits\<close>)
next
  case (runlock s i fb)
  obtain v where v: "map_of (LockMap (ls_fb s)) i = Some v" "lock_tp v = ReadLock"
    "map_of (LockMap fb) = (map_of (LockMap (ls_fb s)))
       (i := if lock_refer v = 1 then None else Some (v\<lparr> lock_refer := lock_refer v - 1 \<rparr>))"
    using RUnLockBuffer_Ret [OF runlock(2)] by blast
  show ?case
    by (rule lock_inv_readers [OF runlock(3) v(3)])
       (use v(1,2) lock_invD [OF runlock(3), of i] in \<open>auto simp: lock_agrees_def\<close>)
qed

lemma lock_inv_init: "lock_init s \<Longrightarrow> lock_inv s"
  by (simp add: lock_init_def lock_inv_def lock_agrees_def)

interpretation block_locks: invariant_system lock_init lock_step lock_inv
  by unfold_locales (fact lock_inv_init, fact lock_inv_step)

section \<open>A buffer as a window of its block\<close>

definition buf_tail :: "Buffer \<Rightarrow> nat" where
  "buf_tail b = unat (buf_Offset b) + unat (buf_Len b)"

definition buf_wf :: "u32 \<Rightarrow> Buffer \<Rightarrow> bool" where
  "buf_wf bs b \<longleftrightarrow>
     buf_tail b \<le> unat bs \<and> unat bs \<le> length (buf_dataBuf b) \<and> length (buf_dataBuf b) < 2 ^ 32"

text \<open>The bytes a buffer holds, by position in the block.\<close>

definition buf_byte :: "Buffer \<Rightarrow> nat \<Rightarrow> byte option" where
  "buf_byte b p = (if unat (buf_Offset b) \<le> p \<and> p < buf_tail b then Some (buf_dataBuf b ! p) else None)"

lemma buf_wf_unat:
  assumes "buf_wf bs b"
  shows "unat (buf_Offset b + buf_Len b) = buf_tail b" "buf_tail b < 2 ^ 32"
  using assms unat_u32_bound [of bs] by (auto simp: buf_wf_def buf_tail_def unat_plus)

lemma ReSet_ok:
  assumes "\<not> buf_elm b" and "length (buf_dataBuf b) < 2 ^ 32"
  obtains b' where "ReSet fe i b = Ret b'" and "buf_wf (fe_BlockSize fe) b'"
    and "buf_fe b' = Some fe" and "buf_BlkIdx b' = i" and "buf_Offset b' = 0" and "buf_Len b' = 0"
    and "\<not> buf_elm b'" and "buf_Id b' = buf_Id b"
proof -
  have "of_nat (length (buf_dataBuf b)) < fe_BlockSize fe
      \<longleftrightarrow> length (buf_dataBuf b) < unat (fe_BlockSize fe)"
    using assms(2) by (simp add: word_less_nat_alt unat_of_nat_u32)
  then show thesis
    using that assms unat_u32_bound [of "fe_BlockSize fe"]
    by (fastforce simp: ReSet_def Let_def buf_wf_def buf_tail_def)
qed

lemma Skip_ok:
  assumes "buf_Offset b = 0" and "buf_Len b = 0" and "buf_wf bs b" and "unat off \<le> unat bs"
  shows "Skip off b = Ret (b\<lparr> buf_Offset := off \<rparr>)" "buf_wf bs (b\<lparr> buf_Offset := off \<rparr>)"
    "CanMerge off (b\<lparr> buf_Offset := off \<rparr>)"
  using assms by (auto simp: Skip_def buf_wf_def buf_tail_def CanMerge_def)

lemma MergeData_ok:
  assumes wf: "buf_wf bs b" and can: "CanMerge off b" and fits: "unat off + length d \<le> unat bs"
  obtains b' where "MergeData now d b = Ret b'" and "buf_wf bs b'"
    and "buf_fe b' = buf_fe b" and "buf_BlkIdx b' = buf_BlkIdx b" and "buf_elm b' = buf_elm b"
    and "buf_Id b' = buf_Id b" and "buf_Offset b' = buf_Offset b"
    and "buf_tail b' = unat off + length d"
    and "\<And>p. buf_byte b' p =
       (if unat off \<le> p \<and> p < unat off + length d then Some (d ! (p - unat off)) else buf_byte b p)"
proof -
  have off: "unat off = buf_tail b" using can buf_wf_unat [OF wf] by (auto simp: CanMerge_def)
  then have le: "unat (buf_Offset b + buf_Len b) \<le> length (buf_dataBuf b)"
    using wf buf_wf_unat [OF wf] by (simp add: buf_wf_def)
  have "unat (buf_Len b) + length d < 2 ^ 32"
    using fits off unat_u32_bound [of bs] by (simp add: buf_tail_def)
  then have len: "unat (buf_Len b + of_nat (length d)) = unat (buf_Len b) + length d"
    by (simp add: unat_plus unat_of_nat_u32)
  let ?b = "b\<lparr> buf_dataBuf := copy_at (buf_tail b) d (buf_dataBuf b),
               buf_Len := buf_Len b + of_nat (length d), buf_LastUpdateTime := now \<rparr>"
  have tl: "buf_tail ?b = unat off + length d" using len off by (simp add: buf_tail_def)
  have bl: "buf_tail b \<le> length (buf_dataBuf b)" using wf by (simp add: buf_wf_def)
  have "buf_byte ?b p = (if unat off \<le> p \<and> p < unat off + length d then Some (d ! (p - unat off)) else buf_byte b p)"
    for p
    using wf fits off tl bl by (auto simp: buf_byte_def nth_copy_at buf_wf_def buf_tail_def)
  moreover have "MergeData now d b = Ret ?b"
    using le buf_wf_unat [OF wf] by (simp add: MergeData_def)
  moreover have "buf_wf bs ?b" using wf fits tl bl by (simp add: buf_wf_def)
  ultimately show thesis using that [of ?b] tl by simp
qed

lemma GetData_ok:
  assumes "buf_wf bs b"
  shows "GetData b = Ret (take (unat (buf_Len b)) (drop (unat (buf_Offset b)) (buf_dataBuf b)))"
  using assms buf_wf_unat [OF assms] by (simp add: GetData_def buf_wf_def buf_tail_def)

lemma GetData_nth:
  assumes "buf_wf bs b" and "GetData b = Ret d"
  shows "length d = unat (buf_Len b)"
    and "\<And>p. p < length d \<Longrightarrow> buf_byte b (unat (buf_Offset b) + p) = Some (d ! p)"
  using assms GetData_ok [OF assms(1)] by (auto simp: buf_wf_def buf_tail_def buf_byte_def)

lemma Buffer_IsFull_ok: "buf_wf bs b \<Longrightarrow> Buffer_IsFull bs b = Ret (buf_tail b = unat bs)"
  using buf_wf_unat [of bs b]
  by (auto simp: Buffer_IsFull_def buf_wf_def word_le_nat_alt word_unat_eq_iff)

lemma CanMerge_iff: "buf_wf bs b \<Longrightarrow> CanMerge off b \<longleftrightarrow> buf_tail b = unat off"
  using buf_wf_unat [of bs b] by (auto simp: CanMerge_def word_unat_eq_iff)

section \<open>Properties\<close>

text \<open>
  C27: The block locks exclude each other. Whatever the interleaving of the goroutines that lock and
  unlock blocks of a file, a block never has two writers, nor a writer and a reader; the unlock call
  of a holder never panics; and a block that nobody holds can be locked, for reading and for
  writing.
\<close>

theorem block_locks_exclude:
  assumes "lock_init s" and "lock_step\<^sup>*\<^sup>* s t"
  shows "ls_writers t i \<le> 1 \<and> (ls_writers t i = 1 \<longrightarrow> ls_readers t i = 0) \<and>
     (ls_writers t i > 0 \<longrightarrow> returns (UnLockBuffer i (ls_fb t))) \<and>
     (ls_readers t i > 0 \<longrightarrow> returns (RUnLockBuffer i (ls_fb t))) \<and>
     (ls_writers t i = 0 \<and> ls_readers t i = 0 \<longrightarrow> returns (LockBuffer i (ls_fb t))) \<and>
     (ls_writers t i = 0 \<longrightarrow> returns (RLockBuffer i (ls_fb t)))"
proof -
  have "lock_inv t" by (rule block_locks.inv_reachable [OF assms])
  then have a: "lock_agrees (map_of (LockMap (ls_fb t)) i) (ls_writers t i) (ls_readers t i)" by (rule lock_invD)
  show ?thesis
  proof (cases "map_of (LockMap (ls_fb t)) i")
    case None
    then show ?thesis using a by (simp add: lock_agrees_def LockBuffer_def RLockBuffer_def)
  next
    case (Some v)
    then show ?thesis using a
      by (cases "lock_tp v")
         (auto simp: lock_agrees_def UnLockBuffer_def RUnLockBuffer_def LockBuffer_def RLockBuffer_def Let_def)
  qed
qed

definition demo_locks :: LockSys where
  "demo_locks = \<lparr> ls_fb = \<lparr> fb_fe = some_entry, BufferMap = [], LockMap = [], fb_pw = NewPrefetchWindow \<rparr>,
     ls_writers = (\<lambda>_. 0), ls_readers = (\<lambda>_. 0) \<rparr>"

theorem block_locks_exclude_witness:
  "\<exists>t. lock_step\<^sup>*\<^sup>* demo_locks t \<and> ls_writers t 3 = 1 \<and> ls_readers t 3 = 0 \<and> returns (UnLockBuffer 3 (ls_fb t))"
proof -
  have i: "lock_init demo_locks" by (simp add: lock_init_def demo_locks_def)
  obtain fb where "LockBuffer 3 (ls_fb demo_locks) = Ret fb" by (simp add: LockBuffer_def demo_locks_def)
  from lock_step.lock [OF this] obtain t where t: "lock_step demo_locks t" "ls_writers t 3 = 1"
    by (fastforce simp: demo_locks_def)
  then have "lock_step\<^sup>*\<^sup>* demo_locks t" by blast
  from block_locks_exclude [OF i this, of 3] this t show ?thesis by auto
qed

end
