(* ===== verification/Cfa_Slice.thy ===== *)
theory Cfa_Slice
  imports Cfa_Buffers
begin

text \<open>
  How a request is cut at block boundaries: \<^verbatim>\<open>Slice\<close> of \<^verbatim>\<open>lib/libfs/wcache.go\<close> and of
  \<^verbatim>\<open>lib/libfs/rcache.go\<close>. Both caches rely on the same contract, the locale \<open>slicer\<close>: the pieces
  put together are the request, each piece lies in one block, and they follow each other without
  gap; it is interpreted for both functions.
\<close>

section \<open>The two slicing loops\<close>

text \<open>
  One call per round of the loop: \<open>bstart\<close>, \<open>bend\<close> are \<^verbatim>\<open>blockIndexStart\<close> and \<^verbatim>\<open>blockIndexEnd\<close>. The
  operations are collected in the order of the \<^verbatim>\<open>append\<close> calls.
\<close>

function WSlice_loop ::
  "FileEntry \<Rightarrow> byte list \<Rightarrow> u64 \<Rightarrow> u64 \<Rightarrow> u32 \<Rightarrow> u32 \<Rightarrow> u32 \<Rightarrow> RWBlockOp list go" where
  "WSlice_loop fe buffer bend bstart rwOffset leftRwSize rwBufOffset =
     (if bstart < bend then
        (let blockSize = fe_BlockSize fe;
             opOffset = rwOffset mod blockSize;
             RWSize0 = blockSize - opOffset;
             RWSize = (if RWSize0 > leftRwSize then leftRwSize else RWSize0)
         in bindG (slice (unat rwBufOffset) (unat (rwBufOffset + RWSize)) buffer) (\<lambda>rwBuf.
            bindG (WSlice_loop fe buffer bend (bstart + 1) (rwOffset + RWSize) (leftRwSize - RWSize)
                     (rwBufOffset + RWSize)) (\<lambda>ops.
            Ret (\<lparr> op_fe = fe, op_Index = bstart, op_RwOffset = opOffset, op_RwSize = RWSize,
                   op_rwBuf = rwBuf \<rparr> # ops))))
      else Ret [])"
  by pat_completeness auto
termination
  by (relation "measure (\<lambda>(fe, buffer, bend, bstart, _). unat bend - unat bstart)")
     (auto simp: unat_inc word_less_nat_alt)

declare WSlice_loop.simps [simp del]

definition WSlice :: "FileEntry \<Rightarrow> byte list \<Rightarrow> u64 \<Rightarrow> RWBlockOp list go" where
  "WSlice fe buffer offset =
     (let blockSize = fe_BlockSize fe;
          bsize = of_nat (length buffer) :: u32
      in if blockSize = 0 then Panic
         else WSlice_loop fe buffer
                ((offset + ucast bsize + ucast blockSize - 1) div ucast blockSize)
                (offset div ucast blockSize)
                (ucast (offset mod ucast blockSize)) bsize 0)"

text \<open>The read cache's copy asserts after every round that the start has not passed the end.\<close>

function RSlice_loop ::
  "FileEntry \<Rightarrow> byte list \<Rightarrow> u64 \<Rightarrow> u64 \<Rightarrow> u32 \<Rightarrow> u32 \<Rightarrow> u32 \<Rightarrow> RWBlockOp list go" where
  "RSlice_loop fe buffer bend bstart RWOffset leftRwSize rwBufOffset =
     (if bstart < bend then
        (let BlockSize = fe_BlockSize fe;
             opOffset = RWOffset mod BlockSize;
             RWSize0 = BlockSize - opOffset;
             RWSize = (if RWSize0 > leftRwSize then leftRwSize else RWSize0)
         in bindG (slice (unat rwBufOffset) (unat (rwBufOffset + RWSize)) buffer) (\<lambda>rwBuf.
            bindG (Assert (bstart + 1 \<le> bend)) (\<lambda>_.
            bindG (RSlice_loop fe buffer bend (bstart + 1) (RWOffset + RWSize) (leftRwSize - RWSize)
                     (rwBufOffset + RWSize)) (\<lambda>ops.
            Ret (\<lparr> op_fe = fe, op_Index = bstart, op_RwOffset = opOffset, op_RwSize = RWSize,
                   op_rwBuf = rwBuf \<rparr> # ops)))))
      else Ret [])"
  by pat_completeness auto
termination
  by (relation "measure (\<lambda>(fe, buffer, bend, bstart, _). unat bend - unat bstart)")
     (auto simp: unat_inc word_less_nat_alt)

declare RSlice_loop.simps [simp del]

definition RSlice :: "FileEntry \<Rightarrow> byte list \<Rightarrow> u64 \<Rightarrow> RWBlockOp list go" where
  "RSlice fe buffer offset =
     (let BlockSize = fe_BlockSize fe;
          Size = of_nat (length buffer) :: u32
      in if BlockSize = 0 then Panic
         else RSlice_loop fe buffer
                ((offset + ucast Size + ucast BlockSize - 1) div ucast BlockSize)
                (offset div ucast BlockSize)
                (ucast (offset mod ucast BlockSize)) Size 0)"

section \<open>What a slicing is\<close>

text \<open>
  \<open>ops_at fe off ops\<close>: the operations cover consecutive bytes of the file from \<open>off\<close> on, each inside
  one block of \<open>fe\<close>, and only the last one may end before its block does.
\<close>

fun ops_at :: "FileEntry \<Rightarrow> nat \<Rightarrow> RWBlockOp list \<Rightarrow> bool" where
  "ops_at fe off [] = True"
| "ops_at fe off (bop # ops) =
     (op_fe bop = fe \<and>
      unat (op_Index bop) * unat (fe_BlockSize fe) + unat (op_RwOffset bop) = off \<and>
      unat (op_RwOffset bop) < unat (fe_BlockSize fe) \<and>
      unat (op_RwSize bop) = length (op_rwBuf bop) \<and>
      unat (op_RwOffset bop) + length (op_rwBuf bop) \<le> unat (fe_BlockSize fe) \<and>
      (ops \<noteq> [] \<longrightarrow> unat (op_RwOffset bop) + length (op_rwBuf bop) = unat (fe_BlockSize fe)) \<and>
      ops_at fe (off + length (op_rwBuf bop)) ops)"

text \<open>
  The requests the caches can cut without wrap-around: a block size, a length that fits 32 bits with
  a block to spare (the library refuses more than 512 MiB) and an end below \<open>2 ^ 64\<close>.
\<close>

definition request_ok :: "FileEntry \<Rightarrow> nat \<Rightarrow> u64 \<Rightarrow> bool" where
  "request_ok fe n offset \<longleftrightarrow>
     fe_BlockSize fe \<noteq> 0 \<and> n + unat (fe_BlockSize fe) \<le> 2 ^ 32 \<and>
     unat offset + n + unat (fe_BlockSize fe) < 2 ^ 64"

section \<open>The loops compute a slicing\<close>

lemma ceil_div_gt: "0 < (B :: nat) \<Longrightarrow> S < (T + B - 1) div B \<longleftrightarrow> S * B < T"
proof -
  assume B: "0 < B"
  have "S < (T + B - 1) div B \<longleftrightarrow> Suc S * B \<le> T + B - 1"
    using B by (simp add: Suc_le_eq [symmetric] less_eq_div_iff_mult_less_eq)
  also have "\<dots> \<longleftrightarrow> S * B < T" using B by auto
  finally show ?thesis .
qed

lemma mod_complement: "0 < (B :: nat) \<Longrightarrow> (r + (B - r mod B)) mod B = 0"
proof -
  assume "0 < B"
  then have "r + (B - r mod B) = (r - r mod B) + B"
    using mod_less_divisor [of B r] mod_less_eq_dividend [of r B] by linarith
  moreover have "B dvd r - r mod B" by (rule dvd_minus_mod)
  ultimately have "B dvd r + (B - r mod B)" by (simp only: dvd_add dvd_refl)
  then show ?thesis by (rule dvd_imp_mod_0)
qed

text \<open>One round, as arithmetic: \<open>n\<close> bytes of the block are taken.\<close>

lemma slice_round:
  fixes B T cur L S r n :: nat
  assumes B: "0 < B" and T: "T = cur + L" and cur: "cur = S * B + r mod B"
    and n: "n = min L (B - r mod B)"
  shows "r mod B + n \<le> B"
    and "Suc S * B < T \<Longrightarrow> r mod B + n = B \<and> cur + n = Suc S * B + (r + n) mod B"
    and "\<not> Suc S * B < T \<Longrightarrow> L - n = 0"
proof -
  have lt: "r mod B < B" using B by simp
  then show "r mod B + n \<le> B" using n by auto
  show "L - n = 0" if "\<not> Suc S * B < T" using that T cur n lt by auto
  show "r mod B + n = B \<and> cur + n = Suc S * B + (r + n) mod B" if "Suc S * B < T"
  proof -
    have n': "n = B - r mod B" using that T cur n lt by auto
    then have "(r + n) mod B = 0" using mod_complement [OF B, of r] by simp
    then show ?thesis using n' cur lt by simp
  qed
qed

lemma WSlice_loop_spec:
  assumes "fe_BlockSize fe \<noteq> 0"
    and "unat bend = (cur + unat leftRwSize + unat (fe_BlockSize fe) - 1) div unat (fe_BlockSize fe)"
    and "bstart < bend \<Longrightarrow> cur = unat bstart * unat (fe_BlockSize fe) + unat rwOffset mod unat (fe_BlockSize fe)"
    and "\<not> bstart < bend \<Longrightarrow> leftRwSize = 0"
    and "unat rwBufOffset + unat leftRwSize = length buffer"
    and "unat rwOffset + unat leftRwSize < 2 ^ 32" and "length buffer < 2 ^ 32"
  shows "\<exists>ops. WSlice_loop fe buffer bend bstart rwOffset leftRwSize rwBufOffset = Ret ops \<and>
     concat (map op_rwBuf ops) = drop (unat rwBufOffset) buffer \<and> ops_at fe cur ops \<and>
     (ops \<noteq> [] \<longrightarrow> bstart < bend)"
  using assms
proof (induction fe buffer bend bstart rwOffset leftRwSize rwBufOffset arbitrary: cur
    rule: WSlice_loop.induct)
  case (1 fe buffer bend bstart rwOffset leftRwSize rwBufOffset)
  show ?case
  proof (cases "bstart < bend")
    case False
    then show ?thesis using "1.prems" by (subst WSlice_loop.simps) simp
  next
    case True
    define B where "B = unat (fe_BlockSize fe)"
    define n where "n = min (unat leftRwSize) (B - unat rwOffset mod B)"
    define w where "w = (if fe_BlockSize fe - rwOffset mod fe_BlockSize fe > leftRwSize then leftRwSize
       else fe_BlockSize fe - rwOffset mod fe_BlockSize fe)"
    have B: "0 < B" using "1.prems"(1) by (simp add: B_def unat_gt_0)
    have o: "unat (rwOffset mod fe_BlockSize fe) = unat rwOffset mod B" by (simp add: B_def unat_mod)
    then have "unat (fe_BlockSize fe - rwOffset mod fe_BlockSize fe) = B - unat rwOffset mod B"
      using B by (subst unat_minus) (auto simp: B_def intro: less_imp_le)
    then have w: "unat w = n" by (auto simp: w_def n_def word_less_nat_alt)
    have n: "n \<le> unat leftRwSize" by (simp add: n_def)
    note rnd = slice_round [OF B refl "1.prems"(3) [OF True, folded B_def] n_def]
    have bb: "unat (rwBufOffset + w) = unat rwBufOffset + n"
      using "1.prems"(5,7) n w by (subst unat_plus) auto
    have oo: "unat (rwOffset + w) = unat rwOffset + n" using "1.prems"(6) n w by (subst unat_plus) auto
    have ll: "unat (leftRwSize - w) = unat leftRwSize - n" using n w by (subst unat_minus) auto
    have nxt: "bstart + 1 < bend \<longleftrightarrow> Suc (unat bstart) * B < cur + unat leftRwSize"
      using ceil_div_gt [OF B] "1.prems"(2) unat_inc [OF True] by (simp add: word_less_nat_alt B_def)
    have "\<exists>ops. WSlice_loop fe buffer bend (bstart + 1) (rwOffset + w) (leftRwSize - w) (rwBufOffset + w) = Ret ops \<and>
       concat (map op_rwBuf ops) = drop (unat (rwBufOffset + w)) buffer \<and> ops_at fe (cur + n) ops \<and>
       (ops \<noteq> [] \<longrightarrow> bstart + 1 < bend)"
    proof (rule "1.IH" [OF True refl refl refl w_def _ "1.prems"(1)])
      show "slice (unat rwBufOffset) (unat (rwBufOffset + w)) buffer
          = Ret (take n (drop (unat rwBufOffset) buffer))"
        using bb n "1.prems"(5) by simp
      show "\<not> bstart + 1 < bend \<Longrightarrow> leftRwSize - w = 0" using rnd(3) nxt ll by (simp add: unat_eq_zero)
      show "bstart + 1 < bend \<Longrightarrow> cur + n = unat (bstart + 1) * unat (fe_BlockSize fe) + unat (rwOffset + w) mod unat (fe_BlockSize fe)"
        using rnd(2) nxt oo unat_inc [OF True] by (simp add: B_def)
    qed (use "1.prems" n bb oo ll in auto)
    then obtain ops where ops: "WSlice_loop fe buffer bend (bstart + 1) (rwOffset + w) (leftRwSize - w) (rwBufOffset + w) = Ret ops"
      "concat (map op_rwBuf ops) = drop (unat (rwBufOffset + w)) buffer" "ops_at fe (cur + n) ops"
      "ops \<noteq> [] \<longrightarrow> bstart + 1 < bend" by blast
    have len: "length (take n (drop (unat rwBufOffset) buffer)) = n" using "1.prems"(5) n by simp
    have full: "ops \<noteq> [] \<longrightarrow> unat rwOffset mod B + n = B" using ops(4) nxt rnd(2) by blast
    show ?thesis
      using True ops bb n w len full rnd(1) o "1.prems"(1,3,5) B
      by (subst WSlice_loop.simps)
         (simp add: w_def [symmetric] Let_def B_def [symmetric] take_add [symmetric] drop_drop append_take_drop_id
           flip: drop_drop, metis append_take_drop_id drop_drop add.commute)
  qed
qed

lemma unat_blockIndexEnd:
  assumes "request_ok fe (length buffer) offset"
  shows "unat ((offset + ucast (of_nat (length buffer) :: u32) + ucast (fe_BlockSize fe) - 1) div ucast (fe_BlockSize fe)) =
     (unat offset + length buffer + unat (fe_BlockSize fe) - 1) div unat (fe_BlockSize fe)"
    and "unat (of_nat (length buffer) :: u32) = length buffer"
proof -
  let ?B = "unat (fe_BlockSize fe)" and ?n = "of_nat (length buffer) :: u32"
  from assms have nz: "fe_BlockSize fe \<noteq> 0" and l32: "length buffer + ?B \<le> 2 ^ 32"
    and l64: "unat offset + length buffer + ?B < 2 ^ 64" by (auto simp: request_ok_def)
  have B: "0 < ?B" using nz by (simp add: unat_gt_0)
  show n: "unat ?n = length buffer" using l32 B by (intro unat_of_nat_u32) linarith
  have a: "unat (offset + ucast ?n) = unat offset + length buffer"
    using l64 B n by (subst unat_plus) auto
  have "unat (offset + ucast ?n + (ucast (fe_BlockSize fe) - 1)) = unat offset + length buffer + (?B - 1)"
    using l64 B a by (subst unat_plus) (auto simp: unat_minus)
  then have "unat (offset + ucast ?n + ucast (fe_BlockSize fe) - 1) = unat offset + length buffer + ?B - 1"
    using B by (simp add: algebra_simps)
  then show "unat ((offset + ucast ?n + ucast (fe_BlockSize fe) - 1) div ucast (fe_BlockSize fe)) =
     (unat offset + length buffer + ?B - 1) div ?B" by (simp add: unat_div)
qed

lemma WSlice_loop_index:
  "WSlice_loop fe buffer bend bstart rwOffset leftRwSize rwBufOffset = Ret ops \<Longrightarrow> bop \<in> set ops \<Longrightarrow> op_Index bop < bend"
proof (induction fe buffer bend bstart rwOffset leftRwSize rwBufOffset arbitrary: ops rule: WSlice_loop.induct)
  case (1 fe buffer bend bstart rwOffset leftRwSize rwBufOffset)
  then show ?case
    by (subst (asm) (2) WSlice_loop.simps) (auto simp: Let_def go_simps split: if_splits)
qed

text \<open>An empty piece can only stand at the end, at the start of a block.\<close>

lemma ops_at_empty:
  "ops_at fe off ops \<Longrightarrow> bop \<in> set ops \<Longrightarrow> op_rwBuf bop = [] \<Longrightarrow>
   off mod unat (fe_BlockSize fe) = 0 \<or> concat (map op_rwBuf ops) \<noteq> [] \<Longrightarrow>
   unat (op_Index bop) * unat (fe_BlockSize fe) = off + length (concat (map op_rwBuf ops))"
proof (induction fe off ops rule: ops_at.induct)
  case (2 fe off x ops)
  let ?B = "unat (fe_BlockSize fe)"
  show ?case
  proof (cases "bop = x")
    case True
    have *: "unat (op_RwOffset x) < ?B" "off = unat (op_Index x) * ?B + unat (op_RwOffset x)" using 2 by auto
    have "ops = []" using 2 True * by (cases "ops = []") auto
    with 2 True have "off mod ?B = 0" by simp
    with * have "unat (op_RwOffset x) = 0" by simp
    then show ?thesis using * True \<open>ops = []\<close> 2 by simp
  next
    case False
    then have "off + length (op_rwBuf x) = Suc (unat (op_Index x)) * ?B" using 2 by auto
    then have "(off + length (op_rwBuf x)) mod ?B = 0" by (metis mod_mult_self2_is_0)
    then show ?thesis using 2 False by (auto simp: add.assoc)
  qed
qed simp

lemma WSlice_ok:
  assumes "request_ok fe (length buffer) offset"
  shows "\<exists>ops. WSlice fe buffer offset = Ret ops \<and> concat (map op_rwBuf ops) = buffer \<and>
     ops_at fe (unat offset) ops \<and> (buffer \<noteq> [] \<longrightarrow> (\<forall>bop \<in> set ops. op_rwBuf bop \<noteq> []))"
proof -
  let ?B = "unat (fe_BlockSize fe)" and ?n = "of_nat (length buffer) :: u32"
  let ?e = "(offset + ucast ?n + ucast (fe_BlockSize fe) - 1) div ucast (fe_BlockSize fe)"
  let ?s = "offset div ucast (fe_BlockSize fe)" and ?o = "ucast (offset mod ucast (fe_BlockSize fe)) :: u32"
  from assms have nz: "fe_BlockSize fe \<noteq> 0" and l32: "length buffer + ?B \<le> 2 ^ 32"
    by (auto simp: request_ok_def)
  have B: "0 < ?B" using nz by (simp add: unat_gt_0)
  note n = unat_blockIndexEnd(2) [OF assms]
  have e: "unat ?e = (unat offset + unat ?n + ?B - 1) div ?B" using unat_blockIndexEnd(1) [OF assms] n by simp
  have om: "unat (offset mod ucast (fe_BlockSize fe)) = unat offset mod ?B" by (simp add: unat_mod)
  have "unat offset mod ?B < ?B" using B by simp
  then have o: "unat ?o = unat offset mod ?B"
    using om l32 unat_u32_bound [of "fe_BlockSize fe"] by (subst unat_u32_of_u64) auto
  have "\<exists>ops. WSlice_loop fe buffer ?e ?s ?o ?n 0 = Ret ops \<and>
     concat (map op_rwBuf ops) = drop (unat (0 :: u32)) buffer \<and> ops_at fe (unat offset) ops \<and>
     (ops \<noteq> [] \<longrightarrow> ?s < ?e)"
  proof (rule WSlice_loop_spec [OF nz e])
    show "unat offset = unat ?s * ?B + unat ?o mod ?B" using o by (simp add: unat_div)
    show "?n = 0" if "\<not> ?s < ?e"
    proof -
      have "\<not> unat ?s < (unat offset + unat ?n + ?B - 1) div ?B"
        using that e by (simp add: word_less_nat_alt)
      then have "unat offset + length buffer \<le> unat offset div ?B * ?B"
        using ceil_div_gt [OF B, of "unat ?s" "unat offset + unat ?n"] n by (simp add: unat_div)
      moreover have "unat offset div ?B * ?B \<le> unat offset" by (rule div_times_less_eq_dividend)
      ultimately have "length buffer = 0" by linarith
      then show ?thesis by simp
    qed
    show "unat ?o + unat ?n < 2 ^ 32" using o n l32 \<open>unat offset mod ?B < ?B\<close> by simp
    show "length buffer < 2 ^ 32" using l32 B by linarith
  qed (use n in auto)
  then obtain ops where ops: "WSlice_loop fe buffer ?e ?s ?o ?n 0 = Ret ops" "concat (map op_rwBuf ops) = buffer"
      "ops_at fe (unat offset) ops" by auto
  have "op_rwBuf bop \<noteq> []" if "buffer \<noteq> []" "bop \<in> set ops" for bop
  proof
    assume "op_rwBuf bop = []"
    then have "unat (op_Index bop) * ?B = unat offset + length buffer"
      using ops_at_empty [OF ops(3) that(2)] ops(2) that(1) by simp
    moreover have "unat (op_Index bop) < (unat offset + length buffer + ?B - 1) div ?B"
      using WSlice_loop_index [OF ops(1) that(2)] e n by (simp add: word_less_nat_alt)
    ultimately show False using ceil_div_gt [OF B] by simp
  qed
  then show ?thesis using nz ops by (auto simp: WSlice_def Let_def)
qed

text \<open>The assertion of the read cache's copy never fails, so both copies compute the same.\<close>

lemma RSlice_loop_eq:
  "RSlice_loop fe buffer bend bstart rwOffset leftRwSize rwBufOffset
   = WSlice_loop fe buffer bend bstart rwOffset leftRwSize rwBufOffset"
proof (induction "unat bend - unat bstart" arbitrary: bstart rwOffset leftRwSize rwBufOffset rule: less_induct)
  case less
  show ?case
  proof (cases "bstart < bend")
    case True
    have le: "bstart + 1 \<le> bend" using unat_inc [OF True] True by (simp add: word_less_nat_alt word_le_nat_alt)
    have "unat bend - unat (bstart + 1) < unat bend - unat bstart"
      using unat_inc [OF True] True by (simp add: word_less_nat_alt)
    from less [OF this] le True show ?thesis
      by (subst RSlice_loop.simps, subst WSlice_loop.simps) (simp add: Let_def)
  next
    case False
    then show ?thesis by (subst RSlice_loop.simps, subst WSlice_loop.simps) simp
  qed
qed

lemma RSlice_eq: "RSlice fe buffer offset = WSlice fe buffer offset"
  by (simp add: RSlice_def WSlice_def RSlice_loop_eq Let_def)

section \<open>The contract of a slicing function\<close>

lemma ops_at_bounds:
  "ops_at fe off ops \<Longrightarrow> bop \<in> set ops \<Longrightarrow>
   off \<le> unat (op_Index bop) * unat (fe_BlockSize fe) + unat (op_RwOffset bop) \<and>
   unat (op_Index bop) * unat (fe_BlockSize fe) + unat (op_RwOffset bop) + length (op_rwBuf bop)
     \<le> off + length (concat (map op_rwBuf ops))"
  by (induction fe off ops rule: ops_at.induct) fastforce+

lemma ops_at_sizes: "ops_at fe off ops \<Longrightarrow>
    sum_list (map (\<lambda>bop. unat (op_RwSize bop)) ops) = length (concat (map op_rwBuf ops))"
  by (induction fe off ops rule: ops_at.induct) auto

lemma ops_at_block:
  "ops_at fe off ops \<Longrightarrow> bop \<in> set ops \<Longrightarrow>
   op_fe bop = fe \<and> unat (op_RwOffset bop) < unat (fe_BlockSize fe) \<and>
   unat (op_RwSize bop) = length (op_rwBuf bop) \<and>
   unat (op_RwOffset bop) + length (op_rwBuf bop) \<le> unat (fe_BlockSize fe)"
  by (induction fe off ops rule: ops_at.induct) auto

locale slicer =
  fixes cut :: "FileEntry \<Rightarrow> byte list \<Rightarrow> u64 \<Rightarrow> RWBlockOp list go"
  assumes cut_ok: "request_ok fe (length buffer) offset \<Longrightarrow>
     \<exists>ops. cut fe buffer offset = Ret ops \<and> concat (map op_rwBuf ops) = buffer \<and> ops_at fe (unat offset) ops \<and>
       (buffer \<noteq> [] \<longrightarrow> (\<forall>bop \<in> set ops. op_rwBuf bop \<noteq> []))"
begin

lemma cutD:
  assumes "request_ok fe (length buffer) offset" and "cut fe buffer offset = Ret ops"
  shows "concat (map op_rwBuf ops) = buffer" "ops_at fe (unat offset) ops"
    "buffer \<noteq> [] \<Longrightarrow> bop \<in> set ops \<Longrightarrow> op_rwBuf bop \<noteq> []"
  using cut_ok [OF assms(1)] assms(2) by auto

text \<open>The offset at which a piece goes to the server is the position of the piece in the file.\<close>

lemma cut_file_offset:
  assumes ok: "request_ok fe (length buffer) offset" and "cut fe buffer offset = Ret ops" and "bop \<in> set ops"
  shows "unat (Op_GetFileOffset bop) = unat (op_Index bop) * unat (fe_BlockSize fe) + unat (op_RwOffset bop)"
    and "unat offset \<le> unat (Op_GetFileOffset bop)"
    and "unat (Op_GetFileOffset bop) + length (op_rwBuf bop) \<le> unat offset + length buffer"
proof -
  note c = cutD [OF ok assms(2)]
  let ?p = "unat (op_Index bop) * unat (fe_BlockSize fe) + unat (op_RwOffset bop)"
  have bd: "unat offset \<le> ?p" "?p + length (op_rwBuf bop) \<le> unat offset + length buffer"
    using ops_at_bounds [OF c(2) assms(3)] c(1) by auto
  have "0 < unat (fe_BlockSize fe)" "unat offset + length buffer + unat (fe_BlockSize fe) \<le> 2 ^ 64"
    using ok by (auto simp: request_ok_def unat_gt_0)
  then have lt: "?p < 2 ^ 64" using bd(2) by linarith
  have "op_fe bop = fe" using ops_at_block [OF c(2) assms(3)] by simp
  then show eq: "unat (Op_GetFileOffset bop) = ?p"
    using lt by (simp add: Op_GetFileOffset_def Op_GetAlignOffset_def unat_plus unat_times)
  show "unat offset \<le> unat (Op_GetFileOffset bop)" using bd eq by simp
  show "unat (Op_GetFileOffset bop) + length (op_rwBuf bop) \<le> unat offset + length buffer" using bd eq by simp
qed

lemma cut_sizes:
  "request_ok fe (length buffer) offset \<Longrightarrow> cut fe buffer offset = Ret ops \<Longrightarrow>
   sum_list (map (\<lambda>bop. unat (op_RwSize bop)) ops) = length buffer"
  using cutD ops_at_sizes by metis

end

interpretation wslice: slicer WSlice
  by unfold_locales (rule WSlice_ok)

interpretation rslice: slicer RSlice
  by unfold_locales (simp add: RSlice_eq WSlice_ok)

section \<open>Properties\<close>

text \<open>
  C31: Cutting a request into block operations. For every request that fits, cutting terminates
  without panic; the pieces put together are the buffer of the request; each piece lies inside one
  block, at the position of the file where its bytes belong; only the last piece may end before its
  block does; no piece of a non-empty request is empty; and the sizes add up to its size.
\<close>

theorem slicing_partitions_request:
  assumes "request_ok fe (length buffer) offset"
  shows "\<exists>ops. WSlice fe buffer offset = Ret ops \<and> concat (map op_rwBuf ops) = buffer \<and>
     ops_at fe (unat offset) ops \<and> sum_list (map (\<lambda>bop. unat (op_RwSize bop)) ops) = length buffer \<and>
     (buffer \<noteq> [] \<longrightarrow> (\<forall>bop \<in> set ops. op_rwBuf bop \<noteq> [])) \<and>
     (\<forall>bop \<in> set ops. unat (Op_GetFileOffset bop) =
        unat (op_Index bop) * unat (fe_BlockSize fe) + unat (op_RwOffset bop))"
proof -
  obtain ops where ops: "WSlice fe buffer offset = Ret ops" "concat (map op_rwBuf ops) = buffer"
      "ops_at fe (unat offset) ops" "buffer \<noteq> [] \<longrightarrow> (\<forall>bop \<in> set ops. op_rwBuf bop \<noteq> [])"
    using wslice.cut_ok [OF assms] by blast
  then show ?thesis using wslice.cut_sizes [OF assms] wslice.cut_file_offset(1) [OF assms] by blast
qed

definition slice_entry :: FileEntry where
  "slice_entry = some_entry\<lparr> fe_BlockSize := 4 \<rparr>"

theorem slicing_partitions_request_witness:
  "\<exists>ops. WSlice slice_entry [1, 2, 3, 4, 5, 6, 7] 6 = Ret ops \<and> concat (map op_rwBuf ops) = [1, 2, 3, 4, 5, 6, 7] \<and>
     ops_at slice_entry 6 ops"
  using slicing_partitions_request [of slice_entry "[1, 2, 3, 4, 5, 6, 7]" 6]
  by (auto simp: request_ok_def slice_entry_def)

text \<open>
  C32: The read cache's copy of the slicing loop, with its extra assertion, computes the same as the
  write cache's: the assertion can never fail, so a read and a write of the same range use the same
  blocks and positions.
\<close>

theorem read_and_write_slice_alike: "RSlice fe buffer offset = WSlice fe buffer offset"
  by (rule RSlice_eq)

end
