(* ===== verification/Cfa_Pool.thy ===== *)
theory Cfa_Pool
  imports Cfa_Slice
begin

text \<open>
  What the read cache and the write cache have in common. The sources hold two copies of these
  functions (\<^verbatim>\<open>lib/libfs/wcache.go\<close>, \<^verbatim>\<open>lib/libfs/rcache.go\<close>) with the same text: the pool of buffers with its
  free list, the LRU list, and the table of file buffers. They are written here once over the
  fields both cache structures share. \<open>pool_inv\<close> says who owns a buffer: it is free, or attached to
  exactly one block of one file whose bytes it holds, and the LRU list agrees with the buffers.
\<close>

section \<open>State\<close>

text \<open>
  \<open>cc_heap\<close> is the store of the buffer objects; a pointer to a buffer is its position there, which is
  its \<^verbatim>\<open>Id\<close>. The free list and the LRU list hold pointers, front first.
\<close>

record CacheCore =
  cc_BufferMax :: int
  cc_FreeList :: "nat list"
  cc_Cache :: "(u64 \<times> FileBuffer) list"
  cc_LruList :: "nat list"
  cc_ExpireTime :: int
  cc_Stop :: bool
  cc_heap :: "Buffer list"

definition pool_store :: "nat \<Rightarrow> Buffer list" where
  "pool_store BufferMax = map (\<lambda>i. NewBuffer (of_nat i)) [0..<BufferMax]"

section \<open>Operations\<close>

definition AllocBuffer ::
  "FileEntry \<Rightarrow> u64 \<Rightarrow> 'a CacheCore_scheme \<Rightarrow> (nat option \<times> 'a CacheCore_scheme) go" where
  "AllocBuffer fe BlkIdx cache =
     (case cc_FreeList cache of
        [] \<Rightarrow> Ret (None, cache)
      | b # rest \<Rightarrow>
          bindG (index_at (cc_heap cache) b) (\<lambda>buf.
          bindG (ReSet fe BlkIdx buf) (\<lambda>buf'.
          Ret (Some b, cache\<lparr> cc_FreeList := rest, cc_heap := (cc_heap cache)[b := buf'] \<rparr>))))"

definition FreeBuffer :: "nat \<Rightarrow> 'a CacheCore_scheme \<Rightarrow> 'a CacheCore_scheme" where
  "FreeBuffer b cache = cache\<lparr> cc_FreeList := cc_FreeList cache @ [b] \<rparr>"

definition DoLru :: "int \<Rightarrow> nat \<Rightarrow> 'a CacheCore_scheme \<Rightarrow> 'a CacheCore_scheme go" where
  "DoLru now b cache =
     bindG (index_at (cc_heap cache) b) (\<lambda>buf.
     if \<not> buf_elm buf
     then Ret (cache\<lparr>
            cc_heap := (cc_heap cache)[b := buf\<lparr> buf_LastUpdateTime := now, buf_elm := True \<rparr>],
            cc_LruList := b # cc_LruList cache \<rparr>)
     else Ret (cache\<lparr>
            cc_heap := (cc_heap cache)[b := buf\<lparr> buf_LastUpdateTime := now \<rparr>],
            cc_LruList := b # remove1 b (cc_LruList cache) \<rparr>))"

definition RemoveLru :: "nat \<Rightarrow> 'a CacheCore_scheme \<Rightarrow> 'a CacheCore_scheme go" where
  "RemoveLru b cache =
     bindG (index_at (cc_heap cache) b) (\<lambda>buf.
     if buf_elm buf
     then Ret (cache\<lparr>
            cc_heap := (cc_heap cache)[b := buf\<lparr> buf_elm := False \<rparr>],
            cc_LruList := remove1 b (cc_LruList cache) \<rparr>)
     else Ret cache)"

text \<open>
  \<^verbatim>\<open>LruExpire\<close> compares the list element with the one the buffer remembers, here whether it remembers
  one. The file entry it returns is that of the buffer, \<^verbatim>\<open>nil\<close> when nothing has expired.
\<close>

definition LruExpire ::
  "int \<Rightarrow> 'a CacheCore_scheme \<Rightarrow> (FileEntry option \<times> u64 \<times> 'a CacheCore_scheme) go" where
  "LruExpire now cache =
     (if cc_LruList cache = [] then Ret (None, 0, cache)
      else let b = last (cc_LruList cache) in
        bindG (index_at (cc_heap cache) b) (\<lambda>buf.
        bindG (Assert (buf_elm buf)) (\<lambda>_.
        if now - buf_LastUpdateTime buf < 1000000 * cc_ExpireTime cache then Ret (None, 0, cache)
        else Ret (buf_fe buf, buf_BlkIdx buf,
               cache\<lparr> cc_LruList := remove1 b (cc_LruList cache),
                      cc_heap := (cc_heap cache)[b := buf\<lparr> buf_elm := False \<rparr>] \<rparr>))))"

text \<open>A pointer to a file buffer is the file id under which the table holds it.\<close>

definition GetFileBuffer ::
  "FileEntry \<Rightarrow> bool \<Rightarrow> 'a CacheCore_scheme \<Rightarrow> u64 option \<times> 'a CacheCore_scheme" where
  "GetFileBuffer fe bAlloc cache =
     (case map_of (cc_Cache cache) (fe_Id fe) of
        Some _ \<Rightarrow> (Some (fe_Id fe), cache)
      | None \<Rightarrow>
          if bAlloc
          then (Some (fe_Id fe),
                cache\<lparr> cc_Cache := AList.update (fe_Id fe) (NewFileBuffer fe) (cc_Cache cache) \<rparr>)
          else (None, cache))"

definition DetachFileBuffer :: "FileEntry \<Rightarrow> 'a CacheCore_scheme \<Rightarrow> 'a CacheCore_scheme" where
  "DetachFileBuffer fe cache = cache\<lparr> cc_Cache := AList.delete (fe_Id fe) (cc_Cache cache) \<rparr>"

text \<open>Calling a method of a file buffer that may change it, and reading one.\<close>

definition on_fb ::
  "u64 \<Rightarrow> (FileBuffer \<Rightarrow> FileBuffer go) \<Rightarrow> 'a CacheCore_scheme \<Rightarrow> 'a CacheCore_scheme go" where
  "on_fb fileBuf f cache =
     (case map_of (cc_Cache cache) fileBuf of
        None \<Rightarrow> Panic
      | Some fb \<Rightarrow> bindG (f fb) (\<lambda>fb'.
          Ret (cache\<lparr> cc_Cache := AList.update fileBuf fb' (cc_Cache cache) \<rparr>)))"

definition the_fb :: "u64 \<Rightarrow> 'a CacheCore_scheme \<Rightarrow> FileBuffer go" where
  "the_fb fileBuf cache =
     (case map_of (cc_Cache cache) fileBuf of None \<Rightarrow> Panic | Some fb \<Rightarrow> Ret fb)"

text \<open>Calling a method of a buffer that changes it.\<close>

definition on_buf ::
  "nat \<Rightarrow> (Buffer \<Rightarrow> Buffer go) \<Rightarrow> 'a CacheCore_scheme \<Rightarrow> 'a CacheCore_scheme go" where
  "on_buf b f cache =
     bindG (index_at (cc_heap cache) b) (\<lambda>buf.
     bindG (f buf) (\<lambda>buf'. Ret (cache\<lparr> cc_heap := (cc_heap cache)[b := buf'] \<rparr>)))"

section \<open>Ownership of buffers\<close>

definition attached :: "'a CacheCore_scheme \<Rightarrow> u64 \<Rightarrow> u64 \<Rightarrow> nat option" where
  "attached cache f i =
     (case map_of (cc_Cache cache) f of None \<Rightarrow> None | Some fb \<Rightarrow> map_of (BufferMap fb) i)"

definition home :: "u32 \<Rightarrow> u64 \<Rightarrow> u64 \<Rightarrow> Buffer \<Rightarrow> bool" where
  "home bs f i buf \<longleftrightarrow>
     buf_wf bs buf \<and> buf_BlkIdx buf = i \<and>
     (\<exists>fe. buf_fe buf = Some fe \<and> fe_Id fe = f \<and> fe_BlockSize fe = bs)"

definition pool_lists :: "'a CacheCore_scheme \<Rightarrow> bool" where
  "pool_lists cache \<longleftrightarrow>
     distinct (cc_FreeList cache) \<and> distinct (cc_LruList cache) \<and>
     set (cc_FreeList cache) \<inter> set (cc_LruList cache) = {} \<and>
     (\<forall>b \<in> set (cc_FreeList cache) \<union> set (cc_LruList cache). b < length (cc_heap cache))"

definition pool_bufs :: "'a CacheCore_scheme \<Rightarrow> bool" where
  "pool_bufs cache \<longleftrightarrow>
     (\<forall>b < length (cc_heap cache).
        (buf_elm (cc_heap cache ! b) \<longleftrightarrow> b \<in> set (cc_LruList cache)) \<and>
        length (buf_dataBuf (cc_heap cache ! b)) < 2 ^ 32)"

definition pool_att :: "u32 \<Rightarrow> 'a CacheCore_scheme \<Rightarrow> bool" where
  "pool_att bs cache \<longleftrightarrow>
     (\<forall>f i b. attached cache f i = Some b \<longrightarrow>
        b < length (cc_heap cache) \<and> b \<notin> set (cc_FreeList cache) \<and> home bs f i (cc_heap cache ! b))"

definition pool_inv :: "u32 \<Rightarrow> 'a CacheCore_scheme \<Rightarrow> bool" where
  "pool_inv bs cache \<longleftrightarrow> pool_lists cache \<and> pool_bufs cache \<and> pool_att bs cache"

lemmas pool_defs = pool_inv_def pool_lists_def pool_bufs_def

text \<open>The byte the cache holds for position \<open>q\<close> of block \<open>i\<close> of file \<open>f\<close>, if it holds one.\<close>

definition cbyte :: "'a CacheCore_scheme \<Rightarrow> u64 \<Rightarrow> u64 \<Rightarrow> nat \<Rightarrow> byte option" where
  "cbyte cache f i q =
     (case attached cache f i of None \<Rightarrow> None | Some b \<Rightarrow> buf_byte (cc_heap cache ! b) q)"

text \<open>The lock of block \<open>i\<close> of file \<open>f\<close>.\<close>

definition locks :: "'a CacheCore_scheme \<Rightarrow> u64 \<Rightarrow> u64 \<Rightarrow> CacheLock option" where
  "locks cache f i =
     (case map_of (cc_Cache cache) f of None \<Rightarrow> None | Some fb \<Rightarrow> map_of (LockMap fb) i)"

section \<open>Lemmas\<close>

lemma attached_cong: "cc_Cache c' = cc_Cache c \<Longrightarrow> attached c' = attached c"
  by (simp add: attached_def fun_eq_iff)

lemma attached_frame [simp]:
  "attached (c\<lparr>cc_FreeList := x\<rparr>) = attached c"
  "attached (c\<lparr>cc_LruList := x\<rparr>) = attached c"
  "attached (c\<lparr>cc_heap := h\<rparr>) = attached c"
  by (rule attached_cong, simp)+

lemma attached_update:
  "attached (c\<lparr>cc_Cache := AList.update f fb (cc_Cache c)\<rparr>) f' i =
     (if f' = f then map_of (BufferMap fb) i else attached c f' i)"
  by (simp add: attached_def update_conv')

lemma locks_cong: "cc_Cache c' = cc_Cache c \<Longrightarrow> locks c' = locks c"
  by (simp add: locks_def fun_eq_iff)

lemma locks_frame [simp]:
  "locks (c\<lparr>cc_FreeList := x\<rparr>) = locks c"
  "locks (c\<lparr>cc_LruList := x\<rparr>) = locks c"
  "locks (c\<lparr>cc_heap := h\<rparr>) = locks c"
  by (rule locks_cong, simp)+

lemma locks_update:
  "locks (c\<lparr>cc_Cache := AList.update f fb (cc_Cache c)\<rparr>) f' i =
     (if f' = f then map_of (LockMap fb) i else locks c f' i)"
  by (simp add: locks_def update_conv')

lemma attachedD:
  assumes "pool_inv bs c" and "attached c f i = Some b"
  shows "b < length (cc_heap c)" "b \<notin> set (cc_FreeList c)" "home bs f i (cc_heap c ! b)"
    "\<exists>fb. map_of (cc_Cache c) f = Some fb \<and> map_of (BufferMap fb) i = Some b"
  using assms by (auto simp: pool_inv_def pool_att_def attached_def split: option.splits)

lemma attached_inj:
  "pool_inv bs c \<Longrightarrow> attached c f i = Some b \<Longrightarrow> attached c f' i' = Some b \<Longrightarrow> f' = f \<and> i' = i"
  using attachedD(3) [of bs c f i b] attachedD(3) [of bs c f' i' b] by (auto simp: home_def)

lemma pool_inv_cong:
  assumes "cc_FreeList c' = cc_FreeList c" "cc_LruList c' = cc_LruList c" "cc_heap c' = cc_heap c"
    and "attached c' = attached c"
  shows "pool_inv bs c' = pool_inv bs c" "cbyte c' = cbyte c"
  using assms by (simp add: pool_defs pool_att_def)
     (simp add: assms cbyte_def fun_eq_iff split: option.split)

lemma cbyte_None: "attached c f i = None \<Longrightarrow> cbyte c f i = (\<lambda>_. None)"
  by (simp add: cbyte_def fun_eq_iff)

lemma cbyte_Some: "attached c f i = Some b \<Longrightarrow> cbyte c f i = buf_byte (cc_heap c ! b)"
  by (simp add: cbyte_def fun_eq_iff)

subsection \<open>Changing one buffer\<close>

lemma buf_elm_same: "buf_elm buf = x \<Longrightarrow> buf\<lparr>buf_elm := x\<rparr> = buf"
  by (cases buf) simp

lemma pool_inv_buf:
  assumes inv: "pool_inv bs c" and b: "b < length (cc_heap c)"
    and elm: "buf_elm buf = buf_elm (cc_heap c ! b)" and len: "length (buf_dataBuf buf) < 2 ^ 32"
    and home: "\<And>f i. attached c f i = Some b \<Longrightarrow> home bs f i buf"
  shows "pool_inv bs (c\<lparr>cc_heap := (cc_heap c)[b := buf]\<rparr>)"
  using assms by (auto simp: pool_defs pool_att_def nth_list_update)

lemma cbyte_upd:
  "b < length (cc_heap c) \<Longrightarrow> cbyte (c\<lparr>cc_heap := (cc_heap c)[b := buf]\<rparr>) f i q =
     (if attached c f i = Some b then buf_byte buf q else cbyte c f i q)"
  by (simp add: cbyte_def nth_list_update split: option.split)

lemma cbyte_buf:
  assumes "pool_inv bs c" and "attached c f i = Some b"
  shows "cbyte (c\<lparr>cc_heap := (cc_heap c)[b := buf]\<rparr>) = (cbyte c)(f := (cbyte c f)(i := buf_byte buf))"
proof (intro ext)
  fix f' i' q
  show "cbyte (c\<lparr>cc_heap := (cc_heap c)[b := buf]\<rparr>) f' i' q =
      ((cbyte c)(f := (cbyte c f)(i := buf_byte buf))) f' i' q"
    using attached_inj [OF assms, of f' i'] assms(2)
    by (cases "attached c f' i' = Some b") (auto simp: cbyte_upd [OF attachedD(1) [OF assms]])
qed

lemma cbyte_buf_same:
  assumes "b < length (cc_heap c)" and "buf_byte buf = buf_byte (cc_heap c ! b)"
  shows "cbyte (c\<lparr>cc_heap := (cc_heap c)[b := buf]\<rparr>) = cbyte c"
  using assms by (simp add: cbyte_upd fun_eq_iff cbyte_Some)

lemma cbyte_buf_unattached:
  assumes "b < length (cc_heap c)" and "\<And>f i. attached c f i \<noteq> Some b"
  shows "cbyte (c\<lparr>cc_heap := (cc_heap c)[b := buf]\<rparr>) = cbyte c"
  using assms by (simp add: cbyte_upd fun_eq_iff)

lemma cbyte_frame [simp]:
  "cbyte (c\<lparr>cc_FreeList := x\<rparr>) = cbyte c"
  "cbyte (c\<lparr>cc_LruList := x\<rparr>) = cbyte c"
  by (simp_all add: cbyte_def fun_eq_iff split: option.split)

lemma home_frame [simp]:
  "home bs f i (buf\<lparr>buf_LastUpdateTime := t\<rparr>) = home bs f i buf"
  "home bs f i (buf\<lparr>buf_elm := x\<rparr>) = home bs f i buf"
  by (auto simp: home_def buf_wf_def buf_tail_def)

lemma buf_byte_frame [simp]:
  "buf_byte (buf\<lparr>buf_LastUpdateTime := t\<rparr>) = buf_byte buf"
  "buf_byte (buf\<lparr>buf_elm := x\<rparr>) = buf_byte buf"
  by (auto simp: buf_byte_def buf_tail_def fun_eq_iff)

subsection \<open>The pool operations\<close>

text \<open>
  \<open>same_view c c'\<close>: the step from \<open>c\<close> to \<open>c'\<close> moved buffers between the lists, but no cached byte and
  no attachment changed, and the file buffers are the same.
\<close>

definition same_view :: "'a CacheCore_scheme \<Rightarrow> 'a CacheCore_scheme \<Rightarrow> bool" where
  "same_view c c' \<longleftrightarrow> cbyte c' = cbyte c \<and> cc_Cache c' = cc_Cache c \<and> length (cc_heap c') = length (cc_heap c)"

lemma same_viewD:
  assumes "same_view c c'"
  shows "cbyte c' = cbyte c" "attached c' = attached c" "locks c' = locks c" "cc_Cache c' = cc_Cache c"
    "length (cc_heap c') = length (cc_heap c)"
  using assms unfolding same_view_def by (blast, blast intro: attached_cong, blast intro: locks_cong, blast, blast)

lemma AllocBuffer_ok:
  assumes inv: "pool_inv bs c" and fe: "fe_BlockSize fe = bs" and free: "cc_FreeList c = b # rest"
  obtains buf where
    "AllocBuffer fe i c = Ret (Some b, c\<lparr>cc_FreeList := rest, cc_heap := (cc_heap c)[b := buf]\<rparr>)"
    and "pool_inv bs (c\<lparr>cc_FreeList := rest, cc_heap := (cc_heap c)[b := buf]\<rparr>)"
    and "same_view c (c\<lparr>cc_FreeList := rest, cc_heap := (cc_heap c)[b := buf]\<rparr>)"
    and "home bs (fe_Id fe) i buf" and "buf_Offset buf = 0" and "buf_Len buf = 0" and "\<not> buf_elm buf"
    and "b < length (cc_heap c)" and "b \<notin> set rest" and "\<And>f j. attached c f j \<noteq> Some b"
proof -
  have b: "b < length (cc_heap c)" "b \<notin> set rest" "\<not> buf_elm (cc_heap c ! b)"
      "length (buf_dataBuf (cc_heap c ! b)) < 2 ^ 32"
    using inv free by (auto simp: pool_defs)
  have un: "attached c f j \<noteq> Some b" for f j using attachedD(2) [OF inv] free by fastforce
  obtain buf where buf: "ReSet fe i (cc_heap c ! b) = Ret buf" "buf_wf bs buf" "buf_fe buf = Some fe"
      "buf_BlkIdx buf = i" "buf_Offset buf = 0" "buf_Len buf = 0" "\<not> buf_elm buf"
    using ReSet_ok [OF b(3,4), of fe i] fe by metis
  let ?c = "c\<lparr>cc_FreeList := rest\<rparr>"
  have "pool_inv bs ?c" using inv free by (auto simp: pool_defs pool_att_def)
  then have "pool_inv bs (?c\<lparr>cc_heap := (cc_heap ?c)[b := buf]\<rparr>)"
    using b buf un by (intro pool_inv_buf) (auto simp: buf_wf_def)
  moreover have "same_view c (?c\<lparr>cc_heap := (cc_heap ?c)[b := buf]\<rparr>)"
    using cbyte_buf_unattached [of b ?c buf] un b(1) by (simp add: same_view_def)
  moreover have "AllocBuffer fe i c = Ret (Some b, ?c\<lparr>cc_heap := (cc_heap ?c)[b := buf]\<rparr>)"
    using free b buf(1) by (simp add: AllocBuffer_def)
  moreover have "home bs (fe_Id fe) i buf" using buf fe by (simp add: home_def)
  ultimately show thesis using that buf b un by simp
qed

lemma AllocBuffer_empty: "cc_FreeList c = [] \<Longrightarrow> AllocBuffer fe i c = Ret (None, c)"
  by (simp add: AllocBuffer_def)

lemma FreeBuffer_ok:
  assumes "pool_inv bs c" and "b < length (cc_heap c)" and "b \<notin> set (cc_FreeList c)"
    and "b \<notin> set (cc_LruList c)" and "\<And>f i. attached c f i \<noteq> Some b"
  shows "pool_inv bs (FreeBuffer b c)" "same_view c (FreeBuffer b c)"
  using assms by (auto simp: FreeBuffer_def pool_defs pool_att_def same_view_def)

lemma DoLru_ok:
  assumes inv: "pool_inv bs c" and b: "b < length (cc_heap c)" and nf: "b \<notin> set (cc_FreeList c)"
  obtains c' where "DoLru now b c = Ret c'" and "pool_inv bs c'" and "same_view c c'"
    and "cc_FreeList c' = cc_FreeList c" and "set (cc_LruList c') = insert b (set (cc_LruList c))"
    and "CacheCore.more c' = CacheCore.more c"
proof -
  have d: "distinct (cc_LruList c)" and e: "buf_elm (cc_heap c ! b) \<longleftrightarrow> b \<in> set (cc_LruList c)"
    using inv b by (auto simp: pool_defs)
  define c' where "c' = c\<lparr>cc_heap := (cc_heap c)[b := (cc_heap c ! b)\<lparr>buf_LastUpdateTime := now, buf_elm := True\<rparr>],
     cc_LruList := b # remove1 b (cc_LruList c)\<rparr>"
  have "DoLru now b c = Ret c'"
    using b e by (cases "buf_elm (cc_heap c ! b)") (simp_all add: DoLru_def c'_def remove1_idem buf_elm_same)
  moreover have "pool_inv bs c'"
    using inv b nf d by (auto simp: c'_def pool_defs pool_att_def nth_list_update)
  moreover have "same_view c c'"
    using cbyte_buf_same [OF b, of "(cc_heap c ! b)\<lparr>buf_LastUpdateTime := now, buf_elm := True\<rparr>"]
    by (simp add: same_view_def c'_def)
  ultimately show thesis using that [of c'] d by (auto simp: c'_def)
qed

lemma RemoveLru_ok:
  assumes inv: "pool_inv bs c" and b: "b < length (cc_heap c)"
  obtains c' where "RemoveLru b c = Ret c'" and "pool_inv bs c'" and "same_view c c'"
    and "cc_FreeList c' = cc_FreeList c" and "set (cc_LruList c') = set (cc_LruList c) - {b}"
    and "CacheCore.more c' = CacheCore.more c" and "\<not> buf_elm (cc_heap c' ! b)"
proof -
  have d: "distinct (cc_LruList c)" and e: "buf_elm (cc_heap c ! b) \<longleftrightarrow> b \<in> set (cc_LruList c)"
    using inv b by (auto simp: pool_defs)
  define c' where "c' = c\<lparr>cc_heap := (cc_heap c)[b := (cc_heap c ! b)\<lparr>buf_elm := False\<rparr>],
     cc_LruList := remove1 b (cc_LruList c)\<rparr>"
  have "RemoveLru b c = Ret c'"
    using b e by (cases "buf_elm (cc_heap c ! b)") (simp_all add: RemoveLru_def c'_def remove1_idem buf_elm_same)
  moreover have "pool_inv bs c'"
    using inv b d by (auto simp: c'_def pool_defs pool_att_def nth_list_update)
  moreover have "same_view c c'"
    using cbyte_buf_same [OF b, of "(cc_heap c ! b)\<lparr>buf_elm := False\<rparr>"]
    by (simp add: same_view_def c'_def)
  ultimately show thesis using that [of c'] d b by (auto simp: c'_def)
qed

lemma LruExpire_ok:
  assumes inv: "pool_inv bs c"
  obtains fe i c' where "LruExpire now c = Ret (fe, i, c')" and "pool_inv bs c'" and "same_view c c'"
    and "cc_FreeList c' = cc_FreeList c" and "set (cc_LruList c') \<subseteq> set (cc_LruList c)"
    and "CacheCore.more c' = CacheCore.more c"
proof (cases "cc_LruList c = []")
  case True
  then show thesis using that [of None 0 c] inv by (simp add: LruExpire_def same_view_def)
next
  case False
  let ?b = "last (cc_LruList c)"
  define c' where "c' = c\<lparr>cc_LruList := remove1 ?b (cc_LruList c),
     cc_heap := (cc_heap c)[?b := (cc_heap c ! ?b)\<lparr>buf_elm := False\<rparr>]\<rparr>"
  have b: "?b < length (cc_heap c)" "buf_elm (cc_heap c ! ?b)" "distinct (cc_LruList c)"
    using inv False by (auto simp: pool_defs)
  have "pool_inv bs c'"
    using inv b by (auto simp: c'_def pool_defs pool_att_def nth_list_update)
  moreover have "same_view c c'"
    using cbyte_buf_same [of ?b "c\<lparr>cc_LruList := remove1 ?b (cc_LruList c)\<rparr>"
        "(cc_heap c ! ?b)\<lparr>buf_elm := False\<rparr>"] b(1)
    by (simp add: same_view_def c'_def)
  moreover have "set (cc_LruList c') \<subseteq> set (cc_LruList c)" using b by (auto simp: c'_def)
  moreover have "LruExpire now c = Ret (if now - buf_LastUpdateTime (cc_heap c ! ?b) < 1000000 * cc_ExpireTime c
      then (None, 0, c) else (buf_fe (cc_heap c ! ?b), buf_BlkIdx (cc_heap c ! ?b), c'))"
    using b False by (simp add: LruExpire_def Let_def c'_def)
  ultimately show thesis
    using that [of None 0 c] that [of "buf_fe (cc_heap c ! ?b)" "buf_BlkIdx (cc_heap c ! ?b)" c'] inv
    by (cases "now - buf_LastUpdateTime (cc_heap c ! ?b) < 1000000 * cc_ExpireTime c")
       (simp_all add: c'_def same_view_def)
qed

subsection \<open>File buffers\<close>

lemma on_fb_Ret:
  "map_of (cc_Cache c) f = Some fb \<Longrightarrow> g fb = Ret fb' \<Longrightarrow>
   on_fb f g c = Ret (c\<lparr>cc_Cache := AList.update f fb' (cc_Cache c)\<rparr>)"
  by (simp add: on_fb_def)

text \<open>A change of a file buffer that keeps its buffers (a lock call) changes no attachment.\<close>

lemma fb_same_bufs:
  assumes "map_of (cc_Cache c) f = Some fb" and "BufferMap fb' = BufferMap fb"
  defines "c' \<equiv> c\<lparr>cc_Cache := AList.update f fb' (cc_Cache c)\<rparr>"
  shows "attached c' = attached c" "cbyte c' = cbyte c" "pool_inv bs c' = pool_inv bs c"
proof -
  show att: "attached c' = attached c"
    using assms(1,2) by (auto simp: c'_def attached_update fun_eq_iff) (simp add: attached_def)
  show "cbyte c' = cbyte c" "pool_inv bs c' = pool_inv bs c"
    using pool_inv_cong [OF _ _ _ att] by (simp_all add: c'_def)
qed

lemma GetFileBuffer_ok:
  assumes "GetFileBuffer fe bAlloc c = (r, c')"
  shows "attached c' = attached c" "cbyte c' = cbyte c" "pool_inv bs c' = pool_inv bs c"
    "cc_heap c' = cc_heap c" "cc_FreeList c' = cc_FreeList c" "cc_LruList c' = cc_LruList c"
    "CacheCore.more c' = CacheCore.more c"
    "bAlloc \<Longrightarrow> r = Some (fe_Id fe)" "r = Some f \<Longrightarrow> f = fe_Id fe \<and> map_of (cc_Cache c') f \<noteq> None"
    "r = None \<Longrightarrow> c' = c \<and> map_of (cc_Cache c) (fe_Id fe) = None"
proof -
  show att: "attached c' = attached c"
    using assms by (auto simp: GetFileBuffer_def attached_update fun_eq_iff NewFileBuffer_def split: option.splits if_splits)
      (simp add: attached_def)
  show fr: "cc_heap c' = cc_heap c" "cc_FreeList c' = cc_FreeList c" "cc_LruList c' = cc_LruList c"
    "CacheCore.more c' = CacheCore.more c"
    using assms by (auto simp: GetFileBuffer_def split: option.splits if_splits)
  show "cbyte c' = cbyte c" "pool_inv bs c' = pool_inv bs c"
    by (rule pool_inv_cong [OF fr(2,3,1) att])+
  show "bAlloc \<Longrightarrow> r = Some (fe_Id fe)" "r = Some f \<Longrightarrow> f = fe_Id fe \<and> map_of (cc_Cache c') f \<noteq> None"
    "r = None \<Longrightarrow> c' = c \<and> map_of (cc_Cache c) (fe_Id fe) = None"
    using assms by (auto simp: GetFileBuffer_def update_conv' split: option.splits if_splits)
qed

text \<open>Attaching a buffer that is on no list, and detaching one.\<close>

lemma attach_ok:
  assumes inv: "pool_inv bs c" and fb: "map_of (cc_Cache c) f = Some fb"
    and new: "attached c f i = None" and b: "b < length (cc_heap c)" "b \<notin> set (cc_FreeList c)"
    and home: "home bs f i (cc_heap c ! b)"
  obtains c' where "on_fb f (AttachBuffer i b) c = Ret c'" and "pool_inv bs c'"
    and "attached c' = (attached c)(f := (attached c f)(i \<mapsto> b))"
    and "cbyte c' = (cbyte c)(f := (cbyte c f)(i := buf_byte (cc_heap c ! b)))"
    and "cc_heap c' = cc_heap c" "cc_FreeList c' = cc_FreeList c" "cc_LruList c' = cc_LruList c"
    and "CacheCore.more c' = CacheCore.more c"
    and "locks c' = locks c" and "\<And>g. map_of (cc_Cache c') g = None \<longleftrightarrow> map_of (cc_Cache c) g = None"
proof -
  let ?fb = "fb\<lparr>BufferMap := AList.update i b (BufferMap fb)\<rparr>"
  define c' where "c' = c\<lparr>cc_Cache := AList.update f ?fb (cc_Cache c)\<rparr>"
  have att: "attached c' = (attached c)(f := (attached c f)(i \<mapsto> b))"
    using fb by (auto simp: c'_def attached_update update_conv' fun_eq_iff) (simp_all add: attached_def)
  have "map_of (BufferMap fb) i = None" using new fb by (simp add: attached_def)
  then have "on_fb f (AttachBuffer i b) c = Ret c'"
    using fb by (simp add: on_fb_def AttachBuffer_def c'_def)
  moreover have "pool_inv bs c'"
    using inv b home att by (auto simp: pool_defs pool_att_def c'_def)
  moreover have "cbyte c' = (cbyte c)(f := (cbyte c f)(i := buf_byte (cc_heap c ! b)))"
    using att by (auto simp: cbyte_def fun_eq_iff c'_def split: option.split)
  moreover have "locks c' = locks c"
    using fb by (auto simp: c'_def locks_update fun_eq_iff) (simp add: locks_def)
  moreover have "map_of (cc_Cache c') g = None \<longleftrightarrow> map_of (cc_Cache c) g = None" for g
    using fb by (simp add: c'_def update_conv')
  ultimately show thesis using that [of c'] att by (simp add: c'_def)
qed

lemma detach_ok:
  assumes inv: "pool_inv bs c" and att: "attached c f i = Some b"
  obtains c' where "on_fb f (\<lambda>fb. Ret (DetachBuffer i fb)) c = Ret c'" and "pool_inv bs c'"
    and "attached c' = (attached c)(f := (attached c f)(i := None))"
    and "cbyte c' = (cbyte c)(f := (cbyte c f)(i := (\<lambda>_. None)))"
    and "cc_heap c' = cc_heap c" "cc_FreeList c' = cc_FreeList c" "cc_LruList c' = cc_LruList c"
    and "CacheCore.more c' = CacheCore.more c"
    and "locks c' = locks c" and "\<And>f' i'. attached c' f' i' \<noteq> Some b"
    and "\<And>g. map_of (cc_Cache c') g = None \<longleftrightarrow> map_of (cc_Cache c) g = None"
proof -
  obtain fb where fb: "map_of (cc_Cache c) f = Some fb" using attachedD(4) [OF inv att] by blast
  define c' where "c' = c\<lparr>cc_Cache := AList.update f (DetachBuffer i fb) (cc_Cache c)\<rparr>"
  have a: "attached c' = (attached c)(f := (attached c f)(i := None))"
    using fb by (auto simp: c'_def attached_update delete_conv' fun_eq_iff DetachBuffer_def) (simp_all add: attached_def)
  have "pool_inv bs c'" using inv a by (auto simp: pool_defs pool_att_def c'_def)
  moreover have "cbyte c' = (cbyte c)(f := (cbyte c f)(i := (\<lambda>_. None)))"
    using a by (auto simp: cbyte_def fun_eq_iff c'_def split: option.split)
  moreover have "attached c' f' i' \<noteq> Some b" for f' i'
    using attached_inj [OF inv att, of f' i'] a by auto
  moreover have "on_fb f (\<lambda>fb. Ret (DetachBuffer i fb)) c = Ret c'"
    using fb by (simp add: on_fb_def c'_def)
  moreover have "locks c' = locks c"
    using fb by (auto simp: c'_def locks_update fun_eq_iff DetachBuffer_def) (simp add: locks_def)
  moreover have "map_of (cc_Cache c') g = None \<longleftrightarrow> map_of (cc_Cache c) g = None" for g
    using fb by (simp add: c'_def update_conv')
  ultimately show thesis using that [of c'] a fb by (simp add: c'_def)
qed

end
