(* ===== verification/Cfa_Proto.thy ===== *)
theory Cfa_Proto
  imports Cfa_Errors
begin

text \<open>
  The protocol with the CubeFS proxy, \<^verbatim>\<open>lib/proto/proxy_proto.go\<close> and \<^verbatim>\<open>lib/proto/consts.go\<close>: the request
  and reply structures, their JSON form under the field tags of the source, and the constants. JSON
  documents are trees; \<^verbatim>\<open>encoding/json\<close> writes a \<^verbatim>\<open>[]byte\<close> as a base64 string, which is the leaf
  \<open>JBytes\<close> here. The round trips say that a request written by the client decodes to itself under
  the tags of the same structure, so nothing of a request is lost on the wire.
\<close>

section \<open>JSON documents\<close>

datatype json =
    JNull
  | JBool bool
  | JNum int
  | JStr string
  | JBytes "byte list"
  | JArr "json list"
  | JObj "(string \<times> json) list"

text \<open>
  Decoding a field: an object member is found by its name up to case, the last one wins; a missing
  member and \<^verbatim>\<open>null\<close> leave the old value; a value of another type, or a number out of range, leaves
  it as well and is an error of the whole decoding, which still goes on with the other fields.
\<close>

definition fold_char :: "char \<Rightarrow> char" where
  "fold_char c = (let n = (of_char c :: nat) in if 65 \<le> n \<and> n \<le> 90 then char_of (n + 32) else c)"

definition same_key :: "string \<Rightarrow> string \<Rightarrow> bool" where
  "same_key k k' \<longleftrightarrow> map fold_char k = map fold_char k'"

definition jmember :: "string \<Rightarrow> (string \<times> json) list \<Rightarrow> json option" where
  "jmember k ms = map_option snd (find (\<lambda>(k', _). same_key k k') (rev ms))"

type_synonym 'a jdec = "json \<Rightarrow> 'a \<Rightarrow> 'a \<times> bool"

definition jfield :: "string \<Rightarrow> 'a jdec \<Rightarrow> (string \<times> json) list \<Rightarrow> 'a \<Rightarrow> 'a \<times> bool" where
  "jfield k d ms old = (case jmember k ms of None \<Rightarrow> (old, True) | Some v \<Rightarrow> d v old)"

fun dec_u64 :: "u64 jdec" where
  "dec_u64 (JNum n) old = (if 0 \<le> n \<and> n < 2 ^ 64 then (word_of_int n, True) else (old, False))"
| "dec_u64 JNull old = (old, True)"
| "dec_u64 _ old = (old, False)"

fun dec_u32 :: "u32 jdec" where
  "dec_u32 (JNum n) old = (if 0 \<le> n \<and> n < 2 ^ 32 then (word_of_int n, True) else (old, False))"
| "dec_u32 JNull old = (old, True)"
| "dec_u32 _ old = (old, False)"

fun dec_u16 :: "u16 jdec" where
  "dec_u16 (JNum n) old = (if 0 \<le> n \<and> n < 2 ^ 16 then (word_of_int n, True) else (old, False))"
| "dec_u16 JNull old = (old, True)"
| "dec_u16 _ old = (old, False)"

fun dec_int :: "int jdec" where
  "dec_int (JNum n) old = (if - (2 ^ 63) \<le> n \<and> n < 2 ^ 63 then (n, True) else (old, False))"
| "dec_int JNull old = (old, True)"
| "dec_int _ old = (old, False)"

fun dec_str :: "string jdec" where
  "dec_str (JStr s) old = (s, True)"
| "dec_str JNull old = (old, True)"
| "dec_str _ old = (old, False)"

fun dec_bytes :: "byte list jdec" where
  "dec_bytes (JBytes bs) old = (bs, True)"
| "dec_bytes JNull old = ([], True)"
| "dec_bytes _ old = (old, False)"

definition dec_list :: "'a jdec \<Rightarrow> 'a \<Rightarrow> 'a list jdec" where
  "dec_list d z j old =
     (case j of
        JArr js \<Rightarrow> (map (\<lambda>v. fst (d v z)) js, list_all (\<lambda>v. snd (d v z)) js)
      | JNull \<Rightarrow> ([], True)
      | _ \<Rightarrow> (old, False))"

text \<open>A structure from an object; \<^verbatim>\<open>null\<close> leaves it, anything else is an error.\<close>

definition dec_struct :: "((string \<times> json) list \<Rightarrow> 'a \<Rightarrow> 'a \<times> bool) \<Rightarrow> 'a jdec" where
  "dec_struct f j old =
     (case j of JObj ms \<Rightarrow> f ms old | JNull \<Rightarrow> (old, True) | _ \<Rightarrow> (old, False))"

abbreviation enc_word :: "'a :: len word \<Rightarrow> json" where
  "enc_word w \<equiv> JNum (uint w)"

section \<open>Constants\<close>

definition SysPerm :: u32 where "SysPerm = 0x1FF"
definition S_IFIFO :: u32 where "S_IFIFO = 0x1000"
definition S_IFDIR :: u32 where "S_IFDIR = 0x4000"
definition S_IFREG :: u32 where "S_IFREG = 0x8000"
definition S_IFLNK :: u32 where "S_IFLNK = 0xA000"
definition S_IFSOCK :: u32 where "S_IFSOCK = 0xC000"
definition S_IFMT :: u32 where "S_IFMT = 0xF000"

definition O_RDONLY :: int where "O_RDONLY = 0"
definition O_WRONLY :: int where "O_WRONLY = 1"
definition O_RDWR :: int where "O_RDWR = 2"
definition O_CREATE :: int where "O_CREATE = 0x40"
definition O_TRUNC :: int where "O_TRUNC = 0x200"

definition UrlMkdir :: string where "UrlMkdir = ''/api/v1/mkdir''"
definition UrlReaddir :: string where "UrlReaddir = ''/api/v1/readdir''"
definition UrlReaddirEx :: string where "UrlReaddirEx = ''/api/v1/readdirex''"
definition UrlRmdir :: string where "UrlRmdir = ''/api/v1/rmdir''"
definition UrlRmdirtree :: string where "UrlRmdirtree = ''/api/v1/rmdirtree''"
definition UrlOpen :: string where "UrlOpen = ''/api/v1/open''"
definition UrlRead :: string where "UrlRead = ''/api/v1/read''"
definition UrlWrite :: string where "UrlWrite = ''/api/v1/write''"
definition UrlFsync :: string where "UrlFsync = ''/api/v1/fsync''"
definition UrlTruncate :: string where "UrlTruncate = ''/api/v1/truncate''"
definition UrlUnlink :: string where "UrlUnlink = ''/api/v1/unlink''"
definition UrlLink :: string where "UrlLink = ''/api/v1/link''"
definition UrlSymLink :: string where "UrlSymLink = ''/api/v1/symbol_link''"
definition UrlSetxattr :: string where "UrlSetxattr = ''/api/v1/setXattr''"
definition UrlGetxattr :: string where "UrlGetxattr = ''/api/v1/getXattr''"
definition UrlRemovexattr :: string where "UrlRemovexattr = ''/api/v1/removeXattr''"
definition UrlListxattr :: string where "UrlListxattr = ''/api/v1/listXattr''"
definition UrlSetattr :: string where "UrlSetattr = ''/api/v1/setattr''"
definition UrlRename :: string where "UrlRename = ''/api/v1/rename''"
definition UrlStat :: string where "UrlStat = ''/api/v1/stat''"
definition UrlStatfs :: string where "UrlStatfs = ''/api/v1/statDir''"

type_synonym DentryType = u8

definition DentryTypeFile :: DentryType where "DentryTypeFile = 1"
definition DentryTypeDir :: DentryType where "DentryTypeDir = 2"
definition DentryTypeLink :: DentryType where "DentryTypeLink = 3"

definition SetAclFlagChangeMode :: u32 where "SetAclFlagChangeMode = push_bit 0 1"
definition SetAclFlagChangeUid :: u32 where "SetAclFlagChangeUid = push_bit 1 1"
definition SetAclFlagChangeGid :: u32 where "SetAclFlagChangeGid = push_bit 2 1"
definition SetAclFlagChangeMTime :: u32 where "SetAclFlagChangeMTime = push_bit 3 1"
definition SetAclFlagChangeATime :: u32 where "SetAclFlagChangeATime = push_bit 4 1"
definition SetAclFlagChangeOwner :: u32 where "SetAclFlagChangeOwner = push_bit 5 1"
definition SetAclFlagChangeGroup :: u32 where "SetAclFlagChangeGroup = push_bit 6 1"

definition MountModeRead :: u32 where "MountModeRead = 1"
definition MountModeWrite :: u32 where "MountModeWrite = 2"
definition MountModeDel :: u32 where "MountModeDel = 4"

definition DefaultBlockSize :: u32 where "DefaultBlockSize = 1 * 1024 * 1024"

definition OpenFlagCreate :: u32 where "OpenFlagCreate = 1"
definition OpenFlagOpen :: u32 where "OpenFlagOpen = 2"

section \<open>Requests\<close>

record ProxyRequest =
  req_Path :: string

definition enc_ProxyRequest :: "ProxyRequest \<Rightarrow> json" where
  "enc_ProxyRequest r = JObj
    [(''path'', JStr (req_Path r))]"

definition dec_ProxyRequest :: "ProxyRequest jdec" where
  "dec_ProxyRequest = dec_struct (\<lambda>ms old.
     let (req_Path1, ok0) = jfield ''path'' dec_str ms (req_Path old)
     in (old\<lparr> req_Path := req_Path1 \<rparr>,
         ok0))"

text \<open>Requests that carry the path only.\<close>

type_synonym ReaddirRequest = ProxyRequest

type_synonym RmdirRequest = ProxyRequest

type_synonym RmdirTreeRequest = ProxyRequest

type_synonym UnlinkRequest = ProxyRequest

type_synonym ListxattrRequest = ProxyRequest

type_synonym StatRequest = ProxyRequest

type_synonym StatfsRequest = ProxyRequest

record MkdirRequest = ProxyRequest +
  mkdir_Mode :: u32

definition enc_MkdirRequest :: "MkdirRequest \<Rightarrow> json" where
  "enc_MkdirRequest r = JObj
    [(''path'', JStr (req_Path r)), (''mode'', enc_word (mkdir_Mode r))]"

definition dec_MkdirRequest :: "MkdirRequest jdec" where
  "dec_MkdirRequest = dec_struct (\<lambda>ms old.
     let (req_Path1, ok0) = jfield ''path'' dec_str ms (req_Path old);
        (mkdir_Mode1, ok1) = jfield ''mode'' dec_u32 ms (mkdir_Mode old)
     in (old\<lparr> req_Path := req_Path1, mkdir_Mode := mkdir_Mode1 \<rparr>,
         ok0 \<and> ok1))"

record ReaddirExRequest = ProxyRequest +
  rdx_StartKey :: string
  rdx_Count :: u16

definition enc_ReaddirExRequest :: "ReaddirExRequest \<Rightarrow> json" where
  "enc_ReaddirExRequest r = JObj
    [(''path'', JStr (req_Path r)), (''from'', JStr (rdx_StartKey r)),
     (''limit'', enc_word (rdx_Count r))]"

definition dec_ReaddirExRequest :: "ReaddirExRequest jdec" where
  "dec_ReaddirExRequest = dec_struct (\<lambda>ms old.
     let (req_Path1, ok0) = jfield ''path'' dec_str ms (req_Path old);
        (rdx_StartKey1, ok1) = jfield ''from'' dec_str ms (rdx_StartKey old);
        (rdx_Count1, ok2) = jfield ''limit'' dec_u16 ms (rdx_Count old)
     in (old\<lparr> req_Path := req_Path1, rdx_StartKey := rdx_StartKey1, rdx_Count := rdx_Count1 \<rparr>,
         ok0 \<and> ok1 \<and> ok2))"

record OpenRequest = ProxyRequest +
  openrq_Openflag :: u32
  openrq_Mode :: u32

definition enc_OpenRequest :: "OpenRequest \<Rightarrow> json" where
  "enc_OpenRequest r = JObj
    [(''path'', JStr (req_Path r)), (''openflag'', enc_word (openrq_Openflag r)),
     (''mode'', enc_word (openrq_Mode r))]"

definition dec_OpenRequest :: "OpenRequest jdec" where
  "dec_OpenRequest = dec_struct (\<lambda>ms old.
     let (req_Path1, ok0) = jfield ''path'' dec_str ms (req_Path old);
        (openrq_Openflag1, ok1) = jfield ''openflag'' dec_u32 ms (openrq_Openflag old);
        (openrq_Mode1, ok2) = jfield ''mode'' dec_u32 ms (openrq_Mode old)
     in (old\<lparr> req_Path := req_Path1, openrq_Openflag := openrq_Openflag1,
            openrq_Mode := openrq_Mode1 \<rparr>,
         ok0 \<and> ok1 \<and> ok2))"

record ReadRequest =
  readrq_Id :: u64
  readrq_Offset :: u64
  readrq_Length :: u64

definition enc_ReadRequest :: "ReadRequest \<Rightarrow> json" where
  "enc_ReadRequest r = JObj
    [(''id'', enc_word (readrq_Id r)), (''off'', enc_word (readrq_Offset r)),
     (''len'', enc_word (readrq_Length r))]"

definition dec_ReadRequest :: "ReadRequest jdec" where
  "dec_ReadRequest = dec_struct (\<lambda>ms old.
     let (readrq_Id1, ok0) = jfield ''id'' dec_u64 ms (readrq_Id old);
        (readrq_Offset1, ok1) = jfield ''off'' dec_u64 ms (readrq_Offset old);
        (readrq_Length1, ok2) = jfield ''len'' dec_u64 ms (readrq_Length old)
     in (old\<lparr> readrq_Id := readrq_Id1, readrq_Offset := readrq_Offset1,
            readrq_Length := readrq_Length1 \<rparr>,
         ok0 \<and> ok1 \<and> ok2))"

record WriteRequest =
  writerq_Id :: u64
  writerq_Offset :: u64
  writerq_Length :: u64
  writerq_Data :: "byte list"

definition enc_WriteRequest :: "WriteRequest \<Rightarrow> json" where
  "enc_WriteRequest r = JObj
    [(''id'', enc_word (writerq_Id r)), (''off'', enc_word (writerq_Offset r)),
     (''len'', enc_word (writerq_Length r)), (''data'', JBytes (writerq_Data r))]"

definition dec_WriteRequest :: "WriteRequest jdec" where
  "dec_WriteRequest = dec_struct (\<lambda>ms old.
     let (writerq_Id1, ok0) = jfield ''id'' dec_u64 ms (writerq_Id old);
        (writerq_Offset1, ok1) = jfield ''off'' dec_u64 ms (writerq_Offset old);
        (writerq_Length1, ok2) = jfield ''len'' dec_u64 ms (writerq_Length old);
        (writerq_Data1, ok3) = jfield ''data'' dec_bytes ms (writerq_Data old)
     in (old\<lparr> writerq_Id := writerq_Id1, writerq_Offset := writerq_Offset1,
            writerq_Length := writerq_Length1, writerq_Data := writerq_Data1 \<rparr>,
         ok0 \<and> ok1 \<and> ok2 \<and> ok3))"

record TruncateRequest = ProxyRequest +
  trunc_Length :: u64

definition enc_TruncateRequest :: "TruncateRequest \<Rightarrow> json" where
  "enc_TruncateRequest r = JObj
    [(''path'', JStr (req_Path r)), (''offset'', enc_word (trunc_Length r))]"

definition dec_TruncateRequest :: "TruncateRequest jdec" where
  "dec_TruncateRequest = dec_struct (\<lambda>ms old.
     let (req_Path1, ok0) = jfield ''path'' dec_str ms (req_Path old);
        (trunc_Length1, ok1) = jfield ''offset'' dec_u64 ms (trunc_Length old)
     in (old\<lparr> req_Path := req_Path1, trunc_Length := trunc_Length1 \<rparr>,
         ok0 \<and> ok1))"

record LinkRequest = ProxyRequest +
  link_Dstpath :: string

definition enc_LinkRequest :: "LinkRequest \<Rightarrow> json" where
  "enc_LinkRequest r = JObj
    [(''path'', JStr (req_Path r)), (''newpath'', JStr (link_Dstpath r))]"

definition dec_LinkRequest :: "LinkRequest jdec" where
  "dec_LinkRequest = dec_struct (\<lambda>ms old.
     let (req_Path1, ok0) = jfield ''path'' dec_str ms (req_Path old);
        (link_Dstpath1, ok1) = jfield ''newpath'' dec_str ms (link_Dstpath old)
     in (old\<lparr> req_Path := req_Path1, link_Dstpath := link_Dstpath1 \<rparr>,
         ok0 \<and> ok1))"

record SymlinkRequest = ProxyRequest +
  symlink_Dstpath :: string

definition enc_SymlinkRequest :: "SymlinkRequest \<Rightarrow> json" where
  "enc_SymlinkRequest r = JObj
    [(''path'', JStr (req_Path r)), (''newpath'', JStr (symlink_Dstpath r))]"

definition dec_SymlinkRequest :: "SymlinkRequest jdec" where
  "dec_SymlinkRequest = dec_struct (\<lambda>ms old.
     let (req_Path1, ok0) = jfield ''path'' dec_str ms (req_Path old);
        (symlink_Dstpath1, ok1) = jfield ''newpath'' dec_str ms (symlink_Dstpath old)
     in (old\<lparr> req_Path := req_Path1, symlink_Dstpath := symlink_Dstpath1 \<rparr>,
         ok0 \<and> ok1))"

record SetxattrRequest = ProxyRequest +
  setx_Flag :: u32
  setx_Name :: string
  setx_Data :: "byte list"

definition enc_SetxattrRequest :: "SetxattrRequest \<Rightarrow> json" where
  "enc_SetxattrRequest r = JObj
    [(''path'', JStr (req_Path r)), (''flag'', enc_word (setx_Flag r)),
     (''name'', JStr (setx_Name r)), (''data'', JBytes (setx_Data r))]"

definition dec_SetxattrRequest :: "SetxattrRequest jdec" where
  "dec_SetxattrRequest = dec_struct (\<lambda>ms old.
     let (req_Path1, ok0) = jfield ''path'' dec_str ms (req_Path old);
        (setx_Flag1, ok1) = jfield ''flag'' dec_u32 ms (setx_Flag old);
        (setx_Name1, ok2) = jfield ''name'' dec_str ms (setx_Name old);
        (setx_Data1, ok3) = jfield ''data'' dec_bytes ms (setx_Data old)
     in (old\<lparr> req_Path := req_Path1, setx_Flag := setx_Flag1, setx_Name := setx_Name1,
            setx_Data := setx_Data1 \<rparr>,
         ok0 \<and> ok1 \<and> ok2 \<and> ok3))"

record GetxattrRequest = ProxyRequest +
  getx_Name :: string

definition enc_GetxattrRequest :: "GetxattrRequest \<Rightarrow> json" where
  "enc_GetxattrRequest r = JObj
    [(''path'', JStr (req_Path r)), (''name'', JStr (getx_Name r))]"

definition dec_GetxattrRequest :: "GetxattrRequest jdec" where
  "dec_GetxattrRequest = dec_struct (\<lambda>ms old.
     let (req_Path1, ok0) = jfield ''path'' dec_str ms (req_Path old);
        (getx_Name1, ok1) = jfield ''name'' dec_str ms (getx_Name old)
     in (old\<lparr> req_Path := req_Path1, getx_Name := getx_Name1 \<rparr>,
         ok0 \<and> ok1))"

record RemovexattrRequest = ProxyRequest +
  rmx_Name :: string

definition enc_RemovexattrRequest :: "RemovexattrRequest \<Rightarrow> json" where
  "enc_RemovexattrRequest r = JObj
    [(''path'', JStr (req_Path r)), (''name'', JStr (rmx_Name r))]"

definition dec_RemovexattrRequest :: "RemovexattrRequest jdec" where
  "dec_RemovexattrRequest = dec_struct (\<lambda>ms old.
     let (req_Path1, ok0) = jfield ''path'' dec_str ms (req_Path old);
        (rmx_Name1, ok1) = jfield ''name'' dec_str ms (rmx_Name old)
     in (old\<lparr> req_Path := req_Path1, rmx_Name := rmx_Name1 \<rparr>,
         ok0 \<and> ok1))"

record SetAttrRequest = ProxyRequest +
  sa_Flag :: u32
  sa_Uid :: u32
  sa_Gid :: u32
  sa_Mtime :: u64
  sa_Atime :: u64
  sa_Mode :: u32
  sa_Owner :: string
  sa_Group :: string

definition enc_SetAttrRequest :: "SetAttrRequest \<Rightarrow> json" where
  "enc_SetAttrRequest r = JObj
    [(''path'', JStr (req_Path r)), (''flag'', enc_word (sa_Flag r)),
     (''uid'', enc_word (sa_Uid r)), (''gid'', enc_word (sa_Gid r)),
     (''mtime'', enc_word (sa_Mtime r)), (''atime'', enc_word (sa_Atime r)),
     (''mode'', enc_word (sa_Mode r)), (''owner'', JStr (sa_Owner r)),
     (''group'', JStr (sa_Group r))]"

definition dec_SetAttrRequest :: "SetAttrRequest jdec" where
  "dec_SetAttrRequest = dec_struct (\<lambda>ms old.
     let (req_Path1, ok0) = jfield ''path'' dec_str ms (req_Path old);
        (sa_Flag1, ok1) = jfield ''flag'' dec_u32 ms (sa_Flag old);
        (sa_Uid1, ok2) = jfield ''uid'' dec_u32 ms (sa_Uid old);
        (sa_Gid1, ok3) = jfield ''gid'' dec_u32 ms (sa_Gid old);
        (sa_Mtime1, ok4) = jfield ''mtime'' dec_u64 ms (sa_Mtime old);
        (sa_Atime1, ok5) = jfield ''atime'' dec_u64 ms (sa_Atime old);
        (sa_Mode1, ok6) = jfield ''mode'' dec_u32 ms (sa_Mode old);
        (sa_Owner1, ok7) = jfield ''owner'' dec_str ms (sa_Owner old);
        (sa_Group1, ok8) = jfield ''group'' dec_str ms (sa_Group old)
     in (old\<lparr> req_Path := req_Path1, sa_Flag := sa_Flag1, sa_Uid := sa_Uid1,
            sa_Gid := sa_Gid1, sa_Mtime := sa_Mtime1, sa_Atime := sa_Atime1,
            sa_Mode := sa_Mode1, sa_Owner := sa_Owner1, sa_Group := sa_Group1 \<rparr>,
         ok0 \<and> ok1 \<and> ok2 \<and> ok3 \<and> ok4 \<and> ok5 \<and> ok6 \<and> ok7 \<and> ok8))"

record RenameRequest = ProxyRequest +
  ren_Dstpath :: string

definition enc_RenameRequest :: "RenameRequest \<Rightarrow> json" where
  "enc_RenameRequest r = JObj
    [(''path'', JStr (req_Path r)), (''destpath'', JStr (ren_Dstpath r))]"

definition dec_RenameRequest :: "RenameRequest jdec" where
  "dec_RenameRequest = dec_struct (\<lambda>ms old.
     let (req_Path1, ok0) = jfield ''path'' dec_str ms (req_Path old);
        (ren_Dstpath1, ok1) = jfield ''destpath'' dec_str ms (ren_Dstpath old)
     in (old\<lparr> req_Path := req_Path1, ren_Dstpath := ren_Dstpath1 \<rparr>,
         ok0 \<and> ok1))"

record FsyncRequest =
  fsync_Id :: u64

definition enc_FsyncRequest :: "FsyncRequest \<Rightarrow> json" where
  "enc_FsyncRequest r = JObj
    [(''id'', enc_word (fsync_Id r))]"

definition dec_FsyncRequest :: "FsyncRequest jdec" where
  "dec_FsyncRequest = dec_struct (\<lambda>ms old.
     let (fsync_Id1, ok0) = jfield ''id'' dec_u64 ms (fsync_Id old)
     in (old\<lparr> fsync_Id := fsync_Id1 \<rparr>,
         ok0))"

section \<open>Replies\<close>

text \<open>
  Every reply embeds a code and a message. Decoding goes into a reply that the caller allocated and
  keeps what the document does not mention.
\<close>

record ProxyResponse =
  resp_Code :: int
  resp_Message :: string

definition dec_ProxyResponse :: "ProxyResponse jdec" where
  "dec_ProxyResponse = dec_struct (\<lambda>ms old.
     let (resp_Code1, ok0) = jfield ''code'' dec_int ms (resp_Code old);
        (resp_Message1, ok1) = jfield ''msg'' dec_str ms (resp_Message old)
     in (old\<lparr> resp_Code := resp_Code1, resp_Message := resp_Message1 \<rparr>,
         ok0 \<and> ok1))"

definition GetError :: "ProxyResponse \<Rightarrow> go_error option" where
  "GetError r =
     (if resp_Code r = SUCCESS then None else Some (WithMessage (Errno (resp_Code r)) (resp_Message r)))"

record InoInfo =
  ino_Inode :: u64
  ino_Mode :: u32
  ino_Nlink :: u32
  ino_Size :: u64
  ino_Uid :: u32
  ino_Gid :: u32
  ino_MTime :: u64
  ino_CTime :: u64
  ino_ATime :: u64
  ino_Target :: string
  ino_Owner :: string
  ino_Group :: string

definition dec_InoInfo :: "InoInfo jdec" where
  "dec_InoInfo = dec_struct (\<lambda>ms old.
     let (ino_Inode1, ok0) = jfield ''ino'' dec_u64 ms (ino_Inode old);
        (ino_Mode1, ok1) = jfield ''mode'' dec_u32 ms (ino_Mode old);
        (ino_Nlink1, ok2) = jfield ''nlink'' dec_u32 ms (ino_Nlink old);
        (ino_Size1, ok3) = jfield ''sz'' dec_u64 ms (ino_Size old);
        (ino_Uid1, ok4) = jfield ''uid'' dec_u32 ms (ino_Uid old);
        (ino_Gid1, ok5) = jfield ''gid'' dec_u32 ms (ino_Gid old);
        (ino_MTime1, ok6) = jfield ''mt'' dec_u64 ms (ino_MTime old);
        (ino_CTime1, ok7) = jfield ''ct'' dec_u64 ms (ino_CTime old);
        (ino_ATime1, ok8) = jfield ''at'' dec_u64 ms (ino_ATime old);
        (ino_Target1, ok9) = jfield ''target'' dec_str ms (ino_Target old);
        (ino_Owner1, ok10) = jfield ''owner'' dec_str ms (ino_Owner old);
        (ino_Group1, ok11) = jfield ''group'' dec_str ms (ino_Group old)
     in (old\<lparr> ino_Inode := ino_Inode1, ino_Mode := ino_Mode1, ino_Nlink := ino_Nlink1,
            ino_Size := ino_Size1, ino_Uid := ino_Uid1, ino_Gid := ino_Gid1,
            ino_MTime := ino_MTime1, ino_CTime := ino_CTime1, ino_ATime := ino_ATime1,
            ino_Target := ino_Target1, ino_Owner := ino_Owner1, ino_Group := ino_Group1 \<rparr>,
         ok0 \<and> ok1 \<and> ok2 \<and> ok3 \<and> ok4 \<and> ok5 \<and> ok6 \<and> ok7 \<and> ok8 \<and> ok9 \<and> ok10 \<and> ok11))"

definition zero_InoInfo :: InoInfo where
  "zero_InoInfo =
     \<lparr> ino_Inode = 0, ino_Mode = 0, ino_Nlink = 0, ino_Size = 0, ino_Uid = 0, ino_Gid = 0,
       ino_MTime = 0, ino_CTime = 0, ino_ATime = 0, ino_Target = [], ino_Owner = [], ino_Group = [] \<rparr>"

text \<open>A pointer field: \<^verbatim>\<open>null\<close> makes it \<^verbatim>\<open>nil\<close>, an object is decoded into a fresh or the present structure.\<close>

definition dec_InoInfo_ptr :: "InoInfo option jdec" where
  "dec_InoInfo_ptr j old =
     (case j of
        JNull \<Rightarrow> (None, True)
      | _ \<Rightarrow>
          (case dec_InoInfo j (case old of None \<Rightarrow> zero_InoInfo | Some i \<Rightarrow> i) of (i, ok) \<Rightarrow>
             (Some i, ok)))"

record Dentry =
  d_Name :: string
  d_Inode :: u64
  d_Type :: u32
  d_Info :: "InoInfo option"

definition dec_Dentry :: "Dentry jdec" where
  "dec_Dentry = dec_struct (\<lambda>ms old.
     let (d_Name1, ok0) = jfield ''name'' dec_str ms (d_Name old);
        (d_Inode1, ok1) = jfield ''ino'' dec_u64 ms (d_Inode old);
        (d_Type1, ok2) = jfield ''type'' dec_u32 ms (d_Type old);
        (d_Info1, ok3) = jfield ''info'' dec_InoInfo_ptr ms (d_Info old)
     in (old\<lparr> d_Name := d_Name1, d_Inode := d_Inode1, d_Type := d_Type1, d_Info := d_Info1 \<rparr>,
         ok0 \<and> ok1 \<and> ok2 \<and> ok3))"

definition zero_Dentry :: Dentry where
  "zero_Dentry = \<lparr> d_Name = [], d_Inode = 0, d_Type = 0, d_Info = None \<rparr>"

record StatfsInfo =
  sf_Files :: u32
  sf_Folders :: u32
  sf_Fbytes :: u64
  sf_Fubytes :: u64
  sf_Rfiles :: u64
  sf_Rfolders :: u64
  sf_Rbytes :: u64
  sf_Rubytes :: u64

definition dec_StatfsInfo :: "StatfsInfo jdec" where
  "dec_StatfsInfo = dec_struct (\<lambda>ms old.
     let (sf_Files1, ok0) = jfield ''files'' dec_u32 ms (sf_Files old);
        (sf_Folders1, ok1) = jfield ''folders'' dec_u32 ms (sf_Folders old);
        (sf_Fbytes1, ok2) = jfield ''fbytes'' dec_u64 ms (sf_Fbytes old);
        (sf_Fubytes1, ok3) = jfield ''fubytes'' dec_u64 ms (sf_Fubytes old);
        (sf_Rfiles1, ok4) = jfield ''rfiles'' dec_u64 ms (sf_Rfiles old);
        (sf_Rfolders1, ok5) = jfield ''rfolders'' dec_u64 ms (sf_Rfolders old);
        (sf_Rbytes1, ok6) = jfield ''rbytes'' dec_u64 ms (sf_Rbytes old);
        (sf_Rubytes1, ok7) = jfield ''rubytes'' dec_u64 ms (sf_Rubytes old)
     in (old\<lparr> sf_Files := sf_Files1, sf_Folders := sf_Folders1, sf_Fbytes := sf_Fbytes1,
            sf_Fubytes := sf_Fubytes1, sf_Rfiles := sf_Rfiles1,
            sf_Rfolders := sf_Rfolders1, sf_Rbytes := sf_Rbytes1,
            sf_Rubytes := sf_Rubytes1 \<rparr>,
         ok0 \<and> ok1 \<and> ok2 \<and> ok3 \<and> ok4 \<and> ok5 \<and> ok6 \<and> ok7))"

definition zero_StatfsInfo :: StatfsInfo where
  "zero_StatfsInfo =
     \<lparr> sf_Files = 0, sf_Folders = 0, sf_Fbytes = 0, sf_Fubytes = 0, sf_Rfiles = 0, sf_Rfolders = 0,
       sf_Rbytes = 0, sf_Rubytes = 0 \<rparr>"

text \<open>Replies with nothing but the code and the message.\<close>

type_synonym MkdirResponse = ProxyResponse

type_synonym RmdirResponse = ProxyResponse

type_synonym RmdirTreeResponse = ProxyResponse

type_synonym WriteResponse = ProxyResponse

type_synonym TruncateResponse = ProxyResponse

type_synonym UnlinkResponse = ProxyResponse

type_synonym LinkResponse = ProxyResponse

type_synonym SymlinkResponse = ProxyResponse

type_synonym SetxattrResponse = ProxyResponse

type_synonym RemovexattrResponse = ProxyResponse

type_synonym SetAttrResponse = ProxyResponse

type_synonym RenameResponse = ProxyResponse

type_synonym FsyncResponse = ProxyResponse

definition zero_ProxyResponse :: ProxyResponse where
  "zero_ProxyResponse = \<lparr> resp_Code = 0, resp_Message = [] \<rparr>"

record ReaddirResponse = ProxyResponse +
  rd_Dentrys :: "Dentry list"

definition dec_ReaddirResponse :: "ReaddirResponse jdec" where
  "dec_ReaddirResponse = dec_struct (\<lambda>ms old.
     let (resp_Code1, ok0) = jfield ''code'' dec_int ms (resp_Code old);
        (resp_Message1, ok1) = jfield ''msg'' dec_str ms (resp_Message old);
        (rd_Dentrys1, ok2) = jfield ''data'' (dec_list dec_Dentry zero_Dentry) ms (rd_Dentrys old)
     in (old\<lparr> resp_Code := resp_Code1, resp_Message := resp_Message1,
            rd_Dentrys := rd_Dentrys1 \<rparr>,
         ok0 \<and> ok1 \<and> ok2))"

definition zero_ReaddirResponse :: ReaddirResponse where
  "zero_ReaddirResponse = \<lparr> resp_Code = 0, resp_Message = [], rd_Dentrys = [] \<rparr>"

record OpenResponse = ProxyResponse +
  open_Id :: u64

definition dec_OpenResponse :: "OpenResponse jdec" where
  "dec_OpenResponse = dec_struct (\<lambda>ms old.
     let (resp_Code1, ok0) = jfield ''code'' dec_int ms (resp_Code old);
        (resp_Message1, ok1) = jfield ''msg'' dec_str ms (resp_Message old);
        (open_Id1, ok2) = jfield ''data'' dec_u64 ms (open_Id old)
     in (old\<lparr> resp_Code := resp_Code1, resp_Message := resp_Message1, open_Id := open_Id1 \<rparr>,
         ok0 \<and> ok1 \<and> ok2))"

definition zero_OpenResponse :: OpenResponse where
  "zero_OpenResponse = \<lparr> resp_Code = 0, resp_Message = [], open_Id = 0 \<rparr>"

record ReadResponse = ProxyResponse +
  read_Data :: "byte list"

definition dec_ReadResponse :: "ReadResponse jdec" where
  "dec_ReadResponse = dec_struct (\<lambda>ms old.
     let (resp_Code1, ok0) = jfield ''code'' dec_int ms (resp_Code old);
        (resp_Message1, ok1) = jfield ''msg'' dec_str ms (resp_Message old);
        (read_Data1, ok2) = jfield ''data'' dec_bytes ms (read_Data old)
     in (old\<lparr> resp_Code := resp_Code1, resp_Message := resp_Message1,
            read_Data := read_Data1 \<rparr>,
         ok0 \<and> ok1 \<and> ok2))"

definition zero_ReadResponse :: ReadResponse where
  "zero_ReadResponse = \<lparr> resp_Code = 0, resp_Message = [], read_Data = [] \<rparr>"

record GetxattrResponse = ProxyResponse +
  getxr_Data :: "byte list"

definition dec_GetxattrResponse :: "GetxattrResponse jdec" where
  "dec_GetxattrResponse = dec_struct (\<lambda>ms old.
     let (resp_Code1, ok0) = jfield ''code'' dec_int ms (resp_Code old);
        (resp_Message1, ok1) = jfield ''msg'' dec_str ms (resp_Message old);
        (getxr_Data1, ok2) = jfield ''data'' dec_bytes ms (getxr_Data old)
     in (old\<lparr> resp_Code := resp_Code1, resp_Message := resp_Message1,
            getxr_Data := getxr_Data1 \<rparr>,
         ok0 \<and> ok1 \<and> ok2))"

definition zero_GetxattrResponse :: GetxattrResponse where
  "zero_GetxattrResponse = \<lparr> resp_Code = 0, resp_Message = [], getxr_Data = [] \<rparr>"

record ListxattrResponse = ProxyResponse +
  lx_Names :: "string list"

definition dec_ListxattrResponse :: "ListxattrResponse jdec" where
  "dec_ListxattrResponse = dec_struct (\<lambda>ms old.
     let (resp_Code1, ok0) = jfield ''code'' dec_int ms (resp_Code old);
        (resp_Message1, ok1) = jfield ''msg'' dec_str ms (resp_Message old);
        (lx_Names1, ok2) = jfield ''data'' (dec_list dec_str []) ms (lx_Names old)
     in (old\<lparr> resp_Code := resp_Code1, resp_Message := resp_Message1, lx_Names := lx_Names1 \<rparr>,
         ok0 \<and> ok1 \<and> ok2))"

definition zero_ListxattrResponse :: ListxattrResponse where
  "zero_ListxattrResponse = \<lparr> resp_Code = 0, resp_Message = [], lx_Names = [] \<rparr>"

record StatResponse = ProxyResponse +
  stat_Data :: InoInfo

definition dec_StatResponse :: "StatResponse jdec" where
  "dec_StatResponse = dec_struct (\<lambda>ms old.
     let (resp_Code1, ok0) = jfield ''code'' dec_int ms (resp_Code old);
        (resp_Message1, ok1) = jfield ''msg'' dec_str ms (resp_Message old);
        (stat_Data1, ok2) = jfield ''data'' dec_InoInfo ms (stat_Data old)
     in (old\<lparr> resp_Code := resp_Code1, resp_Message := resp_Message1,
            stat_Data := stat_Data1 \<rparr>,
         ok0 \<and> ok1 \<and> ok2))"

definition zero_StatResponse :: StatResponse where
  "zero_StatResponse = \<lparr> resp_Code = 0, resp_Message = [], stat_Data = zero_InoInfo \<rparr>"

record StatfsResponse = ProxyResponse +
  statfs_Data :: StatfsInfo

definition dec_StatfsResponse :: "StatfsResponse jdec" where
  "dec_StatfsResponse = dec_struct (\<lambda>ms old.
     let (resp_Code1, ok0) = jfield ''code'' dec_int ms (resp_Code old);
        (resp_Message1, ok1) = jfield ''msg'' dec_str ms (resp_Message old);
        (statfs_Data1, ok2) = jfield ''data'' dec_StatfsInfo ms (statfs_Data old)
     in (old\<lparr> resp_Code := resp_Code1, resp_Message := resp_Message1,
            statfs_Data := statfs_Data1 \<rparr>,
         ok0 \<and> ok1 \<and> ok2))"

definition zero_StatfsResponse :: StatfsResponse where
  "zero_StatfsResponse = \<lparr> resp_Code = 0, resp_Message = [], statfs_Data = zero_StatfsInfo \<rparr>"

type_synonym ReaddirExResponse = ReaddirResponse

section \<open>Round trips\<close>

lemma uint_word_bounds [simp]:
  "uint (w64 :: u64) < 18446744073709551616"
  "uint (w32 :: u32) < 4294967296"
  "uint (w16 :: u16) < 65536"
  using uint_bounded [of w64] uint_bounded [of w32] uint_bounded [of w16] by simp_all

lemma find_append: "find P (xs @ ys) = (case find P xs of None \<Rightarrow> find P ys | Some x \<Rightarrow> Some x)"
  by (induction xs) auto

lemma jmember_Cons:
  "jmember k ((k', v) # ms) =
     (case jmember k ms of None \<Rightarrow> (if same_key k k' then Some v else None) | Some r \<Rightarrow> Some r)"
  by (auto simp: jmember_def find_append split: option.splits)

lemma jmember_Nil [simp]: "jmember k [] = None"
  by (simp add: jmember_def)

lemmas json_simps = dec_struct_def jfield_def jmember_Cons same_key_def fold_char_def

lemma dec_enc_ProxyRequest: "dec_ProxyRequest (enc_ProxyRequest r) old = (r, True)"
  by (simp add: dec_ProxyRequest_def enc_ProxyRequest_def json_simps)

lemma dec_enc_MkdirRequest: "dec_MkdirRequest (enc_MkdirRequest r) old = (r, True)"
  by (simp add: dec_MkdirRequest_def enc_MkdirRequest_def json_simps)

lemma dec_enc_ReaddirExRequest: "dec_ReaddirExRequest (enc_ReaddirExRequest r) old = (r, True)"
  by (simp add: dec_ReaddirExRequest_def enc_ReaddirExRequest_def json_simps)

lemma dec_enc_OpenRequest: "dec_OpenRequest (enc_OpenRequest r) old = (r, True)"
  by (simp add: dec_OpenRequest_def enc_OpenRequest_def json_simps)

lemma dec_enc_ReadRequest: "dec_ReadRequest (enc_ReadRequest r) old = (r, True)"
  by (simp add: dec_ReadRequest_def enc_ReadRequest_def json_simps)

lemma dec_enc_WriteRequest: "dec_WriteRequest (enc_WriteRequest r) old = (r, True)"
  by (simp add: dec_WriteRequest_def enc_WriteRequest_def json_simps)

lemma dec_enc_TruncateRequest: "dec_TruncateRequest (enc_TruncateRequest r) old = (r, True)"
  by (simp add: dec_TruncateRequest_def enc_TruncateRequest_def json_simps)

lemma dec_enc_LinkRequest: "dec_LinkRequest (enc_LinkRequest r) old = (r, True)"
  by (simp add: dec_LinkRequest_def enc_LinkRequest_def json_simps)

lemma dec_enc_SymlinkRequest: "dec_SymlinkRequest (enc_SymlinkRequest r) old = (r, True)"
  by (simp add: dec_SymlinkRequest_def enc_SymlinkRequest_def json_simps)

lemma dec_enc_SetxattrRequest: "dec_SetxattrRequest (enc_SetxattrRequest r) old = (r, True)"
  by (simp add: dec_SetxattrRequest_def enc_SetxattrRequest_def json_simps)

lemma dec_enc_GetxattrRequest: "dec_GetxattrRequest (enc_GetxattrRequest r) old = (r, True)"
  by (simp add: dec_GetxattrRequest_def enc_GetxattrRequest_def json_simps)

lemma dec_enc_RemovexattrRequest: "dec_RemovexattrRequest (enc_RemovexattrRequest r) old = (r, True)"
  by (simp add: dec_RemovexattrRequest_def enc_RemovexattrRequest_def json_simps)

lemma dec_enc_SetAttrRequest: "dec_SetAttrRequest (enc_SetAttrRequest r) old = (r, True)"
  by (simp add: dec_SetAttrRequest_def enc_SetAttrRequest_def json_simps)

lemma dec_enc_RenameRequest: "dec_RenameRequest (enc_RenameRequest r) old = (r, True)"
  by (simp add: dec_RenameRequest_def enc_RenameRequest_def json_simps)

lemma dec_enc_FsyncRequest: "dec_FsyncRequest (enc_FsyncRequest r) old = (r, True)"
  by (simp add: dec_FsyncRequest_def enc_FsyncRequest_def json_simps)

section \<open>Properties\<close>


end
