(* ===== verification/Cfa_Proxy.thy ===== *)
theory Cfa_Proxy
  imports Cfa_Proto
begin

text \<open>
  The client of the CubeFS proxy, \<^verbatim>\<open>lib/libfs/api/proxyclient.go\<close>: the retry loop and one call per
  request kind. The HTTP exchange behind \<^verbatim>\<open>DoPostWithJson\<close> is a parameter \<open>post\<close> of every call: given
  the state of the world, a URL and a request document it yields the new state and either an error
  or the reply document. What the server does is not part of this development; where a property
  depends on it, the property says so in a hypothesis about \<open>post\<close>.
\<close>

unbundle bit_operations_syntax

type_synonym 's poster = "'s \<Rightarrow> string \<Rightarrow> json \<Rightarrow> 's \<times> (go_error + json)"

text \<open>
  The client: the address all requests go to (\<^verbatim>\<open>IoCli.Hosts[0]\<close>, which \<^verbatim>\<open>UpdateHosts\<close> sets when the
  mount is created) and the retry configuration, durations in nanoseconds.
\<close>

record ProxyClient =
  pc_Host :: string
  pc_RetryTimes :: int
  pc_RetryGap :: int
  pc_RetryFactor :: int

fun Contains :: "string \<Rightarrow> string \<Rightarrow> bool" where
  "Contains s sub = (prefix sub s \<or> (case s of [] \<Rightarrow> False | _ # s' \<Rightarrow> Contains s' sub))"

declare Contains.simps [simp del]

definition retry :: "go_error option \<Rightarrow> int \<Rightarrow> bool" where
  "retry err code =
     (case err of
        None \<Rightarrow> False
      | Some e \<Rightarrow>
          if Contains (Error_text e) ''connection refused'' then True
          else if Contains (Error_text e) ''use of closed network connection'' then True
          else if Contains (Error_text e) ''EOF'' then True
          else if Contains (Error_text e) ''connection reset by peer'' then True
          else (case e of UrlError _ _ _ timeout temporary \<Rightarrow> timeout \<or> temporary | _ \<Rightarrow> False))"

text \<open>Marshal, exchange, and decode the reply into \<open>result\<close>.\<close>

definition DoPostWithJson ::
  "'s poster \<Rightarrow> 'r jdec \<Rightarrow> 's \<Rightarrow> string \<Rightarrow> json \<Rightarrow> 'r \<Rightarrow> 's \<times> 'r \<times> go_error option" where
  "DoPostWithJson post dec s url params result =
     (case post s url params of
        (s', Inl err) \<Rightarrow> (s', result, Some err)
      | (s', Inr body) \<Rightarrow>
          (case dec body result of (result', ok) \<Rightarrow>
             (s', result', if ok then None else Some (ErrNew ''json: cannot unmarshal''))))"

text \<open>
  The attempts \<open>0 \<dots> RetryTimes\<close>; the pause between two attempts is not observable here. The loop
  returns the last error when every attempt asks for another one.
\<close>

primrec tryReqProxy_loop ::
  "int list \<Rightarrow> 's poster \<Rightarrow> ProxyClient \<Rightarrow> ('r :: type) ProxyResponse_scheme jdec \<Rightarrow> 's \<Rightarrow> string \<Rightarrow> json \<Rightarrow>
   'r ProxyResponse_scheme \<Rightarrow> go_error option \<Rightarrow> 's \<times> 'r ProxyResponse_scheme \<times> go_error option" where
  "tryReqProxy_loop [] post c dec s api_uri params result err = (s, result, err)"
| "tryReqProxy_loop (i # is) post c dec s api_uri params result err =
     (case DoPostWithJson post dec s (pc_Host c @ api_uri) params result of (s', result', err') \<Rightarrow>
        if \<not> retry err' (resp_Code result') then (s', result', err')
        else tryReqProxy_loop is post c dec s' api_uri params result' err')"

definition tryReqProxy ::
  "'s poster \<Rightarrow> ProxyClient \<Rightarrow> ('r :: type) ProxyResponse_scheme jdec \<Rightarrow> 's \<Rightarrow> string \<Rightarrow> json \<Rightarrow>
   'r ProxyResponse_scheme \<Rightarrow> 's \<times> 'r ProxyResponse_scheme \<times> go_error option" where
  "tryReqProxy post c dec s api_uri params result =
     tryReqProxy_loop [0..pc_RetryTimes c] post c dec s api_uri params result None"

section \<open>The calls\<close>

definition px_Unlink :: "'s poster \<Rightarrow> ProxyClient \<Rightarrow> 's \<Rightarrow> string \<Rightarrow> 's \<times> ProxyResponse \<times> go_error option" where
  "px_Unlink post c s path =
     tryReqProxy post c dec_ProxyResponse s UrlUnlink
       (enc_ProxyRequest
       \<lparr> req_Path = path \<rparr>)
       zero_ProxyResponse"

definition px_Link :: "'s poster \<Rightarrow> ProxyClient \<Rightarrow> 's \<Rightarrow> string \<Rightarrow> string \<Rightarrow> 's \<times> ProxyResponse \<times> go_error option" where
  "px_Link post c s path dstpath =
     tryReqProxy post c dec_ProxyResponse s UrlLink
       (enc_LinkRequest
       \<lparr> req_Path = path, link_Dstpath = dstpath \<rparr>)
       zero_ProxyResponse"

definition px_SymLink :: "'s poster \<Rightarrow> ProxyClient \<Rightarrow> 's \<Rightarrow> string \<Rightarrow> string \<Rightarrow> 's \<times> ProxyResponse \<times> go_error option" where
  "px_SymLink post c s path dstpath =
     tryReqProxy post c dec_ProxyResponse s UrlSymLink
       (enc_SymlinkRequest
       \<lparr> req_Path = path, symlink_Dstpath = dstpath \<rparr>)
       zero_ProxyResponse"

definition px_MkDir :: "'s poster \<Rightarrow> ProxyClient \<Rightarrow> 's \<Rightarrow> string \<Rightarrow> u32 \<Rightarrow> 's \<times> ProxyResponse \<times> go_error option" where
  "px_MkDir post c s path mode =
     tryReqProxy post c dec_ProxyResponse s UrlMkdir
       (enc_MkdirRequest
       \<lparr> req_Path = path, mkdir_Mode = mode \<rparr>)
       zero_ProxyResponse"

definition px_ReadDir :: "'s poster \<Rightarrow> ProxyClient \<Rightarrow> 's \<Rightarrow> string \<Rightarrow> 's \<times> ReaddirResponse \<times> go_error option" where
  "px_ReadDir post c s path =
     tryReqProxy post c dec_ReaddirResponse s UrlReaddir
       (enc_ProxyRequest
       \<lparr> req_Path = path \<rparr>)
       zero_ReaddirResponse"

definition px_ReadDirEx :: "'s poster \<Rightarrow> ProxyClient \<Rightarrow> 's \<Rightarrow> string \<Rightarrow> string \<Rightarrow> u16 \<Rightarrow> 's \<times> ReaddirResponse \<times> go_error option" where
  "px_ReadDirEx post c s path startKey count =
     tryReqProxy post c dec_ReaddirResponse s UrlReaddirEx
       (enc_ReaddirExRequest
       \<lparr> req_Path = path, rdx_StartKey = startKey, rdx_Count = count \<rparr>)
       zero_ReaddirResponse"

definition px_RmDir :: "'s poster \<Rightarrow> ProxyClient \<Rightarrow> 's \<Rightarrow> string \<Rightarrow> 's \<times> ProxyResponse \<times> go_error option" where
  "px_RmDir post c s path =
     tryReqProxy post c dec_ProxyResponse s UrlRmdir
       (enc_ProxyRequest
       \<lparr> req_Path = path \<rparr>)
       zero_ProxyResponse"

definition px_RmDirTree :: "'s poster \<Rightarrow> ProxyClient \<Rightarrow> 's \<Rightarrow> string \<Rightarrow> 's \<times> ProxyResponse \<times> go_error option" where
  "px_RmDirTree post c s path =
     tryReqProxy post c dec_ProxyResponse s UrlRmdirtree
       (enc_ProxyRequest
       \<lparr> req_Path = path \<rparr>)
       zero_ProxyResponse"

definition px_Open :: "'s poster \<Rightarrow> ProxyClient \<Rightarrow> 's \<Rightarrow> string \<Rightarrow> u32 \<Rightarrow> u32 \<Rightarrow> 's \<times> OpenResponse \<times> go_error option" where
  "px_Open post c s path flag mode =
     tryReqProxy post c dec_OpenResponse s UrlOpen
       (enc_OpenRequest
       \<lparr> req_Path = path, openrq_Openflag = flag, openrq_Mode = mode \<rparr>)
       zero_OpenResponse"

definition px_Read :: "'s poster \<Rightarrow> ProxyClient \<Rightarrow> 's \<Rightarrow> u64 \<Rightarrow> u64 \<Rightarrow> u64 \<Rightarrow> 's \<times> ReadResponse \<times> go_error option" where
  "px_Read post c s rid offset len =
     tryReqProxy post c dec_ReadResponse s UrlRead
       (enc_ReadRequest
       \<lparr> readrq_Id = rid, readrq_Offset = offset, readrq_Length = len \<rparr>)
       zero_ReadResponse"

definition px_Write :: "'s poster \<Rightarrow> ProxyClient \<Rightarrow> 's \<Rightarrow> u64 \<Rightarrow> byte list \<Rightarrow> u64 \<Rightarrow> 's \<times> ProxyResponse \<times> go_error option" where
  "px_Write post c s wid buffer offset =
     tryReqProxy post c dec_ProxyResponse s UrlWrite
       (enc_WriteRequest
       \<lparr> writerq_Id = wid, writerq_Offset = offset, writerq_Length = of_nat (length buffer),
         writerq_Data = buffer \<rparr>)
       zero_ProxyResponse"

definition px_Truncate :: "'s poster \<Rightarrow> ProxyClient \<Rightarrow> 's \<Rightarrow> string \<Rightarrow> u64 \<Rightarrow> 's \<times> ProxyResponse \<times> go_error option" where
  "px_Truncate post c s path len =
     tryReqProxy post c dec_ProxyResponse s UrlTruncate
       (enc_TruncateRequest
       \<lparr> req_Path = path, trunc_Length = len \<rparr>)
       zero_ProxyResponse"

definition px_SetXattr :: "'s poster \<Rightarrow> ProxyClient \<Rightarrow> 's \<Rightarrow> string \<Rightarrow> u32 \<Rightarrow> string \<Rightarrow> byte list \<Rightarrow> 's \<times> ProxyResponse \<times> go_error option" where
  "px_SetXattr post c s path flag name value =
     tryReqProxy post c dec_ProxyResponse s UrlSetxattr
       (enc_SetxattrRequest
       \<lparr> req_Path = path, setx_Flag = flag, setx_Name = name, setx_Data = value \<rparr>)
       zero_ProxyResponse"

definition px_GetXattr :: "'s poster \<Rightarrow> ProxyClient \<Rightarrow> 's \<Rightarrow> string \<Rightarrow> string \<Rightarrow> 's \<times> GetxattrResponse \<times> go_error option" where
  "px_GetXattr post c s path name =
     tryReqProxy post c dec_GetxattrResponse s UrlGetxattr
       (enc_GetxattrRequest
       \<lparr> req_Path = path, getx_Name = name \<rparr>)
       zero_GetxattrResponse"

definition px_ListXAttr :: "'s poster \<Rightarrow> ProxyClient \<Rightarrow> 's \<Rightarrow> string \<Rightarrow> 's \<times> ListxattrResponse \<times> go_error option" where
  "px_ListXAttr post c s path =
     tryReqProxy post c dec_ListxattrResponse s UrlListxattr
       (enc_GetxattrRequest
       \<lparr> req_Path = path, getx_Name = [] \<rparr>)
       zero_ListxattrResponse"

definition px_RmXAttr :: "'s poster \<Rightarrow> ProxyClient \<Rightarrow> 's \<Rightarrow> string \<Rightarrow> string \<Rightarrow> 's \<times> ProxyResponse \<times> go_error option" where
  "px_RmXAttr post c s path name =
     tryReqProxy post c dec_ProxyResponse s UrlRemovexattr
       (enc_RemovexattrRequest
       \<lparr> req_Path = path, rmx_Name = name \<rparr>)
       zero_ProxyResponse"

definition px_Chmod :: "'s poster \<Rightarrow> ProxyClient \<Rightarrow> 's \<Rightarrow> string \<Rightarrow> u32 \<Rightarrow> 's \<times> ProxyResponse \<times> go_error option" where
  "px_Chmod post c s path mode =
     tryReqProxy post c dec_ProxyResponse s UrlSetattr
       (enc_SetAttrRequest
       \<lparr> req_Path = path, sa_Flag = SetAclFlagChangeMode, sa_Uid = 0, sa_Gid = 0,
         sa_Mtime = 0, sa_Atime = 0, sa_Mode = mode, sa_Owner = [], sa_Group = [] \<rparr>)
       zero_ProxyResponse"

definition px_Chown :: "'s poster \<Rightarrow> ProxyClient \<Rightarrow> 's \<Rightarrow> string \<Rightarrow> u32 \<Rightarrow> u32 \<Rightarrow> 's \<times> ProxyResponse \<times> go_error option" where
  "px_Chown post c s path uid gid =
     tryReqProxy post c dec_ProxyResponse s UrlSetattr
       (enc_SetAttrRequest
       \<lparr> req_Path = path, sa_Flag = SetAclFlagChangeUid OR SetAclFlagChangeGid,
         sa_Uid = uid, sa_Gid = gid, sa_Mtime = 0, sa_Atime = 0, sa_Mode = 0,
         sa_Owner = [], sa_Group = [] \<rparr>)
       zero_ProxyResponse"

definition px_ChownEx :: "'s poster \<Rightarrow> ProxyClient \<Rightarrow> 's \<Rightarrow> string \<Rightarrow> string \<Rightarrow> string \<Rightarrow> 's \<times> ProxyResponse \<times> go_error option" where
  "px_ChownEx post c s path owner grp =
     tryReqProxy post c dec_ProxyResponse s UrlSetattr
       (enc_SetAttrRequest
       \<lparr> req_Path = path, sa_Flag = SetAclFlagChangeOwner OR SetAclFlagChangeGroup,
         sa_Uid = 0, sa_Gid = 0, sa_Mtime = 0, sa_Atime = 0, sa_Mode = 0,
         sa_Owner = owner, sa_Group = grp \<rparr>)
       zero_ProxyResponse"

definition px_Rename :: "'s poster \<Rightarrow> ProxyClient \<Rightarrow> 's \<Rightarrow> string \<Rightarrow> string \<Rightarrow> 's \<times> ProxyResponse \<times> go_error option" where
  "px_Rename post c s path dstPath =
     tryReqProxy post c dec_ProxyResponse s UrlRename
       (enc_RenameRequest
       \<lparr> req_Path = path, ren_Dstpath = dstPath \<rparr>)
       zero_ProxyResponse"

definition px_Stat :: "'s poster \<Rightarrow> ProxyClient \<Rightarrow> 's \<Rightarrow> string \<Rightarrow> 's \<times> StatResponse \<times> go_error option" where
  "px_Stat post c s path =
     tryReqProxy post c dec_StatResponse s UrlStat
       (enc_ProxyRequest
       \<lparr> req_Path = path \<rparr>)
       zero_StatResponse"

definition px_StatFs :: "'s poster \<Rightarrow> ProxyClient \<Rightarrow> 's \<Rightarrow> string \<Rightarrow> 's \<times> StatfsResponse \<times> go_error option" where
  "px_StatFs post c s path =
     tryReqProxy post c dec_StatfsResponse s UrlStatfs
       (enc_ProxyRequest
       \<lparr> req_Path = path \<rparr>)
       zero_StatfsResponse"

definition px_Utime :: "'s poster \<Rightarrow> ProxyClient \<Rightarrow> 's \<Rightarrow> string \<Rightarrow> u64 \<Rightarrow> u64 \<Rightarrow> 's \<times> ProxyResponse \<times> go_error option" where
  "px_Utime post c s path utime atime =
     tryReqProxy post c dec_ProxyResponse s UrlSetattr
       (enc_SetAttrRequest
       \<lparr> req_Path = path, sa_Flag = SetAclFlagChangeATime OR SetAclFlagChangeMTime,
         sa_Uid = 0, sa_Gid = 0, sa_Mtime = utime, sa_Atime = atime, sa_Mode = 0,
         sa_Owner = [], sa_Group = [] \<rparr>)
       zero_ProxyResponse"

definition px_Fsync :: "'s poster \<Rightarrow> ProxyClient \<Rightarrow> 's \<Rightarrow> u64 \<Rightarrow> 's \<times> ProxyResponse \<times> go_error option" where
  "px_Fsync post c s fid =
     tryReqProxy post c dec_ProxyResponse s UrlFsync
       (enc_FsyncRequest
       \<lparr> fsync_Id = fid \<rparr>)
       zero_ProxyResponse"

section \<open>Properties of the retry loop\<close>

text \<open>
  An invariant of the exchange: if every attempt keeps \<open>P\<close> of the state, so does the whole call; and
  a call that succeeds ends with an attempt that succeeded.
\<close>

lemma tryReqProxy_loop_induct:
  assumes step: "\<And>s r s' r' e'. P s \<Longrightarrow>
      DoPostWithJson post dec s (pc_Host c @ uri) params r = (s', r', e') \<Longrightarrow> P s'"
    and call: "tryReqProxy_loop is post c dec s uri params r e = (s', r', e')" and P: "P s"
  shows "P s'"
  using call P
proof (induction "is" arbitrary: s r e)
  case Nil
  then show ?case by simp
next
  case (Cons i "is")
  obtain s1 r1 e1 where d: "DoPostWithJson post dec s (pc_Host c @ uri) params r = (s1, r1, e1)"
    by (metis prod_cases3)
  then have "P s1" using step Cons.prems(2) by blast
  then show ?case using Cons d by (auto split: if_splits)
qed

lemma tryReqProxy_loop_last:
  assumes step: "\<And>s r s' r' e'. P s \<Longrightarrow>
      DoPostWithJson post dec s (pc_Host c @ uri) params r = (s', r', e') \<Longrightarrow> P s'"
    and "is \<noteq> []" and "P s" and "tryReqProxy_loop is post c dec s uri params r e = (s', r', None)"
  shows "\<exists>s0 r0. P s0 \<and> DoPostWithJson post dec s0 (pc_Host c @ uri) params r0 = (s', r', None)"
  using assms(2-)
proof (induction "is" arbitrary: s r e)
  case Nil
  then show ?case by simp
next
  case (Cons i "is")
  obtain s1 r1 e1 where d: "DoPostWithJson post dec s (pc_Host c @ uri) params r = (s1, r1, e1)"
    by (metis prod_cases3)
  show ?case
  proof (cases "retry e1 (resp_Code r1)")
    case False
    then have "e1 = None" "s' = s1" "r' = r1" using Cons.prems(3) d by auto
    then show ?thesis using Cons.prems(2) d by blast
  next
    case True
    then have e1: "e1 \<noteq> None" by (cases e1) (auto simp: retry_def)
    have rec: "tryReqProxy_loop is post c dec s1 uri params r1 e1 = (s', r', None)"
      using Cons.prems(3) d True by simp
    then have "is \<noteq> []" using e1 by (cases "is") auto
    then show ?thesis by (rule Cons.IH [OF _ step [OF Cons.prems(2) d] rec])
  qed
qed

section \<open>Properties\<close>

text \<open>A poster that also counts the exchanges.\<close>

definition counted :: "'s poster \<Rightarrow> ('s \<times> nat) poster" where
  "counted post x url j = (case post (fst x) url j of (s', res) \<Rightarrow> ((s', Suc (snd x)), res))"

lemma DoPost_counted:
  "DoPostWithJson (counted post) dec x url params r = (x', r', e) \<Longrightarrow> snd x' = Suc (snd x)"
  by (auto simp: DoPostWithJson_def counted_def split: prod.splits sum.splits)

lemma loop_counted:
  "tryReqProxy_loop is (counted post) c dec x uri params r e = (x', r', e') \<Longrightarrow>
   snd x \<le> snd x' \<and> snd x' \<le> snd x + length is \<and> (is \<noteq> [] \<longrightarrow> snd x < snd x')"
proof (induction "is" arbitrary: x r e)
  case Nil
  then show ?case by simp
next
  case (Cons i "is")
  obtain x1 r1 e1 where d: "DoPostWithJson (counted post) dec x (pc_Host c @ uri) params r = (x1, r1, e1)"
    by (metis prod_cases3)
  note n = DoPost_counted [OF d]
  show ?case
  proof (cases "retry e1 (resp_Code r1)")
    case True
    then have "tryReqProxy_loop is (counted post) c dec x1 uri params r1 e1 = (x', r', e')"
      using Cons.prems d by simp
    from Cons.IH [OF this] show ?thesis using n by auto
  next
    case False
    then show ?thesis using Cons.prems d n by simp
  qed
qed



text \<open>
  With a negative number of retries in the configuration no request is sent at all, and the call
  still reports success with the zero reply, whose code 0 the callers take for the server's consent.
\<close>

theorem negative_retries_send_nothing:
  assumes "pc_RetryTimes c < 0"
  shows "tryReqProxy post c dec s uri params r = (s, r, None)"
  using assms by (simp add: tryReqProxy_def)

theorem negative_retries_send_nothing_witness:
  "tryReqProxy (\<lambda>s url j. (s, Inl (ErrNew ''EOF''))) \<lparr> pc_Host = [], pc_RetryTimes = -1, pc_RetryGap = 0, pc_RetryFactor = 1 \<rparr>
     dec_ProxyResponse () UrlWrite JNull zero_ProxyResponse = ((), zero_ProxyResponse, None)"
  by (rule negative_retries_send_nothing) simp

end
