(* ===== verification/Cfa_IO.thy ===== *)
theory Cfa_IO
  imports Cfa_Proxy
begin

text \<open>
  Direct input and output, \<^verbatim>\<open>lib/libfs/read.go\<close> and \<^verbatim>\<open>lib/libfs/write.go\<close>, and what the caches rely on of
  the server: \<open>server_ok\<close> says that a successful write replaces the bytes of its range, that a failed
  one leaves everything outside its range alone, and that a successful read returns the bytes that
  are there up to the end of the file. The two main lemmas say what a \<^verbatim>\<open>Writer\<close> and a \<^verbatim>\<open>Reader\<close> do with
  such a server, retries included.
\<close>

section \<open>Reader and Writer\<close>

text \<open>The results are the state, the buffer (for a read), the number of bytes and the error.\<close>

definition Reader_Read ::
  "'s poster \<Rightarrow> ProxyClient \<Rightarrow> 's \<Rightarrow> u64 \<Rightarrow> byte list \<Rightarrow> u64 \<Rightarrow> 's \<times> byte list \<times> int \<times> go_error option" where
  "Reader_Read post c s rid buffer offset =
     (let bsize = of_nat (length buffer) :: u32 in
      case px_Read post c s rid offset (ucast bsize) of (s', resp, err) \<Rightarrow>
        if err \<noteq> None then (s', buffer, 0, Some (Errno (ToErrno err)))
        else if resp_Code resp \<noteq> 0 then (s', buffer, 0, toErr err (resp_Code resp))
        else (s', copy_at 0 (read_Data resp) buffer, int (length (read_Data resp)), None))"

definition Writer_Write ::
  "'s poster \<Rightarrow> ProxyClient \<Rightarrow> 's \<Rightarrow> u64 \<Rightarrow> byte list \<Rightarrow> u64 \<Rightarrow> 's \<times> int \<times> go_error option" where
  "Writer_Write post c s wid buffer offset =
     (let bsize = of_nat (length buffer) :: u32 in
      case px_Write post c s wid buffer offset of (s', resp, err) \<Rightarrow>
        if err \<noteq> None then (s', 0, Some (Errno (ToErrno err)))
        else if resp_Code resp \<noteq> 0 then (s', 0, toErr err (resp_Code resp))
        else (s', int (unat bsize), None))"

section \<open>File contents\<close>

text \<open>
  A file is a list of bytes; beyond its end it reads as zero bytes. Writing replaces a range and
  extends the file with zero bytes up to the range when it has to; writing nothing changes nothing.
\<close>

definition zbyte :: "byte list \<Rightarrow> nat \<Rightarrow> byte" where
  "zbyte f p = (if p < length f then f ! p else 0)"

definition fwrite :: "byte list \<Rightarrow> nat \<Rightarrow> byte list \<Rightarrow> byte list" where
  "fwrite f off d =
     (if d = [] then f
      else take off (f @ replicate (off - length f) 0) @ d @ drop (off + length d) f)"

text \<open>\<open>touched off n f f'\<close>: going from \<open>f\<close> to \<open>f'\<close> affects at most the \<open>n\<close> bytes from \<open>off\<close> on.\<close>

definition touched :: "nat \<Rightarrow> nat \<Rightarrow> byte list \<Rightarrow> byte list \<Rightarrow> bool" where
  "touched off n f f' \<longleftrightarrow>
     (\<forall>p. p < off \<or> off + n \<le> p \<longrightarrow> zbyte f' p = zbyte f p) \<and>
     length f \<le> length f' \<and> length f' \<le> (if n = 0 then length f else max (length f) (off + n))"

lemma touched_refl [simp]: "touched off n f f"
  by (simp add: touched_def)

lemma touched_trans: "touched off n f g \<Longrightarrow> touched off n g h \<Longrightarrow> touched off n f h"
  by (auto simp: touched_def split: if_splits)

lemma length_fwrite:
  "length (fwrite f off d) = (if d = [] then length f else max (length f) (off + length d))"
  by (auto simp: fwrite_def)

lemma zbyte_fwrite:
  "zbyte (fwrite f off d) p = (if off \<le> p \<and> p < off + length d then d ! (p - off) else zbyte f p)"
proof (cases "d = []")
  case True
  then show ?thesis by (auto simp: fwrite_def)
next
  case False
  have [simp]: "min (length f) off + (off - length f) = off" by auto
  show ?thesis using False
    by (auto simp: zbyte_def fwrite_def nth_append nth_drop not_less)
qed

lemma touched_fwrite: "touched off (length d) f (fwrite f off d)"
  by (auto simp: touched_def zbyte_fwrite length_fwrite)

lemma zbyte_eqI: "length f = length g \<Longrightarrow> (\<And>p. zbyte f p = zbyte g p) \<Longrightarrow> f = g"
  unfolding zbyte_def by (metis nth_equalityI)

text \<open>Writing the range again hides what happened to it before.\<close>

lemma fwrite_touched: "touched off (length d) f g \<Longrightarrow> fwrite g off d = fwrite f off d"
  by (rule zbyte_eqI) (auto simp: zbyte_fwrite length_fwrite touched_def)

section \<open>The server contract\<close>

text \<open>The code a reply document carries.\<close>

definition reply_code :: "json \<Rightarrow> int option" where
  "reply_code j =
     (case j of
        JObj ms \<Rightarrow> (case jmember ''code'' ms of Some (JNum n) \<Rightarrow> Some n | _ \<Rightarrow> None)
      | _ \<Rightarrow> None)"

definition reply_data :: "json \<Rightarrow> byte list option" where
  "reply_data j =
     (case j of
        JObj ms \<Rightarrow> (case jmember ''data'' ms of Some (JBytes d) \<Rightarrow> Some d | _ \<Rightarrow> None)
      | _ \<Rightarrow> None)"

definition write_ok :: "'s poster \<Rightarrow> string \<Rightarrow> ('s \<Rightarrow> u64 \<Rightarrow> byte list) \<Rightarrow> bool" where
  "write_ok post host content \<longleftrightarrow>
     (\<forall>s r s' res. post s (host @ UrlWrite) (enc_WriteRequest r) = (s', res) \<longrightarrow>
        (\<forall>f. f \<noteq> writerq_Id r \<longrightarrow> content s' f = content s f) \<and>
        touched (unat (writerq_Offset r)) (length (writerq_Data r))
          (content s (writerq_Id r)) (content s' (writerq_Id r)) \<and>
        (\<forall>j. res = Inr j \<longrightarrow> reply_code j \<noteq> None \<and>
           (reply_code j = Some 0 \<longrightarrow>
              content s' (writerq_Id r) =
                fwrite (content s (writerq_Id r)) (unat (writerq_Offset r)) (writerq_Data r))))"

definition read_ok :: "'s poster \<Rightarrow> string \<Rightarrow> ('s \<Rightarrow> u64 \<Rightarrow> byte list) \<Rightarrow> bool" where
  "read_ok post host content \<longleftrightarrow>
     (\<forall>s r s' res. post s (host @ UrlRead) (enc_ReadRequest r) = (s', res) \<longrightarrow>
        content s' = content s \<and>
        (\<forall>j. res = Inr j \<longrightarrow> reply_code j \<noteq> None \<and>
           (reply_code j = Some 0 \<longrightarrow>
              reply_data j =
                Some (take (unat (readrq_Length r)) (drop (unat (readrq_Offset r)) (content s (readrq_Id r)))))))"

text \<open>A server that stores files, and a client that sends every request at least once.\<close>

definition server_ok :: "'s poster \<Rightarrow> ProxyClient \<Rightarrow> ('s \<Rightarrow> u64 \<Rightarrow> byte list) \<Rightarrow> bool" where
  "server_ok post c content \<longleftrightarrow>
     write_ok post (pc_Host c) content \<and> read_ok post (pc_Host c) content \<and> 0 \<le> pc_RetryTimes c"

section \<open>What Reader and Writer do with such a server\<close>

lemma dec_int_ok: "dec_int v old = (r, True) \<Longrightarrow> v = JNum n \<Longrightarrow> r = n"
  by (auto split: if_splits)

lemma reply_code_Some: "reply_code j = Some n \<longleftrightarrow> (\<exists>ms. j = JObj ms \<and> jmember ''code'' ms = Some (JNum n))"
  by (auto simp: reply_code_def split: json.splits option.splits)

lemma reply_data_Some: "reply_data j = Some d \<longleftrightarrow> (\<exists>ms. j = JObj ms \<and> jmember ''data'' ms = Some (JBytes d))"
  by (auto simp: reply_data_def split: json.splits option.splits)

lemma dec_ProxyResponse_code:
  assumes "dec_ProxyResponse j old = (r, True)" and "reply_code j \<noteq> None"
  shows "reply_code j = Some (resp_Code r)"
proof -
  obtain n ms where "j = JObj ms" "jmember ''code'' ms = Some (JNum n)" "reply_code j = Some n"
    using assms(2) reply_code_Some by fastforce
  then show ?thesis using assms(1)
    by (auto simp: dec_ProxyResponse_def dec_struct_def jfield_def split: prod.splits if_splits)
qed

lemma dec_ReadResponse_code:
  assumes "dec_ReadResponse j old = (r, True)" and "reply_code j \<noteq> None"
  shows "reply_code j = Some (resp_Code r)" "\<And>d. reply_data j = Some d \<Longrightarrow> read_Data r = d"
proof -
  obtain n ms where ms: "j = JObj ms" "jmember ''code'' ms = Some (JNum n)" "reply_code j = Some n"
    using assms(2) reply_code_Some by fastforce
  then show "reply_code j = Some (resp_Code r)" using assms(1)
    by (auto simp: dec_ReadResponse_def dec_struct_def jfield_def split: prod.splits if_splits)
  show "read_Data r = d" if "reply_data j = Some d" for d
    using that assms(1) ms
    by (auto simp: dec_ReadResponse_def dec_struct_def jfield_def reply_data_Some split: prod.splits)
qed

lemma DoPost_write:
  assumes "write_ok post host content"
    and "DoPostWithJson post dec_ProxyResponse s (host @ UrlWrite) (enc_WriteRequest r) old = (s', resp, err)"
  shows "\<forall>f. f \<noteq> writerq_Id r \<longrightarrow> content s' f = content s f"
    and "touched (unat (writerq_Offset r)) (length (writerq_Data r))
       (content s (writerq_Id r)) (content s' (writerq_Id r))"
    and "err = None \<Longrightarrow> resp_Code resp = 0 \<Longrightarrow> content s' (writerq_Id r) =
       fwrite (content s (writerq_Id r)) (unat (writerq_Offset r)) (writerq_Data r)"
proof -
  obtain res where p: "post s (host @ UrlWrite) (enc_WriteRequest r) = (s', res)"
    using assms(2) by (auto simp: DoPostWithJson_def split: prod.splits sum.splits)
  note w = assms(1) [unfolded write_ok_def, rule_format, OF p]
  show "\<forall>f. f \<noteq> writerq_Id r \<longrightarrow> content s' f = content s f"
    "touched (unat (writerq_Offset r)) (length (writerq_Data r))
       (content s (writerq_Id r)) (content s' (writerq_Id r))" using w by auto
  assume err: "err = None" and code: "resp_Code resp = 0"
  obtain j where j: "res = Inr j" "dec_ProxyResponse j old = (resp, True)"
    using assms(2) p err by (auto simp: DoPostWithJson_def split: prod.splits sum.splits if_splits)
  then have "reply_code j = Some 0" using dec_ProxyResponse_code [OF j(2)] w code by auto
  then show "content s' (writerq_Id r) =
       fwrite (content s (writerq_Id r)) (unat (writerq_Offset r)) (writerq_Data r)"
    using w j(1) by blast
qed

lemma DoPost_read:
  assumes "read_ok post host content"
    and "DoPostWithJson post dec_ReadResponse s (host @ UrlRead) (enc_ReadRequest r) old = (s', resp, err)"
  shows "content s' = content s"
    and "err = None \<Longrightarrow> resp_Code resp = 0 \<Longrightarrow> read_Data resp =
       take (unat (readrq_Length r)) (drop (unat (readrq_Offset r)) (content s (readrq_Id r)))"
proof -
  obtain res where p: "post s (host @ UrlRead) (enc_ReadRequest r) = (s', res)"
    using assms(2) by (auto simp: DoPostWithJson_def split: prod.splits sum.splits)
  note w = assms(1) [unfolded read_ok_def, rule_format, OF p]
  show "content s' = content s" using w by simp
  assume err: "err = None" and code: "resp_Code resp = 0"
  obtain j where j: "res = Inr j" "dec_ReadResponse j old = (resp, True)"
    using assms(2) p err by (auto simp: DoPostWithJson_def split: prod.splits sum.splits if_splits)
  then have "reply_code j = Some 0" using dec_ReadResponse_code(1) [OF j(2)] w code by auto
  then show "read_Data resp = take (unat (readrq_Length r)) (drop (unat (readrq_Offset r)) (content s (readrq_Id r)))"
    using w j dec_ReadResponse_code(2) [OF j(2)] by auto
qed

text \<open>
  The writer: whatever happens, only the range of the file is touched; when it reports success, the
  server holds the file with the buffer written at the offset, and all bytes are counted.
\<close>

definition only_touched :: "('s \<Rightarrow> u64 \<Rightarrow> byte list) \<Rightarrow> u64 \<Rightarrow> nat \<Rightarrow> nat \<Rightarrow> 's \<Rightarrow> 's \<Rightarrow> bool" where
  "only_touched content wid off n s s' \<longleftrightarrow>
     (\<forall>f. f \<noteq> wid \<longrightarrow> content s' f = content s f) \<and> touched off n (content s wid) (content s' wid)"

lemma only_touched_refl [simp]: "only_touched content wid off n s s"
  by (simp add: only_touched_def)

lemma only_touched_trans:
  "only_touched content wid off n s t \<Longrightarrow> only_touched content wid off n t u \<Longrightarrow>
   only_touched content wid off n s u"
  unfolding only_touched_def by (auto intro: touched_trans)

abbreviation write_request :: "u64 \<Rightarrow> u64 \<Rightarrow> byte list \<Rightarrow> WriteRequest" where
  "write_request wid offset buffer \<equiv>
     \<lparr> writerq_Id = wid, writerq_Offset = offset, writerq_Length = of_nat (length buffer),
       writerq_Data = buffer \<rparr>"

lemma DoPost_write_touched:
  assumes "write_ok post host content" and "only_touched content wid (unat offset) (length buffer) s s1"
    and "DoPostWithJson post dec_ProxyResponse s1 (host @ UrlWrite)
       (enc_WriteRequest (write_request wid offset buffer)) r = (s2, r2, e)"
  shows "only_touched content wid (unat offset) (length buffer) s s2"
  using DoPost_write(1,2) [OF assms(1,3)]
  by (intro only_touched_trans [OF assms(2)]) (simp add: only_touched_def)

lemma Writer_Write_touched:
  assumes ok: "server_ok post c content" and call: "Writer_Write post c s wid buffer offset = (s', n, err)"
  shows "only_touched content wid (unat offset) (length buffer) s s'"
proof -
  obtain resp e where w: "px_Write post c s wid buffer offset = (s', resp, e)"
    using call by (auto simp: Writer_Write_def Let_def split: prod.splits if_splits)
  have "write_ok post (pc_Host c) content" using ok by (simp add: server_ok_def)
  from DoPost_write_touched [OF this] show ?thesis
    by (rule tryReqProxy_loop_induct [OF _ w [unfolded px_Write_def tryReqProxy_def]]) auto
qed

lemma Writer_Write_ok:
  assumes ok: "server_ok post c content" and call: "Writer_Write post c s wid buffer offset = (s', n, None)"
    and len: "length buffer < 2 ^ 32"
  shows "n = int (length buffer)"
    and "content s' = (content s)(wid := fwrite (content s wid) (unat offset) buffer)"
proof -
  let ?P = "only_touched content wid (unat offset) (length buffer) s"
  obtain resp e where w: "px_Write post c s wid buffer offset = (s', resp, e)"
    using call by (auto simp: Writer_Write_def Let_def split: prod.splits if_splits)
  then have e: "e = None" "resp_Code resp = 0" "n = int (length buffer)"
    using call len by (auto simp: Writer_Write_def Let_def toErr_None_iff unat_of_nat_u32 split: if_splits)
  have wok: "write_ok post (pc_Host c) content" and ne: "[0..pc_RetryTimes c] \<noteq> []"
    using ok by (auto simp: server_ok_def)
  obtain s0 r0 where s0: "?P s0"
    "DoPostWithJson post dec_ProxyResponse s0 (pc_Host c @ UrlWrite)
       (enc_WriteRequest (write_request wid offset buffer)) r0 = (s', resp, None)"
    using tryReqProxy_loop_last [where P = ?P, OF _ ne only_touched_refl
        w [unfolded px_Write_def tryReqProxy_def e(1)]] DoPost_write_touched [OF wok] by blast
  note d = DoPost_write [OF wok s0(2), simplified]
  have "fwrite (content s0 wid) (unat offset) buffer = fwrite (content s wid) (unat offset) buffer"
    using s0(1) by (intro fwrite_touched) (simp add: only_touched_def)
  then show "content s' = (content s)(wid := fwrite (content s wid) (unat offset) buffer)"
    using d(1) d(3) [OF e(2)] s0(1) by (auto simp: fun_eq_iff only_touched_def)
  show "n = int (length buffer)" by (rule e(3))
qed

lemma Reader_Read_ok:
  assumes ok: "server_ok post c content" and call: "Reader_Read post c s rid buffer offset = (s', buffer', n, err)"
    and len: "length buffer < 2 ^ 32"
  defines "d \<equiv> take (length buffer) (drop (unat offset) (content s rid))"
  shows "content s' = content s" and "length buffer' = length buffer"
    and "err = None \<Longrightarrow> buffer' = copy_at 0 d buffer \<and> n = int (length d)"
proof -
  let ?rq = "\<lparr>readrq_Id = rid, readrq_Offset = offset, readrq_Length = ucast (of_nat (length buffer) :: u32)\<rparr>"
  let ?P = "\<lambda>s1. content s1 = content s"
  obtain resp e where w: "px_Read post c s rid offset (ucast (of_nat (length buffer) :: u32)) = (s', resp, e)"
    using call by (auto simp: Reader_Read_def Let_def split: prod.splits if_splits)
  have rok: "read_ok post (pc_Host c) content" and ne: "[0..pc_RetryTimes c] \<noteq> []"
    using ok by (auto simp: server_ok_def)
  note rd = DoPost_read [OF rok]
  show "content s' = content s"
    by (rule tryReqProxy_loop_induct [where P = ?P, OF _ w [unfolded px_Read_def tryReqProxy_def]])
       (use rd(1) in fastforce)+
  show "length buffer' = length buffer"
    using call w by (auto simp: Reader_Read_def Let_def split: if_splits)
  assume "err = None"
  then have e: "e = None" "resp_Code resp = 0" "buffer' = copy_at 0 (read_Data resp) buffer"
      "n = int (length (read_Data resp))"
    using call w by (auto simp: Reader_Read_def Let_def toErr_None_iff split: if_splits)
  obtain s0 r0 where s0: "?P s0"
    "DoPostWithJson post dec_ReadResponse s0 (pc_Host c @ UrlRead) (enc_ReadRequest ?rq) r0 = (s', resp, None)"
    using tryReqProxy_loop_last [where P = ?P, OF _ ne _ w [unfolded px_Read_def tryReqProxy_def e(1)]]
      rd(1) by fastforce
  have "read_Data resp = d"
    using rd(2) [OF s0(2) refl e(2)] s0(1) len by (simp add: d_def unat_of_nat_u32)
  then show "buffer' = copy_at 0 d buffer \<and> n = int (length d)" using e by simp
qed

section \<open>A server in memory\<close>

text \<open>
  A concrete exchange that satisfies the contract: a table of file contents, which answers the
  requests to read and to write and refuses every other.
\<close>

definition mem_server :: "(u64 \<Rightarrow> byte list) poster" where
  "mem_server s url j =
     (if url = UrlWrite then
        (case dec_WriteRequest j \<lparr> writerq_Id = 0, writerq_Offset = 0, writerq_Length = 0, writerq_Data = [] \<rparr> of
           (r, _) \<Rightarrow>
             (s(writerq_Id r := fwrite (s (writerq_Id r)) (unat (writerq_Offset r)) (writerq_Data r)),
              Inr (JObj [(''code'', JNum 0)])))
      else if url = UrlRead then
        (case dec_ReadRequest j \<lparr> readrq_Id = 0, readrq_Offset = 0, readrq_Length = 0 \<rparr> of
           (r, _) \<Rightarrow>
             (s, Inr (JObj [(''code'', JNum 0),
                (''data'', JBytes (take (unat (readrq_Length r)) (drop (unat (readrq_Offset r)) (s (readrq_Id r)))))])))
      else (s, Inl (ErrNew ''refused'')))"

definition mem_client :: ProxyClient where
  "mem_client = \<lparr> pc_Host = [], pc_RetryTimes = 3, pc_RetryGap = 0, pc_RetryFactor = 1 \<rparr>"

lemma mem_server_ok: "server_ok mem_server mem_client (\<lambda>s. s)"
proof -
  have "write_ok mem_server [] (\<lambda>s. s)"
    by (auto simp: write_ok_def mem_server_def dec_enc_WriteRequest touched_fwrite reply_code_def json_simps)
  moreover have "read_ok mem_server [] (\<lambda>s. s)"
    by (auto simp: read_ok_def mem_server_def dec_enc_ReadRequest reply_code_def reply_data_def json_simps UrlRead_def UrlWrite_def)
  ultimately show ?thesis by (simp add: server_ok_def mem_client_def)
qed

section \<open>Properties\<close>

text \<open>
  C33: A direct write. However often the request was repeated, when it reports success all bytes are
  counted and the server holds the file with the buffer at the offset; when it fails, at most the
  range of the request has changed on the server.
\<close>

theorem direct_write_correct:
  assumes "server_ok post c content" and "length buffer < 2 ^ 32"
    and "Writer_Write post c s wid buffer offset = (s', n, err)"
  shows "(err = None \<longrightarrow> n = int (length buffer) \<and>
        content s' = (content s)(wid := fwrite (content s wid) (unat offset) buffer)) \<and>
     only_touched content wid (unat offset) (length buffer) s s'"
  using Writer_Write_ok [OF assms(1), of s wid buffer offset s' n] Writer_Write_touched [OF assms(1,3)] assms(2,3)
  by auto

theorem direct_write_correct_witness:
  "\<exists>s' n err. Writer_Write mem_server mem_client (\<lambda>_. [1, 2, 3]) 7 [9, 9] 2 = (s', n, err) \<and>
     (err = None \<longrightarrow> s' = (\<lambda>_. [1, 2, 3])(7 := fwrite [1, 2, 3] 2 [9, 9]))"
proof -
  obtain s' n err where w: "Writer_Write mem_server mem_client (\<lambda>_. [1, 2, 3]) 7 [9, 9] 2 = (s', n, err)"
    by (metis prod_cases3)
  from direct_write_correct [OF mem_server_ok _ w] w show ?thesis by auto
qed

text \<open>
  C34: A direct read changes nothing on the server; when it reports success the buffer starts with
  the bytes of the file at the offset, as many as the file has there, and their number is the
  result.
\<close>

theorem direct_read_correct:
  assumes "server_ok post c content" and "length buffer < 2 ^ 32"
    and "Reader_Read post c s rid buffer offset = (s', buffer', n, err)"
  shows "content s' = content s \<and> length buffer' = length buffer \<and>
     (err = None \<longrightarrow>
        n = int (min (length buffer) (length (content s rid) - unat offset)) \<and>
        (\<forall>i. i < nat n \<longrightarrow> buffer' ! i = content s rid ! (unat offset + i)))"
  using Reader_Read_ok [OF assms(1,3,2)] assms(2) by (auto simp: nth_copy_at min_def)

theorem direct_read_correct_witness:
  "\<exists>s' b n err. Reader_Read mem_server mem_client (\<lambda>_. [1, 2, 3]) 7 [0, 0] 2 = (s', b, n, err) \<and>
     (err = None \<longrightarrow> n = 1 \<and> b ! 0 = 3)"
proof -
  obtain s' b n err where w: "Reader_Read mem_server mem_client (\<lambda>_. [1, 2, 3]) 7 [0, 0] 2 = (s', b, n, err)"
    by (metis prod_cases4)
  from direct_read_correct [OF mem_server_ok _ w] w show ?thesis by (auto simp: min_def)
qed

end
