(* ===== verification/Cfa_Conf.thy ===== *)
theory Cfa_Conf
  imports Cfa_Errors
begin

text \<open>
  The configuration: the constants of \<^verbatim>\<open>lib/libfs/consts/consts.go\<close>, the reading of a string map into the
  structures of the client in \<^verbatim>\<open>lib/libfs/conf/cfg.go\<close>, the comments of a configuration file in
  \<^verbatim>\<open>lib/config/config.go\<close>, and what \<^verbatim>\<open>client/conf/fuseconf.go\<close> does to a loaded configuration. The
  functions of \<^verbatim>\<open>strconv\<close> and \<^verbatim>\<open>strings\<close> that the code calls are written out. The properties say that a
  number written in the configuration is the number the client uses, and that taking the comments
  out of a file takes out the comments and nothing else.
\<close>

section \<open>Numbers and booleans in text\<close>

text \<open>
  \<^verbatim>\<open>strconv\<close> with base 10. The value returned beside an error is never used, so an error is \<^const>\<open>None\<close>:
  the empty text, a character that is no digit, a number outside of the width.
\<close>

definition digit_val :: "char \<Rightarrow> nat option" where
  "digit_val c = (let n = of_char c :: nat in if 48 \<le> n \<and> n \<le> 57 then Some (n - 48) else None)"

fun digits_val :: "nat \<Rightarrow> string \<Rightarrow> nat option" where
  "digits_val n [] = Some n"
| "digits_val n (c # cs) =
     (case digit_val c of None \<Rightarrow> None | Some d \<Rightarrow> digits_val (n * 10 + d) cs)"

definition ParseUint :: "string \<Rightarrow> nat \<Rightarrow> nat option" where
  "ParseUint s bits =
     (if s = [] then None
      else case digits_val 0 s of None \<Rightarrow> None | Some n \<Rightarrow> if n < 2 ^ bits then Some n else None)"

definition ParseInt :: "string \<Rightarrow> nat \<Rightarrow> int option" where
  "ParseInt s0 bits =
     (if s0 = [] then None
      else
        let neg = (hd s0 = CHR ''-'');
            s = (if hd s0 = CHR ''+'' \<or> neg then tl s0 else s0);
            cutoff = 2 ^ (bits - 1)
        in case ParseUint s bits of
             None \<Rightarrow> None
           | Some un \<Rightarrow>
               if \<not> neg \<and> un \<ge> cutoff then None
               else if neg \<and> un > cutoff then None
               else Some (if neg then - int un else int un))"

definition ParseBool :: "string \<Rightarrow> bool option" where
  "ParseBool str =
     (if str \<in> {''1'', ''t'', ''T'', ''true'', ''TRUE'', ''True''} then Some True
      else if str \<in> {''0'', ''f'', ''F'', ''false'', ''FALSE'', ''False''} then Some False
      else None)"

text \<open>\<^verbatim>\<open>strconv.FormatInt\<close> with base 10.\<close>

fun FormatUint :: "nat \<Rightarrow> string" where
  "FormatUint n =
     (if n < 10 then [char_of (48 + n)] else FormatUint (n div 10) @ [char_of (48 + n mod 10)])"

declare FormatUint.simps [simp del]

definition FormatInt :: "int \<Rightarrow> string" where
  "FormatInt i = (if i < 0 then CHR ''-'' # FormatUint (nat (- i)) else FormatUint (nat i))"

text \<open>\<^verbatim>\<open>strings.Split\<close> and \<^verbatim>\<open>strings.Join\<close> (\<^verbatim>\<open>bytes\<close> alike) with a separator of one character.\<close>

fun Split :: "char \<Rightarrow> string \<Rightarrow> string list" where
  "Split sep [] = [[]]"
| "Split sep (c # cs) =
     (if c = sep then [] # Split sep cs
      else case Split sep cs of [] \<Rightarrow> [[c]] | w # ws \<Rightarrow> (c # w) # ws)"

fun Join :: "char \<Rightarrow> string list \<Rightarrow> string" where
  "Join sep [] = []"
| "Join sep [w] = w"
| "Join sep (w # ws) = w @ sep # Join sep ws"

lemma digit_val_char_of [simp]: "d < 10 \<Longrightarrow> digit_val (char_of (48 + d)) = Some d"
  by (simp add: digit_val_def of_char_of)

lemma digits_val_append:
  "digits_val n (xs @ ys) = (case digits_val n xs of None \<Rightarrow> None | Some m \<Rightarrow> digits_val m ys)"
  by (induction xs arbitrary: n) (auto split: option.splits)

lemma digits_val_FormatUint: "digits_val 0 (FormatUint n) = Some n"
proof (induction n rule: FormatUint.induct)
  case (1 n)
  show ?case
    using 1 by (subst FormatUint.simps) (auto simp: digits_val_append)
qed

lemma FormatUint_Cons: "\<exists>c cs. FormatUint n = c # cs \<and> digit_val c \<noteq> None"
proof (induction n rule: FormatUint.induct)
  case (1 n)
  show ?case
  proof (cases "n < 10")
    case True
    then show ?thesis by (simp add: FormatUint.simps [of n])
  next
    case False
    then obtain c cs where "FormatUint (n div 10) = c # cs" "digit_val c \<noteq> None" using 1 by auto
    with False show ?thesis by (simp add: FormatUint.simps [of n])
  qed
qed

lemma ParseUint_FormatUint: "n < 2 ^ bits \<Longrightarrow> ParseUint (FormatUint n) bits = Some n"
  using FormatUint_Cons [of n] by (auto simp: ParseUint_def digits_val_FormatUint)

lemma digit_not_sign: "digit_val c \<noteq> None \<Longrightarrow> c \<noteq> CHR ''-'' \<and> c \<noteq> CHR ''+''"
  by (auto simp: digit_val_def)

lemma ParseInt_FormatInt:
  assumes "0 < bits" and "- (2 ^ (bits - 1)) \<le> i" and "i < 2 ^ (bits - 1)"
  shows "ParseInt (FormatInt i) bits = Some i"
proof -
  have pow: "(2 :: nat) ^ bits = 2 * 2 ^ (bits - 1)"
    using assms(1) by (cases bits) auto
  show ?thesis
  proof (cases "i < 0")
    case True
    have le: "nat (- i) \<le> 2 ^ (bits - 1)" using assms(2) True by (simp add: nat_le_iff)
    also have "(2 :: nat) ^ (bits - 1) < 2 ^ bits" by (simp add: pow)
    finally have "nat (- i) < 2 ^ bits" .
    then show ?thesis using True le
      by (auto simp: ParseInt_def FormatInt_def ParseUint_FormatUint)
  next
    case False
    have lt: "nat i < 2 ^ (bits - 1)" using assms(3) False by (simp add: nat_less_iff)
    also have "(2 :: nat) ^ (bits - 1) < 2 ^ bits" by (simp add: pow)
    finally have "nat i < 2 ^ bits" .
    moreover obtain c cs where c: "FormatUint (nat i) = c # cs" "digit_val c \<noteq> None"
      using FormatUint_Cons by blast
    ultimately show ?thesis
      using False lt digit_not_sign [OF c(2)] ParseUint_FormatUint [of "nat i" bits]
      by (auto simp: ParseInt_def FormatInt_def c(1))
  qed
qed

lemma ParseInt_range:
  assumes "ParseInt s bits = Some i"
  shows "- (2 ^ (bits - 1)) \<le> i \<and> i < 2 ^ (bits - 1)"
proof -
  have pos: "(0 :: int) < 2 ^ (bits - 1)" by simp
  obtain un where "(i = int un \<and> un < 2 ^ (bits - 1)) \<or> (i = - int un \<and> un \<le> 2 ^ (bits - 1))"
    using assms by (auto simp: ParseInt_def Let_def not_le not_less split: if_splits option.splits)
  then have "(i = int un \<and> int un < 2 ^ (bits - 1)) \<or> (i = - int un \<and> int un \<le> 2 ^ (bits - 1))"
    by (metis of_nat_le_iff of_nat_less_iff of_nat_numeral of_nat_power)
  with pos show ?thesis by linarith
qed

section \<open>Keys\<close>

definition CfgProxyHosts :: string where "CfgProxyHosts = ''proxy_hosts''"

definition CfgPath :: string where "CfgPath = ''path''"

definition CfgGroupTryTimes :: string where "CfgGroupTryTimes = ''group_try_times''"

definition CfgClientTimeOutMs :: string where "CfgClientTimeOutMs = ''client_timeout_ms''"

definition CfgPeriodS :: string where "CfgPeriodS = ''fails_period_s''"

definition CfgLogPath :: string where "CfgLogPath = ''log_file''"

definition CfgLogLevel :: string where "CfgLogLevel = ''log_level''"

definition CfgLogMaxSize :: string where "CfgLogMaxSize = ''max_size''"

definition CfgLogBackUp :: string where "CfgLogBackUp = ''back_up''"

definition CfgLogMaxAge :: string where "CfgLogMaxAge = ''max_age''"

definition CfgLogCompress :: string where "CfgLogCompress = ''compress''"

definition CfgStatLogPath :: string where "CfgStatLogPath = ''stat_log_file''"

definition CfgStatLogNum :: string where "CfgStatLogNum = ''stat_log_num''"

definition CfgStatLogMaxSize :: string where "CfgStatLogMaxSize = ''stat_log_max_size''"

definition CfgRetryTimes :: string where "CfgRetryTimes = ''retry_times''"

definition CfgRetryGap :: string where "CfgRetryGap = ''retry_gap''"

definition CfgRetryFactor :: string where "CfgRetryFactor = ''retry_factor''"

definition CfgThirdPartyUidPullType :: string where "CfgThirdPartyUidPullType = ''uid_pull_type''"

definition UidPullTypeByUrl :: string where "UidPullTypeByUrl = ''1''"

definition UidPullTypeByConf :: string where "UidPullTypeByConf = ''2''"

definition CfgUserId :: string where "CfgUserId = ''user_id''"

definition CfgUserToken :: string where "CfgUserToken = ''user_token''"

definition CfgThirdPartyUidPullAccessKey :: string where "CfgThirdPartyUidPullAccessKey = ''uid_pull_access_key''"

definition CfgThirdPartyUidPullUrl :: string where "CfgThirdPartyUidPullUrl = ''uid_pull_url''"

definition CfgClientTag :: string where "CfgClientTag = ''client_tag''"

definition DefClientTag :: string where "DefClientTag = ''CFA''"

definition CfgAppId :: string where "CfgAppId = ''app_id''"

definition CfgDevId :: string where "CfgDevId = ''dev_id''"

definition CfgPackageName :: string where "CfgPackageName = ''package_name''"

definition CfgOpenFileMax :: string where "CfgOpenFileMax = ''open_file_max''"

definition CfgLsSize :: string where "CfgLsSize = ''ls_size''"

definition CfgDentryCacheSize :: string where "CfgDentryCacheSize = ''dentry_cache_size''"

definition CfgDentryCacheExpireMs :: string where "CfgDentryCacheExpireMs = ''dentry_cache_expire_ms''"

definition CfgRwCacheCacheSize :: string where "CfgRwCacheCacheSize = ''rw_cache_size''"

definition CfgRwCacheExpireMs :: string where "CfgRwCacheExpireMs = ''rw_cache_expire_ms''"

definition CfgRwCacheSyncRoutine :: string where "CfgRwCacheSyncRoutine = ''rw_cache_sync_routine''"

definition CfgRwCachePrefetchRoutine :: string where "CfgRwCachePrefetchRoutine = ''rw_cache_prefetch_routine''"

definition CfgRwCachePrefetchTimes :: string where "CfgRwCachePrefetchTimes = ''rw_cache_prefetch_times''"

definition CfgStatGap :: string where "CfgStatGap = ''stat_gap''"

definition ExportPath :: string where "ExportPath = ''cfs_export_path''"

lemmas cfg_keys =
  CfgProxyHosts_def CfgPath_def CfgGroupTryTimes_def CfgClientTimeOutMs_def CfgPeriodS_def
  CfgLogPath_def CfgLogLevel_def CfgLogMaxSize_def CfgLogBackUp_def CfgLogMaxAge_def
  CfgLogCompress_def CfgStatLogPath_def CfgStatLogNum_def CfgStatLogMaxSize_def CfgRetryTimes_def
  CfgRetryGap_def CfgRetryFactor_def CfgThirdPartyUidPullType_def UidPullTypeByUrl_def
  UidPullTypeByConf_def CfgUserId_def CfgUserToken_def CfgThirdPartyUidPullAccessKey_def
  CfgThirdPartyUidPullUrl_def CfgClientTag_def DefClientTag_def CfgAppId_def CfgDevId_def
  CfgPackageName_def CfgOpenFileMax_def CfgLsSize_def CfgDentryCacheSize_def
  CfgDentryCacheExpireMs_def CfgRwCacheCacheSize_def CfgRwCacheExpireMs_def
  CfgRwCacheSyncRoutine_def CfgRwCachePrefetchRoutine_def CfgRwCachePrefetchTimes_def
  CfgStatGap_def ExportPath_def

section \<open>Reading the configuration\<close>

text \<open>A Go map of strings: looking up a key that is missing gives the empty string.\<close>

type_synonym Config = "string \<rightharpoonup> string"

definition cfg_at :: "Config \<Rightarrow> string \<Rightarrow> string" where
  "cfg_at cfg k = (case cfg k of None \<Rightarrow> [] | Some v \<Rightarrow> v)"

record UserInfo =
  u_Uid :: string
  u_Token :: string

definition BuildUserInfo :: "string \<Rightarrow> string \<Rightarrow> UserInfo" where
  "BuildUserInfo Uid Token = \<lparr> u_Uid = Uid, u_Token = Token \<rparr>"

definition GetIntValue :: "Config \<Rightarrow> string \<Rightarrow> int \<Rightarrow> int" where
  "GetIntValue cfg cfgName defaultVal =
     (case ParseInt (cfg_at cfg cfgName) 32 of None \<Rightarrow> defaultVal | Some val \<Rightarrow> val)"

definition GetStringValue :: "Config \<Rightarrow> string \<Rightarrow> string \<Rightarrow> string" where
  "GetStringValue cfg cfgName defaultVal =
     (case cfg cfgName of None \<Rightarrow> defaultVal | Some val \<Rightarrow> val)"

text \<open>The configuration of the logger, \<^verbatim>\<open>Config\<close> of \<^verbatim>\<open>lib/log/logger.go\<close>.\<close>

record LogConfig =
  lg_LogFile :: string
  lg_LogLevel :: string
  lg_MaxSize :: int
  lg_MaxBackups :: int
  lg_MaxAge :: int
  lg_Compress :: bool

text \<open>A number of the log configuration: an error and the number 0 give the default.\<close>

definition log_int :: "Config \<Rightarrow> string \<Rightarrow> int \<Rightarrow> int" where
  "log_int cfg k d =
     (case ParseInt (cfg_at cfg k) 32 of None \<Rightarrow> d | Some n \<Rightarrow> if n = 0 then d else n)"

definition BuildLogCfg :: "Config \<Rightarrow> LogConfig" where
  "BuildLogCfg cfg =
     \<lparr> lg_LogFile = (if cfg_at cfg CfgLogPath = [] then ''./client'' else cfg_at cfg CfgLogPath),
       lg_LogLevel = (if cfg_at cfg CfgLogLevel = [] then ''warn'' else cfg_at cfg CfgLogLevel),
       lg_MaxSize = log_int cfg CfgLogMaxSize 4,
       lg_MaxBackups = log_int cfg CfgLogBackUp 10,
       lg_MaxAge = log_int cfg CfgLogMaxAge 10,
       lg_Compress =
         (case ParseBool (cfg_at cfg CfgLogCompress) of None \<Rightarrow> False | Some compress \<Rightarrow> compress) \<rparr>"

text \<open>
  The conversions \<^verbatim>\<open>uint32(n)\<close>, \<^verbatim>\<open>int(n)\<close> and \<^verbatim>\<open>int64(n)\<close> of the 64-bit numbers read keep the low bits.
  \<^verbatim>\<open>log.Fatal\<close> ends the process. The retry function of the structure is set by the client itself.
\<close>

record HttpCfg =
  ht_Hosts :: "string list"
  ht_TryTimes :: u32
  ht_ClientTimeoutMS :: int
  ht_MaxFailsPeriodS :: int

definition uint_or_0 :: "Config \<Rightarrow> string \<Rightarrow> u64" where
  "uint_or_0 cfg k = (case ParseUint (cfg_at cfg k) 64 of None \<Rightarrow> 0 | Some n \<Rightarrow> of_nat n)"

definition BuildHttpCfg :: "Config \<Rightarrow> HttpCfg go" where
  "BuildHttpCfg cfg =
     (let hostStr = cfg_at cfg CfgProxyHosts in
      if length hostStr = 0 \<or> length (Split (CHR '','') hostStr) = 0 then Panic
      else Ret \<lparr> ht_Hosts = Split (CHR '','') hostStr,
                 ht_TryTimes = ucast (uint_or_0 cfg CfgGroupTryTimes),
                 ht_ClientTimeoutMS = sint (uint_or_0 cfg CfgClientTimeOutMs),
                 ht_MaxFailsPeriodS = sint (uint_or_0 cfg CfgPeriodS) \<rparr>)"

text \<open>Durations are in nanoseconds; a 32-bit number of seconds does not overflow them.\<close>

record RetryCfg =
  rt_RetryTimes :: int
  rt_RetryGap :: int
  rt_RetryFactor :: int

definition Second :: int where "Second = 1000000000"

definition BuildRetryCfg :: "Config \<Rightarrow> RetryCfg" where
  "BuildRetryCfg cfg =
     \<lparr> rt_RetryTimes = GetIntValue cfg CfgRetryTimes 3,
       rt_RetryGap = GetIntValue cfg CfgRetryGap 5 * Second,
       rt_RetryFactor = GetIntValue cfg CfgRetryFactor 10 * Second \<rparr>"


section \<open>Comments\<close>

text \<open>
  The loop of \<^verbatim>\<open>trimCommentsLine\<close> from an index on, with the number of quotes met so far: an escaped
  backslash or quote is copied as it is, the first \<^verbatim>\<open>#\<close> or \<^verbatim>\<open>//\<close> behind an even number of quotes ends
  the line.
\<close>

fun trim_loop :: "nat \<Rightarrow> string \<Rightarrow> string" where
  "trim_loop quoteCount [] = []"
| "trim_loop quoteCount (c # cs) =
     (if c = CHR 0x5C \<and> cs \<noteq> [] \<and> (hd cs = CHR 0x5C \<or> hd cs = CHR 0x22)
      then c # hd cs # trim_loop quoteCount (tl cs)
      else
        let quoteCount' = (if c = CHR 0x22 then Suc quoteCount else quoteCount) in
        if c = CHR ''#'' \<and> even quoteCount' then []
        else if c = CHR ''/'' \<and> cs \<noteq> [] \<and> hd cs = CHR ''/'' \<and> even quoteCount' then []
        else c # trim_loop quoteCount' cs)"

definition trimCommentsLine :: "string \<Rightarrow> string" where
  "trimCommentsLine line = trim_loop 0 line"

definition trimComments :: "string \<Rightarrow> string" where
  "trimComments data = Join (CHR 0x0A) (map trimCommentsLine (Split (CHR 0x0A) data))"

text \<open>
  Loading: reading the file and decoding the text of a JSON document into a structure are those of
  the Go library, the parameters \<open>readFile\<close> and \<open>unmarshal\<close>.
\<close>

definition loadConfigBytes ::
  "(string \<Rightarrow> 'c \<Rightarrow> 'c \<times> go_error option) \<Rightarrow> 'c \<Rightarrow> string \<Rightarrow> 'c \<times> go_error option" where
  "loadConfigBytes unmarshal conf data =
     (case unmarshal (trimComments data) conf of
        (conf', None) \<Rightarrow> (conf', None)
      | (conf', Some err) \<Rightarrow> (conf', Some (WithMessage err ''parse failed'')))"

definition LoadBytes ::
  "(string \<Rightarrow> 'c \<Rightarrow> 'c \<times> go_error option) \<Rightarrow> 'c \<Rightarrow> string \<Rightarrow> 'c \<times> go_error option" where
  "LoadBytes unmarshal conf src = loadConfigBytes unmarshal conf src"

definition LoadConfig ::
  "(string \<Rightarrow> go_error + string) \<Rightarrow> (string \<Rightarrow> 'c \<Rightarrow> 'c \<times> go_error option) \<Rightarrow> 'c \<Rightarrow> string \<Rightarrow> 'c \<times> go_error option" where
  "LoadConfig readFile unmarshal conf configPath =
     (case readFile configPath of
        Inl err \<Rightarrow> (conf, Some (WithMessage err (configPath @ '' read failed'')))
      | Inr data \<Rightarrow>
          (case loadConfigBytes unmarshal conf data of
             (conf', None) \<Rightarrow> (conf', None)
           | (conf', Some err) \<Rightarrow> (conf', Some (WithMessage err (configPath @ '' load failed'')))))"

section \<open>The configuration of the FUSE client\<close>

text \<open>
  \<^verbatim>\<open>FuseConf\<close> with the options of the FUSE library that the function sets; \<open>fz_Cfg\<close> is \<^const>\<open>None\<close> as long as
  the file has not given the map, which then is nil and cannot be written to. The product of a
  duration and \<^verbatim>\<open>time.Second\<close> is one of 64-bit integers.
\<close>

record FuseConf =
  fz_Cfg :: "Config option"
  fz_EntryTimeout :: int
  fz_AttrTimeout :: int
  fz_NegativeTimeout :: int
  fz_IgnoreSecurityLabels :: bool
  fz_Name :: string
  fz_FsName :: string
  fz_EnableLocks :: bool
  fz_AllowOther :: bool
  fz_DirectMount :: bool
  fz_ClientInodes :: bool
  fz_MountPoint :: string
  fz_ReadDirCount :: int

definition zero_FuseConf :: FuseConf where
  "zero_FuseConf =
     \<lparr> fz_Cfg = None, fz_EntryTimeout = 0, fz_AttrTimeout = 0, fz_NegativeTimeout = 0,
       fz_IgnoreSecurityLabels = False, fz_Name = [], fz_FsName = [], fz_EnableLocks = False,
       fz_AllowOther = False, fz_DirectMount = False, fz_ClientInodes = False, fz_MountPoint = [],
       fz_ReadDirCount = 0 \<rparr>"

definition in_seconds :: "int \<Rightarrow> int" where
  "in_seconds d = (if d \<noteq> 0 then sint (word_of_int (d * Second) :: 64 word) else d)"

text \<open>The address of the proxy: \<^verbatim>\<open>http://\<close> in front, no slash at the end.\<close>

definition norm_host :: "string \<Rightarrow> string" where
  "norm_host host =
     (let host1 = (if \<not> prefix ''http://'' host then ''http://'' @ host else host)
      in if suffix ''/'' host1 then butlast host1 else host1)"

definition LoadFuseCfg ::
  "(string \<Rightarrow> go_error + string) \<Rightarrow> (string \<Rightarrow> FuseConf \<Rightarrow> FuseConf \<times> go_error option) \<Rightarrow> string \<Rightarrow> FuseConf go" where
  "LoadFuseCfg readFile unmarshal path =
     (case LoadConfig readFile unmarshal
             (zero_FuseConf\<lparr> fz_IgnoreSecurityLabels := True, fz_ClientInodes := True \<rparr>) path of
        (_, Some err) \<Rightarrow> Panic
      | (f, None) \<Rightarrow>
          let f1 = f\<lparr> fz_EntryTimeout := in_seconds (fz_EntryTimeout f),
                      fz_AttrTimeout := in_seconds (fz_AttrTimeout f),
                      fz_NegativeTimeout := in_seconds (fz_NegativeTimeout f) \<rparr>
          in case fz_Cfg f1 of
               None \<Rightarrow> Panic
             | Some cfg0 \<Rightarrow>
                 let cfg1 = cfg0(ExportPath \<mapsto> fz_MountPoint f1);
                     cfg2 = (if cfg_at cfg1 CfgClientTag = [] then cfg1(CfgClientTag \<mapsto> DefClientTag) else cfg1);
                     host = cfg_at cfg2 CfgProxyHosts;
                     cfg3 = (if norm_host host \<noteq> host then cfg2(CfgProxyHosts \<mapsto> norm_host host) else cfg2)
                 in Ret (f1\<lparr> fz_Cfg := Some cfg3, fz_Name := ''cfa'', fz_FsName := ''cfa'',
                              fz_EnableLocks := True, fz_AllowOther := True, fz_DirectMount := True \<rparr>))"

definition GetPath :: "FuseConf \<Rightarrow> string" where
  "GetPath f = (case fz_Cfg f of None \<Rightarrow> [] | Some cfg \<Rightarrow> cfg_at cfg CfgPath)"


section \<open>What is left of a line\<close>

text \<open>
  Lines as they should be read: a line is made of plain characters and string literals; in a
  literal a backslash hides the character behind it. A comment starts with \<^verbatim>\<open>#\<close> or \<^verbatim>\<open>//\<close>.
\<close>

inductive literal_body :: "string \<Rightarrow> bool" where
  body_end: "literal_body []"
| body_char: "c \<noteq> CHR 0x22 \<Longrightarrow> c \<noteq> CHR 0x5C \<Longrightarrow> literal_body b \<Longrightarrow> literal_body (c # b)"
| body_escape: "literal_body b \<Longrightarrow> literal_body (CHR 0x5C # c # b)"

inductive code_line :: "string \<Rightarrow> bool" where
  line_end: "code_line []"
| line_char: "c \<notin> {CHR 0x22, CHR 0x5C, CHR ''#'', CHR ''/''} \<Longrightarrow> code_line l \<Longrightarrow> code_line (c # l)"
| line_literal: "literal_body b \<Longrightarrow> code_line l \<Longrightarrow> code_line (CHR 0x22 # b @ CHR 0x22 # l)"

definition comment :: "string \<Rightarrow> bool" where
  "comment c \<longleftrightarrow> c = [] \<or> prefix ''#'' c \<or> prefix ''//'' c"

text \<open>The three ways one character is treated.\<close>

definition escaped :: "char \<Rightarrow> string \<Rightarrow> bool" where
  "escaped c cs \<longleftrightarrow> c = CHR 0x5C \<and> cs \<noteq> [] \<and> (hd cs = CHR 0x5C \<or> hd cs = CHR 0x22)"

definition opens :: "char \<Rightarrow> string \<Rightarrow> bool" where
  "opens c cs \<longleftrightarrow> c = CHR ''#'' \<or> c = CHR ''/'' \<and> cs \<noteq> [] \<and> hd cs = CHR ''/''"

definition quotes :: "char \<Rightarrow> nat \<Rightarrow> nat" where
  "quotes c q = (if c = CHR 0x22 then Suc q else q)"

lemma trim_Cons:
  "trim_loop q (c # cs) =
     (if escaped c cs then c # hd cs # trim_loop q (tl cs)
      else if opens c cs \<and> even q then []
      else c # trim_loop (quotes c q) cs)"
  by (auto simp: escaped_def opens_def quotes_def Let_def)

lemma trim_induct [case_names Nil Escape Open Step]:
  assumes "\<And>q. P q []"
    and "\<And>q c cs. escaped c cs \<Longrightarrow> P q (tl cs) \<Longrightarrow> P q (c # cs)"
    and "\<And>q c cs. \<not> escaped c cs \<Longrightarrow> opens c cs \<Longrightarrow> even q \<Longrightarrow> P q (c # cs)"
    and "\<And>q c cs. \<not> escaped c cs \<Longrightarrow> \<not> (opens c cs \<and> even q) \<Longrightarrow> P (quotes c q) cs \<Longrightarrow> P q (c # cs)"
  shows "P q l"
proof (induction "length l" arbitrary: q l rule: less_induct)
  case less
  show ?case
  proof (cases l)
    case (Cons c cs)
    then have "P q (tl cs)" "P (quotes c q) cs" using less by auto
    then show ?thesis using assms(2-) Cons by metis
  qed (simp add: assms(1))
qed

declare trim_loop.simps(2) [simp del]

lemma trim_loop_parity: "even q = even r \<Longrightarrow> trim_loop q l = trim_loop r l"
proof (induction q l arbitrary: r rule: trim_induct)
  case (Step q c cs)
  have "even (quotes c q) = even (quotes c r)" using Step.prems by (simp add: quotes_def)
  with Step show ?case by (simp add: trim_Cons)
qed (simp_all add: trim_Cons)

lemma trim_comment: "comment c \<Longrightarrow> trim_loop 0 c = []"
  by (cases c) (auto simp: comment_def prefix_def trim_Cons escaped_def opens_def)

lemma trim_body: "literal_body b \<Longrightarrow> trim_loop 1 (b @ CHR 0x22 # l) = b @ CHR 0x22 # trim_loop 0 l"
proof (induction rule: literal_body.induct)
  case body_end
  then show ?case using trim_loop_parity [of 2 0 l]
    by (simp add: trim_Cons escaped_def opens_def quotes_def numeral_2_eq_2)
next
  case (body_char c b)
  then show ?case by (simp add: trim_Cons escaped_def quotes_def)
next
  case (body_escape b c)
  then show ?case
    by (cases "c = CHR 0x5C \<or> c = CHR 0x22") (auto simp: trim_Cons escaped_def opens_def quotes_def)
qed

lemma trim_code_line: "code_line l \<Longrightarrow> comment c \<Longrightarrow> trim_loop 0 (l @ c) = l"
proof (induction rule: code_line.induct)
  case (line_literal b l)
  then show ?case using trim_body [of b "l @ c"]
    by (simp add: trim_Cons escaped_def opens_def quotes_def)
qed (auto simp: trim_comment trim_Cons escaped_def opens_def quotes_def)

lemma trim_prefix: "prefix (trim_loop q l) l"
proof (induction q l rule: trim_induct)
  case (Escape q c cs)
  then show ?case by (cases cs) (auto simp: trim_Cons escaped_def)
qed (simp_all add: trim_Cons)

lemma trim_idem: "trim_loop q (trim_loop q l) = trim_loop q l"
proof (induction q l rule: trim_induct)
  case (Escape q c cs)
  then have "escaped c (hd cs # trim_loop q (tl cs))" by (simp add: escaped_def)
  with Escape show ?case by (simp add: trim_Cons)
next
  case (Step q c cs)
  let ?t = "trim_loop (quotes c q) cs"
  have "hd ?t = hd cs \<and> cs \<noteq> []" if "?t \<noteq> []"
    using trim_prefix [of "quotes c q" cs] that by (metis hd_append2 prefixE prefix_bot.extremum_unique)
  with Step have "\<not> escaped c ?t" "\<not> (opens c ?t \<and> even q)"
    unfolding escaped_def opens_def by metis+
  with Step show ?case by (simp add: trim_Cons)
qed (simp_all add: trim_Cons)

lemma Split_nonempty [simp]: "Split sep s \<noteq> []"
  by (cases s) (auto split: list.splits)

lemma Split_word: "sep \<notin> set w \<Longrightarrow> Split sep w = [w]"
  by (induction w) auto

lemma Split_append: "sep \<notin> set w \<Longrightarrow> Split sep (w @ sep # s) = w # Split sep s"
  by (induction w) auto

lemma Split_Join: "ws \<noteq> [] \<Longrightarrow> \<forall>w \<in> set ws. sep \<notin> set w \<Longrightarrow> Split sep (Join sep ws) = ws"
  by (induction sep ws rule: Join.induct) (auto simp: Split_word Split_append)

lemma Join_Split: "Join sep (Split sep s) = s"
proof (induction s)
  case (Cons c s)
  then show ?case by (cases "Split sep s" rule: list.exhaust; cases "tl (Split sep s)") auto
qed simp

lemma Split_word_free: "w \<in> set (Split sep s) \<Longrightarrow> sep \<notin> set w"
proof (induction s arbitrary: w)
  case (Cons c s)
  then show ?case by (cases "Split sep s") (auto split: if_splits)
qed simp


section \<open>Properties\<close>

lemma comments_removed_exactly_parts:
  assumes "ls \<noteq> []" and "\<forall>(l, c) \<in> set ls. code_line l \<and> comment c \<and> CHR 0x0A \<notin> set (l @ c)"
  shows "trimComments (Join (CHR 0x0A) (map (\<lambda>(l, c). l @ c) ls)) = Join (CHR 0x0A) (map fst ls)"
    and "trimComments (trimComments data) = trimComments data"
    and "list_all2 prefix (Split (CHR 0x0A) (trimComments data)) (Split (CHR 0x0A) data)"
proof -
  have "Split (CHR 0x0A) (Join (CHR 0x0A) (map (\<lambda>(l, c). l @ c) ls)) = map (\<lambda>(l, c). l @ c) ls"
    using assms by (intro Split_Join) auto
  moreover have "trim_loop 0 (l @ c) = l" if "(l, c) \<in> set ls" for l c
    using assms(2) that trim_code_line by fastforce
  ultimately show "trimComments (Join (CHR 0x0A) (map (\<lambda>(l, c). l @ c) ls)) = Join (CHR 0x0A) (map fst ls)"
    by (auto simp: trimComments_def trimCommentsLine_def intro!: arg_cong [of _ _ "Join _"])
  have free: "CHR 0x0A \<notin> set (trim_loop 0 w)" if "w \<in> set (Split (CHR 0x0A) data)" for w
    using Split_word_free [OF that] set_mono_prefix [OF trim_prefix [of 0 w]] by blast
  then have sp: "Split (CHR 0x0A) (trimComments data) = map trimCommentsLine (Split (CHR 0x0A) data)"
    unfolding trimComments_def by (intro Split_Join) (auto simp: trimCommentsLine_def)
  have "map trimCommentsLine (map trimCommentsLine ws) = map trimCommentsLine ws" for ws
    by (simp add: trimCommentsLine_def trim_idem)
  then show "trimComments (trimComments data) = trimComments data"
    unfolding trimComments_def [of "trimComments data"] sp by (simp only: trimComments_def)
  show "list_all2 prefix (Split (CHR 0x0A) (trimComments data)) (Split (CHR 0x0A) data)"
    by (simp add: sp list.rel_map trimCommentsLine_def trim_prefix list.rel_refl)
qed

text \<open>
  C36: Taking the comments out of a configuration file takes out the comments and nothing else: if
  every line is made of plain characters and complete string literals, whatever the literals hold,
  followed by nothing or by a comment, then what is left is exactly the lines without their
  comments. Doing it again changes nothing, and for every text at all each line is cut, never
  altered.
\<close>

theorem comments_removed_exactly:
  assumes "ls \<noteq> []" and "\<forall>(l, c) \<in> set ls. code_line l \<and> comment c \<and> CHR 0x0A \<notin> set (l @ c)"
  shows "trimComments (Join (CHR 0x0A) (map (\<lambda>(l, c). l @ c) ls)) = Join (CHR 0x0A) (map fst ls) \<and>
    (\<forall>data. trimComments (trimComments data) = trimComments data \<and>
       list_all2 prefix (Split (CHR 0x0A) (trimComments data)) (Split (CHR 0x0A) data))"
  using comments_removed_exactly_parts [OF assms] by blast

theorem comments_removed_exactly_witness:
  "trimComments (Join (CHR 0x0A)
     [''path: '' @ CHR 0x22 # ''//a#b'' @ [CHR 0x22] @ '' // root'', ''# all'']) =
   Join (CHR 0x0A) [''path: '' @ CHR 0x22 # ''//a#b'' @ [CHR 0x22] @ '' '', '''']"
proof -
  have "literal_body ''//a#b''" by (auto intro!: literal_body.intros)
  from line_literal [OF this line_char [OF _ line_end, of "CHR '' ''"]]
  have "code_line (''path: '' @ CHR 0x22 # ''//a#b'' @ [CHR 0x22] @ '' '')"
    by (auto intro!: line_char)
  then show ?thesis
    using conjunct1 [OF comments_removed_exactly, of
      "[(''path: '' @ CHR 0x22 # ''//a#b'' @ [CHR 0x22] @ '' '', ''// root''), ('''', ''# all'')]"]
    by (auto simp: comment_def line_end)
qed

lemma configured_number_is_used_parts:
  assumes "- (2 ^ 31) \<le> n" and "n < 2 ^ 31"
  shows "GetIntValue (cfg(k \<mapsto> FormatInt n)) k d = n"
    and "cfg k = None \<Longrightarrow> GetIntValue cfg k d = d"
    and "GetIntValue cfg k d = d \<or> (- (2 ^ 31) \<le> GetIntValue cfg k d \<and> GetIntValue cfg k d < 2 ^ 31)"
proof -
  show "GetIntValue (cfg(k \<mapsto> FormatInt n)) k d = n"
    using assms ParseInt_FormatInt [of 32 n] by (simp add: GetIntValue_def cfg_at_def)
  show "GetIntValue cfg k d = d" if "cfg k = None"
    using that by (simp add: GetIntValue_def cfg_at_def ParseInt_def)
  show "GetIntValue cfg k d = d \<or> (- (2 ^ 31) \<le> GetIntValue cfg k d \<and> GetIntValue cfg k d < 2 ^ 31)"
    using ParseInt_range [of _ 32] by (auto simp: GetIntValue_def split: option.split)
qed

text \<open>
  A number written in the configuration is the number the client uses: a 32-bit integer in
  decimal notation is read back exactly, whatever the default; a value that is missing or not a
  number gives the default; and no text gives a number outside of 32 bits.
\<close>

theorem configured_number_is_used:
  assumes "- (2 ^ 31) \<le> n" and "n < 2 ^ 31"
  shows "GetIntValue (cfg(k \<mapsto> FormatInt n)) k d = n \<and>
    (cfg k = None \<longrightarrow> GetIntValue cfg k d = d) \<and>
    (GetIntValue cfg k d = d \<or> (- (2 ^ 31) \<le> GetIntValue cfg k d \<and> GetIntValue cfg k d < 2 ^ 31))"
  by (intro conjI impI configured_number_is_used_parts [OF assms])

theorem configured_number_is_used_witness:
  "GetIntValue [CfgRetryTimes \<mapsto> FormatInt 7] CfgRetryTimes 3 = 7 \<and> FormatInt (- 120) = ''-120'' \<and>
   GetIntValue Map.empty CfgRetryTimes 3 = 3"
proof -
  have "FormatInt (- 120) = ''-120''" by code_simp
  then show ?thesis
    using configured_number_is_used [of 7 Map.empty CfgRetryTimes 3] by simp
qed

text \<open>
  The address of the proxy after loading: whatever way a host was written, with or without the
  scheme and a slash at the end, the client uses \<^verbatim>\<open>http://host\<close>.
\<close>

lemma norm_host_forms:
  assumes "host \<noteq> []" and "\<not> prefix ''http:'' host" and "\<not> suffix ''/'' host"
  shows "norm_host host = ''http://'' @ host" "norm_host (''http://'' @ host) = ''http://'' @ host"
    and "norm_host (host @ ''/'') = ''http://'' @ host" "norm_host (''http://'' @ host @ ''/'') = ''http://'' @ host"
proof -
  have np: "\<not> prefix ''http://'' host" using assms(2) by (auto simp: prefix_def)
  have np': "\<not> prefix ''http://'' (host @ ''/'')"
  proof
    assume "prefix ''http://'' (host @ ''/'')"
    then obtain zs where "host @ ''/'' = ''http:/'' @ CHR ''/'' # zs" by (auto simp: prefix_def)
    then have "host = butlast (''http:/'' @ CHR ''/'' # zs)" by (metis butlast_snoc)
    then show False using assms(2) by (auto simp: prefix_def butlast_append)
  qed
  have "\<not> suffix ''/'' (''http://'' @ host)"
    using assms(1,3) by (cases host rule: rev_cases) (auto simp: suffix_def)
  with np np' assms show "norm_host host = ''http://'' @ host" "norm_host (''http://'' @ host) = ''http://'' @ host"
    "norm_host (host @ ''/'') = ''http://'' @ host" "norm_host (''http://'' @ host @ ''/'') = ''http://'' @ host"
    by (simp_all add: norm_host_def suffix_def)
qed


end
