(* ===== verification/Cfa_Gor.thy ===== *)
theory Cfa_Gor
  imports Cfa_Conf
begin

text \<open>
  Goroutines that run beside the calls of a component, and waiting for them (\<^verbatim>\<open>sync.WaitGroup\<close>): the loop of
  the expiry, which both caches have, workers that range over a channel, and \<^verbatim>\<open>wg.Wait\<close>. Who moves when is
  decided by the scheduler; it is a list of turns here, each with the time that the goroutine reads off
  the clock, and what holds is shown for every such list.
\<close>

section \<open>Loops\<close>

text \<open>
  Where a goroutine of expiry is: at the top of its outer loop, in the inner loop, or gone. The two
  caches hold the same text; what differs is one round of the inner loop. \<open>now\<close> is the time read off
  the clock, and the state holds \<^verbatim>\<open>lastCheckTime\<close>, the cache and the server.
\<close>

datatype expire_pc = ETop | ESweep | EEnd

definition expire_step ::
  "(int \<Rightarrow> 'c \<Rightarrow> 's \<Rightarrow> (bool \<times> 'c \<times> 's) go) \<Rightarrow> ('c \<Rightarrow> bool) \<Rightarrow> int \<Rightarrow> int \<Rightarrow>
   expire_pc \<times> int \<times> 'c \<times> 's \<Rightarrow> (expire_pc \<times> int \<times> 'c \<times> 's) go" where
  "expire_step round stop CheckGap now x =
     (case x of (q, lastCheckTime, cache, s) \<Rightarrow>
      case q of
        ETop \<Rightarrow>
          if stop cache then Ret (EEnd, lastCheckTime, cache, s)
          else if now - lastCheckTime < CheckGap then Ret (ETop, lastCheckTime, cache, s)
          else Ret (ESweep, lastCheckTime, cache, s)
      | ESweep \<Rightarrow>
          bindG (round now cache s) (\<lambda>(again, cache', s').
          Ret (if again then (ESweep, lastCheckTime, cache', s') else (ETop, now, cache', s')))
      | EEnd \<Rightarrow> Ret x)"

definition CfgRwCacheCheckGap :: string where "CfgRwCacheCheckGap = ''rw_cache_check_gap''"

definition CheckGap :: "Config \<Rightarrow> int" where
  "CheckGap cfg = 1000000 * GetIntValue cfg CfgRwCacheCheckGap 300"

text \<open>The goroutines of a cache: an expiry with its \<^verbatim>\<open>lastCheckTime\<close>, or a worker that still ranges over its channel or not.\<close>

datatype goroutine = Expirer expire_pc int | Worker bool

fun gone :: "goroutine \<Rightarrow> bool" where
  "gone (Expirer q t) \<longleftrightarrow> q = EEnd"
| "gone (Worker running) \<longleftrightarrow> \<not> running"

fun gor_step ::
  "(int \<Rightarrow> 'c \<Rightarrow> 's \<Rightarrow> (bool \<times> 'c \<times> 's) go) \<Rightarrow> (int \<Rightarrow> 'c \<Rightarrow> 's \<Rightarrow> (bool \<times> 'c \<times> 's) go) \<Rightarrow> ('c \<Rightarrow> bool) \<Rightarrow> int \<Rightarrow>
   int \<Rightarrow> goroutine \<Rightarrow> 'c \<Rightarrow> 's \<Rightarrow> (goroutine \<times> 'c \<times> 's) go" where
  "gor_step expire work stop gap now (Expirer q t) c s =
     bindG (expire_step expire stop gap now (q, t, c, s)) (\<lambda>(q', t', c', s'). Ret (Expirer q' t', c', s'))"
| "gor_step expire work stop gap now (Worker running) c s =
     (if running then bindG (work now c s) (\<lambda>(running', c', s'). Ret (Worker running', c', s'))
      else Ret (Worker running, c, s))"

section \<open>Waiting\<close>

text \<open>
  A turn names a goroutine and a time; a goroutine that cannot go on spins, which changes nothing.
  \<^verbatim>\<open>wg.Wait\<close> returns when all goroutines are gone after the turns they got, and waits otherwise.
\<close>

type_synonym turns = "(nat \<times> int) list"

fun wg_run ::
  "(int \<Rightarrow> 'g \<Rightarrow> 'c \<Rightarrow> 's \<Rightarrow> ('g \<times> 'c \<times> 's) go) \<Rightarrow> turns \<Rightarrow> 'g list \<Rightarrow> 'c \<Rightarrow> 's \<Rightarrow> ('g list \<times> 'c \<times> 's) go" where
  "wg_run step [] gs c s = Ret (gs, c, s)"
| "wg_run step ((i, now) # turns) gs c s =
     (if i < length gs then
        case step now (gs ! i) c s of
          Ret (g, c', s') \<Rightarrow> wg_run step turns (gs[i := g]) c' s'
        | Block \<Rightarrow> wg_run step turns gs c s
        | Panic \<Rightarrow> Panic
      else wg_run step turns gs c s)"

definition wg_Wait ::
  "(int \<Rightarrow> 'g \<Rightarrow> 'c \<Rightarrow> 's \<Rightarrow> ('g \<times> 'c \<times> 's) go) \<Rightarrow> ('g \<Rightarrow> bool) \<Rightarrow> turns \<Rightarrow> 'g list \<Rightarrow> 'c \<Rightarrow> 's \<Rightarrow> ('c \<times> 's) go" where
  "wg_Wait step over turns gs c s =
     bindG (wg_run step turns gs c s) (\<lambda>(gs', c', s').
     if list_all over gs' then Ret (c', s') else Block)"

definition turns_of :: "nat \<Rightarrow> turns \<Rightarrow> nat" where
  "turns_of i turns = length (filter (\<lambda>t. fst t = i) turns)"

section \<open>Statistics\<close>

text \<open>The methods of the statistics are empty: they keep no state, and none of them fails.\<close>

datatype Statistic = Statistic

definition maxTimeoutLevel :: nat where "maxTimeoutLevel = 3"

definition NewStatistic :: "string \<Rightarrow> int \<Rightarrow> int \<Rightarrow> u32 list \<Rightarrow> bool \<Rightarrow> Statistic" where
  "NewStatistic logBase logMaxSize logMaxNum timeOutUs useMutex = Statistic"

definition CloseStat :: "Statistic \<Rightarrow> Statistic" where "CloseStat st = st"

definition BeginStat :: "int \<Rightarrow> Statistic \<Rightarrow> int" where "BeginStat now st = now"

definition EndStat :: "string \<Rightarrow> go_error option \<Rightarrow> int \<Rightarrow> u32 \<Rightarrow> Statistic \<Rightarrow> go_error option \<times> Statistic" where
  "EndStat typeName err bgTime statCount st = (None, st)"

definition WriteStat :: "Statistic \<Rightarrow> go_error option \<times> Statistic" where "WriteStat st = (None, st)"

definition ClearStat :: "Statistic \<Rightarrow> go_error option \<times> Statistic" where "ClearStat st = (None, st)"

definition StatBandWidth :: "string \<Rightarrow> u32 \<Rightarrow> Statistic \<Rightarrow> Statistic" where "StatBandWidth typeName Size st = st"

text \<open>
  \<^verbatim>\<open>StatTo\<close>, the goroutine of the statistics, does not start its loop when the gap is zero. The flag tells
  whether it runs, the number is \<^verbatim>\<open>lastStatTime\<close>.
\<close>

type_synonym stat_loop = "bool \<times> int \<times> Statistic"

definition StatTo_start :: "Config \<Rightarrow> int \<Rightarrow> Statistic \<Rightarrow> stat_loop" where
  "StatTo_start cfg now st = (if GetIntValue cfg CfgStatGap 60 = 0 then (False, now, CloseStat st) else (True, now, st))"

section \<open>Unmounting\<close>

text \<open>The goroutines that unmounting finds, with the turns they get while it waits.\<close>

record Waits =
  wt_cfg :: Config
  wt_wgs :: "goroutine list"
  wt_wturns :: turns
  wt_rgs :: "goroutine list"
  wt_rturns :: turns
  wt_stats :: "stat_loop list"
  wt_sturns :: turns

text \<open>Nothing to wait for.\<close>

definition no_waits :: Waits where
  "no_waits = \<lparr> wt_cfg = Map.empty, wt_wgs = [], wt_wturns = [], wt_rgs = [], wt_rturns = [], wt_stats = [], wt_sturns = [] \<rparr>"

section \<open>What waiting comes to\<close>

text \<open>
  What the waiting relies on: a step keeps the invariant and does not panic. And for the end of
  it: in a calm state, at a time that is not too late, a goroutine that fits can move, then needs less turns
  than before, and the others do not need more.
\<close>

locale goroutines =
  fixes step :: "int \<Rightarrow> 'g \<Rightarrow> 'c \<Rightarrow> 's \<Rightarrow> ('g \<times> 'c \<times> 's) go" and over :: "'g \<Rightarrow> bool"
    and inv :: "'c \<Rightarrow> 's \<Rightarrow> bool" and calm :: "'c \<Rightarrow> bool" and timely :: "int \<Rightarrow> bool"
    and fits :: "'c \<Rightarrow> 'g \<Rightarrow> bool" and need :: "'c \<Rightarrow> 'g \<Rightarrow> nat"
  assumes step_inv: "inv c s \<Longrightarrow> okG True (step now g c s) (\<lambda>(g', c', s'). inv c' s')"
    and step_calm: "inv c s \<Longrightarrow> calm c \<Longrightarrow> timely now \<Longrightarrow> fits c g \<Longrightarrow>
      okG False (step now g c s) (\<lambda>(g', c', s'). calm c' \<and> fits c' g' \<and> need c' g' \<le> need c g - 1 \<and>
        (\<forall>h. (fits c h \<longrightarrow> fits c' h) \<and> need c' h \<le> need c h))"
    and over_need: "need c g = 0 \<Longrightarrow> over g"
begin

lemma run_inv: "inv c s \<Longrightarrow> okG True (wg_run step turns gs c s) (\<lambda>(gs', c', s'). inv c' s')"
proof (induction turns arbitrary: gs c s)
  case (Cons t turns)
  obtain i now where t: "t = (i, now)" by fastforce
  show ?case
  proof (cases "step now (gs ! i) c s")
    case (Ret x)
    then show ?thesis using Cons.IH okG_Ret [OF step_inv [OF Cons.prems] Ret] Cons.IH [OF Cons.prems] t by (cases x) auto
  qed (use Cons.IH [OF Cons.prems] step_inv [OF Cons.prems, of now "gs ! i"] t in auto)
qed simp

lemma Wait_inv: "inv c s \<Longrightarrow> okG True (wg_Wait step over turns gs c s) (\<lambda>(c', s'). inv c' s')"
  unfolding wg_Wait_def by (rule okG_bind [OF run_inv]) auto

lemma run_ends:
  assumes "inv c s" and "calm c" and "\<forall>t \<in> set turns. timely (snd t)"
    and "\<And>i. i < length gs \<Longrightarrow> fits c (gs ! i) \<and> need c (gs ! i) \<le> turns_of i turns"
  shows "okG False (wg_run step turns gs c s) (\<lambda>r. list_all over (fst r))"
  using assms
proof (induction turns arbitrary: gs c s)
  case Nil
  then have "over (gs ! i)" if "i < length gs" for i using that over_need by (auto simp: turns_of_def)
  then show ?case by (simp add: list_all_length)
next
  case (Cons t turns)
  obtain i now where t: "t = (i, now)" by fastforce
  show ?case
  proof (cases "i < length gs")
    case False
    have "need c (gs ! j) \<le> turns_of j turns" if "j < length gs" for j
      using Cons.prems(4) [OF that] t False that by (auto simp: turns_of_def)
    then show ?thesis using Cons.IH [OF Cons.prems(1,2)] Cons.prems(3,4) t False by auto
  next
    case True
    note calm = step_calm [OF Cons.prems(1,2), of now "gs ! i"]
    obtain g c' s' where x: "step now (gs ! i) c s = Ret (g, c', s')" and c': "calm c'" "fits c' g" "need c' g \<le> need c (gs ! i) - 1"
        "\<And>h. fits c h \<Longrightarrow> fits c' h" "\<And>h. need c' h \<le> need c h"
      using calm Cons.prems(3,4) True t by (fastforce simp: okG_returns)
    have i': "inv c' s'" using okG_Ret [OF step_inv [OF Cons.prems(1)] x] by simp
    have "fits c' (gs[i := g] ! j) \<and> need c' (gs[i := g] ! j) \<le> turns_of j turns" if "j < length (gs[i := g])" for j
    proof (cases "j = i")
      case True
      then show ?thesis using c'(2,3) Cons.prems(4) [of i] t \<open>i < length gs\<close> by (auto simp: turns_of_def)
    next
      case False
      then show ?thesis using c'(4,5) [of "gs ! j"] Cons.prems(4) [of j] t that by (auto simp: turns_of_def)
    qed
    then have "okG False (wg_run step turns (gs[i := g]) c' s') (\<lambda>r. list_all over (fst r))"
      using Cons.prems(3) by (intro Cons.IH [OF i' c'(1)]) auto
    then show ?thesis using t x True by simp
  qed
qed

text \<open>With enough turns in time the waiting returns.\<close>

lemma Wait_ends:
  assumes "inv c s" and "calm c" and "\<forall>t \<in> set turns. timely (snd t)"
    and "\<And>i. i < length gs \<Longrightarrow> fits c (gs ! i) \<and> need c (gs ! i) \<le> turns_of i turns"
  shows "okG False (wg_Wait step over turns gs c s) (\<lambda>(c', s'). inv c' s')"
proof -
  obtain gs' c' s' where r: "wg_run step turns gs c s = Ret (gs', c', s')" "list_all over gs'"
    using run_ends [OF assms] by (auto simp: okG_returns)
  then show ?thesis using okG_Ret [OF run_inv [OF assms(1)] r(1)] by (simp add: wg_Wait_def)
qed

end

end
