(* ===== verification/Cfa_RCache.thy ===== *)
theory Cfa_RCache
  imports Cfa_Pool Cfa_IO Cfa_Gor
begin

text \<open>
  The read cache, \<^verbatim>\<open>lib/libfs/rcache.go\<close>: whole blocks that a prefetch goroutine has read from the
  server. The buffers of the cache are filled only by prefetching; a read takes the block from its
  buffer or goes to the server, and a write drops the buffers of its blocks.
\<close>

section \<open>State\<close>

text \<open>\<^verbatim>\<open>chPrefetch\<close> is the queue of a buffered channel of capacity \<^verbatim>\<open>PrefetchRoutine\<close>, \<^const>\<open>None\<close> when it is \<^verbatim>\<open>nil\<close>.\<close>

record RCache = CacheCore +
  rc_PrefetchRoutine :: nat
  rc_PrefetchTimes :: int
  rc_chPrefetch :: "RWBlockOp list option"
  rc_chClosed :: bool

definition NewRCache :: "nat \<Rightarrow> int \<Rightarrow> nat \<Rightarrow> int \<Rightarrow> RCache" where
  "NewRCache BufferMax ExpireTime PrefetchRoutine PrefetchTimes =
     \<lparr> cc_BufferMax = int BufferMax, cc_FreeList = [0..<BufferMax], cc_Cache = [], cc_LruList = [],
       cc_ExpireTime = ExpireTime, cc_Stop = False, cc_heap = pool_store BufferMax,
       rc_PrefetchRoutine = PrefetchRoutine, rc_PrefetchTimes = PrefetchTimes,
       rc_chPrefetch = (if PrefetchRoutine > 0 then Some [] else None),
       rc_chClosed = False \<rparr>"

definition chPrefetch_send :: "RWBlockOp \<Rightarrow> RCache \<Rightarrow> RCache go" where
  "chPrefetch_send bop cache =
     (case rc_chPrefetch cache of
        None \<Rightarrow> Block
      | Some q \<Rightarrow>
          if rc_chClosed cache then Panic
          else if length q < rc_PrefetchRoutine cache then Ret (cache\<lparr> rc_chPrefetch := Some (q @ [bop]) \<rparr>)
          else Block)"

text \<open>
  The pool of buffers, the LRU list and the table of the files: \<^verbatim>\<open>rcache.go\<close> repeats these operations of
  \<^verbatim>\<open>wcache.go\<close> line by line, so they are the operations of \<^theory_text>\<open>Cfa_Pool\<close> at the type of this cache.
\<close>

abbreviation RCache_AllocBuffer :: "FileEntry \<Rightarrow> u64 \<Rightarrow> RCache \<Rightarrow> (nat option \<times> RCache) go" where
  "RCache_AllocBuffer \<equiv> AllocBuffer"

abbreviation RCache_FreeBuffer :: "nat \<Rightarrow> RCache \<Rightarrow> RCache" where
  "RCache_FreeBuffer \<equiv> FreeBuffer"

abbreviation RCache_DoLru :: "int \<Rightarrow> nat \<Rightarrow> RCache \<Rightarrow> RCache go" where
  "RCache_DoLru \<equiv> DoLru"

abbreviation RCache_RemoveLru :: "nat \<Rightarrow> RCache \<Rightarrow> RCache go" where
  "RCache_RemoveLru \<equiv> RemoveLru"

abbreviation RCache_LruExpire :: "int \<Rightarrow> RCache \<Rightarrow> (FileEntry option \<times> u64 \<times> RCache) go" where
  "RCache_LruExpire \<equiv> LruExpire"

abbreviation RCache_GetFileBuffer :: "FileEntry \<Rightarrow> bool \<Rightarrow> RCache \<Rightarrow> u64 option \<times> RCache" where
  "RCache_GetFileBuffer \<equiv> GetFileBuffer"

abbreviation RCache_DetachFileBuffer :: "FileEntry \<Rightarrow> RCache \<Rightarrow> RCache" where
  "RCache_DetachFileBuffer \<equiv> DetachFileBuffer"

section \<open>Operations\<close>

definition DirectRead ::
  "'s poster \<Rightarrow> ProxyClient \<Rightarrow> 's \<Rightarrow> FileEntry \<Rightarrow> byte list \<Rightarrow> u64 \<Rightarrow> 's \<times> byte list \<times> int \<times> go_error option" where
  "DirectRead post pc s fe buffer offset = Reader_Read post pc s (fe_Id fe) buffer offset"

text \<open>\<^verbatim>\<open>ReadOp\<close> fills \<^verbatim>\<open>op.rwBuf\<close>; the result is the size, the error, the buffer and the state.\<close>

definition ReadOp ::
  "'s poster \<Rightarrow> ProxyClient \<Rightarrow> FileEntry \<Rightarrow> u64 \<Rightarrow> RWBlockOp \<Rightarrow> RCache \<Rightarrow> 's \<Rightarrow>
   (int \<times> go_error option \<times> byte list \<times> 's) go" where
  "ReadOp post pc fe fileBuf bop cache s =
     bindG (the_fb fileBuf cache) (\<lambda>fb.
     case GetBuffer (op_Index bop) fb of
       None \<Rightarrow>
         (case DirectRead post pc s fe (op_rwBuf bop) (Op_GetFileOffset bop) of
            (s', buf, rsize, err) \<Rightarrow> Ret (rsize, err, buf, s'))
     | Some b \<Rightarrow>
         bindG (index_at (cc_heap cache) b) (\<lambda>buffer.
         bindG (Assert (buf_Offset buffer = 0 \<and> buf_Len buffer \<noteq> 0)) (\<lambda>_.
         if op_RwOffset bop \<ge> buf_Len buffer then Ret (0, None, op_rwBuf bop, s)
         else
           let Size0 = buf_Len buffer - op_RwOffset bop;
               Size = (if Size0 > op_RwSize bop then op_RwSize bop else Size0)
           in
           bindG (GetRangeData (op_RwOffset bop) (op_RwOffset bop + Size) buffer) (\<lambda>data.
           Ret (int (unat Size), None, copy_at 0 data (op_rwBuf bop), s)))))"

definition GetReadWindow :: "FileEntry \<Rightarrow> u32 \<Rightarrow> u64 \<Rightarrow> PrefetchWindow go" where
  "GetReadWindow fe Size offset =
     (let BlockSize = ucast (fe_BlockSize fe) :: u64 in
      bindG (Assert (BlockSize \<noteq> 0)) (\<lambda>_.
      Ret \<lparr> BlkStart = offset div BlockSize,
            BlkEnd = (offset + ucast Size + BlockSize - 1) div BlockSize \<rparr>))"

text \<open>The loop that pushes the blocks of the window into the channel, each locked for the receiver.\<close>

definition prefetch_op :: "FileEntry \<Rightarrow> u64 \<Rightarrow> RWBlockOp" where
  "prefetch_op fe blk =
     \<lparr> op_fe = fe, op_Index = blk, op_RwOffset = 0, op_RwSize = fe_BlockSize fe,
       op_rwBuf = replicate (unat (fe_BlockSize fe)) 0 \<rparr>"

definition push_prefetch :: "u64 \<Rightarrow> u64 \<Rightarrow> RCache \<Rightarrow> RCache go" where
  "push_prefetch fileBuf blk cache =
     bindG (the_fb fileBuf cache) (\<lambda>fb.
     let bop = prefetch_op (fb_fe fb) blk in
     bindG (on_fb fileBuf (LockBuffer (op_Index bop)) cache) (\<lambda>cache1.
     bindG (the_fb fileBuf cache1) (\<lambda>fb1.
     if GetBuffer (op_Index bop) fb1 \<noteq> None
     then on_fb fileBuf (UnLockBuffer (op_Index bop)) cache1
     else chPrefetch_send bop cache1)))"

function DoPrefetch_loop :: "u64 \<Rightarrow> u64 \<Rightarrow> u64 \<Rightarrow> RCache \<Rightarrow> RCache go" where
  "DoPrefetch_loop fileBuf blkStart blkEnd cache =
     (if blkStart < blkEnd then
        bindG (push_prefetch fileBuf blkStart cache) (\<lambda>cache1.
        DoPrefetch_loop fileBuf (blkStart + 1) blkEnd cache1)
      else Ret cache)"
  by pat_completeness auto
termination
  by (relation "measure (\<lambda>(_, a, b, _). unat b - unat a)")
     (auto simp: word_less_nat_alt unat_inc)

declare DoPrefetch_loop.simps [simp del]

definition DoPrefetch :: "u64 \<Rightarrow> u32 \<Rightarrow> u64 \<Rightarrow> RCache \<Rightarrow> RCache go" where
  "DoPrefetch fileBuf Size offset cache =
     bindG (Assert (rc_chPrefetch cache \<noteq> None)) (\<lambda>_.
     bindG (the_fb fileBuf cache) (\<lambda>fb.
     bindG (GetReadWindow (fb_fe fb) Size offset) (\<lambda>rw.
     bindG (pw_Size rw) (\<lambda>rwsize.
     bindG (Assert (rwsize > 0)) (\<lambda>_.
     bindG (if BlkStart rw = 0 then pw_Size (fb_pw fb) else Ret 1) (\<lambda>pwsize.
     if BlkStart rw = 0 \<and> pwsize = 0 then
       let pw = pw_Extend (word_of_int (rc_PrefetchTimes cache)) (pw_Move rw) in
       bindG (on_fb fileBuf (\<lambda>fb. Ret (fb\<lparr> fb_pw := pw \<rparr>)) cache) (\<lambda>cache1.
       DoPrefetch_loop fileBuf (BlkStart pw) (BlkEnd pw) cache1)
     else if pw_Cross rw (fb_pw fb) then
       bindG (pw_Size (fb_pw fb)) (\<lambda>n.
       bindG (Assert (n > 0)) (\<lambda>_.
       let pw = pw_Move (fb_pw fb) in
       bindG (on_fb fileBuf (\<lambda>fb. Ret (fb\<lparr> fb_pw := pw \<rparr>)) cache) (\<lambda>cache1.
       DoPrefetch_loop fileBuf (BlkStart pw) (BlkEnd pw) cache1)))
     else Ret cache))))))"

definition TryDoPrefetch :: "u64 \<Rightarrow> u32 \<Rightarrow> u64 \<Rightarrow> RCache \<Rightarrow> RCache go" where
  "TryDoPrefetch fileBuf Size offset cache =
     (if rc_chPrefetch cache \<noteq> None then DoPrefetch fileBuf Size offset cache else Ret cache)"

definition ReleaseBuffer :: "u64 \<Rightarrow> u64 \<Rightarrow> RCache \<Rightarrow> (go_error option \<times> RCache) go" where
  "ReleaseBuffer fileBuf Index cache =
     bindG (on_fb fileBuf (LockBuffer Index) cache) (\<lambda>cache1.
     bindG (the_fb fileBuf cache1) (\<lambda>fb.
     bindG
       (case GetBuffer Index fb of
          None \<Rightarrow> Ret cache1
        | Some b \<Rightarrow>
            bindG (RCache_RemoveLru b cache1) (\<lambda>cache2.
            bindG (on_fb fileBuf (\<lambda>fb. Ret (DetachBuffer Index fb)) cache2) (\<lambda>cache3.
            Ret (RCache_FreeBuffer b cache3)))) (\<lambda>cache4.
     bindG (on_fb fileBuf (UnLockBuffer Index) cache4) (\<lambda>cache5. Ret (None, cache5)))))"

fun release_each :: "u64 \<Rightarrow> u64 list \<Rightarrow> RCache \<Rightarrow> (go_error option \<times> RCache) go" where
  "release_each fileBuf [] cache = Ret (None, cache)"
| "release_each fileBuf (Index # rest) cache =
     bindG (ReleaseBuffer fileBuf Index cache) (\<lambda>(err, cache1).
     if err \<noteq> None then Ret (err, cache1) else release_each fileBuf rest cache1)"

definition Release :: "FileEntry \<Rightarrow> RCache \<Rightarrow> (go_error option \<times> RCache) go" where
  "Release fe cache =
     (case RCache_GetFileBuffer fe False cache of (fileBuf, cache0) \<Rightarrow>
      case fileBuf of
        None \<Rightarrow> Ret (None, cache0)
      | Some fileBuf \<Rightarrow>
          bindG (on_fb fileBuf fb_Wait cache0) (\<lambda>cache1.
          bindG (the_fb fileBuf cache1) (\<lambda>fb.
          release_each fileBuf (GetAllBufferIndex fb) cache1)))"

definition RCheckExpire_round :: "int \<Rightarrow> RCache \<Rightarrow> (bool \<times> RCache) go" where
  "RCheckExpire_round now cache =
     bindG (RCache_LruExpire now cache) (\<lambda>(fe, blkIdx, cache1).
     case fe of
       None \<Rightarrow> Ret (False, cache1)
     | Some fe \<Rightarrow>
         (case RCache_GetFileBuffer fe False cache1 of (fileBuf, cache2) \<Rightarrow>
          case fileBuf of
            None \<Rightarrow> Ret (True, cache2)
          | Some fileBuf \<Rightarrow>
              bindG (ReleaseBuffer fileBuf blkIdx cache2) (\<lambda>(err, cache3). Ret (True, cache3))))"

definition DoPrefetchRead ::
  "'s poster \<Rightarrow> ProxyClient \<Rightarrow> int \<Rightarrow> u64 \<Rightarrow> RWBlockOp \<Rightarrow> RCache \<Rightarrow> 's \<Rightarrow>
   (go_error option \<times> RCache \<times> 's) go" where
  "DoPrefetchRead post pc now fileBuf bop cache s =
     (case DirectRead post pc s (op_fe bop) (op_rwBuf bop) (Op_GetFileOffset bop) of (s', rwBuf, rsize, err) \<Rightarrow>
      if err \<noteq> None then Ret (err, cache, s')
      else if rsize = 0 then Ret (None, cache, s')
      else
        bindG (Assert (rsize > 0)) (\<lambda>_.
        bindG (RCache_AllocBuffer (op_fe bop) (op_Index bop) cache) (\<lambda>(buffer, cache1).
        case buffer of
          None \<Rightarrow> Ret (Some (ErrNew ''AllocRBuffer''), cache1, s')
        | Some b \<Rightarrow>
            bindG (on_buf b (Skip (op_RwOffset bop)) cache1) (\<lambda>cache2.
            bindG (index_at (cc_heap cache2) b) (\<lambda>buf2.
            bindG (Assert (CanMerge (op_RwOffset bop) buf2)) (\<lambda>_.
            bindG (on_buf b (MergeData now rwBuf) cache2) (\<lambda>cache3.
            bindG (on_fb fileBuf (AttachBuffer (op_Index bop) b) cache3) (\<lambda>cache4.
            bindG (RCache_DoLru now b cache4) (\<lambda>cache5.
            Ret (None, cache5, s'))))))))))"

definition PrefetchRead_round ::
  "'s poster \<Rightarrow> ProxyClient \<Rightarrow> int \<Rightarrow> RCache \<Rightarrow> 's \<Rightarrow> (bool \<times> RCache \<times> 's) go" where
  "PrefetchRead_round post pc now cache s =
     (case rc_chPrefetch cache of
        None \<Rightarrow> Block
      | Some [] \<Rightarrow> if rc_chClosed cache then Ret (False, cache, s) else Block
      | Some (bop # q) \<Rightarrow>
          (case RCache_GetFileBuffer (op_fe bop) False (cache\<lparr> rc_chPrefetch := Some q \<rparr>) of (fileBuf, cache1) \<Rightarrow>
           bindG (Assert (fileBuf \<noteq> None)) (\<lambda>_.
           bindG (DoPrefetchRead post pc now (the fileBuf) bop cache1 s) (\<lambda>(err, cache2, s').
           bindG (on_fb (the fileBuf) (UnLockBuffer (op_Index bop)) cache2) (\<lambda>cache3.
           Ret (True, cache3, s'))))))"

function Clean_loop :: "u64 \<Rightarrow> u64 \<Rightarrow> u64 \<Rightarrow> RCache \<Rightarrow> RCache go" where
  "Clean_loop fileBuf blkStart blkEnd cache =
     (if blkStart < blkEnd then
        bindG (ReleaseBuffer fileBuf blkStart cache) (\<lambda>(_, cache1).
        Clean_loop fileBuf (blkStart + 1) blkEnd cache1)
      else Ret cache)"
  by pat_completeness auto
termination
  by (relation "measure (\<lambda>(_, a, b, _). unat b - unat a)")
     (auto simp: word_less_nat_alt unat_inc)

declare Clean_loop.simps [simp del]

definition Clean :: "FileEntry \<Rightarrow> int \<Rightarrow> u64 \<Rightarrow> RCache \<Rightarrow> (go_error option \<times> RCache) go" where
  "Clean fe Size offset cache =
     (case RCache_GetFileBuffer fe False cache of (fileBuf, cache0) \<Rightarrow>
      case fileBuf of
        None \<Rightarrow> Ret (None, cache0)
      | Some fileBuf \<Rightarrow>
          bindG (GetReadWindow fe (word_of_int Size) offset) (\<lambda>rw.
          bindG (pw_Size rw) (\<lambda>n.
          bindG (Assert (n > 0)) (\<lambda>_.
          bindG (Clean_loop fileBuf (BlkStart rw) (BlkEnd rw) cache0) (\<lambda>cache1.
          Ret (None, cache1))))))"

definition RCache_Close :: "FileEntry \<Rightarrow> RCache \<Rightarrow> (go_error option \<times> RCache) go" where
  "RCache_Close fe cache =
     bindG (Release fe cache) (\<lambda>(err, cache1).
     if err \<noteq> None then Ret (err, cache1) else Ret (None, RCache_DetachFileBuffer fe cache1))"

fun RClose_each :: "FileEntry list \<Rightarrow> RCache \<Rightarrow> RCache go" where
  "RClose_each [] cache = Ret cache"
| "RClose_each (fe # rest) cache = bindG (RCache_Close fe cache) (\<lambda>(err, cache1). RClose_each rest cache1)"

text \<open>The goroutines of the read cache: \<^verbatim>\<open>CheckExpire\<close> and \<^verbatim>\<open>PrefetchRead\<close>.\<close>

definition RCheckExpire_work :: "int \<Rightarrow> RCache \<Rightarrow> 's \<Rightarrow> (bool \<times> RCache \<times> 's) go" where
  "RCheckExpire_work now cache s = bindG (RCheckExpire_round now cache) (\<lambda>(again, cache'). Ret (again, cache', s))"

definition RCache_gor ::
  "'s poster \<Rightarrow> ProxyClient \<Rightarrow> Config \<Rightarrow> int \<Rightarrow> goroutine \<Rightarrow> RCache \<Rightarrow> 's \<Rightarrow> (goroutine \<times> RCache \<times> 's) go" where
  "RCache_gor post pc cfg = gor_step RCheckExpire_work (PrefetchRead_round post pc) cc_Stop (CheckGap cfg)"

definition RCache_CloseAll :: "Waits \<Rightarrow> 's poster \<Rightarrow> ProxyClient \<Rightarrow> RCache \<Rightarrow> 's \<Rightarrow> (RCache \<times> 's) go" where
  "RCache_CloseAll wt post pc cache s =
     bindG (if rc_chPrefetch cache \<noteq> None
            then if rc_chClosed cache then Panic else Ret (cache\<lparr> rc_chClosed := True \<rparr>)
            else Ret cache) (\<lambda>cache1.
     let cache2 = cache1\<lparr> cc_Stop := True \<rparr>
     in bindG (RClose_each (map (fb_fe \<circ> snd) (cc_Cache cache2)) cache2) (\<lambda>cache3.
        wg_Wait (RCache_gor post pc (wt_cfg wt)) gone (wt_rturns wt) (wt_rgs wt) cache3 s))"

end
