(* ===== verification/Cfa_WCache.thy ===== *)
theory Cfa_WCache
  imports Cfa_Pool Cfa_IO Cfa_Gor
begin

text \<open>
  The write-back cache, \<^verbatim>\<open>lib/libfs/wcache.go\<close>. A write is cut into block operations; each either goes
  to the server at once or is merged into the buffer of its block, which reaches the server when it
  is full, when it expires, or when the file is flushed. The state of the cache is passed together
  with the state \<open>s\<close> of the server. The properties are about \<open>wview\<close>, the content a client of the cache
  sees: the cached bytes over the bytes of the server.
\<close>

section \<open>State\<close>

text \<open>
  \<^verbatim>\<open>chSync\<close> is the queue of a buffered channel of capacity \<^verbatim>\<open>SyncRoutine\<close>, \<^const>\<open>None\<close> when it is \<^verbatim>\<open>nil\<close>;
  its elements are pointers to buffers.
\<close>

record WCache = CacheCore +
  wc_SyncRoutine :: nat
  wc_chSync :: "nat list option"
  wc_chClosed :: bool

definition NewWCache :: "nat \<Rightarrow> int \<Rightarrow> nat \<Rightarrow> WCache" where
  "NewWCache BufferMax ExpireTime SyncRoutine =
     \<lparr> cc_BufferMax = int BufferMax, cc_FreeList = [0..<BufferMax], cc_Cache = [], cc_LruList = [],
       cc_ExpireTime = ExpireTime, cc_Stop = False, cc_heap = pool_store BufferMax,
       wc_SyncRoutine = SyncRoutine,
       wc_chSync = (if SyncRoutine > 0 then Some [] else None),
       wc_chClosed = False \<rparr>"

text \<open>
  Sending on the channel: on a \<^verbatim>\<open>nil\<close> channel it never returns, on a closed one it panics, on a full one
  it waits for a receiver.
\<close>

definition chSync_send :: "nat \<Rightarrow> WCache \<Rightarrow> WCache go" where
  "chSync_send b cache =
     (case wc_chSync cache of
        None \<Rightarrow> Block
      | Some q \<Rightarrow>
          if wc_chClosed cache then Panic
          else if length q < wc_SyncRoutine cache then Ret (cache\<lparr> wc_chSync := Some (q @ [b]) \<rparr>)
          else Block)"

section \<open>Operations\<close>

definition SyncIo :: "WCache \<Rightarrow> bool" where
  "SyncIo cache \<longleftrightarrow> wc_chSync cache = None"

definition DirectWrite ::
  "'s poster \<Rightarrow> ProxyClient \<Rightarrow> 's \<Rightarrow> FileEntry \<Rightarrow> byte list \<Rightarrow> u64 \<Rightarrow> 's \<times> int \<times> go_error option" where
  "DirectWrite post pc s fe buffer offset = Writer_Write post pc s (fe_Id fe) buffer offset"

text \<open>Writing the data of a buffer back to the server.\<close>

definition flush_data ::
  "'s poster \<Rightarrow> ProxyClient \<Rightarrow> 's \<Rightarrow> FileEntry \<Rightarrow> nat \<Rightarrow> WCache \<Rightarrow> ('s \<times> int \<times> go_error option) go" where
  "flush_data post pc s fe b cache =
     bindG (index_at (cc_heap cache) b) (\<lambda>buf.
     bindG (GetData buf) (\<lambda>data.
     bindG (Buffer_GetFileOffset buf) (\<lambda>offset.
     Ret (DirectWrite post pc s fe data offset))))"

text \<open>
  \<^verbatim>\<open>WriteOp\<close> returns whether the block lock is released by the caller (\<^verbatim>\<open>syncIo\<close>), the size and the
  error. Its three parts are: no buffer for the block, a buffer the data can be appended to, and a
  buffer that has to be written back first. \<open>now\<close> is the time read off the clock.
\<close>

type_synonym 's wresult = "((bool \<times> int \<times> go_error option) \<times> WCache \<times> 's) go"

definition op_direct ::
  "'s poster \<Rightarrow> ProxyClient \<Rightarrow> FileEntry \<Rightarrow> RWBlockOp \<Rightarrow> WCache \<Rightarrow> 's \<Rightarrow> 's wresult" where
  "op_direct post pc fe bop cache s =
     (case DirectWrite post pc s fe (op_rwBuf bop) (Op_GetFileOffset bop) of
        (s', wsize, err) \<Rightarrow> Ret ((True, wsize, err), cache, s'))"

definition WriteOp_new ::
  "'s poster \<Rightarrow> ProxyClient \<Rightarrow> int \<Rightarrow> FileEntry \<Rightarrow> u64 \<Rightarrow> RWBlockOp \<Rightarrow> WCache \<Rightarrow> 's \<Rightarrow> 's wresult" where
  "WriteOp_new post pc now fe fileBuf bop cache s =
     bindG (Op_IsFull bop) (\<lambda>full.
     if full \<and> SyncIo cache then op_direct post pc fe bop cache s
     else
       bindG (AllocBuffer fe (op_Index bop) cache) (\<lambda>(buffer, cache1).
       case buffer of
         None \<Rightarrow> op_direct post pc fe bop cache1 s
       | Some b \<Rightarrow>
           bindG (on_buf b (Skip (op_RwOffset bop)) cache1) (\<lambda>cache2.
           bindG (index_at (cc_heap cache2) b) (\<lambda>buf2.
           bindG (Assert (CanMerge (op_RwOffset bop) buf2)) (\<lambda>_.
           bindG (on_buf b (MergeData now (op_rwBuf bop)) cache2) (\<lambda>cache3.
           bindG (on_fb fileBuf (AttachBuffer (op_Index bop) b) cache3) (\<lambda>cache4.
           bindG (index_at (cc_heap cache4) b) (\<lambda>buf4.
           bindG (Buffer_IsFull (fe_BlockSize fe) buf4) (\<lambda>bfull.
           if bfull then
             bindG (Op_IsFull bop) (\<lambda>ofull.
             bindG (Assert (ofull \<and> \<not> SyncIo cache4)) (\<lambda>_.
             bindG (chSync_send b cache4) (\<lambda>cache5.
             Ret ((False, int (unat (op_RwSize bop)), None), cache5, s))))
           else
             bindG (DoLru now b cache4) (\<lambda>cache5.
             Ret ((True, int (unat (op_RwSize bop)), None), cache5, s)))))))))))"

definition WriteOp_merge ::
  "'s poster \<Rightarrow> ProxyClient \<Rightarrow> int \<Rightarrow> FileEntry \<Rightarrow> u64 \<Rightarrow> nat \<Rightarrow> RWBlockOp \<Rightarrow> WCache \<Rightarrow> 's \<Rightarrow> 's wresult" where
  "WriteOp_merge post pc now fe fileBuf b bop cache s =
     bindG (on_buf b (MergeData now (op_rwBuf bop)) cache) (\<lambda>cache1.
     bindG (index_at (cc_heap cache1) b) (\<lambda>buf1.
     bindG (Buffer_IsFull (fe_BlockSize fe) buf1) (\<lambda>bfull.
     if bfull then
       if \<not> SyncIo cache1 then
         bindG (chSync_send b cache1) (\<lambda>cache2.
         Ret ((False, int (unat (op_RwSize bop)), None), cache2, s))
       else
         bindG (flush_data post pc s fe b cache1) (\<lambda>(s', wsize, err).
         if err \<noteq> None then
           bindG (DoLru now b cache1) (\<lambda>cache2. Ret ((True, wsize, err), cache2, s'))
         else
           bindG (on_fb fileBuf (\<lambda>fb. Ret (DetachBuffer (op_Index bop) fb)) cache1) (\<lambda>cache2.
           Ret ((True, int (unat (op_RwSize bop)), None), FreeBuffer b cache2, s')))
     else
       bindG (DoLru now b cache1) (\<lambda>cache2.
       Ret ((True, int (unat (op_RwSize bop)), None), cache2, s)))))"

definition WriteOp_replace ::
  "'s poster \<Rightarrow> ProxyClient \<Rightarrow> int \<Rightarrow> FileEntry \<Rightarrow> u64 \<Rightarrow> nat \<Rightarrow> RWBlockOp \<Rightarrow> WCache \<Rightarrow> 's \<Rightarrow> 's wresult" where
  "WriteOp_replace post pc now fe fileBuf b bop cache s =
     bindG (flush_data post pc s fe b cache) (\<lambda>(s', wsize, err).
     if err \<noteq> None then
       bindG (DoLru now b cache) (\<lambda>cache1. Ret ((True, wsize, err), cache1, s'))
     else
       bindG (Op_IsFull bop) (\<lambda>full.
       if full then
         bindG (on_fb fileBuf (\<lambda>fb. Ret (DetachBuffer (op_Index bop) fb)) cache) (\<lambda>cache1.
         op_direct post pc fe bop (FreeBuffer b cache1) s')
       else
         bindG (on_buf b (ReSet fe (op_Index bop)) cache) (\<lambda>cache1.
         bindG (on_buf b (Skip (op_RwOffset bop)) cache1) (\<lambda>cache2.
         bindG (index_at (cc_heap cache2) b) (\<lambda>buf2.
         bindG (Assert (CanMerge (op_RwOffset bop) buf2)) (\<lambda>_.
         bindG (on_buf b (MergeData now (op_rwBuf bop)) cache2) (\<lambda>cache3.
         bindG (DoLru now b cache3) (\<lambda>cache4.
         Ret ((True, int (unat (op_RwSize bop)), None), cache4, s')))))))))"

definition WriteOp ::
  "'s poster \<Rightarrow> ProxyClient \<Rightarrow> int \<Rightarrow> FileEntry \<Rightarrow> u64 \<Rightarrow> RWBlockOp \<Rightarrow> WCache \<Rightarrow> 's \<Rightarrow> 's wresult" where
  "WriteOp post pc now fe fileBuf bop cache s =
     bindG (the_fb fileBuf cache) (\<lambda>fb.
     case GetBuffer (op_Index bop) fb of
       None \<Rightarrow> WriteOp_new post pc now fe fileBuf bop cache s
     | Some b \<Rightarrow>
         bindG (RemoveLru b cache) (\<lambda>cache1.
         bindG (index_at (cc_heap cache1) b) (\<lambda>buf1.
         if CanMerge (op_RwOffset bop) buf1
         then WriteOp_merge post pc now fe fileBuf b bop cache1 s
         else WriteOp_replace post pc now fe fileBuf b bop cache1 s)))"

text \<open>
  \<^verbatim>\<open>MergeOp\<close> copies the cached bytes over what was read from the server into \<^verbatim>\<open>op.rwBuf\<close> and returns the
  number of valid bytes, and the buffer.
\<close>

definition MergeOp :: "WCache \<Rightarrow> u64 \<Rightarrow> RWBlockOp \<Rightarrow> int \<Rightarrow> (int \<times> byte list) go" where
  "MergeOp cache fileBuf bop dataSize =
     bindG (Assert (dataSize \<le> int (unat (op_RwSize bop)))) (\<lambda>_.
     bindG (the_fb fileBuf cache) (\<lambda>fb.
     case GetBuffer (op_Index bop) fb of
       None \<Rightarrow>
         if dataSize < int (unat (op_RwSize bop)) \<and> op_Index bop < UpperIdx fb
         then Ret (int (unat (op_RwSize bop)), op_rwBuf bop)
         else Ret (dataSize, op_rwBuf bop)
     | Some b \<Rightarrow>
         bindG (index_at (cc_heap cache) b) (\<lambda>buffer.
         if buf_Offset buffer + buf_Len buffer \<le> op_RwOffset bop \<or>
            op_RwOffset bop + op_RwSize bop \<le> buf_Offset buffer
         then
           if dataSize < int (unat (op_RwSize bop)) \<and> op_RwOffset bop < buf_Offset buffer
           then Ret (int (unat (op_RwSize bop)), op_rwBuf bop)
           else Ret (dataSize, op_rwBuf bop)
         else
           let cpOffset = (if op_RwOffset bop > buf_Offset buffer then op_RwOffset bop else buf_Offset buffer);
               cpTailOffset =
                 (if op_RwOffset bop + op_RwSize bop < buf_Offset buffer + buf_Len buffer
                  then op_RwOffset bop + op_RwSize bop
                  else buf_Offset buffer + buf_Len buffer)
           in
           bindG (Assert (cpOffset < cpTailOffset)) (\<lambda>_.
           bindG (Assert (cpTailOffset \<le> op_RwOffset bop + op_RwSize bop)) (\<lambda>_.
           bindG (GetRangeData cpOffset cpTailOffset buffer) (\<lambda>data.
           bindG (go_copy (unat (cpOffset - op_RwOffset bop)) data (op_rwBuf bop)) (\<lambda>rwBuf.
           if dataSize < int (unat (cpTailOffset - op_RwOffset bop))
           then Ret (int (unat (cpTailOffset - op_RwOffset bop)), rwBuf)
           else Ret (dataSize, rwBuf))))))))"

text \<open>\<^verbatim>\<open>Write\<close>: the operations in order, each under the lock of its block.\<close>

definition locked_WriteOp ::
  "'s poster \<Rightarrow> ProxyClient \<Rightarrow> int \<Rightarrow> FileEntry \<Rightarrow> u64 \<Rightarrow> RWBlockOp \<Rightarrow> WCache \<Rightarrow> 's \<Rightarrow>
   ((int \<times> go_error option) \<times> WCache \<times> 's) go" where
  "locked_WriteOp post pc now fe fileBuf bop cache s =
     bindG (on_fb fileBuf (LockBuffer (op_Index bop)) cache) (\<lambda>cache1.
     bindG (WriteOp post pc now fe fileBuf bop cache1 s) (\<lambda>((syncIo, wsize, err), cache2, s').
     bindG (if syncIo then on_fb fileBuf (UnLockBuffer (op_Index bop)) cache2 else Ret cache2) (\<lambda>cache3.
     Ret ((wsize, err), cache3, s'))))"

fun Write_loop ::
  "'s poster \<Rightarrow> ProxyClient \<Rightarrow> int \<Rightarrow> FileEntry \<Rightarrow> u64 \<Rightarrow> RWBlockOp list \<Rightarrow> int \<Rightarrow> WCache \<Rightarrow> 's \<Rightarrow>
   ((int \<times> go_error option) \<times> WCache \<times> 's) go" where
  "Write_loop post pc now fe fileBuf [] wtSize cache s = Ret ((wtSize, None), cache, s)"
| "Write_loop post pc now fe fileBuf (bop # Ops) wtSize cache s =
     bindG (locked_WriteOp post pc now fe fileBuf bop cache s) (\<lambda>((wsize, err), cache1, s1).
     if err \<noteq> None then Ret ((wtSize, err), cache1, s1)
     else Write_loop post pc now fe fileBuf Ops (wtSize + wsize) cache1 s1)"

definition WCache_Write ::
  "'s poster \<Rightarrow> ProxyClient \<Rightarrow> int \<Rightarrow> FileEntry \<Rightarrow> byte list \<Rightarrow> u64 \<Rightarrow> WCache \<Rightarrow> 's \<Rightarrow>
   ((int \<times> go_error option) \<times> WCache \<times> 's) go" where
  "WCache_Write post pc now fe buffer offset cache s =
     (case GetFileBuffer fe True cache of (fileBuf, cache0) \<Rightarrow>
      bindG (Assert (fileBuf \<noteq> None)) (\<lambda>_.
      bindG (WSlice fe buffer offset) (\<lambda>Ops.
      bindG (Write_loop post pc now fe (the fileBuf) Ops 0 cache0 s) (\<lambda>((wtSize, err), cache1, s1).
      if err \<noteq> None then Ret ((wtSize, err), cache1, s1)
      else bindG (Assert (wtSize = int (length buffer))) (\<lambda>_. Ret ((wtSize, None), cache1, s1))))))"

text \<open>\<^verbatim>\<open>FlushBuffer\<close>: its body between taking the block lock and the deferred unlock, and the whole.\<close>

definition FlushBuffer_body ::
  "'s poster \<Rightarrow> ProxyClient \<Rightarrow> int \<Rightarrow> u64 \<Rightarrow> u64 \<Rightarrow> WCache \<Rightarrow> 's \<Rightarrow>
   (go_error option \<times> WCache \<times> 's) go" where
  "FlushBuffer_body post pc now fileBuf Index cache s =
     bindG (the_fb fileBuf cache) (\<lambda>fb.
     case GetBuffer Index fb of
       None \<Rightarrow> Ret (None, cache, s)
     | Some b \<Rightarrow>
         bindG (RemoveLru b cache) (\<lambda>cache2.
         bindG (index_at (cc_heap cache2) b) (\<lambda>buf.
         case buf_fe buf of
           None \<Rightarrow> Panic
         | Some fe \<Rightarrow>
             bindG (flush_data post pc s fe b cache2) (\<lambda>(s', wsize, err).
             case err of
               None \<Rightarrow>
                 bindG (on_fb fileBuf (\<lambda>fb. Ret (DetachBuffer Index fb)) cache2) (\<lambda>cache3.
                 Ret (None, FreeBuffer b cache3, s'))
             | Some e \<Rightarrow>
                 if e = Errno E_POSIX_ENOENT then
                   bindG (on_fb fileBuf (\<lambda>fb. Ret (DetachBuffer Index fb)) cache2) (\<lambda>cache3.
                   Ret (Some e, FreeBuffer b cache3, s'))
                 else
                   bindG (DoLru now b cache2) (\<lambda>cache3. Ret (Some e, cache3, s'))))))"

definition FlushBuffer ::
  "'s poster \<Rightarrow> ProxyClient \<Rightarrow> int \<Rightarrow> u64 \<Rightarrow> u64 \<Rightarrow> WCache \<Rightarrow> 's \<Rightarrow>
   (go_error option \<times> WCache \<times> 's) go" where
  "FlushBuffer post pc now fileBuf Index cache s =
     bindG (on_fb fileBuf (LockBuffer Index) cache) (\<lambda>cache1.
     bindG (FlushBuffer_body post pc now fileBuf Index cache1 s) (\<lambda>(err, cache2, s').
     bindG (on_fb fileBuf (UnLockBuffer Index) cache2) (\<lambda>cache3. Ret (err, cache3, s'))))"

text \<open>
  \<^verbatim>\<open>Flush\<close> hands the block indices to up to eight goroutines and collects one error per block. \<open>sched\<close> is
  the order in which the goroutines flush the blocks and \<open>recv\<close> the order in which the errors
  arrive; the last error that arrives is the result.
\<close>

fun flush_each ::
  "'s poster \<Rightarrow> ProxyClient \<Rightarrow> int \<Rightarrow> u64 \<Rightarrow> u64 list \<Rightarrow> WCache \<Rightarrow> 's \<Rightarrow>
   (go_error option list \<times> WCache \<times> 's) go" where
  "flush_each post pc now fileBuf [] cache s = Ret ([], cache, s)"
| "flush_each post pc now fileBuf (Index # rest) cache s =
     bindG (FlushBuffer post pc now fileBuf Index cache s) (\<lambda>(err, cache1, s1).
     bindG (flush_each post pc now fileBuf rest cache1 s1) (\<lambda>(errs, cache2, s2).
     Ret (err # errs, cache2, s2)))"

definition WCache_Flush ::
  "(u64 list \<Rightarrow> u64 list) \<Rightarrow> (go_error option list \<Rightarrow> go_error option list) \<Rightarrow>
   's poster \<Rightarrow> ProxyClient \<Rightarrow> int \<Rightarrow> FileEntry \<Rightarrow> WCache \<Rightarrow> 's \<Rightarrow> (go_error option \<times> WCache \<times> 's) go" where
  "WCache_Flush sched recv post pc now fe cache s =
     (case GetFileBuffer fe False cache of (fileBuf, cache0) \<Rightarrow>
      case fileBuf of
        None \<Rightarrow> Ret (None, cache0, s)
      | Some fileBuf \<Rightarrow>
          bindG (the_fb fileBuf cache0) (\<lambda>fb.
          let bufIndexS = GetAllBufferIndex fb in
          if length bufIndexS = 0 then Ret (None, cache0, s)
          else
            bindG (flush_each post pc now fileBuf (sched bufIndexS) cache0 s) (\<lambda>(errs, cache1, s1).
            Ret (foldl (\<lambda>flushErr err. if err \<noteq> None then err else flushErr) None (recv errs), cache1, s1))))"

text \<open>
  One round of the inner loop of \<^verbatim>\<open>CheckExpire\<close>: whether the loop goes on, and the state. The rounds end
  when nothing has expired.
\<close>

definition CheckExpire_round ::
  "'s poster \<Rightarrow> ProxyClient \<Rightarrow> int \<Rightarrow> WCache \<Rightarrow> 's \<Rightarrow> (bool \<times> WCache \<times> 's) go" where
  "CheckExpire_round post pc now cache s =
     bindG (LruExpire now cache) (\<lambda>(fe, blkIdx, cache1).
     case fe of
       None \<Rightarrow> Ret (False, cache1, s)
     | Some fe \<Rightarrow>
         (case GetFileBuffer fe False cache1 of (fileBuf, cache2) \<Rightarrow>
          case fileBuf of
            None \<Rightarrow> Ret (True, cache2, s)
          | Some fileBuf \<Rightarrow>
              bindG (FlushBuffer post pc now fileBuf blkIdx cache2 s) (\<lambda>(err, cache3, s1).
              Ret (True, cache3, s1))))"

text \<open>One round of the loop of \<^verbatim>\<open>SyncWrite\<close>: it waits on an empty channel, and ends on a closed empty one.\<close>

definition SyncWrite_round ::
  "'s poster \<Rightarrow> ProxyClient \<Rightarrow> int \<Rightarrow> WCache \<Rightarrow> 's \<Rightarrow> (bool \<times> WCache \<times> 's) go" where
  "SyncWrite_round post pc now cache s =
     (case wc_chSync cache of
        None \<Rightarrow> Block
      | Some [] \<Rightarrow> if wc_chClosed cache then Ret (False, cache, s) else Block
      | Some (b # q) \<Rightarrow>
          let cache1 = cache\<lparr> wc_chSync := Some q \<rparr> in
          bindG (index_at (cc_heap cache1) b) (\<lambda>buffer.
          case buf_fe buffer of
            None \<Rightarrow> Panic
          | Some fe \<Rightarrow>
              (case GetFileBuffer fe False cache1 of (fileBuf, cache2) \<Rightarrow>
               bindG (Assert (fileBuf \<noteq> None)) (\<lambda>_.
               bindG (flush_data post pc s fe b cache2) (\<lambda>(s', wsize, err).
               if err \<noteq> None then
                 bindG (DoLru now b cache2) (\<lambda>cache3.
                 bindG (on_fb (the fileBuf) (UnLockBuffer (buf_BlkIdx buffer)) cache3) (\<lambda>cache4.
                 Ret (True, cache4, s')))
               else
                 bindG (on_fb (the fileBuf) (\<lambda>fb. Ret (DetachBuffer (buf_BlkIdx buffer) fb)) cache2) (\<lambda>cache3.
                 bindG (on_fb (the fileBuf) (UnLockBuffer (buf_BlkIdx buffer)) (FreeBuffer b cache3)) (\<lambda>cache4.
                 Ret (True, cache4, s'))))))))"

text \<open>
  \<^verbatim>\<open>StatSize\<close> looks the last cached block up and then locks it. Between the two the block may go; what
  follows the lock is \<open>StatSize_locked\<close>, and then returns an error.
\<close>

definition StatSize_locked :: "u64 \<Rightarrow> u64 \<Rightarrow> WCache \<Rightarrow> ((u64 \<times> go_error option) \<times> WCache) go" where
  "StatSize_locked fileBuf UpIdx cache0 =
     bindG (on_fb fileBuf (LockBuffer UpIdx) cache0) (\<lambda>cache1.
     bindG (the_fb fileBuf cache1) (\<lambda>fb1.
     bindG
       (case GetBuffer UpIdx fb1 of
          None \<Rightarrow> Ret (0, Some (Errno E_POSIX_EIO))
        | Some b \<Rightarrow>
            bindG (index_at (cc_heap cache1) b) (\<lambda>buffer.
            bindG (GetTailOffset buffer) (\<lambda>off. Ret (off, None)))) (\<lambda>r.
     bindG (on_fb fileBuf (UnLockBuffer UpIdx) cache1) (\<lambda>cache2. Ret (r, cache2)))))"

definition StatSize :: "FileEntry \<Rightarrow> WCache \<Rightarrow> ((u64 \<times> go_error option) \<times> WCache) go" where
  "StatSize fe cache =
     (case GetFileBuffer fe False cache of (fileBuf, cache0) \<Rightarrow>
      case fileBuf of
        None \<Rightarrow> Ret ((0, None), cache0)
      | Some fileBuf \<Rightarrow>
          bindG (the_fb fileBuf cache0) (\<lambda>fb.
          if IsZeroCache fb then Ret ((0, None), cache0)
          else let UpIdx = UpperIdx fb in StatSize_locked fileBuf UpIdx cache0))"

definition WCache_Close ::
  "(u64 list \<Rightarrow> u64 list) \<Rightarrow> (go_error option list \<Rightarrow> go_error option list) \<Rightarrow>
   's poster \<Rightarrow> ProxyClient \<Rightarrow> int \<Rightarrow> FileEntry \<Rightarrow> WCache \<Rightarrow> 's \<Rightarrow> (go_error option \<times> WCache \<times> 's) go" where
  "WCache_Close sched recv post pc now fe cache s =
     bindG (WCache_Flush sched recv post pc now fe cache s) (\<lambda>(err, cache1, s1).
     if err \<noteq> None then Ret (err, cache1, s1)
     else Ret (None, DetachFileBuffer fe cache1, s1))"

fun Close_each ::
  "(u64 list \<Rightarrow> u64 list) \<Rightarrow> (go_error option list \<Rightarrow> go_error option list) \<Rightarrow>
   's poster \<Rightarrow> ProxyClient \<Rightarrow> int \<Rightarrow> FileEntry list \<Rightarrow> WCache \<Rightarrow> 's \<Rightarrow> (WCache \<times> 's) go" where
  "Close_each sched recv post pc now [] cache s = Ret (cache, s)"
| "Close_each sched recv post pc now (fe # rest) cache s =
     bindG (WCache_Close sched recv post pc now fe cache s) (\<lambda>(err, cache1, s1).
     Close_each sched recv post pc now rest cache1 s1)"

text \<open>The goroutines of the write cache: \<^verbatim>\<open>CheckExpire\<close> and \<^verbatim>\<open>SyncWrite\<close>.\<close>

definition WCache_gor ::
  "'s poster \<Rightarrow> ProxyClient \<Rightarrow> Config \<Rightarrow> int \<Rightarrow> goroutine \<Rightarrow> WCache \<Rightarrow> 's \<Rightarrow> (goroutine \<times> WCache \<times> 's) go" where
  "WCache_gor post pc cfg = gor_step (CheckExpire_round post pc) (SyncWrite_round post pc) cc_Stop (CheckGap cfg)"

text \<open>\<^verbatim>\<open>CloseAll\<close> closes the channel, sets the flag, closes the files and waits for the goroutines.\<close>

definition WCache_CloseAll ::
  "Waits \<Rightarrow> (u64 list \<Rightarrow> u64 list) \<Rightarrow> (go_error option list \<Rightarrow> go_error option list) \<Rightarrow>
   's poster \<Rightarrow> ProxyClient \<Rightarrow> int \<Rightarrow> WCache \<Rightarrow> 's \<Rightarrow> (WCache \<times> 's) go" where
  "WCache_CloseAll wt sched recv post pc now cache s =
     bindG (if wc_chSync cache \<noteq> None
            then if wc_chClosed cache then Panic else Ret (cache\<lparr> wc_chClosed := True \<rparr>)
            else Ret cache) (\<lambda>cache1.
     let cache2 = cache1\<lparr> cc_Stop := True \<rparr>;
         feList = map (fb_fe \<circ> snd) (cc_Cache cache2)
     in bindG (Close_each sched recv post pc now feList cache2 s) (\<lambda>(cache3, s1).
        wg_Wait (WCache_gor post pc (wt_cfg wt)) gone (wt_wturns wt) (wt_wgs wt) cache3 s1))"

end
