(* ===== verification/Cfa_RWCache.thy ===== *)
theory Cfa_RWCache
  imports Cfa_RCache Cfa_WCache
begin

text \<open>
  \<^verbatim>\<open>lib/libfs/rwcache.go\<close>: the two caches together. A read asks the read cache (or the server) and lays
  the bytes of the write cache over the answer; a write goes to the write cache and drops the blocks
  it touches from the read cache.
\<close>

record RWCache =
  rw_rCache :: RCache
  rw_wCache :: WCache

definition NewRWCache :: "nat \<Rightarrow> int \<Rightarrow> nat \<Rightarrow> nat \<Rightarrow> int \<Rightarrow> RWCache" where
  "NewRWCache BufferMax ExpireTime SyncRoutine PrefetchRoutine PrefetchTimes =
     \<lparr> rw_rCache = NewRCache BufferMax ExpireTime PrefetchRoutine PrefetchTimes,
       rw_wCache = NewWCache BufferMax ExpireTime SyncRoutine \<rparr>"

text \<open>
  One block of \<^verbatim>\<open>doRead\<close>, under the read locks of both caches. The results are the size, the error,
  \<^verbatim>\<open>op.rwBuf\<close> and the state.
\<close>

definition doRead_op ::
  "'s poster \<Rightarrow> ProxyClient \<Rightarrow> FileEntry \<Rightarrow> u64 \<Rightarrow> u64 option \<Rightarrow> RWBlockOp \<Rightarrow> RWCache \<Rightarrow> 's \<Rightarrow>
   ((int \<times> go_error option \<times> byte list) \<times> RWCache \<times> 's) go" where
  "doRead_op post pc fe fileBufRead fileBufWrite bop rwc s =
     bindG (case fileBufWrite of
              None \<Rightarrow> Ret (rw_wCache rwc)
            | Some fw \<Rightarrow> on_fb fw (RLockBuffer (op_Index bop)) (rw_wCache rwc)) (\<lambda>wc1.
     bindG (on_fb fileBufRead (RLockBuffer (op_Index bop)) (rw_rCache rwc)) (\<lambda>rc1.
     bindG (ReadOp post pc fe fileBufRead bop rc1 s) (\<lambda>(opSize, err, rwBuf, s').
     bindG (on_fb fileBufRead (RUnLockBuffer (op_Index bop)) rc1) (\<lambda>rc2.
     if err \<noteq> None then
       bindG (case fileBufWrite of
                None \<Rightarrow> Ret wc1
              | Some fw \<Rightarrow> on_fb fw (RUnLockBuffer (op_Index bop)) wc1) (\<lambda>wc2.
       Ret ((opSize, err, rwBuf), rwc\<lparr> rw_rCache := rc2, rw_wCache := wc2 \<rparr>, s'))
     else
       (case fileBufWrite of
          None \<Rightarrow> Ret ((opSize, None, rwBuf), rwc\<lparr> rw_rCache := rc2, rw_wCache := wc1 \<rparr>, s')
        | Some fw \<Rightarrow>
            bindG (MergeOp wc1 fw (bop\<lparr> op_rwBuf := rwBuf \<rparr>) opSize) (\<lambda>(opSize', rwBuf').
            bindG (on_fb fw (RUnLockBuffer (op_Index bop)) wc1) (\<lambda>wc2.
            Ret ((opSize', None, rwBuf'), rwc\<lparr> rw_rCache := rc2, rw_wCache := wc2 \<rparr>, s'))))))))"

text \<open>
  The loop over the operations. Their buffers are the consecutive pieces of \<^verbatim>\<open>dataBuf\<close>; \<open>filled\<close> is the
  part of \<^verbatim>\<open>dataBuf\<close> that the operations so far have filled. The result is the size, the error, \<^verbatim>\<open>dataBuf\<close>
  and the state.
\<close>

fun doRead_loop ::
  "'s poster \<Rightarrow> ProxyClient \<Rightarrow> FileEntry \<Rightarrow> u64 \<Rightarrow> u64 option \<Rightarrow> u64 \<Rightarrow> RWBlockOp list \<Rightarrow> int \<Rightarrow> byte list \<Rightarrow>
   RWCache \<Rightarrow> 's \<Rightarrow> ((int \<times> go_error option \<times> byte list) \<times> RWCache \<times> 's) go" where
  "doRead_loop post pc fe fileBufRead fileBufWrite offset [] Size filled rwc s =
     Ret ((Size, None, filled), rwc, s)"
| "doRead_loop post pc fe fileBufRead fileBufWrite offset (bop # Ops) Size filled rwc s =
     bindG (doRead_op post pc fe fileBufRead fileBufWrite bop rwc s) (\<lambda>((opSize, err, rwBuf), rwc1, s1).
     if err \<noteq> None then Ret ((opSize, err, filled @ rwBuf @ concat (map op_rwBuf Ops)), rwc1, s1)
     else
       doRead_loop post pc fe fileBufRead fileBufWrite offset Ops
         (if opSize \<noteq> 0 then int (unat (Op_GetFileOffset bop - offset)) + opSize else Size)
         (filled @ rwBuf) rwc1 s1)"

definition doRead ::
  "'s poster \<Rightarrow> ProxyClient \<Rightarrow> FileEntry \<Rightarrow> byte list \<Rightarrow> u64 \<Rightarrow> RWCache \<Rightarrow> 's \<Rightarrow>
   ((int \<times> go_error option \<times> byte list) \<times> RWCache \<times> 's) go" where
  "doRead post pc fe buffer offset rwc s =
     (let dataBuf = replicate (length buffer) 0 in
      case RCache_GetFileBuffer fe True (rw_rCache rwc) of (fileBufRead, rc0) \<Rightarrow>
      bindG (Assert (fileBufRead \<noteq> None)) (\<lambda>_.
      bindG (TryDoPrefetch (the fileBufRead) (of_nat (length dataBuf)) offset rc0) (\<lambda>rc1.
      case GetFileBuffer fe False (rw_wCache rwc) of (fileBufWrite, wc0) \<Rightarrow>
      bindG (RSlice fe dataBuf offset) (\<lambda>Ops.
      bindG (doRead_loop post pc fe (the fileBufRead) fileBufWrite offset Ops 0 []
               (rwc\<lparr> rw_rCache := rc1, rw_wCache := wc0 \<rparr>) s) (\<lambda>((Size, err, dataBuf'), rwc1, s1).
      if err \<noteq> None then Ret ((Size, err, buffer), rwc1, s1)
      else
        bindG (Assert (Size \<le> int (length buffer))) (\<lambda>_.
        bindG (slice 0 (nat Size) dataBuf') (\<lambda>data.
        Ret ((Size, None, copy_at 0 data buffer), rwc1, s1))))))))"

definition RWCache_Read ::
  "'s poster \<Rightarrow> ProxyClient \<Rightarrow> FileEntry \<Rightarrow> byte list \<Rightarrow> u64 \<Rightarrow> RWCache \<Rightarrow> 's \<Rightarrow>
   ((int \<times> go_error option \<times> byte list) \<times> RWCache \<times> 's) go" where
  "RWCache_Read post pc fe buffer offset rwc s = doRead post pc fe buffer offset rwc s"

definition RWCache_Write ::
  "'s poster \<Rightarrow> ProxyClient \<Rightarrow> int \<Rightarrow> FileEntry \<Rightarrow> byte list \<Rightarrow> u64 \<Rightarrow> RWCache \<Rightarrow> 's \<Rightarrow>
   ((int \<times> go_error option) \<times> RWCache \<times> 's) go" where
  "RWCache_Write post pc now fe buffer offset rwc s =
     bindG (WCache_Write post pc now fe buffer offset (rw_wCache rwc) s) (\<lambda>((Size, err), wc1, s1).
     bindG (Clean fe (int (length buffer)) offset (rw_rCache rwc)) (\<lambda>(_, rc1).
     Ret ((Size, err), rwc\<lparr> rw_rCache := rc1, rw_wCache := wc1 \<rparr>, s1)))"

definition RWCache_Release :: "FileEntry \<Rightarrow> RWCache \<Rightarrow> (go_error option \<times> RWCache) go" where
  "RWCache_Release fe rwc =
     bindG (Release fe (rw_rCache rwc)) (\<lambda>(err, rc1). Ret (err, rwc\<lparr> rw_rCache := rc1 \<rparr>))"

definition RWCache_Flush ::
  "(u64 list \<Rightarrow> u64 list) \<Rightarrow> (go_error option list \<Rightarrow> go_error option list) \<Rightarrow>
   's poster \<Rightarrow> ProxyClient \<Rightarrow> int \<Rightarrow> FileEntry \<Rightarrow> RWCache \<Rightarrow> 's \<Rightarrow> (go_error option \<times> RWCache \<times> 's) go" where
  "RWCache_Flush sched recv post pc now fe rwc s =
     bindG (WCache_Flush sched recv post pc now fe (rw_wCache rwc) s) (\<lambda>(err, wc1, s1).
     Ret (err, rwc\<lparr> rw_wCache := wc1 \<rparr>, s1))"

definition RWCache_Close ::
  "(u64 list \<Rightarrow> u64 list) \<Rightarrow> (go_error option list \<Rightarrow> go_error option list) \<Rightarrow>
   's poster \<Rightarrow> ProxyClient \<Rightarrow> int \<Rightarrow> FileEntry \<Rightarrow> RWCache \<Rightarrow> 's \<Rightarrow> (go_error option \<times> RWCache \<times> 's) go" where
  "RWCache_Close sched recv post pc now fe rwc s =
     bindG (RCache_Close fe (rw_rCache rwc)) (\<lambda>(err, rc1).
     if err \<noteq> None then Ret (err, rwc\<lparr> rw_rCache := rc1 \<rparr>, s)
     else
       bindG (WCache_Close sched recv post pc now fe (rw_wCache rwc) s) (\<lambda>(err, wc1, s1).
       Ret (err, rwc\<lparr> rw_rCache := rc1, rw_wCache := wc1 \<rparr>, s1)))"

definition RWCache_CloseAll ::
  "Waits \<Rightarrow> (u64 list \<Rightarrow> u64 list) \<Rightarrow> (go_error option list \<Rightarrow> go_error option list) \<Rightarrow>
   's poster \<Rightarrow> ProxyClient \<Rightarrow> int \<Rightarrow> RWCache \<Rightarrow> 's \<Rightarrow> (RWCache \<times> 's) go" where
  "RWCache_CloseAll wt sched recv post pc now rwc s =
     bindG (RCache_CloseAll wt post pc (rw_rCache rwc) s) (\<lambda>(rc1, s1).
     bindG (WCache_CloseAll wt sched recv post pc now (rw_wCache rwc) s1) (\<lambda>(wc1, s2).
     Ret (rwc\<lparr> rw_rCache := rc1, rw_wCache := wc1 \<rparr>, s2)))"

end
