(* ===== verification/Cfa_View.thy ===== *)
theory Cfa_View
  imports Cfa_Pool Cfa_IO
begin

text \<open>
  The abstract state of the caches: the file contents a client sees, the bytes of the cache over the
  bytes of the server. The lemmas say how the view moves when a cached range is written to the
  server, when a buffer is dropped after its data was written back, when data is merged into a
  buffer, and when data goes to the server directly.
\<close>

type_synonym cached = "u64 \<Rightarrow> u64 \<Rightarrow> nat \<Rightarrow> byte option"
type_synonym contents = "u64 \<Rightarrow> byte list"
type_synonym view = "u64 \<Rightarrow> nat \<Rightarrow> byte"

definition fview :: "u32 \<Rightarrow> cached \<Rightarrow> contents \<Rightarrow> view" where
  "fview bs cb ct f p =
     (if p div unat bs < 2 ^ 64
      then (case cb f (of_nat (p div unat bs)) (p mod unat bs) of Some x \<Rightarrow> x | None \<Rightarrow> zbyte (ct f) p)
      else zbyte (ct f) p)"

text \<open>Overwriting the bytes of file \<open>f\<close> from position \<open>pos\<close> on.\<close>

definition vwrite :: "view \<Rightarrow> u64 \<Rightarrow> nat \<Rightarrow> byte list \<Rightarrow> view" where
  "vwrite v f pos d = v(f := (\<lambda>p. if pos \<le> p \<and> p < pos + length d then d ! (p - pos) else v f p))"

text \<open>Two views that agree outside \<open>n\<close> bytes of file \<open>f\<close> from position \<open>pos\<close> on.\<close>

definition same_outside :: "u64 \<Rightarrow> nat \<Rightarrow> nat \<Rightarrow> view \<Rightarrow> view \<Rightarrow> bool" where
  "same_outside f pos n v v' \<longleftrightarrow>
     (\<forall>g p. g \<noteq> f \<or> p < pos \<or> pos + n \<le> p \<longrightarrow> v' g p = v g p)"

lemma vwrite_Nil [simp]: "vwrite v f pos [] = v"
  by (rule ext)+ (auto simp: vwrite_def)

lemma vwrite_append:
  "vwrite (vwrite v f pos a) f (pos + length a) b = vwrite v f pos (a @ b)"
  by (rule ext)+ (auto simp: vwrite_def nth_append)

lemma same_outside_refl [simp]: "same_outside f pos n v v"
  by (simp add: same_outside_def)

lemma same_outside_vwrite: "same_outside f pos (length d) v (vwrite v f pos d)"
  by (auto simp: same_outside_def vwrite_def)

lemma same_outside_mono:
  "same_outside f a m v v' \<Longrightarrow> pos \<le> a \<Longrightarrow> a + m \<le> pos + k \<Longrightarrow> same_outside f pos k v v'"
  by (auto simp: same_outside_def)

lemma same_outside_trans:
  assumes "same_outside f a m u v" and "same_outside f b n v w"
    and "pos \<le> a" "a + m \<le> pos + k" "pos \<le> b" "b + n \<le> pos + k"
  shows "same_outside f pos k u w"
  using assms by (auto simp: same_outside_def)

section \<open>Blocks\<close>

lemma blk_div: "q < B \<Longrightarrow> (i * B + q) div B = i" "q < B \<Longrightarrow> (i * B + q) mod B = (q :: nat)"
  by auto

lemma fview_block:
  assumes "q < unat bs"
  shows "fview bs cb ct f (unat i * unat bs + q) =
     (case cb f i q of Some x \<Rightarrow> x | None \<Rightarrow> zbyte (ct f) (unat i * unat bs + q))"
proof -
  have "unat i < 2 ^ 64" by (rule unat_u64_bound)
  then show ?thesis using assms by (simp add: fview_def)
qed

lemma fview_out: "2 ^ 64 \<le> p div unat bs \<Longrightarrow> fview bs cb ct f p = zbyte (ct f) p"
  by (simp add: fview_def)

lemma block_cases [consumes 1, case_names blk out]:
  assumes "0 < unat bs"
  obtains (blk) i q where "p = unat (i :: u64) * unat bs + q" and "q < unat bs"
  | (out) "2 ^ 64 \<le> p div unat bs"
proof (cases "p div unat bs < 2 ^ 64")
  case True
  then show thesis using blk [of "of_nat (p div unat bs)" "p mod unat bs"] assms
    by (simp add: unat_of_nat_u64)
qed (use out in simp)

lemma same_block:
  assumes "unat (i :: u64) * B + o1 \<le> unat j * B + q" and "unat j * B + q < unat i * B + o1 + n"
    and "q < B" and "o1 + n \<le> B"
  shows "j = i" "o1 \<le> q" "q < o1 + n"
proof -
  have B: "0 < B" using assms(3) by simp
  have "unat i * B < (unat j + 1) * B" using assms(1,3) by (simp add: algebra_simps)
  then have le: "unat i < unat j + 1" using mult_less_cancel2 by blast
  have "unat j * B < (unat i + 1) * B" using assms(2,4) by (simp add: algebra_simps)
  then have "unat j < unat i + 1" using mult_less_cancel2 by blast
  with le have "unat j = unat i" by simp
  then show "j = i" by (simp add: word_unat_eq_iff)
  then show "o1 \<le> q" "q < o1 + n" using assms(1,2) by auto
qed

lemma out_range:
  assumes "2 ^ 64 \<le> p div unat (bs :: u32)" and "off + n \<le> unat bs"
  shows "unat (i :: u64) * unat bs + off + n \<le> p"
proof -
  have "unat i < 2 ^ 64" by (rule unat_u64_bound)
  then have "unat i + 1 \<le> p div unat bs" using assms(1) by linarith
  then have "(unat i + 1) * unat bs \<le> p div unat bs * unat bs" by (rule mult_le_mono1)
  also have "\<dots> \<le> p" by simp
  finally show ?thesis using assms(2) by (simp add: algebra_simps)
qed

section \<open>How the view moves\<close>

text \<open>A server change under cached bytes is not seen.\<close>

lemma fview_hidden:
  assumes bs: "0 < unat bs" and fits: "off + n \<le> unat bs"
    and cached: "\<And>q. off \<le> q \<Longrightarrow> q < off + n \<Longrightarrow> cb f i q \<noteq> None"
    and other: "\<And>g. g \<noteq> f \<Longrightarrow> ct' g = ct g"
    and t: "touched (unat i * unat bs + off) n (ct f) (ct' f)"
  shows "fview bs cb ct' = fview bs cb ct"
proof (intro ext)
  fix g p
  let ?in = "g = f \<and> unat i * unat bs + off \<le> p \<and> p < unat i * unat bs + off + n"
  have same: "zbyte (ct' g) p = zbyte (ct g) p" if "\<not> ?in"
    using that t other [of g] by (cases "g = f") (auto simp: touched_def)
  from bs show "fview bs cb ct' g p = fview bs cb ct g p"
  proof (cases rule: block_cases [of bs p])
    case (blk j q)
    show ?thesis
    proof (cases ?in)
      case True
      then have "j = i" "off \<le> q" "q < off + n"
        using same_block [of i "unat bs" off j q n] blk fits by metis+
      then show ?thesis using cached [of q] True blk by (auto simp: fview_block)
    qed (use same blk in \<open>simp add: fview_block split: option.split\<close>)
  next
    case out
    then have "\<not> ?in" using out_range [OF out fits, of i] by auto
    then show ?thesis using same out by (simp add: fview_out)
  qed
qed

text \<open>A change of the server that touches only a range of the block.\<close>

lemma fview_touched:
  assumes "0 < unat bs" and "\<And>g. g \<noteq> f \<Longrightarrow> ct' g = ct g" and "touched pos n (ct f) (ct' f)"
  shows "same_outside f pos n (fview bs cb ct) (fview bs cb ct')"
  unfolding same_outside_def
proof (intro allI impI)
  fix g p assume "g \<noteq> f \<or> p < pos \<or> pos + n \<le> p"
  then have "zbyte (ct' g) p = zbyte (ct g) p"
    using assms(2) [of g] assms(3) by (cases "g = f") (auto simp: touched_def)
  then show "fview bs cb ct' g p = fview bs cb ct g p"
    by (simp add: fview_def split: option.split)
qed

text \<open>Merging data into a buffer.\<close>

lemma fview_merge:
  assumes bs: "0 < unat bs" and fits: "off + length d \<le> unat bs"
    and g: "\<And>q. g q = (if off \<le> q \<and> q < off + length d then Some (d ! (q - off)) else cb f i q)"
  shows "fview bs (cb(f := (cb f)(i := g))) ct = vwrite (fview bs cb ct) f (unat i * unat bs + off) d"
proof (intro ext)
  fix h p
  from bs show "fview bs (cb(f := (cb f)(i := g))) ct h p = vwrite (fview bs cb ct) f (unat i * unat bs + off) d h p"
  proof (cases rule: block_cases [of bs p])
    case (blk j q)
    let ?in = "unat i * unat bs + off \<le> p \<and> p < unat i * unat bs + off + length d"
    have "?in \<longleftrightarrow> j = i \<and> off \<le> q \<and> q < off + length d"
      using same_block [of i "unat bs" off j q "length d"] blk fits by auto
    then show ?thesis using blk g by (auto simp: fview_block vwrite_def)
  next
    case out
    then show ?thesis using out_range [OF out fits, of i] by (auto simp: fview_out vwrite_def)
  qed
qed

text \<open>Data that goes to the server in a block of which nothing is cached.\<close>

lemma fview_direct:
  assumes bs: "0 < unat bs" and fits: "off + length d \<le> unat bs" and none: "\<And>q. cb f i q = None"
  shows "fview bs cb (ct(f := fwrite (ct f) (unat i * unat bs + off) d)) =
     vwrite (fview bs cb ct) f (unat i * unat bs + off) d"
proof (intro ext)
  fix h p
  from bs show "fview bs cb (ct(f := fwrite (ct f) (unat i * unat bs + off) d)) h p =
      vwrite (fview bs cb ct) f (unat i * unat bs + off) d h p"
  proof (cases rule: block_cases [of bs p])
    case (blk j q)
    let ?in = "unat i * unat bs + off \<le> p \<and> p < unat i * unat bs + off + length d"
    have "?in \<Longrightarrow> j = i"
      using same_block(1) [of i "unat bs" off j q "length d"] blk fits by metis
    then show ?thesis using blk none
      by (cases "h = f") (auto simp: fview_block vwrite_def zbyte_fwrite split: option.split)
  next
    case out
    then show ?thesis by (auto simp: fview_out vwrite_def zbyte_fwrite)
  qed
qed

text \<open>Writing the cached bytes of a block back and dropping them from the cache.\<close>

lemma fview_writeback:
  assumes bs: "0 < unat bs" and fits: "off + length d \<le> unat bs"
    and cached: "\<And>q. cb f i q = (if off \<le> q \<and> q < off + length d then Some (d ! (q - off)) else None)"
  shows "fview bs (cb(f := (cb f)(i := (\<lambda>_. None)))) (ct(f := fwrite (ct f) (unat i * unat bs + off) d)) =
     fview bs cb ct"
proof (intro ext)
  fix h p
  from bs show "fview bs (cb(f := (cb f)(i := (\<lambda>_. None)))) (ct(f := fwrite (ct f) (unat i * unat bs + off) d)) h p =
      fview bs cb ct h p"
  proof (cases rule: block_cases [of bs p])
    case (blk j q)
    let ?in = "unat i * unat bs + off \<le> p \<and> p < unat i * unat bs + off + length d"
    have "?in \<longleftrightarrow> j = i \<and> off \<le> q \<and> q < off + length d"
      using same_block [of i "unat bs" off j q "length d"] blk fits by auto
    then show ?thesis using blk cached
      by (cases "h = f") (auto simp: fview_block zbyte_fwrite split: option.split)
  next
    case out
    then show ?thesis using out_range [OF out fits, of i] by (auto simp: fview_out zbyte_fwrite)
  qed
qed

end
