(* ===== verification/Cfa_WInv.thy ===== *)
theory Cfa_WInv
  imports Cfa_WCache Cfa_View
begin

text \<open>
  The invariant of the write cache and the correctness of its operations. \<open>wc_inv bs H c\<close>: every
  buffer of the pool is free or attached to one block (none is lost), the buffers waiting in the
  channel are attached, off the LRU list and their blocks are write-locked, and the only other
  locked blocks are those in \<open>H\<close>, the blocks of the operations in progress. Every operation keeps it,
  none panics under it, and each moves the view of the files the way its contract says.
\<close>

section \<open>The invariant\<close>

definition queue :: "WCache \<Rightarrow> nat list" where
  "queue c = (case wc_chSync c of None \<Rightarrow> [] | Some q \<Rightarrow> q)"

definition owned :: "(u64 \<Rightarrow> u64 \<Rightarrow> nat option) \<Rightarrow> nat set" where
  "owned A = {b. \<exists>f i. A f i = Some b}"

definition qblocks :: "WCache \<Rightarrow> (u64 \<times> u64) set" where
  "qblocks c = {(f, i). \<exists>b \<in> set (queue c). attached c f i = Some b}"

definition wlock :: CacheLock where
  "wlock = \<lparr> lock_tp = WriteLock, lock_refer = 0 \<rparr>"

definition wc_own :: "u32 \<Rightarrow> WCache \<Rightarrow> bool" where
  "wc_own bs c \<longleftrightarrow>
     0 < unat bs \<and> pool_inv bs c \<and>
     {..<length (cc_heap c)} \<subseteq> set (cc_FreeList c) \<union> owned (attached c) \<and>
     (\<forall>f i b. attached c f i = Some b \<longrightarrow>
        unat i * unat bs + unat bs < 2 ^ 64 \<and> cbyte c f i \<noteq> (\<lambda>_. None))"

definition wc_queue :: "WCache \<Rightarrow> bool" where
  "wc_queue c \<longleftrightarrow>
     distinct (queue c) \<and> set (queue c) \<subseteq> owned (attached c) \<and> set (queue c) \<inter> set (cc_LruList c) = {}"

definition wc_locks :: "(u64 \<times> u64) set \<Rightarrow> WCache \<Rightarrow> bool" where
  "wc_locks H c \<longleftrightarrow>
     (\<forall>f i. locks c f i = (if (f, i) \<in> H \<union> qblocks c then Some wlock else None))"

text \<open>The table of a file is kept under the identifier of the entry it was made for.\<close>

definition fe_ids :: "WCache \<Rightarrow> u64 \<Rightarrow> u64 option" where
  "fe_ids c f = map_option (fe_Id \<circ> fb_fe) (map_of (cc_Cache c) f)"

definition wc_files :: "WCache \<Rightarrow> bool" where
  "wc_files c \<longleftrightarrow> (\<forall>f g. fe_ids c f = Some g \<longrightarrow> g = f)"

definition wc_inv :: "u32 \<Rightarrow> (u64 \<times> u64) set \<Rightarrow> WCache \<Rightarrow> bool" where
  "wc_inv bs H c \<longleftrightarrow> wc_own bs c \<and> wc_queue c \<and> wc_locks H c \<and> wc_files c"

lemmas wc_defs = wc_inv_def wc_own_def wc_queue_def

lemma fe_ids_cong: "cc_Cache c' = cc_Cache c \<Longrightarrow> fe_ids c' = fe_ids c"
  by (simp add: fe_ids_def fun_eq_iff)

lemma wc_files_cong: "fe_ids c' = fe_ids c \<Longrightarrow> wc_files c' = wc_files c"
  by (simp add: wc_files_def)

lemma fe_ids_update:
  assumes "map_of (cc_Cache c) f = Some fb" and "fb_fe fb' = fb_fe fb"
  shows "fe_ids (c\<lparr>cc_Cache := AList.update f fb' (cc_Cache c)\<rparr>) = fe_ids c"
  using assms by (simp add: fe_ids_def fun_eq_iff update_conv')

lemma fe_ids_on_fb:
  assumes "on_fb f g c = Ret c'" and "\<And>fb fb'. g fb = Ret fb' \<Longrightarrow> fb_fe fb' = fb_fe fb"
  shows "fe_ids c' = fe_ids c"
  using assms fe_ids_update [of c f] by (auto simp: on_fb_def bindG_Ret_iff split: option.splits)

lemma AttachBuffer_fe: "AttachBuffer i b fb = Ret fb' \<Longrightarrow> fb_fe fb' = fb_fe fb"
  by (auto simp: AttachBuffer_def Assert_def split: if_splits)

lemma DetachBuffer_fe [simp]: "fb_fe (DetachBuffer i fb) = fb_fe fb"
  by (simp add: DetachBuffer_def)

section \<open>Parts of the state\<close>

lemma more_same:
  assumes "CacheCore.more c' = CacheCore.more (c :: WCache)"
  shows "wc_chSync c' = wc_chSync c" "wc_SyncRoutine c' = wc_SyncRoutine c" "wc_chClosed c' = wc_chClosed c"
    "queue c' = queue c" "SyncIo c' = SyncIo c"
  using assms by (cases c; cases c'; simp add: queue_def SyncIo_def)+

lemma owned_new: "A f i = None \<Longrightarrow> owned (A(f := (A f)(i \<mapsto> b))) = insert b (owned A)"
  by (auto simp: owned_def) (metis option.distinct(1))

lemma owned_del:
  assumes "A f i = Some b" and "\<And>f' i'. A f' i' = Some b \<Longrightarrow> f' = f \<and> i' = i"
  shows "owned (A(f := (A f)(i := None))) = owned A - {b}"
proof -
  have "(A(f := (A f)(i := None))) f' i' = Some b' \<longleftrightarrow> A f' i' = Some b' \<and> b' \<noteq> b" for f' i' b'
  proof -
    have "(A(f := (A f)(i := None))) f' i' = (if f' = f \<and> i' = i then None else A f' i')" by simp
    then show ?thesis using assms by (metis option.distinct(1) option.inject)
  qed
  then show ?thesis by (auto simp: owned_def)
qed

lemma qblocks_cong: "queue c' = queue c \<Longrightarrow> attached c' = attached c \<Longrightarrow> qblocks c' = qblocks c"
  by (simp add: qblocks_def)

lemma wc_locks_cong:
  "locks c' = locks c \<Longrightarrow> H' \<union> qblocks c' = H \<union> qblocks c \<Longrightarrow> wc_locks H' c' = wc_locks H c"
  by (simp add: wc_locks_def)

lemma wc_invD:
  assumes "wc_inv bs H c"
  shows "pool_inv bs c" "0 < unat bs"
    "\<And>f i b. attached c f i = Some b \<Longrightarrow> unat i * unat bs + unat bs < 2 ^ 64"
    "\<And>f i. (f, i) \<in> H \<Longrightarrow> locks c f i = Some wlock"
    "\<And>f i. locks c f i \<noteq> None \<Longrightarrow> (f, i) \<in> H \<union> qblocks c"
    "\<And>f i b. attached c f i = Some b \<Longrightarrow> cbyte c f i \<noteq> (\<lambda>_. None)"
  using assms by (auto simp: wc_defs wc_locks_def split: if_splits)

lemma locked_file: "locks c f i \<noteq> None \<Longrightarrow> \<exists>fb. map_of (cc_Cache c) f = Some fb"
  by (auto simp: locks_def split: option.splits)

text \<open>Moving a buffer that is not queued onto or off the LRU list.\<close>

lemma wc_inv_lru:
  assumes inv: "wc_inv bs H c" and pool: "pool_inv bs c'" and sv: "same_view c c'"
    and free: "cc_FreeList c' = cc_FreeList c" and more: "CacheCore.more c' = CacheCore.more c"
    and lru: "set (cc_LruList c') \<inter> set (queue c) = {}"
  shows "wc_inv bs H c'"
  using inv pool free lru same_viewD [OF sv] more_same [OF more]
    wc_locks_cong [of c' c H H] qblocks_cong [of c' c] wc_files_cong [OF fe_ids_cong, of c' c]
  by (auto simp: wc_defs)

text \<open>A new buffer for a block whose lock is held.\<close>

lemma wc_inv_attach:
  assumes inv: "wc_inv bs H c" and H: "(f, i) \<in> H" and new: "attached c f i = None"
    and pool: "pool_inv bs c'" and att: "attached c' = (attached c)(f := (attached c f)(i \<mapsto> b))"
    and heap: "length (cc_heap c') = length (cc_heap c)" and free: "cc_FreeList c = b # cc_FreeList c'"
    and more: "CacheCore.more c' = CacheCore.more c" and locks: "locks c' = locks c" and ids: "fe_ids c' = fe_ids c"
    and blk: "unat i * unat bs + unat bs < 2 ^ 64"
    and lru: "set (cc_LruList c') \<subseteq> insert b (set (cc_LruList c))"
    and cb: "cbyte c' = (cbyte c)(f := (cbyte c f)(i := x))" "x \<noteq> (\<lambda>_. None)"
  shows "wc_inv bs H c'" "(f, i) \<notin> qblocks c'"
proof -
  note m = more_same [OF more]
  have "b \<notin> owned (attached c)" using attachedD(2) [OF wc_invD(1) [OF inv]] free by (auto simp: owned_def)
  then have bq: "b \<notin> set (queue c)" using inv by (auto simp: wc_defs)
  then show "(f, i) \<notin> qblocks c'" using att m by (simp add: qblocks_def)
  have "H \<union> qblocks c' = H \<union> qblocks c"
    using H att m bq new by (auto simp: qblocks_def split: if_splits)
  then have "wc_locks H c'" using inv wc_locks_cong [OF locks] by (simp add: wc_inv_def)
  moreover have "owned (attached c') = insert b (owned (attached c))" using owned_new [of "attached c" f i b] new att by simp
  ultimately show "wc_inv bs H c'"
    using inv pool heap free m blk lru bq att cb wc_files_cong [OF ids] by (auto simp: wc_defs split: if_splits)
qed

text \<open>Giving the buffer of a block whose lock is held back to the pool.\<close>

lemma wc_inv_detach:
  assumes inv: "wc_inv bs H c" and H: "(f, i) \<in> H" and old: "attached c f i = Some b" and bq: "b \<notin> set (queue c)"
    and pool: "pool_inv bs c'" and att: "attached c' = (attached c)(f := (attached c f)(i := None))"
    and heap: "length (cc_heap c') = length (cc_heap c)" and free: "cc_FreeList c' = cc_FreeList c @ [b]"
    and more: "CacheCore.more c' = CacheCore.more c" and locks: "locks c' = locks c" and ids: "fe_ids c' = fe_ids c"
    and lru: "set (cc_LruList c') \<subseteq> set (cc_LruList c)"
    and cb: "cbyte c' = (cbyte c)(f := (cbyte c f)(i := x))"
  shows "wc_inv bs H c'" "(f, i) \<notin> qblocks c'"
proof -
  note m = more_same [OF more]
  show "(f, i) \<notin> qblocks c'" using att by (simp add: qblocks_def)
  have "H \<union> qblocks c' = H \<union> qblocks c"
    using H att m bq old by (auto simp: qblocks_def split: if_splits)
  then have "wc_locks H c'" using inv wc_locks_cong [OF locks] by (simp add: wc_inv_def)
  moreover have "owned (attached c') = owned (attached c) - {b}"
    unfolding att by (rule owned_del) (use old attached_inj [OF wc_invD(1) [OF inv] old] in blast)+
  ultimately show "wc_inv bs H c'"
    using inv pool heap free m lru bq att cb wc_files_cong [OF ids] by (auto simp: wc_defs split: if_splits)
qed

text \<open>Queueing the buffer of a block: the lock goes over to the goroutine that receives it.\<close>

lemma wc_inv_send:
  assumes inv: "wc_inv bs {(f, i)} c" and old: "attached c f i = Some b" and nq: "(f, i) \<notin> qblocks c"
    and lru: "b \<notin> set (cc_LruList c)" and q: "wc_chSync c = Some q"
  shows "wc_inv bs {} (c\<lparr>wc_chSync := Some (q @ [b])\<rparr>)"
proof -
  let ?c = "c\<lparr>wc_chSync := Some (q @ [b])\<rparr>"
  have [simp]: "attached ?c = attached c" "locks ?c = locks c" by (simp_all add: attached_def locks_def fun_eq_iff)
  have qs: "queue c = q" "queue ?c = q @ [b]" using q by (simp_all add: queue_def)
  have pool: "pool_inv bs ?c" using wc_invD(1) [OF inv] pool_inv_cong(1) [of ?c c bs] by simp
  have cb: "cbyte ?c = cbyte c" by (rule pool_inv_cong(2)) simp_all
  have bq: "b \<notin> set q" using nq old qs by (auto simp: qblocks_def)
  have "attached c f' i' = Some b \<longleftrightarrow> (f', i') = (f, i)" for f' i'
    using old attached_inj [OF wc_invD(1) [OF inv] old] by blast
  then have "{} \<union> qblocks ?c = {(f, i)} \<union> qblocks c" by (auto simp: qblocks_def qs)
  then have "wc_locks {} ?c" using inv wc_locks_cong [of ?c c "{}" "{(f, i)}"] by (simp add: wc_inv_def)
  then show ?thesis
    using inv pool qs bq lru old cb wc_files_cong [OF fe_ids_cong, of ?c c] by (auto simp: wc_defs owned_def)
qed

section \<open>Buffers and block operations\<close>

lemma fill_ok:
  assumes home: "home bs f i buf" and empty: "buf_Offset buf = 0" "buf_Len buf = 0"
    and fits: "unat off + length d \<le> unat bs"
  obtains buf2 buf3 where "Skip off buf = Ret buf2" and "CanMerge off buf2" and "MergeData now d buf2 = Ret buf3"
    and "home bs f i buf3" and "buf_elm buf3 = buf_elm buf" and "buf_tail buf3 = unat off + length d"
    and "length (buf_dataBuf buf3) < 2 ^ 32"
    and "\<And>p. buf_byte buf3 p = (if unat off \<le> p \<and> p < unat off + length d then Some (d ! (p - unat off)) else None)"
proof -
  let ?b2 = "buf\<lparr> buf_Offset := off \<rparr>"
  have wf: "buf_wf bs buf" using home by (simp add: home_def)
  have sk: "Skip off buf = Ret ?b2" "buf_wf bs ?b2" "CanMerge off ?b2"
    using Skip_ok [OF empty wf, of off] fits by simp_all
  have none: "buf_byte ?b2 p = None" for p using empty by (simp add: buf_byte_def buf_tail_def)
  obtain b3 where b3: "MergeData now d ?b2 = Ret b3" "buf_wf bs b3" "buf_fe b3 = buf_fe ?b2"
      "buf_BlkIdx b3 = buf_BlkIdx ?b2" "buf_elm b3 = buf_elm ?b2" "buf_tail b3 = unat off + length d"
      "\<And>p. buf_byte b3 p =
         (if unat off \<le> p \<and> p < unat off + length d then Some (d ! (p - unat off)) else buf_byte ?b2 p)"
    using MergeData_ok [OF sk(2,3) fits, of now] by metis
  have "home bs f i b3" using home b3(2,3,4) by (auto simp: home_def)
  moreover have "length (buf_dataBuf b3) < 2 ^ 32" using b3(2) by (simp add: buf_wf_def)
  ultimately show thesis using that [OF sk(1,3) b3(1)] b3 none by simp
qed

text \<open>The block operations of a file, as the slicing produces them.\<close>

definition bop_ok :: "u32 \<Rightarrow> FileEntry \<Rightarrow> RWBlockOp \<Rightarrow> bool" where
  "bop_ok bs fe bop \<longleftrightarrow>
     op_fe bop = fe \<and> fe_BlockSize fe = bs \<and> unat (op_RwOffset bop) < unat bs \<and>
     unat (op_RwSize bop) = length (op_rwBuf bop) \<and>
     unat (op_RwOffset bop) + length (op_rwBuf bop) \<le> unat bs \<and> op_rwBuf bop \<noteq> [] \<and>
     unat (op_Index bop) * unat bs + unat bs < 2 ^ 64"

definition op_pos :: "u32 \<Rightarrow> RWBlockOp \<Rightarrow> nat" where
  "op_pos bs bop = unat (op_Index bop) * unat bs + unat (op_RwOffset bop)"

lemma Op_IsFull_ok:
  assumes "bop_ok bs fe bop"
  shows "Op_IsFull bop = Ret (unat (op_RwOffset bop) + length (op_rwBuf bop) = unat bs)"
proof -
  have "unat (op_RwOffset bop + op_RwSize bop) = unat (op_RwOffset bop) + length (op_rwBuf bop)"
    using assms unat_u32_bound [of bs] by (subst unat_plus) (auto simp: bop_ok_def)
  moreover have "op_RwSize bop = of_nat (length (op_rwBuf bop))"
    using assms unat_u32_bound [of "op_RwSize bop"] by (simp add: bop_ok_def word_unat_eq_iff unat_of_nat_u32)
  moreover have "op_RwOffset bop + op_RwSize bop = bs \<longleftrightarrow> unat (op_RwOffset bop + op_RwSize bop) = unat bs"
    by (rule word_unat_eq_iff)
  ultimately show ?thesis
    using assms by (simp add: Op_IsFull_def bop_ok_def word_le_nat_alt)
qed

lemma unat_Op_GetFileOffset:
  assumes "bop_ok bs fe bop"
  shows "unat (Op_GetFileOffset bop) = op_pos bs bop"
  using assms by (simp add: bop_ok_def op_pos_def Op_GetFileOffset_def Op_GetAlignOffset_def unat_plus unat_times)

text \<open>A buffer that holds the data of a block operation is not empty.\<close>

lemma filled_nonempty:
  assumes "bop_ok bs fe bop"
    and "\<And>p. x p = (if unat (op_RwOffset bop) \<le> p \<and> p < unat (op_RwOffset bop) + length (op_rwBuf bop)
           then Some (op_rwBuf bop ! (p - unat (op_RwOffset bop))) else y p)"
  shows "x \<noteq> (\<lambda>_. None)"
  using assms(1) assms(2) [of "unat (op_RwOffset bop)"] by (auto simp: bop_ok_def)

section \<open>The view of the files\<close>

definition wview :: "u32 \<Rightarrow> ('s \<Rightarrow> contents) \<Rightarrow> WCache \<Rightarrow> 's \<Rightarrow> view" where
  "wview bs content c s = fview bs (cbyte c) (content s)"

lemma wview_cong: "cbyte c' = cbyte c \<Longrightarrow> wview bs content c' s = wview bs content c s"
  by (simp add: wview_def)

text \<open>Writing an attached buffer back is not seen, also not when the buffer is dropped after a success.\<close>

lemma flush_data_ok:
  assumes ok: "server_ok post pc content" and inv: "wc_own bs c" and att: "attached c f i = Some b"
    and fe: "fe_Id fe = f"
  obtains s' n err where "flush_data post pc s fe b c = Ret (s', n, err)"
    and "wview bs content c s' = wview bs content c s"
    and "err = None \<Longrightarrow>
       fview bs ((cbyte c)(f := (cbyte c f)(i := (\<lambda>_. None)))) (content s') = wview bs content c s"
proof -
  let ?buf = "cc_heap c ! b"
  have pool: "pool_inv bs c" and bs: "0 < unat bs" and blk: "unat i * unat bs + unat bs < 2 ^ 64"
    using inv att by (auto simp: wc_own_def)
  note a = attachedD [OF pool att]
  obtain fe0 where h: "buf_wf bs ?buf" "buf_BlkIdx ?buf = i" "buf_fe ?buf = Some fe0" "fe_BlockSize fe0 = bs"
    using a(3) by (auto simp: home_def)
  obtain d where d: "GetData ?buf = Ret d" using GetData_ok [OF h(1)] by simp
  note dn = GetData_nth [OF h(1) d]
  let ?o = "unat (buf_Offset ?buf)"
  have fits: "?o + length d \<le> unat bs" using h(1) dn(1) by (simp add: buf_wf_def buf_tail_def)
  define offset where "offset = i * ucast bs + ucast (buf_Offset ?buf)"
  have off: "Buffer_GetFileOffset ?buf = Ret offset"
    using h by (simp add: Buffer_GetFileOffset_def Buffer_GetAlignOffset_def offset_def)
  have uoff: "unat offset = unat i * unat bs + ?o"
    using blk fits by (simp add: offset_def unat_plus unat_times)
  obtain s' n err where w: "Writer_Write post pc s f d offset = (s', n, err)" by (metis prod_cases3)
  have fl: "flush_data post pc s fe b c = Ret (s', n, err)"
    using a(1) d off w fe by (simp add: flush_data_def DirectWrite_def)
  have cb: "cbyte c f i q = (if ?o \<le> q \<and> q < ?o + length d then Some (d ! (q - ?o)) else None)" for q
    using dn(1) dn(2) [of "q - ?o"] by (auto simp: cbyte_Some [OF att] buf_byte_def buf_tail_def)
  have t: "only_touched content f (unat offset) (length d) s s'" by (rule Writer_Write_touched [OF ok w])
  have "wview bs content c s' = wview bs content c s"
    unfolding wview_def using t uoff cb by (intro fview_hidden [OF bs fits]) (auto simp: only_touched_def)
  moreover have "fview bs ((cbyte c)(f := (cbyte c f)(i := (\<lambda>_. None)))) (content s') = wview bs content c s"
    if "err = None"
  proof -
    have "length d < 2 ^ 32" using fits unat_u32_bound [of bs] by linarith
    then have "content s' = (content s)(f := fwrite (content s f) (unat i * unat bs + ?o) d)"
      using Writer_Write_ok(2) [OF ok w [unfolded that]] uoff by simp
    then show ?thesis using fview_writeback [OF bs fits, of "cbyte c" f i "content s"] cb by (simp add: wview_def)
  qed
  ultimately show thesis using that fl by blast
qed

section \<open>WriteOp\<close>

text \<open>
  What a block operation leaves, relative to the view \<open>v\<close> before it: on success all its bytes are
  counted and in the view, on an error the view has changed in its range at most; the block is
  still locked exactly when the caller has to unlock it.
\<close>

definition wop_view ::
  "u32 \<Rightarrow> u64 \<Rightarrow> RWBlockOp \<Rightarrow> view \<Rightarrow> int \<Rightarrow> go_error option \<Rightarrow> view \<Rightarrow> bool" where
  "wop_view bs f bop v n err v' \<longleftrightarrow>
     (if err = None
      then n = int (length (op_rwBuf bop)) \<and> v' = vwrite v f (op_pos bs bop) (op_rwBuf bop)
      else same_outside f (op_pos bs bop) (length (op_rwBuf bop)) v v')"

fun wop_post ::
  "bool \<Rightarrow> u32 \<Rightarrow> ('s \<Rightarrow> contents) \<Rightarrow> u64 \<Rightarrow> RWBlockOp \<Rightarrow> view \<Rightarrow>
   (bool \<times> int \<times> go_error option) \<times> WCache \<times> 's \<Rightarrow> bool" where
  "wop_post sio bs content f bop v ((syncIo, n, err), c', s') \<longleftrightarrow>
     (if syncIo then wc_inv bs {(f, op_Index bop)} c' \<and> (f, op_Index bop) \<notin> qblocks c'
      else wc_inv bs {} c' \<and> (f, op_Index bop) \<in> qblocks c') \<and>
     wop_view bs f bop v n err (wview bs content c' s') \<and> wc_chClosed c' = False \<and> SyncIo c' = sio \<and>
     (err \<noteq> None \<longrightarrow> syncIo)"

lemma op_direct_ok:
  assumes ok: "server_ok post pc content" and inv: "wc_inv bs {(fe_Id fe, op_Index bop)} c"
    and nq: "(fe_Id fe, op_Index bop) \<notin> qblocks c" and bop: "bop_ok bs fe bop"
    and none: "attached c (fe_Id fe) (op_Index bop) = None" and open_ch: "\<not> wc_chClosed c"
  shows "okG w (op_direct post pc fe bop c s) (wop_post (SyncIo c) bs content (fe_Id fe) bop (wview bs content c s))"
proof -
  let ?f = "fe_Id fe" and ?d = "op_rwBuf bop"
  obtain s' n err where w: "Writer_Write post pc s ?f ?d (Op_GetFileOffset bop) = (s', n, err)"
    by (metis prod_cases3)
  note off = unat_Op_GetFileOffset [OF bop]
  note t = Writer_Write_touched [OF ok w, unfolded off only_touched_def]
  have bs: "0 < unat bs" and fits: "unat (op_RwOffset bop) + length ?d \<le> unat bs"
    using inv bop by (auto simp: wc_defs bop_ok_def)
  have "same_outside ?f (op_pos bs bop) (length ?d) (wview bs content c s) (wview bs content c s')"
    unfolding wview_def using t by (intro fview_touched [OF bs]) auto
  moreover have "n = int (length ?d) \<and> wview bs content c s' = vwrite (wview bs content c s) ?f (op_pos bs bop) ?d"
    if "err = None"
  proof -
    have "length ?d < 2 ^ 32" using fits unat_u32_bound [of bs] by linarith
    then show ?thesis
      using Writer_Write_ok [OF ok w [unfolded that]] fview_direct [OF bs fits] cbyte_None [OF none] off
      by (simp add: wview_def op_pos_def)
  qed
  ultimately show ?thesis using inv nq w open_ch by (simp add: op_direct_def DirectWrite_def wop_view_def)
qed

text \<open>The three ways a block operation ends with a buffer: on the LRU list, queued, or given back.\<close>

lemma put_on_lru:
  assumes inv: "wc_inv bs H c" and nq: "(f, i) \<notin> qblocks c" and att: "attached c f i = Some b"
  obtains c' where "DoLru now b c = Ret c'" and "wc_inv bs H c'" and "qblocks c' = qblocks c"
    and "attached c' = attached c" and "cc_Cache c' = cc_Cache c" and "cbyte c' = cbyte c"
    and "CacheCore.more c' = CacheCore.more c"
proof -
  note pool = wc_invD(1) [OF inv]
  obtain c' where c': "DoLru now b c = Ret c'" "pool_inv bs c'" "same_view c c'"
      "cc_FreeList c' = cc_FreeList c" "set (cc_LruList c') = insert b (set (cc_LruList c))"
      "CacheCore.more c' = CacheCore.more c"
    by (rule DoLru_ok [OF pool attachedD(1,2) [OF pool att], of now]) blast
  note sv = same_viewD [OF c'(3)] and m = more_same [OF c'(6)]
  have "b \<notin> set (queue c)" using nq att by (auto simp: qblocks_def)
  then have "wc_inv bs H c'"
    using inv c'(5) by (intro wc_inv_lru [OF inv c'(2,3,4,6)]) (auto simp: wc_defs)
  then show thesis using that [OF c'(1) _ qblocks_cong [OF m(4) sv(2)] sv(2,4,1) c'(6)] by blast
qed

lemma end_lru:
  assumes inv: "wc_inv bs {(f, op_Index bop)} c" and nq: "(f, op_Index bop) \<notin> qblocks c"
    and att: "attached c f (op_Index bop) = Some b" and open_ch: "\<not> wc_chClosed c"
    and v: "wop_view bs f bop v n err (wview bs content c s)"
  shows "okG w (bindG (DoLru now b c) (\<lambda>c'. Ret ((True, n, err), c', s))) (wop_post (SyncIo c) bs content f bop v)"
proof -
  obtain c' where c': "DoLru now b c = Ret c'" "wc_inv bs {(f, op_Index bop)} c'" "qblocks c' = qblocks c"
      "cbyte c' = cbyte c" "CacheCore.more c' = CacheCore.more c"
    by (rule put_on_lru [OF inv nq att, of now]) blast
  then show ?thesis using v nq wview_cong [OF c'(4), of bs content s] more_same [OF c'(5)] open_ch by simp
qed

lemma end_send:
  assumes inv: "wc_inv bs {(f, op_Index bop)} c" and nq: "(f, op_Index bop) \<notin> qblocks c"
    and att: "attached c f (op_Index bop) = Some b" and open_ch: "\<not> wc_chClosed c"
    and lru: "b \<notin> set (cc_LruList c)" and async: "\<not> SyncIo c"
    and v: "wop_view bs f bop v n None (wview bs content c s)"
  shows "okG (length (queue c) \<ge> wc_SyncRoutine c)
     (bindG (chSync_send b c) (\<lambda>c'. Ret ((False, n, None), c', s))) (wop_post (SyncIo c) bs content f bop v)"
proof -
  obtain q where q: "wc_chSync c = Some q" using async by (auto simp: SyncIo_def)
  let ?c = "c\<lparr>wc_chSync := Some (q @ [b])\<rparr>"
  have "cbyte ?c = cbyte c"
    by (rule pool_inv_cong(2)) (simp_all add: attached_def fun_eq_iff)
  moreover have "(f, op_Index bop) \<in> qblocks ?c" "\<not> SyncIo ?c"
    using att by (simp_all add: qblocks_def queue_def SyncIo_def attached_def)
  ultimately show ?thesis
    using async wc_inv_send [OF inv att nq lru q] v wview_cong [of ?c c bs content s] open_ch q
    by (auto simp: chSync_send_def queue_def)
qed

text \<open>Giving a buffer back: afterwards the block has no buffer and the cached bytes are gone.\<close>

lemma detach_free_ok:
  assumes inv: "wc_inv bs H c" and H: "(f, i) \<in> H" and nq: "(f, i) \<notin> qblocks c"
    and att: "attached c f i = Some b" and lru: "b \<notin> set (cc_LruList c)"
  obtains c' where "on_fb f (\<lambda>fb. Ret (DetachBuffer i fb)) c = Ret c'"
    and "wc_inv bs H (FreeBuffer b c')" and "(f, i) \<notin> qblocks (FreeBuffer b c')"
    and "attached (FreeBuffer b c') = (attached c)(f := (attached c f)(i := None))" and "CacheCore.more (FreeBuffer b c') = CacheCore.more c"
    and "cbyte (FreeBuffer b c') = (cbyte c)(f := (cbyte c f)(i := (\<lambda>_. None)))"
proof -
  note pool = wc_invD(1) [OF inv]
  obtain c' where c': "on_fb f (\<lambda>fb. Ret (DetachBuffer i fb)) c = Ret c'" "pool_inv bs c'"
      "attached c' = (attached c)(f := (attached c f)(i := None))"
      "cbyte c' = (cbyte c)(f := (cbyte c f)(i := (\<lambda>_. None)))"
      "cc_heap c' = cc_heap c" "cc_FreeList c' = cc_FreeList c" "cc_LruList c' = cc_LruList c"
      "CacheCore.more c' = CacheCore.more c" "locks c' = locks c" "\<And>f' i'. attached c' f' i' \<noteq> Some b"
    by (rule detach_ok [OF pool att]) blast
  have "fe_ids (FreeBuffer b c') = fe_ids c'" by (rule fe_ids_cong) (simp add: FreeBuffer_def)
  then have ids: "fe_ids (FreeBuffer b c') = fe_ids c" using fe_ids_on_fb [OF c'(1)] by fastforce
  have "pool_inv bs (FreeBuffer b c')" and sv: "same_view c' (FreeBuffer b c')"
    using FreeBuffer_ok [OF c'(2)] attachedD(1,2) [OF pool att] lru c' by simp_all
  moreover note sv = same_viewD [OF sv]
  moreover have "b \<notin> set (queue c)" using nq att by (auto simp: qblocks_def)
  ultimately have "wc_inv bs H (FreeBuffer b c')" "(f, i) \<notin> qblocks (FreeBuffer b c')"
    using wc_inv_detach [OF inv H att, of "FreeBuffer b c'"] c' ids by (simp_all add: FreeBuffer_def)
  then show thesis using that [OF c'(1)] sv c' by (simp add: FreeBuffer_def)
qed

text \<open>A new buffer, filled with the data of the operation and attached to its block.\<close>

lemma new_buffer_ok:
  assumes inv: "wc_inv bs {(fe_Id fe, op_Index bop)} c" and bop: "bop_ok bs fe bop"
    and none: "attached c (fe_Id fe) (op_Index bop) = None" and free: "cc_FreeList c = b # rest"
  obtains c1 c2 c3 c4 buf2 buf4 where "AllocBuffer fe (op_Index bop) c = Ret (Some b, c1)"
    and "on_buf b (Skip (op_RwOffset bop)) c1 = Ret c2" and "index_at (cc_heap c2) b = Ret buf2"
    and "CanMerge (op_RwOffset bop) buf2" and "on_buf b (MergeData now (op_rwBuf bop)) c2 = Ret c3"
    and "on_fb (fe_Id fe) (AttachBuffer (op_Index bop) b) c3 = Ret c4" and "index_at (cc_heap c4) b = Ret buf4"
    and "Buffer_IsFull bs buf4 = Ret (unat (op_RwOffset bop) + length (op_rwBuf bop) = unat bs)"
    and "wc_inv bs {(fe_Id fe, op_Index bop)} c4" and "(fe_Id fe, op_Index bop) \<notin> qblocks c4"
    and "attached c4 (fe_Id fe) (op_Index bop) = Some b" and "b \<notin> set (cc_LruList c4)"
    and "CacheCore.more c4 = CacheCore.more c"
    and "wview bs content c4 s = vwrite (wview bs content c s) (fe_Id fe) (op_pos bs bop) (op_rwBuf bop)"
proof -
  let ?f = "fe_Id fe" and ?i = "op_Index bop" and ?d = "op_rwBuf bop" and ?o = "op_RwOffset bop"
  note pool = wc_invD(1) [OF inv]
  have bs: "0 < unat bs" "fe_BlockSize fe = bs" and fits: "unat ?o + length ?d \<le> unat bs"
    and blk: "unat ?i * unat bs + unat bs < 2 ^ 64"
    using inv bop by (auto simp: wc_defs bop_ok_def)
  obtain buf where al:
      "AllocBuffer fe ?i c = Ret (Some b, c\<lparr>cc_FreeList := rest, cc_heap := (cc_heap c)[b := buf]\<rparr>)"
      "pool_inv bs (c\<lparr>cc_FreeList := rest, cc_heap := (cc_heap c)[b := buf]\<rparr>)"
    and buf: "home bs ?f ?i buf" "buf_Offset buf = 0" "buf_Len buf = 0" "\<not> buf_elm buf"
    and b: "b < length (cc_heap c)" "b \<notin> set rest" "\<And>f j. attached c f j \<noteq> Some b"
    by (rule AllocBuffer_ok [OF pool bs(2) free, of ?i]) blast
  obtain buf2 buf3 where f: "Skip ?o buf = Ret buf2" "CanMerge ?o buf2" "MergeData now ?d buf2 = Ret buf3"
      "home bs ?f ?i buf3" "buf_elm buf3 = buf_elm buf" "buf_tail buf3 = unat ?o + length ?d"
      "length (buf_dataBuf buf3) < 2 ^ 32"
      "\<And>p. buf_byte buf3 p = (if unat ?o \<le> p \<and> p < unat ?o + length ?d then Some (?d ! (p - unat ?o)) else None)"
    by (rule fill_ok [OF buf(1-3) fits, of now]) blast
  define c3 where "c3 = c\<lparr>cc_FreeList := rest, cc_heap := (cc_heap c)[b := buf3]\<rparr>"
  have c3: "pool_inv bs c3" "cbyte c3 = cbyte c" "attached c3 = attached c" "locks c3 = locks c"
    "CacheCore.more c3 = CacheCore.more c" "cc_LruList c3 = cc_LruList c"
    using pool_inv_buf [OF al(2), of b buf3] cbyte_buf_unattached [of b "c\<lparr>cc_FreeList := rest\<rparr>" buf3] f b
    by (simp_all add: c3_def)
  obtain fb where "map_of (cc_Cache c3) ?f = Some fb"
    using locked_file [of c ?f ?i] wc_invD(4) [OF inv] by (auto simp: c3_def)
  moreover have "attached c3 ?f ?i = None" "b < length (cc_heap c3)" "b \<notin> set (cc_FreeList c3)"
      "home bs ?f ?i (cc_heap c3 ! b)"
    using none b f by (simp_all add: c3) (simp_all add: c3_def)
  ultimately obtain c4 where c4: "on_fb ?f (AttachBuffer ?i b) c3 = Ret c4" "pool_inv bs c4"
      "attached c4 = (attached c3)(?f := (attached c3 ?f)(?i \<mapsto> b))"
      "cbyte c4 = (cbyte c3)(?f := (cbyte c3 ?f)(?i := buf_byte (cc_heap c3 ! b)))"
      "cc_heap c4 = cc_heap c3" "cc_FreeList c4 = cc_FreeList c3" "cc_LruList c4 = cc_LruList c3"
      "CacheCore.more c4 = CacheCore.more c3" "locks c4 = locks c3"
    using attach_ok [OF c3(1)] by metis
  have bl: "b \<notin> set (cc_LruList c4)" using pool free c4(7) c3(6) by (auto simp: pool_defs)
  have ids: "fe_ids c4 = fe_ids c"
    using fe_ids_on_fb [OF c4(1) AttachBuffer_fe] fe_ids_cong [of c3 c] by (simp add: c3_def)
  have i4: "wc_inv bs {(?f, ?i)} c4" "(?f, ?i) \<notin> qblocks c4"
    using wc_inv_attach [OF inv _ none c4(2), of b "buf_byte buf3"] c4 c3 free blk b ids filled_nonempty [OF bop f(8)]
    by (auto simp: c3_def)
  have v4: "wview bs content c4 s = vwrite (wview bs content c s) ?f (op_pos bs bop) ?d"
    using fview_merge [OF bs(1) fits, of "buf_byte buf3" "cbyte c" ?f ?i "content s"] f(8)
      cbyte_None [OF none] c4(4) c3(2) b
    by (simp add: wview_def op_pos_def c3_def)
  have bf: "Buffer_IsFull bs buf3 = Ret (unat ?o + length ?d = unat bs)"
    using Buffer_IsFull_ok [of bs buf3] f(4,6) by (simp add: home_def)
  show thesis
    by (rule that [OF al(1) _ _ f(2) _ c4(1) _ bf i4 _ bl _ v4,
          of "c\<lparr>cc_FreeList := rest, cc_heap := (cc_heap c)[b := buf2]\<rparr>"])
       (use b f c4 c3 in \<open>simp_all add: on_buf_def c3_def\<close>)
qed

lemma WriteOp_new_ok:
  assumes ok: "server_ok post pc content" and inv: "wc_inv bs {(fe_Id fe, op_Index bop)} c"
    and nq: "(fe_Id fe, op_Index bop) \<notin> qblocks c" and bop: "bop_ok bs fe bop"
    and none: "attached c (fe_Id fe) (op_Index bop) = None" and open_ch: "\<not> wc_chClosed c"
  shows "okG (\<not> SyncIo c \<and> length (queue c) \<ge> wc_SyncRoutine c)
     (WriteOp_new post pc now fe (fe_Id fe) bop c s) (wop_post (SyncIo c) bs content (fe_Id fe) bop (wview bs content c s))"
proof -
  let ?f = "fe_Id fe" and ?d = "op_rwBuf bop" and ?o = "op_RwOffset bop"
  note direct = op_direct_ok [OF ok inv nq bop none open_ch] and full = Op_IsFull_ok [OF bop]
  have bs: "fe_BlockSize fe = bs" and sz: "unat (op_RwSize bop) = length ?d"
    using bop by (auto simp: bop_ok_def)
  show ?thesis
  proof (cases "unat ?o + length ?d = unat bs \<and> SyncIo c \<or> cc_FreeList c = []")
    case True
    then show ?thesis using direct full by (auto simp: WriteOp_new_def AllocBuffer_empty)
  next
    case False
    then obtain b rest where free: "cc_FreeList c = b # rest" by (cases "cc_FreeList c") auto
    obtain c1 c2 c3 c4 buf2 buf4 where run: "AllocBuffer fe (op_Index bop) c = Ret (Some b, c1)"
        "on_buf b (Skip ?o) c1 = Ret c2" "index_at (cc_heap c2) b = Ret buf2"
        "CanMerge ?o buf2" "on_buf b (MergeData now ?d) c2 = Ret c3"
        "on_fb ?f (AttachBuffer (op_Index bop) b) c3 = Ret c4" "index_at (cc_heap c4) b = Ret buf4"
        "Buffer_IsFull bs buf4 = Ret (unat ?o + length ?d = unat bs)"
      and c4: "wc_inv bs {(?f, op_Index bop)} c4" "(?f, op_Index bop) \<notin> qblocks c4"
        "attached c4 ?f (op_Index bop) = Some b" "b \<notin> set (cc_LruList c4)" "CacheCore.more c4 = CacheCore.more c"
      and v: "wview bs content c4 s = vwrite (wview bs content c s) ?f (op_pos bs bop) ?d"
      by (rule new_buffer_ok [OF inv bop none free, of now content s]) blast
    note m = more_same [OF c4(5)]
    have v4: "wop_view bs ?f bop (wview bs content c s) (int (length ?d)) None (wview bs content c4 s)"
      using v by (simp add: wop_view_def)
    have op4: "\<not> wc_chClosed c4" using open_ch m by simp
    show ?thesis
    proof (cases "unat ?o + length ?d = unat bs")
      case True
      then have "WriteOp_new post pc now fe ?f bop c s =
          bindG (chSync_send b c4) (\<lambda>c'. Ret ((False, int (length ?d), None), c', s))" "\<not> SyncIo c4"
        using False full run sz bs m by (simp_all add: WriteOp_new_def)
      then show ?thesis using end_send [OF c4(1-3) op4 c4(4) _ v4] m by (simp add: okG_mono)
    next
      case nf: False
      then have "WriteOp_new post pc now fe ?f bop c s =
          bindG (DoLru now b c4) (\<lambda>c'. Ret ((True, int (length ?d), None), c', s))"
        using full run sz bs by (simp add: WriteOp_new_def)
      then show ?thesis using end_lru [OF c4(1-3) op4 v4] m by simp
    qed
  qed
qed

text \<open>Changing the attached buffer of a block in place.\<close>

lemma update_buffer_ok:
  assumes inv: "wc_inv bs H c" and att: "attached c f i = Some b" and home: "home bs f i buf"
    and elm: "buf_elm buf = buf_elm (cc_heap c ! b)" and ne: "buf_byte buf \<noteq> (\<lambda>_. None)"
  defines "c' \<equiv> c\<lparr>cc_heap := (cc_heap c)[b := buf]\<rparr>"
  shows "wc_inv bs H c'" "qblocks c' = qblocks c" "attached c' = attached c" "queue c' = queue c"
    "cbyte c' = (cbyte c)(f := (cbyte c f)(i := buf_byte buf))"
proof -
  note pool = wc_invD(1) [OF inv]
  have "home bs f' i' buf" if "attached c f' i' = Some b" for f' i'
    using attached_inj [OF pool att that] home by simp
  then have "pool_inv bs c'"
    unfolding c'_def using home elm
    by (intro pool_inv_buf [OF pool attachedD(1) [OF pool att]]) (simp_all add: home_def buf_wf_def)
  moreover show eqs: "attached c' = attached c" "queue c' = queue c"
    by (simp_all add: c'_def queue_def)
  moreover show q: "qblocks c' = qblocks c" by (rule qblocks_cong [OF eqs(2,1)])
  moreover have "wc_locks H c' = wc_locks H c" by (rule wc_locks_cong) (use q in \<open>simp_all add: c'_def\<close>)
  moreover show "cbyte c' = (cbyte c)(f := (cbyte c f)(i := buf_byte buf))"
    unfolding c'_def by (rule cbyte_buf [OF pool att])
  moreover have "wc_files c' = wc_files c" by (rule wc_files_cong [OF fe_ids_cong]) (simp add: c'_def)
  ultimately show "wc_inv bs H c'" using inv ne by (simp add: wc_defs c'_def)
qed

text \<open>Appending the data of the operation to the buffer of its block.\<close>

lemma merge_buffer_ok:
  assumes inv: "wc_inv bs H c" and bop: "bop_ok bs fe bop"
    and att: "attached c (fe_Id fe) (op_Index bop) = Some b"
    and can: "CanMerge (op_RwOffset bop) (cc_heap c ! b)"
  obtains c1 buf where "on_buf b (MergeData now (op_rwBuf bop)) c = Ret c1" and "index_at (cc_heap c1) b = Ret buf"
    and "Buffer_IsFull bs buf = Ret (unat (op_RwOffset bop) + length (op_rwBuf bop) = unat bs)"
    and "wc_inv bs H c1" and "qblocks c1 = qblocks c" and "attached c1 = attached c"
    and "CacheCore.more c1 = CacheCore.more c" and "cc_LruList c1 = cc_LruList c"
    and "wview bs content c1 s = vwrite (wview bs content c s) (fe_Id fe) (op_pos bs bop) (op_rwBuf bop)"
proof -
  let ?f = "fe_Id fe" and ?i = "op_Index bop" and ?d = "op_rwBuf bop" and ?o = "op_RwOffset bop"
  note a = attachedD [OF wc_invD(1) [OF inv] att]
  have fits: "unat ?o + length ?d \<le> unat bs" using bop by (auto simp: bop_ok_def)
  have wf: "buf_wf bs (cc_heap c ! b)" using a(3) by (simp add: home_def)
  obtain buf where buf: "MergeData now ?d (cc_heap c ! b) = Ret buf" "buf_wf bs buf"
      "buf_fe buf = buf_fe (cc_heap c ! b)" "buf_BlkIdx buf = buf_BlkIdx (cc_heap c ! b)"
      "buf_elm buf = buf_elm (cc_heap c ! b)" "buf_tail buf = unat ?o + length ?d"
      "\<And>p. buf_byte buf p = (if unat ?o \<le> p \<and> p < unat ?o + length ?d then Some (?d ! (p - unat ?o))
         else buf_byte (cc_heap c ! b) p)"
    using MergeData_ok [OF wf can fits, of now] by metis
  let ?c = "c\<lparr>cc_heap := (cc_heap c)[b := buf]\<rparr>"
  have "home bs ?f ?i buf" using a(3) buf by (auto simp: home_def)
  note u = update_buffer_ok [OF inv att this buf(5) filled_nonempty [OF bop buf(7)]]
  have "wview bs content ?c s = vwrite (wview bs content c s) ?f (op_pos bs bop) ?d"
    using fview_merge [OF wc_invD(2) [OF inv] fits, of "buf_byte buf" "cbyte c" ?f ?i "content s"] buf(7) u(5)
      cbyte_Some [OF att] by (simp add: wview_def op_pos_def)
  moreover have "Buffer_IsFull bs buf = Ret (unat ?o + length ?d = unat bs)"
    using buf(6) Buffer_IsFull_ok [OF buf(2)] by simp
  ultimately show thesis using that [of ?c buf] a(1) buf(1) u by (simp add: on_buf_def)
qed

lemma WriteOp_merge_ok:
  assumes ok: "server_ok post pc content" and inv: "wc_inv bs {(fe_Id fe, op_Index bop)} c"
    and nq: "(fe_Id fe, op_Index bop) \<notin> qblocks c" and bop: "bop_ok bs fe bop"
    and att: "attached c (fe_Id fe) (op_Index bop) = Some b" and lru: "b \<notin> set (cc_LruList c)"
    and can: "CanMerge (op_RwOffset bop) (cc_heap c ! b)" and open_ch: "\<not> wc_chClosed c"
  shows "okG (\<not> SyncIo c \<and> length (queue c) \<ge> wc_SyncRoutine c)
     (WriteOp_merge post pc now fe (fe_Id fe) b bop c s) (wop_post (SyncIo c) bs content (fe_Id fe) bop (wview bs content c s))"
proof -
  let ?f = "fe_Id fe" and ?i = "op_Index bop" and ?d = "op_rwBuf bop" and ?o = "op_RwOffset bop"
  let ?v = "wview bs content c s"
  have fe: "fe_BlockSize fe = bs" and sz: "unat (op_RwSize bop) = length ?d" using bop by (auto simp: bop_ok_def)
  obtain c1 buf where run: "on_buf b (MergeData now ?d) c = Ret c1" "index_at (cc_heap c1) b = Ret buf"
      "Buffer_IsFull bs buf = Ret (unat ?o + length ?d = unat bs)"
    and m: "wc_inv bs {(?f, ?i)} c1" "qblocks c1 = qblocks c" "attached c1 = attached c"
      "CacheCore.more c1 = CacheCore.more c" "cc_LruList c1 = cc_LruList c"
      "wview bs content c1 s = vwrite ?v ?f (op_pos bs bop) ?d"
    by (rule merge_buffer_ok [OF inv bop att can, of now content s]) blast
  have c1: "wc_inv bs {(?f, ?i)} c1" "(?f, ?i) \<notin> qblocks c1" "attached c1 ?f ?i = Some b"
      "\<not> wc_chClosed c1" "b \<notin> set (cc_LruList c1)" "SyncIo c1 = SyncIo c" "queue c1 = queue c"
      "wc_SyncRoutine c1 = wc_SyncRoutine c"
    using m nq att lru open_ch more_same [OF m(4)] by auto
  have v1: "wop_view bs ?f bop ?v (int (length ?d)) None (wview bs content c1 s)"
    using m(6) by (simp add: wop_view_def)
  consider (lru) "unat ?o + length ?d \<noteq> unat bs" | (send) "unat ?o + length ?d = unat bs" "\<not> SyncIo c"
    | (flush) "unat ?o + length ?d = unat bs" "SyncIo c" by blast
  then show ?thesis
  proof cases
    case lru
    then show ?thesis using end_lru [OF c1(1-4) v1] run fe sz c1(6) by (simp add: WriteOp_merge_def)
  next
    case send
    then show ?thesis using end_send [OF c1(1-5) _ v1] run fe sz c1(6-8) by (simp add: WriteOp_merge_def)
  next
    case flush
    obtain s' n err where fl: "flush_data post pc s fe b c1 = Ret (s', n, err)"
        "wview bs content c1 s' = wview bs content c1 s"
        "err = None \<Longrightarrow> fview bs ((cbyte c1)(?f := (cbyte c1 ?f)(?i := (\<lambda>_. None)))) (content s') = wview bs content c1 s"
      by (rule flush_data_ok [OF ok _ c1(3) refl]) (use c1(1) in \<open>auto simp: wc_inv_def\<close>)
    obtain c2 where d: "on_fb ?f (\<lambda>fb. Ret (DetachBuffer ?i fb)) c1 = Ret c2" "wc_inv bs {(?f, ?i)} (FreeBuffer b c2)"
        "(?f, ?i) \<notin> qblocks (FreeBuffer b c2)" "CacheCore.more (FreeBuffer b c2) = CacheCore.more c1"
        "cbyte (FreeBuffer b c2) = (cbyte c1)(?f := (cbyte c1 ?f)(?i := (\<lambda>_. None)))"
      by (rule detach_free_ok [OF c1(1) _ c1(2,3,5)]) auto
    show ?thesis
    proof (cases err)
      case None
      then show ?thesis using fl d run flush c1(4,6) more_same(3,5) [OF d(4)] fe sz v1
        by (simp add: WriteOp_merge_def wview_def)
    next
      case (Some e)
      then have "wop_view bs ?f bop ?v n err (wview bs content c1 s')"
        using fl(2) m(6) same_outside_vwrite by (simp add: wop_view_def)
      then show ?thesis using end_lru [OF c1(1-4)] fl(1) run flush c1(6) fe Some by (simp add: WriteOp_merge_def)
    qed
  qed
qed

text \<open>Writing the old data of the block back and starting again with the data of the operation.\<close>

lemma reset_buffer_ok:
  assumes inv: "wc_inv bs H c" and bop: "bop_ok bs fe bop"
    and att: "attached c (fe_Id fe) (op_Index bop) = Some b" and lru: "b \<notin> set (cc_LruList c)"
  obtains c1 c2 c3 buf2 where "on_buf b (ReSet fe (op_Index bop)) c = Ret c1"
    and "on_buf b (Skip (op_RwOffset bop)) c1 = Ret c2" and "index_at (cc_heap c2) b = Ret buf2"
    and "CanMerge (op_RwOffset bop) buf2" and "on_buf b (MergeData now (op_rwBuf bop)) c2 = Ret c3"
    and "wc_inv bs H c3" and "qblocks c3 = qblocks c" and "attached c3 = attached c"
    and "CacheCore.more c3 = CacheCore.more c"
    and "wview bs content c3 s = vwrite (fview bs ((cbyte c)(fe_Id fe := (cbyte c (fe_Id fe))(op_Index bop := (\<lambda>_. None))))
       (content s)) (fe_Id fe) (op_pos bs bop) (op_rwBuf bop)"
proof -
  let ?f = "fe_Id fe" and ?i = "op_Index bop" and ?d = "op_rwBuf bop" and ?o = "op_RwOffset bop"
  note pool = wc_invD(1) [OF inv]
  note a = attachedD [OF pool att]
  have fe: "fe_BlockSize fe = bs" and fits: "unat ?o + length ?d \<le> unat bs" using bop by (auto simp: bop_ok_def)
  have elm: "\<not> buf_elm (cc_heap c ! b)" and len: "length (buf_dataBuf (cc_heap c ! b)) < 2 ^ 32"
    using pool a(1) lru by (auto simp: pool_defs)
  obtain buf where buf: "ReSet fe ?i (cc_heap c ! b) = Ret buf" "buf_wf (fe_BlockSize fe) buf"
      "buf_fe buf = Some fe" "buf_BlkIdx buf = ?i" "buf_Offset buf = 0" "buf_Len buf = 0" "\<not> buf_elm buf"
    by (rule ReSet_ok [OF elm len, of fe ?i]) blast
  have "home bs ?f ?i buf" using buf fe by (simp add: home_def)
  then obtain buf2 buf3 where f: "Skip ?o buf = Ret buf2" "CanMerge ?o buf2" "MergeData now ?d buf2 = Ret buf3"
      "home bs ?f ?i buf3" "buf_elm buf3 = buf_elm buf"
      "\<And>p. buf_byte buf3 p = (if unat ?o \<le> p \<and> p < unat ?o + length ?d then Some (?d ! (p - unat ?o)) else None)"
    using fill_ok [OF _ buf(5,6) fits, of ?f ?i now] by metis
  let ?c = "c\<lparr>cc_heap := (cc_heap c)[b := buf3]\<rparr>"
  note u = update_buffer_ok [OF inv att f(4) _ filled_nonempty [OF bop f(6)], unfolded f(5), OF _]
  have "wview bs content ?c s = vwrite (fview bs ((cbyte c)(?f := (cbyte c ?f)(?i := (\<lambda>_. None)))) (content s))
      ?f (op_pos bs bop) ?d"
    using fview_merge [OF wc_invD(2) [OF inv] fits, of "buf_byte buf3"
        "(cbyte c)(?f := (cbyte c ?f)(?i := (\<lambda>_. None)))" ?f ?i "content s"] f(6) u(5) elm buf(7)
    by (simp add: wview_def op_pos_def)
  then show thesis
    using that [of "c\<lparr>cc_heap := (cc_heap c)[b := buf]\<rparr>" "c\<lparr>cc_heap := (cc_heap c)[b := buf2]\<rparr>" buf2 ?c]
      a(1) buf(1,7) f(1,2,3) u elm by (simp add: on_buf_def)
qed

lemma WriteOp_replace_ok:
  assumes ok: "server_ok post pc content" and inv: "wc_inv bs {(fe_Id fe, op_Index bop)} c"
    and nq: "(fe_Id fe, op_Index bop) \<notin> qblocks c" and bop: "bop_ok bs fe bop"
    and att: "attached c (fe_Id fe) (op_Index bop) = Some b" and lru: "b \<notin> set (cc_LruList c)"
    and open_ch: "\<not> wc_chClosed c"
  shows "okG w (WriteOp_replace post pc now fe (fe_Id fe) b bop c s)
     (wop_post (SyncIo c) bs content (fe_Id fe) bop (wview bs content c s))"
proof -
  let ?f = "fe_Id fe" and ?i = "op_Index bop" and ?d = "op_rwBuf bop" and ?o = "op_RwOffset bop"
  let ?v = "wview bs content c s"
  have sz: "unat (op_RwSize bop) = length ?d" using bop by (auto simp: bop_ok_def)
  note full = Op_IsFull_ok [OF bop]
  obtain s' n err where fl: "flush_data post pc s fe b c = Ret (s', n, err)" "wview bs content c s' = ?v"
      "err = None \<Longrightarrow> fview bs ((cbyte c)(?f := (cbyte c ?f)(?i := (\<lambda>_. None)))) (content s') = ?v"
    by (rule flush_data_ok [OF ok _ att refl]) (use inv in \<open>auto simp: wc_inv_def\<close>)
  consider (err) e where "err = Some e" | (full) "err = None" "unat ?o + length ?d = unat bs"
    | (part) "err = None" "unat ?o + length ?d \<noteq> unat bs" by (cases err) auto
  then show ?thesis
  proof cases
    case (err e)
    then have "wop_view bs ?f bop ?v n err (wview bs content c s')" using fl(2) by (simp add: wop_view_def)
    then show ?thesis using end_lru [OF inv nq att open_ch] fl(1) err by (simp add: WriteOp_replace_def)
  next
    case full
    obtain c1 where d: "on_fb ?f (\<lambda>fb. Ret (DetachBuffer ?i fb)) c = Ret c1" "wc_inv bs {(?f, ?i)} (FreeBuffer b c1)"
        "(?f, ?i) \<notin> qblocks (FreeBuffer b c1)"
        "attached (FreeBuffer b c1) = (attached c)(?f := (attached c ?f)(?i := None))"
        "CacheCore.more (FreeBuffer b c1) = CacheCore.more c"
        "cbyte (FreeBuffer b c1) = (cbyte c)(?f := (cbyte c ?f)(?i := (\<lambda>_. None)))"
      by (rule detach_free_ok [OF inv _ nq att lru]) auto
    have "wview bs content (FreeBuffer b c1) s' = ?v" using fl(3) [OF full(1)] d(6) by (simp add: wview_def)
    then show ?thesis
      using op_direct_ok [OF ok d(2,3) bop, of w s'] d(4) more_same(3,5) [OF d(5)] open_ch fl(1) full d(1)
        Op_IsFull_ok [OF bop] by (simp add: WriteOp_replace_def)
  next
    case part
    obtain c1 c2 c3 buf2 where r: "on_buf b (ReSet fe ?i) c = Ret c1" "on_buf b (Skip ?o) c1 = Ret c2"
        "index_at (cc_heap c2) b = Ret buf2" "CanMerge ?o buf2" "on_buf b (MergeData now ?d) c2 = Ret c3"
        "wc_inv bs {(?f, ?i)} c3" "qblocks c3 = qblocks c" "attached c3 = attached c"
        "CacheCore.more c3 = CacheCore.more c"
        "wview bs content c3 s' = vwrite (fview bs ((cbyte c)(?f := (cbyte c ?f)(?i := (\<lambda>_. None)))) (content s'))
           ?f (op_pos bs bop) ?d"
      by (rule reset_buffer_ok [OF inv bop att lru, of now content s']) blast
    have "wop_view bs ?f bop ?v (int (length ?d)) None (wview bs content c3 s')"
      using r(10) fl(3) [OF part(1)] by (simp add: wop_view_def)
    then show ?thesis
      using end_lru [OF r(6), of b] r(1-5) nq att open_ch r(7,8) more_same(3,5) [OF r(9)] fl(1) part full sz
      by (simp add: WriteOp_replace_def)
  qed
qed

lemma the_fb_attached: "map_of (cc_Cache c) f = Some fb \<Longrightarrow> the_fb f c = Ret fb \<and> GetBuffer i fb = attached c f i"
  by (simp add: the_fb_def GetBuffer_def attached_def)

text \<open>Taking the buffer of a block off the LRU list.\<close>

lemma take_off_lru:
  assumes inv: "wc_inv bs H c" and att: "attached c f i = Some b"
  obtains c1 where "RemoveLru b c = Ret c1" and "wc_inv bs H c1" and "qblocks c1 = qblocks c"
    and "attached c1 = attached c" and "locks c1 = locks c" and "cc_Cache c1 = cc_Cache c"
    and "cbyte c1 = cbyte c" and "CacheCore.more c1 = CacheCore.more c" and "b \<notin> set (cc_LruList c1)"
    and "index_at (cc_heap c1) b = Ret (cc_heap c1 ! b)"
proof -
  note pool = wc_invD(1) [OF inv]
  note a = attachedD [OF pool att]
  obtain c1 where c1: "RemoveLru b c = Ret c1" "pool_inv bs c1" "same_view c c1"
      "cc_FreeList c1 = cc_FreeList c" "set (cc_LruList c1) = set (cc_LruList c) - {b}"
      "CacheCore.more c1 = CacheCore.more c" "\<not> buf_elm (cc_heap c1 ! b)"
    by (rule RemoveLru_ok [OF pool a(1)]) blast
  note sv = same_viewD [OF c1(3)] and m = more_same [OF c1(6)]
  have "wc_inv bs H c1"
    using inv c1(5) by (intro wc_inv_lru [OF inv c1(2,3,4,6)]) (auto simp: wc_defs)
  then show thesis
    using that [OF c1(1) _ qblocks_cong [OF m(4) sv(2)] sv(2,3,4,1) c1(6)] c1(5) a(1) sv(5) by simp
qed

lemma WriteOp_ok:
  assumes ok: "server_ok post pc content" and inv: "wc_inv bs {(fe_Id fe, op_Index bop)} c"
    and nq: "(fe_Id fe, op_Index bop) \<notin> qblocks c" and bop: "bop_ok bs fe bop"
    and open_ch: "\<not> wc_chClosed c"
  shows "okG (\<not> SyncIo c \<and> length (queue c) \<ge> wc_SyncRoutine c)
     (WriteOp post pc now fe (fe_Id fe) bop c s)
     (wop_post (SyncIo c) bs content (fe_Id fe) bop (wview bs content c s))"
proof -
  let ?f = "fe_Id fe" and ?i = "op_Index bop"
  obtain fb where fb: "map_of (cc_Cache c) ?f = Some fb"
    using locked_file [of c ?f ?i] wc_invD(4) [OF inv] by auto
  note g = the_fb_attached [OF fb]
  show ?thesis
  proof (cases "attached c ?f ?i")
    case None
    then show ?thesis using WriteOp_new_ok [OF ok inv nq bop None open_ch] g by (simp add: WriteOp_def)
  next
    case (Some b)
    obtain c1 where r: "RemoveLru b c = Ret c1" "wc_inv bs {(?f, ?i)} c1" "qblocks c1 = qblocks c"
        "attached c1 = attached c" "cbyte c1 = cbyte c" "CacheCore.more c1 = CacheCore.more c"
        "b \<notin> set (cc_LruList c1)" "index_at (cc_heap c1) b = Ret (cc_heap c1 ! b)"
      by (rule take_off_lru [OF inv Some]) blast
    note m = more_same [OF r(6)]
    have pre: "(?f, ?i) \<notin> qblocks c1" "attached c1 ?f ?i = Some b" "\<not> wc_chClosed c1"
      using r nq Some open_ch m by simp_all
    note v = wview_cong [OF r(5), of bs content s]
    show ?thesis
      using WriteOp_merge_ok [OF ok r(2) pre(1) bop pre(2) r(7) _ pre(3), of now s]
        WriteOp_replace_ok [OF ok r(2) pre(1) bop pre(2) r(7) pre(3),
          of "\<not> SyncIo c \<and> length (queue c) \<ge> wc_SyncRoutine c" now s] g r(1,8) Some m v
      by (simp add: WriteOp_def)
  qed
qed

section \<open>Locked operations\<close>

lemma lock_blocked: "wc_inv bs H c \<Longrightarrow> (f, i) \<in> H \<union> qblocks c \<Longrightarrow> on_fb f (LockBuffer i) c = Block"
proof -
  assume "wc_inv bs H c" "(f, i) \<in> H \<union> qblocks c"
  then have "locks c f i = Some wlock" by (simp add: wc_inv_def wc_locks_def)
  then show ?thesis by (auto simp: locks_def on_fb_def LockBuffer_def split: option.splits)
qed

lemma relock:
  assumes inv: "wc_inv bs H c" and fb: "map_of (cc_Cache c) f = Some fb" and nq: "(f, i) \<notin> qblocks c"
    and fb': "BufferMap fb' = BufferMap fb" "fb_fe fb' = fb_fe fb"
      "map_of (LockMap fb') = (map_of (LockMap fb))(i := if l then Some wlock else None)"
  defines "c' \<equiv> c\<lparr>cc_Cache := AList.update f fb' (cc_Cache c)\<rparr>"
  shows "wc_inv bs (if l then insert (f, i) H else H - {(f, i)}) c'" "qblocks c' = qblocks c"
    "attached c' = attached c" "cbyte c' = cbyte c" "CacheCore.more c' = CacheCore.more c"
proof -
  note b = fb_same_bufs [OF fb fb'(1), folded c'_def]
  show m: "CacheCore.more c' = CacheCore.more c" by (simp add: c'_def)
  show q: "qblocks c' = qblocks c" by (rule qblocks_cong [OF more_same(4) [OF m] b(1)])
  show "attached c' = attached c" "cbyte c' = cbyte c" by (fact b)+
  have "locks c' = (locks c)(f := (locks c f)(i := if l then Some wlock else None))"
    using fb fb'(3) by (auto simp: c'_def locks_update fun_eq_iff) (simp_all add: locks_def)
  then have "wc_locks (if l then insert (f, i) H else H - {(f, i)}) c'"
    using inv nq unfolding wc_inv_def wc_locks_def q by auto
  then show "wc_inv bs (if l then insert (f, i) H else H - {(f, i)}) c'"
    using inv b more_same [OF m] wc_files_cong [OF fe_ids_update [OF fb fb'(2)], folded c'_def]
    by (simp add: wc_defs) (simp add: c'_def)
qed

lemma lock_ok:
  assumes inv: "wc_inv bs {} c" and fb: "map_of (cc_Cache c) f \<noteq> None" and nq: "(f, i) \<notin> qblocks c"
  obtains c' where "on_fb f (LockBuffer i) c = Ret c'" and "wc_inv bs {(f, i)} c'" and "qblocks c' = qblocks c"
    and "attached c' = attached c" and "cbyte c' = cbyte c" and "CacheCore.more c' = CacheCore.more c"
proof -
  obtain fb where fb: "map_of (cc_Cache c) f = Some fb" using fb by blast
  have "locks c f i = None" using wc_invD(5) [OF inv] nq by blast
  then have "map_of (LockMap fb) i = None" using fb by (simp add: locks_def)
  then have "on_fb f (LockBuffer i) c = Ret (c\<lparr>cc_Cache :=
      AList.update f (fb\<lparr>LockMap := AList.update i wlock (LockMap fb)\<rparr>) (cc_Cache c)\<rparr>)"
    using fb by (simp add: on_fb_def LockBuffer_def wlock_def)
  then show thesis
    using relock [OF inv fb nq, of "fb\<lparr>LockMap := AList.update i wlock (LockMap fb)\<rparr>" True] that
    by (simp add: update_conv')
qed

lemma unlock_ok:
  assumes inv: "wc_inv bs {(f, i)} c" and nq: "(f, i) \<notin> qblocks c"
  obtains c' where "on_fb f (UnLockBuffer i) c = Ret c'" and "wc_inv bs {} c'" and "qblocks c' = qblocks c"
    and "attached c' = attached c" and "cbyte c' = cbyte c" and "CacheCore.more c' = CacheCore.more c"
    and "map_of (cc_Cache c') f \<noteq> None"
proof -
  have l: "locks c f i = Some wlock" using wc_invD(4) [OF inv] by simp
  then obtain fb where fb: "map_of (cc_Cache c) f = Some fb" using locked_file by fastforce
  then have "map_of (LockMap fb) i = Some wlock" using l by (simp add: locks_def)
  then have "on_fb f (UnLockBuffer i) c = Ret (c\<lparr>cc_Cache :=
      AList.update f (fb\<lparr>LockMap := AList.delete i (LockMap fb)\<rparr>) (cc_Cache c)\<rparr>)"
    using fb by (simp add: on_fb_def UnLockBuffer_def wlock_def)
  then show thesis
    using relock [OF inv fb nq, of "fb\<lparr>LockMap := AList.delete i (LockMap fb)\<rparr>" False] that
    by (simp add: delete_conv' update_conv')
qed

lemma qblocks_sync: "SyncIo c \<Longrightarrow> qblocks c = {}"
  by (simp add: SyncIo_def qblocks_def queue_def)

lemma locked_WriteOp_ok:
  assumes ok: "server_ok post pc content" and inv: "wc_inv bs {} c"
    and fb: "map_of (cc_Cache c) (fe_Id fe) \<noteq> None" and bop: "bop_ok bs fe bop" and open_ch: "\<not> wc_chClosed c"
  shows "okG (\<not> SyncIo c) (locked_WriteOp post pc now fe (fe_Id fe) bop c s)
     (\<lambda>((n, err), c', s'). wc_inv bs {} c' \<and> \<not> wc_chClosed c' \<and> SyncIo c' = SyncIo c \<and>
        map_of (cc_Cache c') (fe_Id fe) \<noteq> None \<and>
        wop_view bs (fe_Id fe) bop (wview bs content c s) n err (wview bs content c' s'))"
proof (cases "(fe_Id fe, op_Index bop) \<in> qblocks c")
  case True
  then show ?thesis using lock_blocked [OF inv] qblocks_sync [of c] by (auto simp: locked_WriteOp_def)
next
  case False
  let ?f = "fe_Id fe" and ?i = "op_Index bop"
  obtain c1 where c1: "on_fb ?f (LockBuffer ?i) c = Ret c1" "wc_inv bs {(?f, ?i)} c1" "qblocks c1 = qblocks c"
      "attached c1 = attached c" "cbyte c1 = cbyte c" "CacheCore.more c1 = CacheCore.more c"
    by (rule lock_ok [OF inv fb False]) blast
  note m = more_same [OF c1(6)] and v = wview_cong [OF c1(5), of bs content s]
  have pre: "(?f, ?i) \<notin> qblocks c1" "\<not> wc_chClosed c1" using c1(3) False open_ch m by simp_all
  have "okG (\<not> SyncIo c) (WriteOp post pc now fe ?f bop c1 s)
      (wop_post (SyncIo c) bs content ?f bop (wview bs content c s))"
    using WriteOp_ok [OF ok c1(2) pre(1) bop pre(2), of now s] m v by (elim okG_mono) auto
  then show ?thesis
    unfolding locked_WriteOp_def c1(1) bindG.simps
  proof (rule okG_bind, clarify)
    fix syncIo n err c2 s2
    assume post: "wop_post (SyncIo c) bs content ?f bop (wview bs content c s) ((syncIo, n, err), c2, s2)"
    show "okG (\<not> SyncIo c) (bindG (if syncIo then on_fb ?f (UnLockBuffer ?i) c2 else Ret c2) (\<lambda>c3. Ret ((n, err), c3, s2)))
        (\<lambda>((n, err), c', s'). wc_inv bs {} c' \<and> \<not> wc_chClosed c' \<and> SyncIo c' = SyncIo c \<and>
          map_of (cc_Cache c') ?f \<noteq> None \<and> wop_view bs ?f bop (wview bs content c s) n err (wview bs content c' s'))"
    proof (cases syncIo)
      case True
      then obtain c3 where "on_fb ?f (UnLockBuffer ?i) c2 = Ret c3" "wc_inv bs {} c3" "cbyte c3 = cbyte c2"
          "CacheCore.more c3 = CacheCore.more c2" "map_of (cc_Cache c3) ?f \<noteq> None"
        using post unlock_ok [of bs ?f ?i c2] by (metis wop_post.simps)
      then show ?thesis using True post more_same [of c3 c2] wview_cong [of c3 c2 bs content s2] by simp
    next
      case False
      then have "attached c2 ?f ?i \<noteq> None" using post by (auto simp: qblocks_def)
      then have "map_of (cc_Cache c2) ?f \<noteq> None" by (auto simp: attached_def split: option.splits)
      then show ?thesis using False post by auto
    qed
  qed
qed

section \<open>Write\<close>

lemma ops_at_bop_ok:
  assumes "request_ok fe (length buffer) offset" and "concat (map op_rwBuf ops) = buffer"
    and "ops_at fe (unat offset) ops" and "bop \<in> set ops" and "op_rwBuf bop \<noteq> []"
  shows "bop_ok (fe_BlockSize fe) fe bop"
  using ops_at_block [OF assms(3,4)] ops_at_bounds [OF assms(3,4)] assms(1,2,5)
  by (auto simp: bop_ok_def request_ok_def)

text \<open>
  The result of a write of \<open>d\<close> at \<open>off\<close>: \<open>k\<close> bytes were written; without an error that is all of them,
  with an error nothing else changed outside the rest of the range.
\<close>

definition write_effect :: "u64 \<Rightarrow> nat \<Rightarrow> byte list \<Rightarrow> nat \<Rightarrow> go_error option \<Rightarrow> view \<Rightarrow> view \<Rightarrow> bool" where
  "write_effect f off d k err v v' \<longleftrightarrow>
     k \<le> length d \<and>
     (if err = None then k = length d \<and> v' = vwrite v f off d
      else same_outside f (off + k) (length d - k) (vwrite v f off (take k d)) v')"

lemma write_effect_append:
  assumes "write_effect f (off + length a) b k err (vwrite v f off a) v'"
  shows "write_effect f off (a @ b) (length a + k) err v v'"
  using assms vwrite_append [of v f off a "take k b"] vwrite_append [of v f off a b]
  by (cases err) (simp_all add: write_effect_def add.assoc)

lemma write_effect_stop:
  assumes "same_outside f off (length a) v v'"
  shows "write_effect f off (a @ b) 0 (Some e) v v'"
  using same_outside_mono [OF assms, of off "length (a @ b)"] by (simp add: write_effect_def)

fun write_post ::
  "bool \<Rightarrow> u32 \<Rightarrow> ('s \<Rightarrow> contents) \<Rightarrow> u64 \<Rightarrow> nat \<Rightarrow> byte list \<Rightarrow> int \<Rightarrow> view \<Rightarrow>
   (int \<times> go_error option) \<times> WCache \<times> 's \<Rightarrow> bool" where
  "write_post sio bs content f off d n0 v ((n, err), c', s') \<longleftrightarrow>
     wc_inv bs {} c' \<and> \<not> wc_chClosed c' \<and> SyncIo c' = sio \<and>
     (\<exists>k. n = n0 + int k \<and> write_effect f off d k err v (wview bs content c' s'))"

lemma write_post_append:
  assumes "write_post sio bs content f (off + length a) b (n0 + int (length a)) (vwrite v f off a) r"
  shows "write_post sio bs content f off (a @ b) n0 v r"
proof -
  obtain n err c' s' where r: "r = ((n, err), c', s')" by (metis prod.collapse)
  then obtain k where "n = n0 + int (length a) + int k"
      "write_effect f (off + length a) b k err (vwrite v f off a) (wview bs content c' s')"
    using assms by auto
  then show ?thesis
    using assms r write_effect_append by (auto intro!: exI [of _ "length a + k"])
qed

lemma Write_loop_ok:
  assumes ok: "server_ok post pc content"
  shows "ops_at fe off ops \<Longrightarrow> (\<And>bop. bop \<in> set ops \<Longrightarrow> bop_ok bs fe bop) \<Longrightarrow> wc_inv bs {} c \<Longrightarrow>
    map_of (cc_Cache c) (fe_Id fe) \<noteq> None \<Longrightarrow> \<not> wc_chClosed c \<Longrightarrow>
    okG (\<not> SyncIo c) (Write_loop post pc now fe (fe_Id fe) ops n0 c s)
     (write_post (SyncIo c) bs content (fe_Id fe) off (concat (map op_rwBuf ops)) n0 (wview bs content c s))"
proof (induction ops arbitrary: off n0 c s)
  case Nil
  then show ?case by (simp add: write_effect_def)
next
  case (Cons bop ops)
  let ?f = "fe_Id fe"
  have bop: "bop_ok bs fe bop" and at: "op_pos bs bop = off" "ops_at fe (off + length (op_rwBuf bop)) ops"
    using Cons.prems(1) Cons.prems(2) [of bop] by (auto simp: op_pos_def bop_ok_def)
  note l = locked_WriteOp_ok [OF ok Cons.prems(3,4) bop Cons.prems(5), of now s]
  show ?case
    unfolding Write_loop.simps
  proof (rule okG_bind [OF l], goal_cases)
    case (1 x)
    obtain n err c1 s1 where x: "x = ((n, err), c1, s1)" by (metis prod.collapse)
    then have c1: "wc_inv bs {} c1" "\<not> wc_chClosed c1" "SyncIo c1 = SyncIo c" "map_of (cc_Cache c1) ?f \<noteq> None"
      and v: "wop_view bs ?f bop (wview bs content c s) n err (wview bs content c1 s1)"
      using 1 by simp_all
    show ?case
    proof (cases err)
      case None
      then have v1: "n = int (length (op_rwBuf bop))" "wview bs content c1 s1 = vwrite (wview bs content c s) ?f off (op_rwBuf bop)"
        using v at by (simp_all add: wop_view_def)
      note IH = Cons.IH [OF at(2) Cons.prems(2) c1(1,4,2), of "n0 + n" s1, unfolded v1 c1(3)]
      show ?thesis using IH write_post_append None v1(1) x by (simp, elim okG_mono) simp_all
    next
      case (Some e)
      then show ?thesis
        using v at c1 x write_effect_stop [of ?f off "op_rwBuf bop"] by (auto simp: wop_view_def)
    qed
  qed
qed

lemma wc_inv_GetFileBuffer:
  assumes g: "GetFileBuffer fe bAlloc c = (r, c')"
  shows "wc_inv bs H c' = wc_inv bs H c"
proof -
  note g' = GetFileBuffer_ok [OF g]
  have "locks c' = locks c"
    using g by (auto simp: GetFileBuffer_def locks_update fun_eq_iff NewFileBuffer_def split: option.splits if_splits)
       (simp add: locks_def)
  moreover have "wc_files c' = wc_files c"
  proof (cases "c' = c")
    case False
    then have "map_of (cc_Cache c) (fe_Id fe) = None"
        "cc_Cache c' = AList.update (fe_Id fe) (NewFileBuffer fe) (cc_Cache c)"
      using g by (auto simp: GetFileBuffer_def split: option.splits if_splits)
    then have "fe_ids c' = (fe_ids c)(fe_Id fe \<mapsto> fe_Id fe)" "fe_ids c (fe_Id fe) = None"
      by (auto simp: fe_ids_def NewFileBuffer_def update_conv' fun_eq_iff)
    then show ?thesis unfolding wc_files_def by (metis fun_upd_other fun_upd_same option.distinct(1) option.inject)
  qed simp
  ultimately show ?thesis
    using g' more_same [OF g'(7)] wc_locks_cong [of c' c H H] qblocks_cong [of c' c] by (simp add: wc_defs)
qed

lemma WCache_Write_ok:
  assumes ok: "server_ok post pc content" and inv: "wc_inv bs {} c" and open_ch: "\<not> wc_chClosed c"
    and bs: "fe_BlockSize fe = bs" and rq: "request_ok fe (length buffer) offset" and ne: "buffer \<noteq> []"
  shows "okG (\<not> SyncIo c) (WCache_Write post pc now fe buffer offset c s)
     (write_post (SyncIo c) bs content (fe_Id fe) (unat offset) buffer 0 (wview bs content c s))"
proof -
  obtain r c0 where g: "GetFileBuffer fe True c = (r, c0)" by fastforce
  note g' = GetFileBuffer_ok [OF g]
  have r: "r = Some (fe_Id fe)" "map_of (cc_Cache c0) (fe_Id fe) \<noteq> None" using g'(8,9) by auto
  note m = more_same [OF g'(7)]
  have inv0: "wc_inv bs {} c0" "\<not> wc_chClosed c0" using inv wc_inv_GetFileBuffer [OF g] m open_ch by simp_all
  obtain ops where ops: "WSlice fe buffer offset = Ret ops" "concat (map op_rwBuf ops) = buffer"
      "ops_at fe (unat offset) ops" "\<And>bop. bop \<in> set ops \<Longrightarrow> op_rwBuf bop \<noteq> []"
    using wslice.cut_ok [OF rq] ne by blast
  have "okG (\<not> SyncIo c) (Write_loop post pc now fe (fe_Id fe) ops 0 c0 s)
     (write_post (SyncIo c) bs content (fe_Id fe) (unat offset) buffer 0 (wview bs content c s))"
    using Write_loop_ok [OF ok ops(3) _ inv0(1) r(2) inv0(2), of now 0 s] ops_at_bop_ok [OF rq ops(2,3) _ ops(4)] bs ops(2)
      m(5) wview_cong [OF g'(2), of bs content s] by simp
  then have "okG (\<not> SyncIo c) (bindG (Write_loop post pc now fe (fe_Id fe) ops 0 c0 s)
      (\<lambda>((wtSize, err), c1, s1). if err \<noteq> None then Ret ((wtSize, err), c1, s1)
        else bindG (Assert (wtSize = int (length buffer))) (\<lambda>_. Ret ((wtSize, None), c1, s1))))
     (write_post (SyncIo c) bs content (fe_Id fe) (unat offset) buffer 0 (wview bs content c s))"
    by (rule okG_bind) (auto simp: write_effect_def split: if_splits)
  then show ?thesis
    by (simp add: WCache_Write_def g r(1) ops(1) cong: if_cong)
qed

end
