(* ===== verification/Cfa_WSteps.thy ===== *)
theory Cfa_WSteps
  imports Cfa_WInv
begin

text \<open>
  The write cache as a whole: flushing, expiry, the asynchronous writers, closing, and the
  refinement. A step is one critical section of the code (a block operation under its block lock,
  the flush of one block, one buffer taken from the channel, one expiry), so a run is an arbitrary
  interleaving of the goroutines. Every run is matched by a run of the abstract system whose state
  is just the contents of the files: a successful write overwrites its range, write-back is
  invisible.
\<close>

section \<open>Flushing one block\<close>

abbreviation enoent :: "go_error option" where
  "enoent \<equiv> Some (Errno E_POSIX_ENOENT)"

text \<open>
  What the flush of a block leaves: the buffer is given back after a success and when the server
  does not know the file, and kept otherwise; the view only changes when the data was dropped.
\<close>

fun flush_post ::
  "(u64 \<times> u64) set \<Rightarrow> u32 \<Rightarrow> ('s \<Rightarrow> contents) \<Rightarrow> u64 \<Rightarrow> u64 \<Rightarrow> WCache \<Rightarrow> 's \<Rightarrow>
   go_error option \<times> WCache \<times> 's \<Rightarrow> bool" where
  "flush_post H bs content f i c s (err, c', s') \<longleftrightarrow>
     wc_inv bs H c' \<and> (f, i) \<notin> qblocks c' \<and> CacheCore.more c' = CacheCore.more c \<and>
     map_of (cc_Cache c') f \<noteq> None \<and>
     attached c' = (if err = None \<or> err = enoent then (attached c)(f := (attached c f)(i := None)) else attached c) \<and>
     (if err = enoent
      then same_outside f (unat i * unat bs) (unat bs) (wview bs content c s) (wview bs content c' s')
      else wview bs content c' s' = wview bs content c s)"

text \<open>Dropping the cached bytes of a block changes the view in that block at most.\<close>

lemma drop_block:
  assumes "0 < unat bs"
  shows "same_outside f (unat i * unat bs) (unat bs) (fview bs cb ct) (fview bs (cb(f := (cb f)(i := (\<lambda>_. None)))) ct)"
  unfolding same_outside_def
proof (intro allI impI)
  fix g p assume out: "g \<noteq> f \<or> p < unat i * unat bs \<or> unat i * unat bs + unat bs \<le> p"
  from assms show "fview bs (cb(f := (cb f)(i := (\<lambda>_. None)))) ct g p = fview bs cb ct g p"
  proof (cases rule: block_cases [of bs p])
    case (blk j q)
    then have "\<not> (g = f \<and> j = i)" using out by auto
    then show ?thesis using blk by (auto simp: fview_block)
  qed (simp add: fview_out)
qed

lemma flush_locked:
  assumes ok: "server_ok post pc content" and inv: "wc_inv bs {(f, i)} c" and nq: "(f, i) \<notin> qblocks c"
    and att: "attached c f i = Some b" and lru: "b \<notin> set (cc_LruList c)" and fe: "fe_Id fe = f"
  obtains s' n err where "flush_data post pc s fe b c = Ret (s', n, err)"
    and "wview bs content c s' = wview bs content c s"
    and "\<And>c'. cbyte c' = (cbyte c)(f := (cbyte c f)(i := (\<lambda>_. None))) \<Longrightarrow>
       (if err = None then wview bs content c' s' = wview bs content c s
        else same_outside f (unat i * unat bs) (unat bs) (wview bs content c s) (wview bs content c' s'))"
proof -
  obtain s' n err where fl: "flush_data post pc s fe b c = Ret (s', n, err)"
      "wview bs content c s' = wview bs content c s"
      "err = None \<Longrightarrow> fview bs ((cbyte c)(f := (cbyte c f)(i := (\<lambda>_. None)))) (content s') = wview bs content c s"
    by (rule flush_data_ok [OF ok _ att fe]) (use inv in \<open>auto simp: wc_inv_def\<close>)
  then show thesis
    using that [OF fl(1,2)] drop_block [OF wc_invD(2) [OF inv], of f i "cbyte c" "content s'"]
    by (simp add: wview_def)
qed

lemma flush_unlock:
  assumes "flush_post {(f, i)} bs content f i c s r"
  shows "okG w (case r of (err, c4, s'') \<Rightarrow> bindG (on_fb f (UnLockBuffer i) c4) (\<lambda>c5. Ret (err, c5, s'')))
     (flush_post {} bs content f i c s)"
proof -
  obtain err c4 s4 where r: "r = (err, c4, s4)" by (metis prod.collapse)
  have p: "wc_inv bs {(f, i)} c4" "(f, i) \<notin> qblocks c4" using assms r by simp_all
  obtain c5 where c5: "on_fb f (UnLockBuffer i) c4 = Ret c5" "wc_inv bs {} c5" "qblocks c5 = qblocks c4"
      "attached c5 = attached c4" "cbyte c5 = cbyte c4" "CacheCore.more c5 = CacheCore.more c4"
      "map_of (cc_Cache c5) f \<noteq> None"
    by (rule unlock_ok [OF p]) blast
  then show ?thesis using assms r wview_cong [OF c5(5), of bs content s4] by simp
qed

lemma FlushBuffer_body_ok:
  assumes ok: "server_ok post pc content" and inv: "wc_inv bs {(f, i)} c" and nq: "(f, i) \<notin> qblocks c"
  shows "okG w (FlushBuffer_body post pc now f i c s) (flush_post {(f, i)} bs content f i c s)"
proof -
  have fileok: "map_of (cc_Cache c') f \<noteq> None" if "wc_inv bs {(f, i)} c'" for c'
    using locked_file [of c' f i] wc_invD(4) [OF that] by auto
  obtain fb where fb: "map_of (cc_Cache c) f = Some fb" using fileok [OF inv] by blast
  note g = the_fb_attached [OF fb, of i]
  show ?thesis
  proof (cases "attached c f i")
    case None
    then have "attached c = (attached c)(f := (attached c f)(i := None))" by (auto simp: fun_eq_iff)
    then show ?thesis using inv nq fb None g by (simp add: FlushBuffer_body_def)
  next
    case (Some b)
    obtain c2 where c2: "RemoveLru b c = Ret c2" "wc_inv bs {(f, i)} c2" "qblocks c2 = qblocks c"
        "attached c2 = attached c" "cbyte c2 = cbyte c" "CacheCore.more c2 = CacheCore.more c"
        "b \<notin> set (cc_LruList c2)" "index_at (cc_heap c2) b = Ret (cc_heap c2 ! b)"
      by (rule take_off_lru [OF inv Some]) blast
    have a2: "attached c2 f i = Some b" and nq2: "(f, i) \<notin> qblocks c2" using c2 Some nq by simp_all
    obtain fe where fe: "buf_fe (cc_heap c2 ! b) = Some fe" "fe_Id fe = f"
      using attachedD(3) [OF wc_invD(1) [OF c2(2)] a2] by (auto simp: home_def)
    note v2 = wview_cong [OF c2(5), of bs content s]
    obtain s' n err where fl: "flush_data post pc s fe b c2 = Ret (s', n, err)"
        "wview bs content c2 s' = wview bs content c s"
        "\<And>c'. cbyte c' = (cbyte c2)(f := (cbyte c2 f)(i := (\<lambda>_. None))) \<Longrightarrow>
         (if err = None then wview bs content c' s' = wview bs content c s
          else same_outside f (unat i * unat bs) (unat bs) (wview bs content c s) (wview bs content c' s'))"
      by (rule flush_locked [OF ok c2(2) nq2 a2 c2(7) fe(2), of s, unfolded v2]) blast
    obtain c3 where d: "on_fb f (\<lambda>fb. Ret (DetachBuffer i fb)) c2 = Ret c3" "wc_inv bs {(f, i)} (FreeBuffer b c3)"
        "(f, i) \<notin> qblocks (FreeBuffer b c3)"
        "attached (FreeBuffer b c3) = (attached c2)(f := (attached c2 f)(i := None))"
        "CacheCore.more (FreeBuffer b c3) = CacheCore.more c2"
        "cbyte (FreeBuffer b c3) = (cbyte c2)(f := (cbyte c2 f)(i := (\<lambda>_. None)))"
      by (rule detach_free_ok [OF c2(2) _ nq2 a2 c2(7)]) auto
    obtain c4 where l: "DoLru now b c2 = Ret c4" "wc_inv bs {(f, i)} c4" "qblocks c4 = qblocks c2"
        "attached c4 = attached c2" "cbyte c4 = cbyte c2" "CacheCore.more c4 = CacheCore.more c2"
      by (rule put_on_lru [OF c2(2) nq2 a2, of now]) blast
    note fin = fl(3) [OF d(6)] and v4 = wview_cong [OF l(5), of bs content s']
    show ?thesis
      using c2 fe fl(1,2) d fin fileok [OF d(2)] fileok [OF l(2)] l v4 nq g Some
      by (cases err; cases "err = enoent") (simp_all add: FlushBuffer_body_def)
  qed
qed

lemma FlushBuffer_ok:
  assumes ok: "server_ok post pc content" and inv: "wc_inv bs {} c" and fb: "map_of (cc_Cache c) f \<noteq> None"
  shows "okG ((f, i) \<in> qblocks c) (FlushBuffer post pc now f i c s) (flush_post {} bs content f i c s)"
proof (cases "(f, i) \<in> qblocks c")
  case True
  then show ?thesis using lock_blocked [OF inv] by (simp add: FlushBuffer_def)
next
  case False
  obtain c1 where c1: "on_fb f (LockBuffer i) c = Ret c1" "wc_inv bs {(f, i)} c1" "qblocks c1 = qblocks c"
      "attached c1 = attached c" "cbyte c1 = cbyte c" "CacheCore.more c1 = CacheCore.more c"
    by (rule lock_ok [OF inv fb False]) blast
  have nq1: "(f, i) \<notin> qblocks c1" using c1(3) False by simp
  have post: "flush_post {} bs content f i c1 s = flush_post {} bs content f i c s"
  proof (rule ext)
    fix r show "flush_post {} bs content f i c1 s r = flush_post {} bs content f i c s r"
      using wview_cong [OF c1(5), of bs content s] by (cases r) (simp add: c1)
  qed
  show ?thesis
    unfolding FlushBuffer_def c1(1) bindG.simps post [symmetric]
    by (rule okG_bind [OF FlushBuffer_body_ok [OF ok c1(2) nq1] flush_unlock])
qed

section \<open>Flushing a file\<close>

text \<open>The blocks flushed one after the other, in any order.\<close>

fun flush_all_post ::
  "u32 \<Rightarrow> ('s \<Rightarrow> contents) \<Rightarrow> u64 \<Rightarrow> u64 set \<Rightarrow> WCache \<Rightarrow> 's \<Rightarrow> go_error option list \<times> WCache \<times> 's \<Rightarrow> bool" where
  "flush_all_post bs content f I c s (errs, c', s') \<longleftrightarrow>
     wc_inv bs {} c' \<and> CacheCore.more c' = CacheCore.more c \<and> map_of (cc_Cache c') f \<noteq> None \<and>
     (\<forall>g i. attached c' g i = attached c g i \<or> g = f \<and> i \<in> I \<and> attached c' g i = None) \<and>
     (set errs \<subseteq> {None} \<longrightarrow> (\<forall>i \<in> I. attached c' f i = None)) \<and>
     (\<forall>g. g \<noteq> f \<longrightarrow> wview bs content c' s' g = wview bs content c s g) \<and>
     (enoent \<notin> set errs \<longrightarrow> wview bs content c' s' = wview bs content c s)"

lemma qblocks_mono:
  assumes "queue c' = queue c" and "\<forall>g i. attached c' g i = attached c g i \<or> attached c' g i = None"
  shows "qblocks c' \<subseteq> qblocks c"
  using assms by (auto simp: qblocks_def) (metis option.distinct(1))

lemma flush_each_ok:
  assumes ok: "server_ok post pc content"
  shows "wc_inv bs {} c \<Longrightarrow> map_of (cc_Cache c) f \<noteq> None \<Longrightarrow>
    okG (\<exists>i \<in> set idx. (f, i) \<in> qblocks c) (flush_each post pc now f idx c s)
      (flush_all_post bs content f (set idx) c s)"
proof (induction idx arbitrary: c s)
  case Nil
  then show ?case by simp
next
  case (Cons i idx)
  let ?w = "\<exists>j \<in> set (i # idx). (f, j) \<in> qblocks c"
  have fl: "okG ?w (FlushBuffer post pc now f i c s) (flush_post {} bs content f i c s)"
    by (rule okG_mono [OF FlushBuffer_ok [OF ok Cons.prems]]) auto
  show ?case
    unfolding flush_each.simps
  proof (rule okG_bind [OF fl], goal_cases)
    case (1 x)
    obtain err c1 s1 where x: "x = (err, c1, s1)" by (metis prod.collapse)
    have c1: "wc_inv bs {} c1" "CacheCore.more c1 = CacheCore.more c" "map_of (cc_Cache c1) f \<noteq> None"
      and att: "attached c1 =
        (if err = None \<or> err = enoent then (attached c)(f := (attached c f)(i := None)) else attached c)"
      and v: "if err = enoent
        then same_outside f (unat i * unat bs) (unat bs) (wview bs content c s) (wview bs content c1 s1)
        else wview bs content c1 s1 = wview bs content c s"
      using 1 x by simp_all
    have v1: "err \<noteq> enoent \<Longrightarrow> wview bs content c1 s1 = wview bs content c s" using v by simp
    have vg: "\<forall>g. g \<noteq> f \<longrightarrow> wview bs content c1 s1 g = wview bs content c s g"
      using v by (auto simp: same_outside_def fun_eq_iff split: if_splits)
    have a1: "\<forall>g j. attached c1 g j = attached c g j \<or> g = f \<and> j = i \<and> attached c1 g j = None"
      and n1: "err = None \<Longrightarrow> attached c1 f i = None" unfolding att by simp_all
    have "qblocks c1 \<subseteq> qblocks c" using qblocks_mono [OF more_same(4) [OF c1(2)]] a1 by metis
    then have rest: "okG ?w (flush_each post pc now f idx c1 s1) (flush_all_post bs content f (set idx) c1 s1)"
      by (intro okG_mono [OF Cons.IH [OF c1(1,3), of s1]]) auto
    show ?case
      unfolding x prod.case
    proof (rule okG_bind [OF rest], goal_cases)
      case (1 y)
      obtain errs c2 s2 where y: "y = (errs, c2, s2)" by (metis prod.collapse)
      have a2: "\<forall>g j. attached c2 g j = attached c1 g j \<or> g = f \<and> j \<in> set idx \<and> attached c2 g j = None"
        using 1 y by simp
      then have "\<forall>g j. attached c2 g j = attached c g j \<or> g = f \<and> j \<in> set (i # idx) \<and> attached c2 g j = None"
        using a1 by (metis list.set_intros)
      moreover have "attached c1 f i = None \<Longrightarrow> attached c2 f i = None" using a2 by metis
      ultimately show ?case using 1 y c1 n1 v1 vg by auto
    qed
  qed
qed

lemma flush_errors_None:
  "foldl (\<lambda>flushErr err. if err \<noteq> None then err else flushErr) e errs = None \<longleftrightarrow> e = None \<and> set errs \<subseteq> {None}"
  by (induction errs arbitrary: e) auto

text \<open>
  \<^verbatim>\<open>Flush\<close>: when it reports success the file has no cached bytes left and the view has not changed, so
  the server holds what the client saw. It can block only on blocks that wait in the channel.
\<close>

fun file_flushed ::
  "u32 \<Rightarrow> ('s \<Rightarrow> contents) \<Rightarrow> u64 \<Rightarrow> WCache \<Rightarrow> 's \<Rightarrow> go_error option \<times> WCache \<times> 's \<Rightarrow> bool" where
  "file_flushed bs content f c s (err, c', s') \<longleftrightarrow>
     wc_inv bs {} c' \<and> CacheCore.more c' = CacheCore.more c \<and>
     (\<forall>g i. attached c' g i = attached c g i \<or> g = f \<and> attached c' g i = None) \<and>
     (\<forall>g. g \<noteq> f \<longrightarrow> wview bs content c' s' g = wview bs content c s g) \<and>
     (err = None \<longrightarrow> (\<forall>i. attached c' f i = None) \<and> wview bs content c' s' = wview bs content c s)"

lemma WCache_Flush_ok:
  assumes ok: "server_ok post pc content" and inv: "wc_inv bs {} c"
    and sched: "\<And>xs. set (sched xs) = set xs" and recv: "\<And>es. set (recv es) = set es"
  shows "okG (\<exists>i. (fe_Id fe, i) \<in> qblocks c) (WCache_Flush sched recv post pc now fe c s)
     (file_flushed bs content (fe_Id fe) c s)"
proof -
  let ?f = "fe_Id fe"
  obtain r c0 where g: "GetFileBuffer fe False c = (r, c0)" by fastforce
  have c0: "c0 = c" "r = (if map_of (cc_Cache c) ?f = None then None else Some ?f)"
    using g by (auto simp: GetFileBuffer_def split: option.splits)
  show ?thesis
  proof (cases "map_of (cc_Cache c) ?f")
    case None
    then have "attached c ?f i = None" for i by (simp add: attached_def)
    then show ?thesis using None g c0 inv by (simp add: WCache_Flush_def)
  next
    case (Some fb)
    let ?I = "GetAllBufferIndex fb"
    have none: "attached c ?f i = None" if "i \<notin> set ?I" for i
      using that Some by (auto simp: attached_def GetAllBufferIndex_def map_of_eq_None_iff)
    have fl: "okG (\<exists>i. (?f, i) \<in> qblocks c) (flush_each post pc now ?f (sched ?I) c s)
        (flush_all_post bs content ?f (set ?I) c s)"
      using flush_each_ok [OF ok inv, of ?f "sched ?I" now s] Some sched [of ?I] by (simp, elim okG_mono) auto
    show ?thesis
    proof (cases "?I = []")
      case True
      then show ?thesis using Some g c0 inv none by (simp add: WCache_Flush_def the_fb_def Let_def)
    next
      case False
      have "okG (\<exists>i. (?f, i) \<in> qblocks c) (bindG (flush_each post pc now ?f (sched ?I) c s) (\<lambda>(errs, c1, s1).
          Ret (foldl (\<lambda>flushErr err. if err \<noteq> None then err else flushErr) None (recv errs), c1, s1)))
          (file_flushed bs content ?f c s)"
      proof (rule okG_bind [OF fl], goal_cases)
        case (1 x)
        obtain errs c1 s1 where x: "x = (errs, c1, s1)" by (metis prod.collapse)
        have "\<forall>i. attached c1 ?f i = None" if "set errs \<subseteq> {None}" using 1 x that none by simp metis
        moreover have "enoent \<notin> set errs" if "set errs \<subseteq> {None}" using that by auto
        ultimately show ?case using 1 x flush_errors_None [of None "recv errs"] recv [of errs] by auto
      qed
      then show ?thesis using Some g c0 False by (simp add: WCache_Flush_def the_fb_def Let_def)
    qed
  qed
qed

lemma wview_uncached:
  assumes "\<And>i. attached c f i = None"
  shows "wview bs content c s f p = zbyte (content s f) p"
  using cbyte_None [OF assms] by (simp add: wview_def fview_def)

text \<open>\<^verbatim>\<open>Close\<close> drops the table of the file after a successful flush, which leaves no buffer behind.\<close>

lemma DetachFileBuffer_ok:
  assumes inv: "wc_inv bs {} c" and none: "\<And>i. attached c (fe_Id fe) i = None"
  shows "wc_inv bs {} (DetachFileBuffer fe c)" "attached (DetachFileBuffer fe c) = attached c"
    "cbyte (DetachFileBuffer fe c) = cbyte c" "CacheCore.more (DetachFileBuffer fe c) = CacheCore.more c"
proof -
  let ?c = "DetachFileBuffer fe c"
  show att: "attached ?c = attached c"
    using none by (auto simp: DetachFileBuffer_def attached_def delete_conv' fun_eq_iff)
  show m: "CacheCore.more ?c = CacheCore.more c" by (simp add: DetachFileBuffer_def)
  have l: "cc_FreeList ?c = cc_FreeList c" "cc_LruList ?c = cc_LruList c" "cc_heap ?c = cc_heap c"
    by (simp_all add: DetachFileBuffer_def)
  note pool = pool_inv_cong [OF l att] and q = qblocks_cong [OF more_same(4) [OF m] att]
  show "cbyte ?c = cbyte c" by (rule pool(2))
  have "locks c (fe_Id fe) i = None" for i
    using wc_invD(5) [OF inv, of "fe_Id fe" i] none by (cases "locks c (fe_Id fe) i") (auto simp: qblocks_def)
  then have "locks ?c = locks c" by (auto simp: DetachFileBuffer_def locks_def delete_conv' fun_eq_iff)
  then have "wc_locks {} ?c = wc_locks {} c" using q by (intro wc_locks_cong) simp_all
  moreover have "wc_files ?c" using inv
    by (auto simp: wc_inv_def wc_files_def fe_ids_def DetachFileBuffer_def delete_conv')
  ultimately show "wc_inv bs {} ?c" using inv pool l att more_same [OF m] by (simp add: wc_defs)
qed

lemma WCache_Close_ok:
  assumes ok: "server_ok post pc content" and inv: "wc_inv bs {} c"
    and sched: "\<And>xs. set (sched xs) = set xs" and recv: "\<And>es. set (recv es) = set es"
  shows "okG (\<exists>i. (fe_Id fe, i) \<in> qblocks c) (WCache_Close sched recv post pc now fe c s)
     (\<lambda>(err, c', s'). file_flushed bs content (fe_Id fe) c s (err, c', s') \<and>
        (err = None \<longrightarrow> map_of (cc_Cache c') (fe_Id fe) = None))"
  unfolding WCache_Close_def
proof (rule okG_bind [OF WCache_Flush_ok [where sched = sched and recv = recv, OF ok inv sched recv]], goal_cases)
  case (1 x)
  obtain err c1 s1 where x: "x = (err, c1, s1)" by (metis prod.collapse)
  show ?case
  proof (cases err)
    case None
    have inv1: "wc_inv bs {} c1" and none: "\<And>i. attached c1 (fe_Id fe) i = None" using 1 x None by simp_all
    note d = DetachFileBuffer_ok [OF inv1 none]
    have "map_of (cc_Cache (DetachFileBuffer fe c1)) (fe_Id fe) = None"
      by (simp add: DetachFileBuffer_def delete_conv')
    then show ?thesis using 1 x None d wview_cong [OF d(3), of bs content s1] by simp
  qed (use 1 x in simp)
qed

section \<open>The goroutines\<close>

text \<open>A buffer taken from the channel: its block is locked for the receiver.\<close>

lemma receive_ok:
  assumes inv: "wc_inv bs {} c" and q: "wc_chSync c = Some (b # q)"
  obtains f i where "attached c f i = Some b" and "wc_inv bs {(f, i)} (c\<lparr>wc_chSync := Some q\<rparr>)"
    and "(f, i) \<notin> qblocks (c\<lparr>wc_chSync := Some q\<rparr>)"
proof -
  let ?c = "c\<lparr>wc_chSync := Some q\<rparr>"
  have [simp]: "attached ?c = attached c" "locks ?c = locks c" by (simp_all add: attached_def locks_def fun_eq_iff)
  have qs: "queue c = b # q" "queue ?c = q" using q by (simp_all add: queue_def)
  then have dis: "b \<notin> set q" "distinct q" using inv by (auto simp: wc_defs)
  obtain f i where att: "attached c f i = Some b" using inv qs by (auto simp: wc_defs owned_def)
  have pool: "pool_inv bs ?c" using wc_invD(1) [OF inv] pool_inv_cong(1) [of ?c c bs] by simp
  have "attached c f' i' = Some b \<longleftrightarrow> (f', i') = (f, i)" for f' i'
    using att attached_inj [OF wc_invD(1) [OF inv] att] by blast
  then have "{(f, i)} \<union> qblocks ?c = {} \<union> qblocks c" by (auto simp: qblocks_def qs)
  then have "wc_locks {(f, i)} ?c" using inv wc_locks_cong [of ?c c "{(f, i)}" "{}"] by (simp add: wc_inv_def)
  moreover have "cbyte ?c = cbyte c" by (rule pool_inv_cong(2)) simp_all
  moreover have "wc_files ?c = wc_files c" by (rule wc_files_cong [OF fe_ids_cong]) simp
  ultimately have "wc_inv bs {(f, i)} ?c" using inv pool qs dis by (auto simp: wc_defs)
  moreover have "(f, i) \<notin> qblocks ?c" using att dis by (auto simp: qblocks_def qs)
  ultimately show thesis using that att by blast
qed

text \<open>What a step that does not write anything new leaves.\<close>

fun silent_post ::
  "u32 \<Rightarrow> ('s \<Rightarrow> contents) \<Rightarrow> WCache \<Rightarrow> 's \<Rightarrow> bool \<times> WCache \<times> 's \<Rightarrow> bool" where
  "silent_post bs content c s (goon, c', s') \<longleftrightarrow>
     wc_inv bs {} c' \<and> wc_chClosed c' = wc_chClosed c \<and> wview bs content c' s' = wview bs content c s"

lemma SyncWrite_round_ok:
  assumes ok: "server_ok post pc content" and inv: "wc_inv bs {} c"
  shows "okG (queue c = []) (SyncWrite_round post pc now c s) (silent_post bs content c s)"
proof (cases "queue c")
  case Nil
  then show ?thesis using inv
    by (auto simp: SyncWrite_round_def queue_def split: option.split list.split)
next
  case (Cons b q)
  then have q: "wc_chSync c = Some (b # q)" by (auto simp: queue_def split: option.splits)
  let ?c = "c\<lparr>wc_chSync := Some q\<rparr>"
  obtain f i where att: "attached c f i = Some b" and inv1: "wc_inv bs {(f, i)} ?c" and nq: "(f, i) \<notin> qblocks ?c"
    by (rule receive_ok [OF inv q])
  have a1: "attached ?c f i = Some b" using att by (simp add: attached_def)
  have lru: "b \<notin> set (cc_LruList ?c)" using inv Cons by (auto simp: wc_defs)
  have cb: "cbyte ?c = cbyte c" by (rule pool_inv_cong(2)) (simp_all add: attached_def fun_eq_iff)
  note at = attachedD [OF wc_invD(1) [OF inv1] a1] and v1 = wview_cong [OF cb, of bs content]
  obtain fe where fe: "buf_fe (cc_heap c ! b) = Some fe" "fe_Id fe = f" "buf_BlkIdx (cc_heap c ! b) = i"
    using at(3) by (auto simp: home_def)
  have g: "GetFileBuffer fe False ?c = (Some f, ?c)" using at(4) fe(2) by (auto simp: GetFileBuffer_def)
  obtain s' n err where fl: "flush_data post pc s fe b ?c = Ret (s', n, err)"
      "wview bs content ?c s' = wview bs content ?c s"
      "\<And>c'. cbyte c' = (cbyte ?c)(f := (cbyte ?c f)(i := (\<lambda>_. None))) \<Longrightarrow>
       (if err = None then wview bs content c' s' = wview bs content ?c s
        else same_outside f (unat i * unat bs) (unat bs) (wview bs content ?c s) (wview bs content c' s'))"
    by (rule flush_locked [OF ok inv1 nq a1 lru fe(2), of s]) blast
  have run: "SyncWrite_round post pc now c s =
      (if err \<noteq> None then
         bindG (DoLru now b ?c) (\<lambda>c3. bindG (on_fb f (UnLockBuffer i) c3) (\<lambda>c4. Ret (True, c4, s')))
       else
         bindG (on_fb f (\<lambda>fb. Ret (DetachBuffer i fb)) ?c) (\<lambda>c3.
         bindG (on_fb f (UnLockBuffer i) (FreeBuffer b c3)) (\<lambda>c4. Ret (True, c4, s'))))"
    using q fe g fl(1) at(1) by (simp add: SyncWrite_round_def Let_def)
  have fin: "okG w (bindG (on_fb f (UnLockBuffer i) c3) (\<lambda>c4. Ret (True, c4, s'))) (silent_post bs content c s)"
    if c3: "wc_inv bs {(f, i)} c3" "(f, i) \<notin> qblocks c3" "CacheCore.more c3 = CacheCore.more ?c"
      "wview bs content c3 s' = wview bs content c s" for w c3
  proof -
    obtain c4 where c4: "on_fb f (UnLockBuffer i) c3 = Ret c4" "wc_inv bs {} c4" "cbyte c4 = cbyte c3"
        "CacheCore.more c4 = CacheCore.more c3"
      by (rule unlock_ok [OF c3(1,2)]) blast
    then show ?thesis
      using c3(4) wview_cong [OF c4(3), of bs content s'] more_same(3) [OF c4(4)] more_same(3) [OF c3(3)] by simp
  qed
  show ?thesis
  proof (cases err)
    case None
    obtain c3 where d: "on_fb f (\<lambda>fb. Ret (DetachBuffer i fb)) ?c = Ret c3" "wc_inv bs {(f, i)} (FreeBuffer b c3)"
        "(f, i) \<notin> qblocks (FreeBuffer b c3)" "CacheCore.more (FreeBuffer b c3) = CacheCore.more ?c"
        "cbyte (FreeBuffer b c3) = (cbyte ?c)(f := (cbyte ?c f)(i := (\<lambda>_. None)))"
      by (rule detach_free_ok [OF inv1 _ nq a1 lru]) auto
    show ?thesis using fin [OF d(2,3,4)] fl(3) [OF d(5)] None v1 run d(1) by simp
  next
    case (Some e)
    obtain c3 where l: "DoLru now b ?c = Ret c3" "wc_inv bs {(f, i)} c3" "qblocks c3 = qblocks ?c"
        "cbyte c3 = cbyte ?c" "CacheCore.more c3 = CacheCore.more ?c"
      by (rule put_on_lru [OF inv1 nq a1, of now]) blast
    show ?thesis
      using fin [OF l(2) _ l(5)] l(1,3) nq Some v1 run fl(2) wview_cong [OF l(4), of bs content s'] by simp
  qed
qed

lemma LruExpire_inv:
  assumes inv: "wc_inv bs {} c"
  obtains fe i c' where "LruExpire now c = Ret (fe, i, c')" and "wc_inv bs {} c'" and "cbyte c' = cbyte c"
    and "CacheCore.more c' = CacheCore.more c" and "qblocks c' = qblocks c"
proof -
  obtain fe i c' where e: "LruExpire now c = Ret (fe, i, c')" "pool_inv bs c'" "same_view c c'"
      "cc_FreeList c' = cc_FreeList c" "set (cc_LruList c') \<subseteq> set (cc_LruList c)"
      "CacheCore.more c' = CacheCore.more c"
    by (rule LruExpire_ok [OF wc_invD(1) [OF inv], of now]) blast
  have "wc_inv bs {} c'" using inv e(5) by (intro wc_inv_lru [OF inv e(2,3,4,6)]) (auto simp: wc_defs)
  then show thesis
    using that [OF e(1)] same_viewD [OF e(3)] qblocks_cong [OF more_same(4) [OF e(6)]] e(6) by blast
qed

text \<open>One expiry: no panic, the invariant is kept, and at most the expired block can change.\<close>

lemma CheckExpire_round_ok:
  assumes ok: "server_ok post pc content" and inv: "wc_inv bs {} c"
  shows "okG (qblocks c \<noteq> {}) (CheckExpire_round post pc now c s)
     (\<lambda>(goon, c', s'). wc_inv bs {} c' \<and> CacheCore.more c' = CacheCore.more c \<and>
        (\<exists>f (i :: u64). same_outside f (unat i * unat bs) (unat bs) (wview bs content c s) (wview bs content c' s')))"
proof -
  obtain fe i c1 where e: "LruExpire now c = Ret (fe, i, c1)" "wc_inv bs {} c1" "cbyte c1 = cbyte c"
      "CacheCore.more c1 = CacheCore.more c" "qblocks c1 = qblocks c"
    by (rule LruExpire_inv [OF inv, of now]) blast
  note v = wview_cong [OF e(3), of bs content s]
  show ?thesis
  proof (cases "\<exists>fe0. fe = Some fe0 \<and> map_of (cc_Cache c1) (fe_Id fe0) \<noteq> None")
    case True
    then obtain fe0 where fe0: "fe = Some fe0" "map_of (cc_Cache c1) (fe_Id fe0) \<noteq> None" by blast
    have run: "CheckExpire_round post pc now c s =
        bindG (FlushBuffer post pc now (fe_Id fe0) i c1 s) (\<lambda>(err, c3, s1). Ret (True, c3, s1))"
      using e(1) fe0 by (auto simp: CheckExpire_round_def GetFileBuffer_def)
    have fl: "okG (qblocks c \<noteq> {}) (FlushBuffer post pc now (fe_Id fe0) i c1 s)
        (flush_post {} bs content (fe_Id fe0) i c1 s)"
      using e(5) by (intro okG_mono [OF FlushBuffer_ok [OF ok e(2) fe0(2)]]) auto
    show ?thesis
      unfolding run
    proof (rule okG_bind [OF fl], goal_cases)
      case (1 x)
      obtain err c3 s1 where x: "x = (err, c3, s1)" by (metis prod.collapse)
      have "same_outside (fe_Id fe0) (unat i * unat bs) (unat bs) (wview bs content c s) (wview bs content c3 s1)"
        using 1 x v by (cases "err = enoent") simp_all
      then show ?case using 1 x e(4) by auto
    qed
  next
    case False
    then have "\<exists>g. CheckExpire_round post pc now c s = Ret (g, c1, s)"
      using e(1) by (auto simp: CheckExpire_round_def GetFileBuffer_def split: option.split)
    then show ?thesis using e(2,4) v by auto
  qed
qed

section \<open>Refinement\<close>

lemma NewWCache_inv:
  assumes "0 < unat bs"
  shows "wc_inv bs {} (NewWCache n e r)" "attached (NewWCache n e r) f i = None"
proof -
  show att: "attached (NewWCache n e r) f i = None" for f i by (simp add: NewWCache_def attached_def)
  have q: "queue (NewWCache n e r) = []" by (simp add: NewWCache_def queue_def)
  have "pool_inv bs (NewWCache n e r)"
    using att by (simp add: pool_defs pool_att_def) (auto simp: NewWCache_def pool_store_def NewBuffer_def)
  moreover have "wc_locks {} (NewWCache n e r)"
    using q by (simp add: wc_locks_def qblocks_def) (simp add: NewWCache_def locks_def)
  ultimately show "wc_inv bs {} (NewWCache n e r)"
    using assms q att by (simp add: wc_defs owned_def) (auto simp: NewWCache_def pool_store_def wc_files_def fe_ids_def)
qed

text \<open>
  The visible effect of a step: a range of a file overwritten, a range of a file that an error may
  have changed, or nothing.
\<close>

datatype wevent = Wrote u64 nat "byte list" | Failed u64 nat nat | Silent

fun astep :: "view \<Rightarrow> wevent \<Rightarrow> view \<Rightarrow> bool" where
  "astep v (Wrote f pos d) v' \<longleftrightarrow> v' = vwrite v f pos d"
| "astep v (Failed f pos n) v' \<longleftrightarrow> same_outside f pos n v v'"
| "astep v Silent v' \<longleftrightarrow> v' = v"

inductive wstep :: "u32 \<Rightarrow> 's poster \<Rightarrow> ProxyClient \<Rightarrow> WCache \<times> 's \<Rightarrow> wevent \<Rightarrow> WCache \<times> 's \<Rightarrow> bool"
  for bs post pc where
  ws_open: "fe_BlockSize fe = bs \<Longrightarrow> GetFileBuffer fe True c = (r, c') \<Longrightarrow>
     wstep bs post pc (c, s) Silent (c', s)"
| ws_write: "bop_ok bs fe bop \<Longrightarrow> map_of (cc_Cache c) (fe_Id fe) \<noteq> None \<Longrightarrow> \<not> wc_chClosed c \<Longrightarrow>
     locked_WriteOp post pc now fe (fe_Id fe) bop c s = Ret ((n, None), c', s') \<Longrightarrow>
     wstep bs post pc (c, s) (Wrote (fe_Id fe) (op_pos bs bop) (op_rwBuf bop)) (c', s')"
| ws_write_error: "bop_ok bs fe bop \<Longrightarrow> map_of (cc_Cache c) (fe_Id fe) \<noteq> None \<Longrightarrow> \<not> wc_chClosed c \<Longrightarrow>
     locked_WriteOp post pc now fe (fe_Id fe) bop c s = Ret ((n, Some e), c', s') \<Longrightarrow>
     wstep bs post pc (c, s) (Failed (fe_Id fe) (op_pos bs bop) (length (op_rwBuf bop))) (c', s')"
| ws_flush: "map_of (cc_Cache c) f \<noteq> None \<Longrightarrow> FlushBuffer post pc now f i c s = Ret (err, c', s') \<Longrightarrow>
     err \<noteq> enoent \<Longrightarrow> wstep bs post pc (c, s) Silent (c', s')"
| ws_drop: "map_of (cc_Cache c) f \<noteq> None \<Longrightarrow> FlushBuffer post pc now f i c s = Ret (enoent, c', s') \<Longrightarrow>
     wstep bs post pc (c, s) (Failed f (unat i * unat bs) (unat bs)) (c', s')"
| ws_expire: "LruExpire now c = Ret (fe, i, c') \<Longrightarrow> wstep bs post pc (c, s) Silent (c', s)"
| ws_sync: "SyncWrite_round post pc now c s = Ret (goon, c', s') \<Longrightarrow> wstep bs post pc (c, s) Silent (c', s')"

lemma wstep_sim:
  assumes "wstep bs post pc x ev y" and ok: "server_ok post pc content" and "wc_inv bs {} (fst x)"
  shows "wc_inv bs {} (fst y) \<and> astep (wview bs content (fst x) (snd x)) ev (wview bs content (fst y) (snd y))"
  using assms(1,3)
proof cases
  case (ws_open fe c r c' s)
  then show ?thesis
    using assms(3) wc_inv_GetFileBuffer [OF ws_open(5)] wview_cong [OF GetFileBuffer_ok(2) [OF ws_open(5)]] by simp
next
  case (ws_write fe bop c now s n c' s')
  then show ?thesis
    using okG_Ret [OF locked_WriteOp_ok [OF ok _ ws_write(5,4,6)] ws_write(7)] assms(3)
    by (simp add: wop_view_def)
next
  case (ws_write_error fe bop c now s n e c' s')
  then show ?thesis
    using okG_Ret [OF locked_WriteOp_ok [OF ok _ ws_write_error(5,4,6)] ws_write_error(7)] assms(3)
    by (simp add: wop_view_def)
next
  case (ws_flush c f now i s err c' s')
  then show ?thesis using okG_Ret [OF FlushBuffer_ok [OF ok _ ws_flush(4)] ws_flush(5)] assms(3) by simp
next
  case (ws_drop c f now i s c' s')
  then show ?thesis using okG_Ret [OF FlushBuffer_ok [OF ok _ ws_drop(4)] ws_drop(5)] assms(3) by simp
next
  case (ws_expire now c fe i c' s)
  obtain c1 where "c1 = c'" "wc_inv bs {} c1" "cbyte c1 = cbyte c"
    using LruExpire_inv [of bs c now] assms(3) ws_expire(1,4) by (metis fst_conv go.inject prod.inject)
  then show ?thesis using ws_expire wview_cong [of c1 c bs content s] by simp
next
  case (ws_sync now c s goon c' s')
  then show ?thesis using okG_Ret [OF SyncWrite_round_ok [OF ok] ws_sync(4)] assms(3) by simp
qed

interpretation wrefine: simulation "wstep bs post pc" astep
    "\<lambda>x. server_ok post pc content \<and> wc_inv bs {} (fst x)" "\<lambda>x. wview bs content (fst x) (snd x)"
  for bs post pc content
  by unfold_locales (use wstep_sim in blast)+

text \<open>The contents that the successful writes of a run without errors leave.\<close>

fun applied :: "view \<Rightarrow> wevent list \<Rightarrow> view" where
  "applied v [] = v"
| "applied v (Wrote f pos d # evs) = applied (vwrite v f pos d) evs"
| "applied v (_ # evs) = applied v evs"

definition no_failure :: "wevent list \<Rightarrow> bool" where
  "no_failure evs \<longleftrightarrow> (\<forall>f pos n. Failed f pos n \<notin> set evs)"

lemma runs_astep: "runs astep v evs v' \<Longrightarrow> no_failure evs \<Longrightarrow> v' = applied v evs"
  by (induction v evs rule: applied.induct) (auto simp: no_failure_def)

section \<open>Properties\<close>

text \<open>The file, the cache and the block operation of the concrete runs below.\<close>

definition demo_file :: FileEntry where
  "demo_file = \<lparr> fe_Id = 7, fe_BlockSize = 4, fe_Handle = 0, fe_FilePath = ''/f'', fe_OpenFlag = 2, fe_Mode = 420,
     fe_DirectIO = False, fe_Owner = [], fe_Pid = 1, fe_LastAccessTime = 0, fe_closed = False \<rparr>"

definition demo_cache :: WCache where
  "demo_cache = snd (GetFileBuffer demo_file True (NewWCache 2 1000 0))"

definition demo_op :: RWBlockOp where
  "demo_op = \<lparr> op_fe = demo_file, op_Index = 1, op_RwOffset = 1, op_RwSize = 2, op_rwBuf = [65, 66] \<rparr>"

lemma demo_inv: "wc_inv 4 {} demo_cache" "\<not> wc_chClosed demo_cache" "SyncIo demo_cache"
proof -
  have "wc_inv 4 {} (NewWCache 2 1000 0)" by (rule NewWCache_inv) simp
  moreover obtain r where g: "GetFileBuffer demo_file True (NewWCache 2 1000 0) = (r, demo_cache)"
    by (metis demo_cache_def prod.collapse)
  ultimately show "wc_inv 4 {} demo_cache" using wc_inv_GetFileBuffer [OF g] by simp
  show "\<not> wc_chClosed demo_cache" "SyncIo demo_cache" by code_simp+
qed

lemma demo_sel [simp]: "fe_Id demo_file = 7" "fe_BlockSize demo_file = 4"
  by (simp_all add: demo_file_def)

lemma demo_request: "request_ok demo_file (length [1, 2, 3, 4, 5 :: byte]) 2"
  by (simp add: request_ok_def)

lemma demo_write:
  "okG False (locked_WriteOp mem_server mem_client 0 demo_file 7 demo_op demo_cache (\<lambda>_. [])) (\<lambda>((n, err), c1, s1).
     n = 2 \<and> err = None \<and> map_of (cc_Cache c1) 7 \<noteq> None \<and>
     okG False (FlushBuffer mem_server mem_client 0 7 1 c1 s1) (\<lambda>(err, c2, s2).
       err = None \<and> list_all (\<lambda>(f, fb). BufferMap fb = []) (cc_Cache c2)))"
  by code_simp

lemma no_buffers: "list_all (\<lambda>(f, fb). BufferMap fb = []) (cc_Cache c) \<Longrightarrow> attached c f i = None"
  by (auto simp: attached_def list_all_iff split: option.split) (fastforce dest: map_of_SomeD)

text \<open>Open the file, write two bytes into its second block, flush the block.\<close>

lemma demo_run:
  "\<exists>c s. runs (wstep 4 mem_server mem_client) (NewWCache 2 1000 0, \<lambda>_. []) [Silent, Wrote 7 5 [65, 66], Silent] (c, s) \<and>
     (\<forall>i. attached c 7 i = None)"
proof -
  obtain r where g: "GetFileBuffer demo_file True (NewWCache 2 1000 0) = (r, demo_cache)"
    by (metis demo_cache_def prod.collapse)
  have "wstep 4 mem_server mem_client (NewWCache 2 1000 0, \<lambda>_. []) Silent (demo_cache, \<lambda>_. [])"
    by (rule ws_open [OF _ g]) simp
  moreover obtain c1 s1 c2 s2 where w: "locked_WriteOp mem_server mem_client 0 demo_file (fe_Id demo_file) demo_op
        demo_cache (\<lambda>_. []) = Ret ((2, None), c1, s1)" "map_of (cc_Cache c1) 7 \<noteq> None"
      "FlushBuffer mem_server mem_client 0 7 1 c1 s1 = Ret (None, c2, s2)"
      "list_all (\<lambda>(f, fb). BufferMap fb = []) (cc_Cache c2)"
    using demo_write by (auto simp: okG_returns)
  have "wstep 4 mem_server mem_client (demo_cache, \<lambda>_. [])
      (Wrote (fe_Id demo_file) (op_pos 4 demo_op) (op_rwBuf demo_op)) (c1, s1)"
    by (rule ws_write [OF _ _ demo_inv(2) w(1)])
       (simp add: bop_ok_def demo_op_def, code_simp)
  moreover have "wstep 4 mem_server mem_client (c1, s1) Silent (c2, s2)"
    by (rule ws_flush [OF w(2,3)]) simp
  ultimately have "runs (wstep 4 mem_server mem_client) (NewWCache 2 1000 0, \<lambda>_. [])
      [Silent, Wrote 7 5 [65, 66], Silent] (c2, s2)"
    by (auto simp: op_pos_def demo_op_def)
  then show ?thesis using no_buffers [OF w(4)] by blast
qed

text \<open>
  C1: The write cache refines the plain store of file contents. Whatever the interleaving of block
  writes, flushes, expiries and asynchronous write-backs, starting from a new cache, the contents a
  client sees change exactly by the writes that succeeded: a failed write or a dropped block changes
  at most its own range, write-back changes nothing.
\<close>

theorem write_cache_refines_store:
  assumes "server_ok post pc content" and "0 < unat bs"
    and "runs (wstep bs post pc) (NewWCache n e r, s0) evs (c, s)"
  shows "runs astep (\<lambda>f p. zbyte (content s0 f) p) evs (wview bs content c s)"
proof -
  note new = NewWCache_inv [OF assms(2), of n e r]
  have "wview bs content (NewWCache n e r) s0 = (\<lambda>f p. zbyte (content s0 f) p)"
    using wview_uncached [OF new(2)] by (intro ext)
  then show ?thesis using wrefine.runs_match [OF assms(3), of content] assms(1) new(1) by simp
qed

theorem write_cache_refines_store_witness:
  "\<exists>c s. runs astep (\<lambda>f p. zbyte [] p) [Silent, Wrote 7 5 [65, 66], Silent] (wview 4 (\<lambda>s. s) c s)"
proof -
  obtain c s where
    "runs (wstep 4 mem_server mem_client) (NewWCache 2 1000 0, \<lambda>_. []) [Silent, Wrote 7 5 [65, 66], Silent] (c, s)"
    using demo_run by blast
  from write_cache_refines_store [OF mem_server_ok _ this] show ?thesis by auto
qed

text \<open>
  C2: No write is lost. In a run without errors, once no block of a file is cached any more, the
  server holds the file with all the writes of the run applied in order.
\<close>

theorem writes_reach_server:
  assumes "server_ok post pc content" and "0 < unat bs"
    and "runs (wstep bs post pc) (NewWCache n e r, s0) evs (c, s)"
    and "no_failure evs" and "\<forall>i. attached c f i = None"
  shows "zbyte (content s f) p = applied (\<lambda>f p. zbyte (content s0 f) p) evs f p"
proof -
  note new = NewWCache_inv [OF assms(2), of n e r]
  have "wview bs content (NewWCache n e r) s0 = (\<lambda>f p. zbyte (content s0 f) p)"
    using wview_uncached [OF new(2)] by (intro ext)
  then have "runs astep (\<lambda>f p. zbyte (content s0 f) p) evs (wview bs content c s)"
    using wrefine.runs_match [OF assms(3), of content] assms(1) new(1) by simp
  then have "wview bs content c s = applied (\<lambda>f p. zbyte (content s0 f) p) evs"
    using runs_astep assms(4) by blast
  moreover have "wview bs content c s f p = zbyte (content s f) p"
    using assms(5) by (intro wview_uncached) blast
  ultimately show ?thesis by metis
qed

theorem writes_reach_server_witness:
  "\<exists>s :: u64 \<Rightarrow> byte list. \<forall>p. zbyte (s 7) p = applied (\<lambda>f p. zbyte [] p) [Silent, Wrote 7 5 [65, 66], Silent] 7 p"
proof -
  obtain c s where r:
      "runs (wstep 4 mem_server mem_client) (NewWCache 2 1000 0, \<lambda>_. []) [Silent, Wrote 7 5 [65, 66], Silent] (c, s)"
      "\<forall>i. attached c 7 i = None"
    using demo_run by blast
  have "no_failure [Silent, Wrote 7 5 [65, 66], Silent]" by (simp add: no_failure_def)
  from writes_reach_server [OF mem_server_ok _ r(1) this r(2)] show ?thesis by auto
qed

text \<open>
  C6: No buffer is lost or shared. In every state that any interleaving reaches, each buffer of the
  pool is either free or attached to a block, never both, and it is attached to one block only.
\<close>

theorem buffers_conserved:
  assumes "server_ok post pc content" and "0 < unat bs"
    and "runs (wstep bs post pc) (NewWCache n e r, s0) evs (c, s)" and "b < length (cc_heap c)"
  shows "(b \<in> set (cc_FreeList c) \<longleftrightarrow> (\<forall>f i. attached c f i \<noteq> Some b)) \<and>
     (\<forall>f i g j. attached c f i = Some b \<and> attached c g j = Some b \<longrightarrow> g = f \<and> j = i)"
proof -
  have inv: "wc_inv bs {} c"
    using wrefine.runs_inv [OF assms(3), of content] assms(1) NewWCache_inv(1) [OF assms(2)] by simp
  note pool = wc_invD(1) [OF inv]
  have "b \<in> set (cc_FreeList c) \<or> (\<exists>f i. attached c f i = Some b)"
    using inv assms(4) by (auto simp: wc_defs owned_def)
  then show ?thesis using attachedD(2) [OF pool] attached_inj [OF pool] by meson
qed

theorem buffers_conserved_witness:
  "\<exists>c. runs (wstep 4 mem_server mem_client) (NewWCache 2 1000 0, \<lambda>_. []) [] (c, \<lambda>_. []) \<and>
     (1 \<in> set (cc_FreeList c) \<longleftrightarrow> (\<forall>f i. attached c f i \<noteq> Some 1))"
proof -
  have "1 < length (cc_heap (NewWCache 2 1000 0))" by (simp add: NewWCache_def pool_store_def)
  with buffers_conserved [OF mem_server_ok, of 4 2 1000 0 "\<lambda>_. []" "[]" "NewWCache 2 1000 0" "\<lambda>_. []" 1]
  show ?thesis by auto
qed

text \<open>
  C4: A write through the cache. It never panics; without asynchronous writers it returns. It reports
  how many bytes were written: all of them when there is no error, and then the contents the client
  sees are overwritten with the data at the offset; with an error exactly the reported prefix is
  written for sure and nothing outside the range has changed.
\<close>

theorem write_through_cache:
  assumes "server_ok post pc content" and "wc_inv bs {} c" and "\<not> wc_chClosed c"
    and "fe_BlockSize fe = bs" and "request_ok fe (length buffer) offset" and "buffer \<noteq> []"
  shows "okG (\<not> SyncIo c) (WCache_Write post pc now fe buffer offset c s) (\<lambda>((n, err), c', s').
     wc_inv bs {} c' \<and> 0 \<le> n \<and>
     write_effect (fe_Id fe) (unat offset) buffer (nat n) err (wview bs content c s) (wview bs content c' s'))"
  by (rule okG_mono [OF WCache_Write_ok [OF assms]]) auto

theorem write_through_cache_witness:
  "\<exists>n err c' s'. WCache_Write mem_server mem_client 0 demo_file [1, 2, 3, 4, 5] 2 demo_cache (\<lambda>_. []) = Ret ((n, err), c', s') \<and>
     write_effect 7 2 [1, 2, 3, 4, 5] (nat n) err (wview 4 (\<lambda>s. s) demo_cache (\<lambda>_. [])) (wview 4 (\<lambda>s. s) c' s')"
  using write_through_cache [OF mem_server_ok demo_inv(1,2), of demo_file "[1, 2, 3, 4, 5]" 2 0 "\<lambda>_. []"] demo_inv(3)
    demo_request
  by (auto simp: okG_returns simp del: list.size)

text \<open>
  C5: Flushing a file, whatever the order in which the goroutines take the blocks and report. It does
  not panic and waits only for blocks that are being written asynchronously; when it reports no
  error, no byte of the file is cached, the client sees what it saw before, and the server holds it.
\<close>

theorem flush_makes_durable:
  assumes "server_ok post pc content" and "wc_inv bs {} c"
    and "\<And>xs. set (sched xs) = set xs" and "\<And>es. set (recv es) = set es"
  shows "okG (\<exists>i. (fe_Id fe, i) \<in> qblocks c) (WCache_Flush sched recv post pc now fe c s) (\<lambda>(err, c', s').
     wc_inv bs {} c' \<and>
     (err = None \<longrightarrow> (\<forall>i. attached c' (fe_Id fe) i = None) \<and> wview bs content c' s' = wview bs content c s \<and>
        (\<forall>p. zbyte (content s' (fe_Id fe)) p = wview bs content c s (fe_Id fe) p)))"
proof (rule okG_mono [OF WCache_Flush_ok [where sched = sched and recv = recv, OF assms]], goal_cases)
  case (2 x)
  obtain err c' s' where x: "x = (err, c', s')" by (metis prod.collapse)
  show ?case using 2 x wview_uncached [of c' "fe_Id fe" bs content s'] by auto
qed

lemma demo_dirty:
  "\<exists>c s. wc_inv 4 {} c \<and> attached c 7 1 = Some 0 \<and> qblocks c = {} \<and>
     locked_WriteOp mem_server mem_client 0 demo_file 7 demo_op demo_cache (\<lambda>_. []) = Ret ((2, None), c, s)"
proof -
  have "okG False (locked_WriteOp mem_server mem_client 0 demo_file 7 demo_op demo_cache (\<lambda>_. [])) (\<lambda>((n, err), c1, s1).
     n = 2 \<and> err = None \<and> attached c1 7 1 = Some 0)" by code_simp
  then obtain c s where w: "locked_WriteOp mem_server mem_client 0 demo_file (fe_Id demo_file) demo_op demo_cache (\<lambda>_. [])
      = Ret ((2, None), c, s)" "attached c 7 1 = Some 0" by (auto simp: okG_returns)
  have "bop_ok 4 demo_file demo_op" "map_of (cc_Cache demo_cache) (fe_Id demo_file) \<noteq> None"
    by (simp add: bop_ok_def demo_op_def, code_simp)
  from okG_Ret [OF locked_WriteOp_ok [OF mem_server_ok demo_inv(1) this(2,1) demo_inv(2)] w(1)]
  have "wc_inv 4 {} c" "SyncIo c" using demo_inv(3) by simp_all
  then show ?thesis using w qblocks_sync by auto
qed

theorem flush_makes_durable_witness:
  "\<exists>c s err c' s'. attached c 7 1 = Some 0 \<and> WCache_Flush rev id mem_server mem_client 0 demo_file c s = Ret (err, c', s') \<and>
     (err = None \<longrightarrow> (\<forall>p. zbyte (s' 7) p = wview 4 (\<lambda>s. s) c s 7 p))"
proof -
  obtain c and s :: "u64 \<Rightarrow> byte list" where c: "wc_inv 4 {} c" "attached c 7 1 = Some 0" "qblocks c = {}"
    using demo_dirty by blast
  have "okG False (WCache_Flush rev id mem_server mem_client 0 demo_file c s) (\<lambda>(err, c', s').
     wc_inv 4 {} c' \<and> (err = None \<longrightarrow> (\<forall>i. attached c' 7 i = None) \<and> wview 4 (\<lambda>s. s) c' s' = wview 4 (\<lambda>s. s) c s \<and>
        (\<forall>p. zbyte (s' 7) p = wview 4 (\<lambda>s. s) c s 7 p)))"
    using flush_makes_durable [OF mem_server_ok c(1), of rev id demo_file 0 s] c(3) by simp
  then show ?thesis using c(2) by (fastforce simp: okG_returns)
qed

text \<open>
  Closing a file in the cache: when it reports no error the server holds what the client saw, and
  the table of the file is gone without a buffer being left in it.
\<close>

theorem close_keeps_nothing:
  assumes "server_ok post pc content" and "wc_inv bs {} c"
    and "\<And>xs. set (sched xs) = set xs" and "\<And>es. set (recv es) = set es"
    and "WCache_Close sched recv post pc now fe c s = Ret (None, c', s')"
  shows "wc_inv bs {} c' \<and> map_of (cc_Cache c') (fe_Id fe) = None \<and>
     (\<forall>p. zbyte (content s' (fe_Id fe)) p = wview bs content c s (fe_Id fe) p) \<and>
     (\<forall>g i. g \<noteq> fe_Id fe \<longrightarrow> attached c' g i = attached c g i)"
  using okG_Ret [OF WCache_Close_ok [where sched = sched and recv = recv, OF assms(1-4)] assms(5)]
    wview_uncached [of c' "fe_Id fe" bs content s']
  by (auto simp: fun_eq_iff)

theorem close_keeps_nothing_witness:
  "\<exists>c' s'. WCache_Close id id mem_server mem_client 0 demo_file demo_cache (\<lambda>_. []) = Ret (None, c', s') \<and>
     map_of (cc_Cache c') 7 = None \<and> (\<forall>p. zbyte (s' 7) p = wview 4 (\<lambda>s. s) demo_cache (\<lambda>_. []) 7 p)"
proof -
  have "okG False (WCache_Close id id mem_server mem_client 0 demo_file demo_cache (\<lambda>_. [])) (\<lambda>(err, c, s). err = None)"
    by code_simp
  then obtain c' s' where r: "WCache_Close id id mem_server mem_client 0 demo_file demo_cache (\<lambda>_. []) = Ret (None, c', s')"
    by (auto simp: okG_returns)
  from close_keeps_nothing [OF mem_server_ok demo_inv(1) _ _ r] show ?thesis
    using r by auto
qed

text \<open>
  The asynchronous writers. A round that finds a buffer in the channel never panics: the unlock
  finds the block locked, the file table is there; it does not change what the client sees, and an
  error keeps the buffer for another attempt.
\<close>

theorem sync_writer_safe:
  assumes "server_ok post pc content" and "wc_inv bs {} c"
  shows "okG (queue c = []) (SyncWrite_round post pc now c s) (\<lambda>(goon, c', s').
     wc_inv bs {} c' \<and> wview bs content c' s' = wview bs content c s)"
  by (rule okG_mono [OF SyncWrite_round_ok [OF assms]]) auto

theorem sync_writer_safe_witness:
  "okG (queue (NewWCache 2 1000 1) = []) (SyncWrite_round mem_server mem_client 0 (NewWCache 2 1000 1) (\<lambda>_. []))
     (\<lambda>(goon, c', s'). wc_inv 4 {} c')"
proof -
  have "wc_inv 4 {} (NewWCache 2 1000 1)" by (rule NewWCache_inv(1)) simp
  from sync_writer_safe [OF mem_server_ok this] show ?thesis by (rule okG_mono) auto
qed

end
