(* ===== verification/Cfa_Read.thy ===== *)
theory Cfa_Read
  imports Cfa_RWCache Cfa_WSteps
begin

text \<open>
  Reading through the caches. \<open>MergeOp\<close> lays the cached writes over what the server has; a read
  returns the bytes of the view, and its size covers every byte that exists in the range. The end of
  the file that clients see is \<open>view_end\<close>: the end on the server or the end of the cached writes.
\<close>

section \<open>The end of the cached writes\<close>

definition cached_end :: "u32 \<Rightarrow> 'a CacheCore_scheme \<Rightarrow> u64 \<Rightarrow> nat" where
  "cached_end bs c f =
     Max (insert 0 {unat i * unat bs + buf_tail (cc_heap c ! b) | i b. attached c f i = Some b})"

lemma finite_attached: "finite {i. attached c f i \<noteq> None}"
proof (cases "map_of (cc_Cache c) f")
  case (Some fb)
  then have "{i. attached c f i \<noteq> None} = dom (map_of (BufferMap fb))" by (auto simp: attached_def dom_def)
  then show ?thesis by (simp add: finite_dom_map_of)
qed (simp add: attached_def)

lemma finite_ends: "finite {unat i * unat bs + buf_tail (cc_heap c ! b) | i b. attached c f i = Some b}"
proof -
  have "{unat i * unat bs + buf_tail (cc_heap c ! b) | i b. attached c f i = Some b} \<subseteq>
      (\<lambda>i. unat i * unat bs + buf_tail (cc_heap c ! the (attached c f i))) ` {i. attached c f i \<noteq> None}"
    by force
  then show ?thesis using finite_attached finite_surj by blast
qed

lemma cached_end_ge: "attached c f i = Some b \<Longrightarrow> unat i * unat bs + buf_tail (cc_heap c ! b) \<le> cached_end bs c f"
  unfolding cached_end_def using finite_ends by (intro Max_ge) auto

lemma cached_end_eqI:
  assumes "attached c f i = Some b" and "unat i * unat bs + buf_tail (cc_heap c ! b) = n"
    and "\<And>j b'. attached c f j = Some b' \<Longrightarrow> unat j * unat bs + buf_tail (cc_heap c ! b') \<le> n"
  shows "cached_end bs c f = n"
  unfolding cached_end_def using finite_ends assms by (intro Max_eqI) auto

lemma cached_end_0: "(\<And>i. attached c f i = None) \<Longrightarrow> cached_end bs c f = 0"
  by (simp add: cached_end_def)

text \<open>\<^verbatim>\<open>UpperIdx\<close> is the largest index of a cached block.\<close>

definition later :: "u64 \<Rightarrow> u64 \<times> nat \<Rightarrow> u64" where
  "later TailIndex p = (if TailIndex < fst p then fst p else TailIndex)"

lemma UpperIdx_later: "UpperIdx fb = foldl later 0 (BufferMap fb)"
  unfolding UpperIdx_def by (rule arg_cong [where f = "\<lambda>g. foldl g 0 (BufferMap fb)"]) (auto simp: later_def fun_eq_iff)

lemma foldl_later:
  "foldl later a xs \<in> insert a (fst ` set xs) \<and> a \<le> foldl later a xs \<and> (\<forall>x \<in> set xs. fst x \<le> foldl later a xs)"
proof (induction xs arbitrary: a)
  case (Cons y ys)
  have "a \<le> later a y" "fst y \<le> later a y" "later a y = a \<or> later a y = fst y" by (auto simp: later_def)
  then show ?case using Cons.IH [of "later a y"] by (auto intro: order_trans)
qed simp

lemma UpperIdx_attached:
  assumes "map_of (cc_Cache c) f = Some fb"
  shows "attached c f i \<noteq> None \<Longrightarrow> i \<le> UpperIdx fb"
    and "attached c f i \<noteq> None \<Longrightarrow> attached c f (UpperIdx fb) \<noteq> None"
    and "i < UpperIdx fb \<Longrightarrow> attached c f (UpperIdx fb) \<noteq> None"
proof -
  have keys: "attached c f j \<noteq> None \<longleftrightarrow> j \<in> fst ` set (BufferMap fb)" for j
    using assms map_of_eq_None_iff [of "BufferMap fb" j] by (auto simp: attached_def)
  have u: "UpperIdx fb \<in> insert 0 (fst ` set (BufferMap fb))" "\<forall>x \<in> fst ` set (BufferMap fb). x \<le> UpperIdx fb"
    using foldl_later [of "0 :: u64" "BufferMap fb"] by (auto simp: UpperIdx_later)
  show le: "i \<le> UpperIdx fb" if "attached c f i \<noteq> None" for i using that keys u(2) by blast
  show "attached c f (UpperIdx fb) \<noteq> None" if "attached c f i \<noteq> None"
    using u keys le [OF that] that by (metis insertE word_le_0_iff)
  show "attached c f (UpperIdx fb) \<noteq> None" if "i < UpperIdx fb"
    using u(1) keys that by (metis insertE word_not_simps(1))
qed

section \<open>Merging the cached writes into a read\<close>

text \<open>
  What merging leaves: all bytes of the piece are those of the view, the count covers every cached
  byte and never goes beyond the end of the cached writes.
\<close>

definition merged ::
  "u32 \<Rightarrow> cached \<Rightarrow> contents \<Rightarrow> u64 \<Rightarrow> RWBlockOp \<Rightarrow> int \<Rightarrow> int \<Rightarrow> byte list \<Rightarrow> nat \<Rightarrow> bool" where
  "merged bs cb ct f bop ds n buf e \<longleftrightarrow>
     length buf = length (op_rwBuf bop) \<and> ds \<le> n \<and> n \<le> int (length buf) \<and>
     n \<le> max ds (int e - int (op_pos bs bop)) \<and>
     (\<forall>k < length buf. buf ! k = fview bs cb ct f (op_pos bs bop + k) \<and>
        (cb f (op_Index bop) (unat (op_RwOffset bop) + k) \<noteq> None \<longrightarrow> int k < n))"

lemma fview_op:
  assumes "bop_ok bs fe bop" and "k < length (op_rwBuf bop)"
  shows "fview bs cb ct f (op_pos bs bop + k) =
     (case cb f (op_Index bop) (unat (op_RwOffset bop) + k) of Some x \<Rightarrow> x | None \<Rightarrow> zbyte (ct f) (op_pos bs bop + k))"
  unfolding op_pos_def add.assoc by (rule fview_block) (use assms in \<open>auto simp: bop_ok_def\<close>)

lemma op_words:
  assumes "bop_ok bs fe bop"
  shows "unat (op_RwOffset bop + op_RwSize bop) = unat (op_RwOffset bop) + length (op_rwBuf bop)"
  using assms unat_u32_bound [of bs] by (subst unat_plus) (auto simp: bop_ok_def)

lemma MergeOp_disjoint:
  assumes bop: "bop_ok bs fe bop" and ds: "0 \<le> ds" "ds \<le> int (length (op_rwBuf bop))"
    and base: "\<And>k. k < length (op_rwBuf bop) \<Longrightarrow> op_rwBuf bop ! k = zbyte (ct f) (op_pos bs bop + k)"
    and none: "\<And>k. k < length (op_rwBuf bop) \<Longrightarrow> cb f (op_Index bop) (unat (op_RwOffset bop) + k) = None"
    and n: "n = ds \<or> n = int (length (op_rwBuf bop)) \<and> op_pos bs bop + length (op_rwBuf bop) \<le> e"
  shows "merged bs cb ct f bop ds n (op_rwBuf bop) e"
  using ds n base none fview_op [OF bop] by (auto simp: merged_def)

lemma MergeOp_overlap:
  fixes o1 :: nat
  assumes bop: "bop_ok bs fe bop" and o1: "o1 = unat (op_RwOffset bop)"
    and home: "buf_wf bs buf" and ds: "0 \<le> ds" "ds \<le> int (length (op_rwBuf bop))"
    and base: "\<And>k. k < length (op_rwBuf bop) \<Longrightarrow> op_rwBuf bop ! k = zbyte (ct f) (op_pos bs bop + k)"
    and cb: "cb f (op_Index bop) = buf_byte buf" and ne: "unat (buf_Offset buf) < buf_tail buf"
    and ov: "o1 < buf_tail buf" "unat (buf_Offset buf) < o1 + length (op_rwBuf bop)"
    and e: "unat (op_Index bop) * unat bs + buf_tail buf \<le> e"
    and a: "a = max o1 (unat (buf_Offset buf))" and z: "z = min (o1 + length (op_rwBuf bop)) (buf_tail buf)"
  shows "a < z" "a - o1 \<le> length (op_rwBuf bop)"
    "merged bs cb ct f bop ds (max ds (int (z - o1)))
       (copy_at (a - o1) (take (z - a) (drop a (buf_dataBuf buf))) (op_rwBuf bop)) e"
proof -
  let ?n = "length (op_rwBuf bop)" and ?d = "take (z - a) (drop a (buf_dataBuf buf))"
  show az: "a < z" using ov ne bop by (auto simp: a z bop_ok_def)
  have o: "o1 \<le> a" "z \<le> o1 + ?n" "z \<le> buf_tail buf" by (simp_all add: a z)
  have wf: "buf_tail buf \<le> length (buf_dataBuf buf)" using home by (simp add: buf_wf_def)
  have len: "length ?d = z - a" using az o wf by simp
  show le: "a - o1 \<le> ?n" using az o by simp
  have byte: "copy_at (a - o1) ?d (op_rwBuf bop) ! k = fview bs cb ct f (op_pos bs bop + k) \<and>
      (cb f (op_Index bop) (o1 + k) \<noteq> None \<longrightarrow> int k < max ds (int (z - o1)))" if k: "k < ?n" for k
  proof -
    have c: "cb f (op_Index bop) (o1 + k) = (if a \<le> o1 + k \<and> o1 + k < z then Some (buf_dataBuf buf ! (o1 + k)) else None)"
      using k by (auto simp: cb buf_byte_def a z)
    note v = fview_op [OF bop k, of cb ct f, folded o1] and n = nth_copy_at [OF le k, of ?d]
    show ?thesis
    proof (cases "a \<le> o1 + k \<and> o1 + k < z")
      case True
      then have "a - o1 \<le> k" "k < a - o1 + length ?d" "a + (k - (a - o1)) = o1 + k" using len o by auto
      then show ?thesis using n v c True wf o by (auto simp: max_def add.commute)
    next
      case False
      then have "\<not> (a - o1 \<le> k \<and> k < a - o1 + length ?d)" using len o by auto
      then show ?thesis using n v c False base [OF k] by auto
    qed
  qed
  have "op_pos bs bop + (z - o1) \<le> e" using e az o by (simp add: op_pos_def o1 [symmetric])
  then have "int (z - o1) \<le> int e - int (op_pos bs bop)" by linarith
  moreover have "int (z - o1) \<le> int ?n" using o by simp
  ultimately show "merged bs cb ct f bop ds (max ds (int (z - o1))) (copy_at (a - o1) ?d (op_rwBuf bop)) e"
    using byte ds le by (simp add: merged_def max_def o1 [symmetric])
qed

text \<open>The copy that \<^const>\<open>MergeOp\<close> makes when the buffer and the operation overlap.\<close>

lemma MergeOp_run:
  fixes o1 :: nat
  assumes bop: "bop_ok bs fe bop" and o1: "o1 = unat (op_RwOffset bop)"
    and home: "buf_wf bs buf" and ds: "0 \<le> ds" "ds \<le> int (length (op_rwBuf bop))"
    and ov: "o1 < buf_tail buf" "unat (buf_Offset buf) < o1 + length (op_rwBuf bop)"
    and az: "a < z" "a - o1 \<le> length (op_rwBuf bop)"
    and a: "a = max o1 (unat (buf_Offset buf))" and z: "z = min (o1 + length (op_rwBuf bop)) (buf_tail buf)"
    and buf: "map_of (cc_Cache c) f = Some fb" "GetBuffer (op_Index bop) fb = Some b" "b < length (cc_heap c)"
      "cc_heap c ! b = buf"
  shows "MergeOp c f bop ds = Ret (max ds (int (z - o1)),
     copy_at (a - o1) (take (z - a) (drop a (buf_dataBuf buf))) (op_rwBuf bop))"
proof -
  define cpOffset where
    "cpOffset = (if op_RwOffset bop > buf_Offset buf then op_RwOffset bop else buf_Offset buf)"
  define cpTail where
    "cpTail = (if op_RwOffset bop + op_RwSize bop < buf_Offset buf + buf_Len buf
       then op_RwOffset bop + op_RwSize bop else buf_Offset buf + buf_Len buf)"
  note w = op_words [OF bop] and t = buf_wf_unat(1) [OF home]
  have u: "unat cpOffset = a" "unat cpTail = z"
    using w t by (auto simp: cpOffset_def cpTail_def a z o1 word_less_nat_alt)
  have le: "op_RwOffset bop \<le> cpOffset" "op_RwOffset bop \<le> cpTail" "buf_Offset buf \<le> cpOffset"
      "cpTail \<le> buf_Offset buf + buf_Len buf" "cpTail \<le> op_RwOffset bop + op_RwSize bop" "cpOffset < cpTail"
    using u az(1) w t by (auto simp: word_le_nat_alt word_less_nat_alt a z o1)
  have sub: "unat (cpOffset - op_RwOffset bop) = a - o1" "unat (cpTail - op_RwOffset bop) = z - o1"
    using le u by (simp_all add: unat_sub o1)
  have "z \<le> length (buf_dataBuf buf)" using home by (auto simp: z buf_wf_def)
  then have get: "GetRangeData cpOffset cpTail buf = Ret (take (z - a) (drop a (buf_dataBuf buf)))"
    using le az(1) u by (simp add: GetRangeData_def)
  have no: "\<not> (buf_Offset buf + buf_Len buf \<le> op_RwOffset bop \<or> op_RwOffset bop + op_RwSize bop \<le> buf_Offset buf)"
    using ov w t by (simp add: word_le_nat_alt o1)
  have sz: "ds \<le> int (unat (op_RwSize bop))" using ds bop by (simp add: bop_ok_def)
  show ?thesis
    unfolding MergeOp_def the_fb_def
    using buf no sz get le sub az(2)
    by (simp only: option.case bindG.simps Assert_True index_at_in cpOffset_def [symmetric] cpTail_def [symmetric]
        if_False Let_def go_copy_in) (auto simp: max_def)
qed

text \<open>Every branch of \<^const>\<open>MergeOp\<close>, for a file that has a file buffer.\<close>

lemma MergeOp_ok:
  assumes own: "wc_own bs c" and bop: "bop_ok bs fe bop" and fb: "map_of (cc_Cache c) f = Some fb"
    and ds: "0 \<le> ds" "ds \<le> int (length (op_rwBuf bop))"
    and base: "\<And>k. k < length (op_rwBuf bop) \<Longrightarrow> op_rwBuf bop ! k = zbyte (ct f) (op_pos bs bop + k)"
  obtains n buf where "MergeOp c f bop ds = Ret (n, buf)"
    and "merged bs (cbyte c) ct f bop ds n buf (cached_end bs c f)"
proof -
  have sz: "int (unat (op_RwSize bop)) = int (length (op_rwBuf bop))" using bop by (simp add: bop_ok_def)
  have g: "GetBuffer (op_Index bop) fb = attached c f (op_Index bop)" using fb by (simp add: GetBuffer_def attached_def)
  have pool: "pool_inv bs c" using own by (simp add: wc_own_def)
  note dis = MergeOp_disjoint [OF bop ds, where cb = "cbyte c" and ct = ct and f = f and e = "cached_end bs c f", OF base]
  show thesis
  proof (cases "attached c f (op_Index bop)")
    case None
    let ?n = "if ds < int (length (op_rwBuf bop)) \<and> op_Index bop < UpperIdx fb then int (length (op_rwBuf bop)) else ds"
    have run: "MergeOp c f bop ds = Ret (?n, op_rwBuf bop)"
      using None g ds sz fb by (simp add: MergeOp_def the_fb_def)
    have "op_pos bs bop + length (op_rwBuf bop) \<le> cached_end bs c f" if up: "op_Index bop < UpperIdx fb"
    proof -
      obtain b where "attached c f (UpperIdx fb) = Some b" using UpperIdx_attached(3) [OF fb up] by blast
      note cached_end_ge [OF this, of bs]
      moreover have "Suc (unat (op_Index bop)) * unat bs \<le> unat (UpperIdx fb) * unat bs"
        using up by (intro mult_le_mono1) (simp add: word_less_nat_alt)
      ultimately show ?thesis using bop by (simp add: bop_ok_def op_pos_def)
    qed
    then show thesis using that [OF run] dis cbyte_None [OF None] by simp
  next
    case (Some b)
    let ?buf = "cc_heap c ! b"
    define o1 n where "o1 = unat (op_RwOffset bop)" and "n = length (op_rwBuf bop)"
    have home: "buf_wf bs ?buf" and b: "b < length (cc_heap c)" using attachedD [OF pool Some] by (simp_all add: home_def)
    note cb = cbyte_Some [OF Some] and e = cached_end_ge [OF Some, of bs] and w = op_words [OF bop]
    note t = buf_wf_unat(1) [OF home]
    have ne: "unat (buf_Offset ?buf) < buf_tail ?buf"
    proof -
      obtain q where "cbyte c f (op_Index bop) q \<noteq> None" using own Some by (fastforce simp: wc_own_def)
      then show ?thesis by (auto simp: cb buf_byte_def split: if_splits)
    qed
    show thesis
    proof (cases "buf_tail ?buf \<le> o1 \<or> o1 + n \<le> unat (buf_Offset ?buf)")
      case True
      let ?n = "if ds < int n \<and> op_RwOffset bop < buf_Offset ?buf then int n else ds"
      have run: "MergeOp c f bop ds = Ret (?n, op_rwBuf bop)"
        using Some g ds sz fb b True t w by (simp add: MergeOp_def the_fb_def word_le_nat_alt o1_def n_def)
      have "op_pos bs bop + n \<le> cached_end bs c f" if "op_RwOffset bop < buf_Offset ?buf"
        using that True ne e by (auto simp: op_pos_def word_less_nat_alt o1_def)
      then show thesis using that [OF run] dis True by (auto simp: cb buf_byte_def o1_def n_def)
    next
      case False
      define a z where "a = max o1 (unat (buf_Offset ?buf))" and "z = min (o1 + n) (buf_tail ?buf)"
      have ov: "o1 < buf_tail ?buf" "unat (buf_Offset ?buf) < o1 + length (op_rwBuf bop)"
        using False by (auto simp: n_def)
      note m = MergeOp_overlap [where cb = "cbyte c" and ct = ct and f = f, OF bop o1_def home ds base cb ne ov e a_def z_def [unfolded n_def]]
      have "MergeOp c f bop ds = Ret (max ds (int (z - o1)),
          copy_at (a - o1) (take (z - a) (drop a (buf_dataBuf ?buf))) (op_rwBuf bop))"
        using MergeOp_run [OF bop o1_def home ds ov m(1,2) a_def z_def [unfolded n_def] fb _ b] Some g by simp
      then show thesis using that m(3) by blast
    qed
  qed
qed

section \<open>Read locks\<close>

lemma update_same: "map_of al k = Some v \<Longrightarrow> AList.update k v al = al"
  by (induction al) (auto split: if_splits)

lemma update_twice: "AList.update k v (AList.update k w al) = AList.update k v al"
  by (induction al) auto

lemma delete_new: "map_of al k = None \<Longrightarrow> AList.delete k (AList.update k v al) = al"
  by (simp add: AList.delete_update_same AList.delete_idem map_of_eq_None_iff)

text \<open>
  A block that nobody holds can be read-locked; the state while the lock is held has the same buffers,
  and unlocking gives the old state back. A write-locked block has to be waited for.
\<close>

lemma rlock_cycle:
  assumes fb: "map_of (cc_Cache c) f = Some fb" and free: "locks c f i = None"
  obtains c1 fb1 where "on_fb f (RLockBuffer i) c = Ret c1" and "on_fb f (RUnLockBuffer i) c1 = Ret c"
    and "map_of (cc_Cache c1) f = Some fb1" and "cc_heap c1 = cc_heap c" and "cc_FreeList c1 = cc_FreeList c"
    and "attached c1 = attached c" and "cbyte c1 = cbyte c" and "pool_inv bs c1 = pool_inv bs c"
proof -
  have l: "map_of (LockMap fb) i = None" using fb free by (simp add: locks_def)
  let ?l = "\<lparr> lock_tp = ReadLock, lock_refer = 1 \<rparr>"
  let ?fb = "fb\<lparr> LockMap := AList.update i ?l (LockMap fb) \<rparr>"
  let ?c = "c\<lparr>cc_Cache := AList.update f ?fb (cc_Cache c)\<rparr>"
  note b = fb_same_bufs [OF fb, of ?fb, OF _]
  have "on_fb f (RUnLockBuffer i) ?c = Ret c"
    using fb l by (simp add: on_fb_def RUnLockBuffer_def update_conv' delete_new update_twice update_same)
  then show thesis using that [of ?c ?fb] b fb l by (simp add: on_fb_def RLockBuffer_def update_conv')
qed

lemma rlock_blocked: "locks c f i = Some wlock \<Longrightarrow> on_fb f (RLockBuffer i) c = Block"
  by (auto simp: locks_def on_fb_def RLockBuffer_def wlock_def split: option.splits)


section \<open>Reading one block\<close>

text \<open>
  The read cache: its buffers hold whole blocks and only write locks are held between calls. It is
  coherent when its bytes are those of the server.
\<close>

definition rc_bufs :: "u32 \<Rightarrow> RCache \<Rightarrow> bool" where
  "rc_bufs bs c \<longleftrightarrow>
     0 < unat bs \<and> pool_inv bs c \<and>
     (\<forall>f i b. attached c f i = Some b \<longrightarrow> buf_Offset (cc_heap c ! b) = 0 \<and> buf_Len (cc_heap c ! b) = bs)"

definition rc_own :: "u32 \<Rightarrow> RCache \<Rightarrow> bool" where
  "rc_own bs c \<longleftrightarrow> rc_bufs bs c \<and> (\<forall>f i. locks c f i = None \<or> locks c f i = Some wlock)"

definition coherent :: "u32 \<Rightarrow> contents \<Rightarrow> RCache \<Rightarrow> u64 \<Rightarrow> bool" where
  "coherent bs ct c f \<longleftrightarrow> (\<forall>i q x. cbyte c f i q = Some x \<longrightarrow> x = zbyte (ct f) (unat i * unat bs + q))"

definition fetched :: "u32 \<Rightarrow> contents \<Rightarrow> RCache \<Rightarrow> u64 \<Rightarrow> RWBlockOp \<Rightarrow> int \<Rightarrow> byte list \<Rightarrow> bool" where
  "fetched bs ct c f bop n buf \<longleftrightarrow>
     length buf = length (op_rwBuf bop) \<and> 0 \<le> n \<and> n \<le> int (length buf) \<and>
     int (min (length buf) (length (ct f) - op_pos bs bop)) \<le> n \<and>
     (attached c f (op_Index bop) = None \<longrightarrow> n \<le> int (length (ct f) - op_pos bs bop)) \<and>
     (\<forall>k < length buf. buf ! k = zbyte (ct f) (op_pos bs bop + k))"

lemma ReadOp_direct:
  assumes ok: "server_ok post pc content" and bop: "bop_ok bs fe bop"
    and zero: "op_rwBuf bop = replicate (length (op_rwBuf bop)) 0"
    and fb: "map_of (cc_Cache c) (fe_Id fe) = Some fb" and none: "attached c (fe_Id fe) (op_Index bop) = None"
  obtains n err buf s' where "ReadOp post pc fe (fe_Id fe) bop c s = Ret (n, err, buf, s')"
    and "content s' = content s" and "length buf = length (op_rwBuf bop)"
    and "err = None \<Longrightarrow> fetched bs (content s) c (fe_Id fe) bop n buf"
proof -
  let ?f = "fe_Id fe" and ?d = "op_rwBuf bop"
  obtain s' buf n err where rd: "Reader_Read post pc s ?f ?d (Op_GetFileOffset bop) = (s', buf, n, err)"
    by (metis prod_cases4)
  have "length ?d < 2 ^ 32" using bop unat_u32_bound [of bs] by (simp add: bop_ok_def)
  note r = Reader_Read_ok [OF ok rd this, unfolded unat_Op_GetFileOffset [OF bop]]
  have run: "ReadOp post pc fe ?f bop c s = Ret (n, err, buf, s')"
    using fb none rd by (simp add: ReadOp_def the_fb_def GetBuffer_def attached_def DirectRead_def)
  have "fetched bs (content s) c ?f bop n buf" if "err = None"
  proof -
    let ?c = "take (length ?d) (drop (op_pos bs bop) (content s ?f))"
    have b: "buf = copy_at 0 ?c ?d" "n = int (length ?c)" using r(3) [OF that] by auto
    have "buf ! k = zbyte (content s ?f) (op_pos bs bop + k)" if "k < length ?d" for k
    proof -
      have "?d ! k = 0" using zero that by (metis nth_replicate)
      then show ?thesis using nth_copy_at [of 0 ?d k ?c] that b(1) by (auto simp: zbyte_def)
    qed
    then show ?thesis using r(2) b(2) by (auto simp: fetched_def)
  qed
  then show thesis using that run r(1,2) by blast
qed

text \<open>A block that is in the read cache is copied from its buffer, whatever the buffer holds.\<close>

lemma ReadOp_hit:
  assumes own: "rc_bufs bs c" and bop: "bop_ok bs fe bop"
    and fb: "map_of (cc_Cache c) (fe_Id fe) = Some fb" and some: "attached c (fe_Id fe) (op_Index bop) = Some b"
  obtains buf where "ReadOp post pc fe (fe_Id fe) bop c s = Ret (int (length (op_rwBuf bop)), None, buf, s)"
    and "length buf = length (op_rwBuf bop)"
    and "\<And>k. k < length (op_rwBuf bop) \<Longrightarrow> cbyte c (fe_Id fe) (op_Index bop) (unat (op_RwOffset bop) + k) = Some (buf ! k)"
proof -
  let ?f = "fe_Id fe" and ?buf = "cc_heap c ! b" and ?o = "op_RwOffset bop" and ?d = "op_rwBuf bop"
  have b: "b < length (cc_heap c)" "buf_wf bs ?buf" "buf_Offset ?buf = 0" "buf_Len ?buf = bs" "0 < unat bs"
    using own some attachedD [of bs c ?f "op_Index bop" b] by (auto simp: rc_bufs_def home_def)
  note w = op_words [OF bop]
  have bo: "unat ?o < unat bs" "unat ?o + length ?d \<le> unat bs" "unat (op_RwSize bop) = length ?d"
    using bop by (auto simp: bop_ok_def)
  have sz: "(if bs - ?o > op_RwSize bop then op_RwSize bop else bs - ?o) = op_RwSize bop"
    using bo unat_sub [of ?o bs] by (auto simp: word_less_nat_alt word_unat_eq_iff word_le_nat_alt)
  let ?x = "take (length ?d) (drop (unat ?o) (buf_dataBuf ?buf))"
  have tl: "buf_tail ?buf = unat bs" "unat bs \<le> length (buf_dataBuf ?buf)" using b by (auto simp: buf_tail_def buf_wf_def)
  have get: "GetRangeData ?o (?o + op_RwSize bop) ?buf = Ret ?x"
    using b bo tl w by (simp add: GetRangeData_def word_le_nat_alt)
  have len: "length ?x = length ?d" using tl bo by simp
  have nz: "bs \<noteq> 0" "\<not> bs \<le> ?o" using b(5) bo(1) by (auto simp: word_le_nat_alt)
  have "uint (op_RwSize bop) = int (length ?d)" unfolding bo(3) [symmetric] by simp
  then have run: "ReadOp post pc fe ?f bop c s = Ret (int (length ?d), None, copy_at 0 ?x ?d, s)"
    using fb some b sz get nz bo(3) by (simp add: ReadOp_def the_fb_def GetBuffer_def attached_def)
  have "cbyte c ?f (op_Index bop) (unat ?o + k) = Some (copy_at 0 ?x ?d ! k)" if k: "k < length ?d" for k
    using k bo tl b nth_copy_at [of 0 ?d k ?x] len by (simp add: cbyte_Some [OF some] buf_byte_def)
  then show thesis using that [OF run] by simp
qed

lemma ReadOp_cached:
  assumes own: "rc_bufs bs c" and bop: "bop_ok bs fe bop" and co: "coherent bs (content s) c (fe_Id fe)"
    and fb: "map_of (cc_Cache c) (fe_Id fe) = Some fb" and some: "attached c (fe_Id fe) (op_Index bop) = Some b"
  obtains n buf where "ReadOp post pc fe (fe_Id fe) bop c s = Ret (n, None, buf, s)"
    and "fetched bs (content s) c (fe_Id fe) bop n buf"
proof -
  let ?f = "fe_Id fe" and ?d = "op_rwBuf bop"
  obtain buf where run: "ReadOp post pc fe ?f bop c s = Ret (int (length ?d), None, buf, s)" "length buf = length ?d"
    and byte: "\<And>k. k < length ?d \<Longrightarrow> cbyte c ?f (op_Index bop) (unat (op_RwOffset bop) + k) = Some (buf ! k)"
    by (rule ReadOp_hit [OF own bop fb some, of post pc s]) blast
  have "buf ! k = zbyte (content s ?f) (op_pos bs bop + k)" if "k < length ?d" for k
    using co byte [OF that] by (auto simp: coherent_def op_pos_def add.assoc)
  then have "fetched bs (content s) c ?f bop (int (length ?d)) buf"
    using some run(2) by (simp add: fetched_def)
  then show thesis using that run by blast
qed


text \<open>The two ways together: a block operation of a read never fails to give the bytes of the server.\<close>

lemma ReadOp_ok:
  assumes "server_ok post pc content" and "rc_bufs bs c" and "bop_ok bs fe bop"
    and "op_rwBuf bop = replicate (length (op_rwBuf bop)) 0" and "coherent bs (content s) c (fe_Id fe)"
    and "map_of (cc_Cache c) (fe_Id fe) = Some fb"
  obtains n err buf s' where "ReadOp post pc fe (fe_Id fe) bop c s = Ret (n, err, buf, s')"
    and "content s' = content s" and "length buf = length (op_rwBuf bop)"
    and "err = None \<Longrightarrow> fetched bs (content s) c (fe_Id fe) bop n buf"
proof (cases "attached c (fe_Id fe) (op_Index bop)")
  case None
  show thesis by (rule ReadOp_direct [OF assms(1,3,4,6) None, of s]) (rule that)
next
  case (Some b)
  show thesis
    by (rule ReadOp_cached [where content = content, OF assms(2,3,5,6) Some, of post pc]) (rule that, auto simp: fetched_def)
qed

text \<open>
  A byte is stored when the server has it or the write cache holds it; \<open>file_end\<close> is the size of the
  file as the client sees it.
\<close>

definition stored :: "u32 \<Rightarrow> contents \<Rightarrow> WCache \<Rightarrow> u64 \<Rightarrow> nat \<Rightarrow> bool" where
  "stored bs ct c f p \<longleftrightarrow>
     p < length (ct f) \<or> (\<exists>i q. q < unat bs \<and> p = unat i * unat bs + q \<and> cbyte c f i q \<noteq> None)"

definition file_end :: "u32 \<Rightarrow> contents \<Rightarrow> WCache \<Rightarrow> u64 \<Rightarrow> nat" where
  "file_end bs ct c f = max (length (ct f)) (cached_end bs c f)"

definition read_piece ::
  "u32 \<Rightarrow> contents \<Rightarrow> RWCache \<Rightarrow> u64 \<Rightarrow> nat \<Rightarrow> bool \<Rightarrow> int \<Rightarrow> byte list \<Rightarrow> bool" where
  "read_piece bs ct rwc f pos exact n buf \<longleftrightarrow>
     0 \<le> n \<and> n \<le> int (length buf) \<and>
     (exact \<longrightarrow> n \<le> int (file_end bs ct (rw_wCache rwc) f - pos)) \<and>
     (\<forall>k < length buf. buf ! k = fview bs (cbyte (rw_wCache rwc)) ct f (pos + k) \<and>
        (stored bs ct (rw_wCache rwc) f (pos + k) \<longrightarrow> int k < n))"

lemma stored_op:
  assumes bop: "bop_ok bs fe bop" and k: "k < length (op_rwBuf bop)"
  shows "stored bs ct c f (op_pos bs bop + k) \<longleftrightarrow>
     op_pos bs bop + k < length (ct f) \<or> cbyte c f (op_Index bop) (unat (op_RwOffset bop) + k) \<noteq> None"
proof -
  have q: "unat (op_RwOffset bop) + k < unat bs" using bop k by (auto simp: bop_ok_def)
  have pos: "op_pos bs bop + k = unat (op_Index bop) * unat bs + (unat (op_RwOffset bop) + k)" by (simp add: op_pos_def)
  have "i = op_Index bop \<and> q' = unat (op_RwOffset bop) + k"
    if q': "q' < unat bs" and eq: "op_pos bs bop + k = unat i * unat bs + q'" for i :: u64 and q'
  proof -
    have "unat i = unat (op_Index bop)" using blk_div(1) [OF q, of "unat (op_Index bop)"] blk_div(1) [OF q', of "unat i"] pos eq by metis
    moreover have "q' = unat (op_RwOffset bop) + k"
      using blk_div(2) [OF q, of "unat (op_Index bop)"] blk_div(2) [OF q', of "unat i"] pos eq by metis
    ultimately show ?thesis by (simp add: word_unat_eq_iff)
  qed
  with q pos show ?thesis unfolding stored_def by blast
qed

lemma fetched_piece:
  assumes bop: "bop_ok bs fe bop" and fe: "fetched bs ct (rw_rCache rwc) f bop n buf"
    and none: "\<And>i. cbyte (rw_wCache rwc) f i = (\<lambda>_. None)"
  shows "read_piece bs ct rwc f (op_pos bs bop) (attached (rw_rCache rwc) f (op_Index bop) = None) n buf"
proof -
  have "stored bs ct (rw_wCache rwc) f (op_pos bs bop + k) \<longrightarrow> int k < n" if "k < length buf" for k
    using stored_op [OF bop, of k ct "rw_wCache rwc" f] that fe none by (auto simp: fetched_def)
  moreover have "fview bs (cbyte (rw_wCache rwc)) ct f (op_pos bs bop + k) = zbyte (ct f) (op_pos bs bop + k)"
    if "k < length buf" for k
    using fview_op [OF bop, of k "cbyte (rw_wCache rwc)" ct f] that fe none by (simp add: fetched_def)
  ultimately show ?thesis using fe by (auto simp: read_piece_def fetched_def file_end_def)
qed

lemma merged_piece:
  assumes bop: "bop_ok bs fe bop" and fe: "fetched bs ct (rw_rCache rwc) f bop ds buf0"
    and m: "merged bs (cbyte (rw_wCache rwc)) ct f (bop\<lparr>op_rwBuf := buf0\<rparr>) ds n buf (cached_end bs (rw_wCache rwc) f)"
  shows "read_piece bs ct rwc f (op_pos bs bop) (attached (rw_rCache rwc) f (op_Index bop) = None) n buf"
proof -
  have [simp]: "op_pos bs (bop\<lparr>op_rwBuf := buf0\<rparr>) = op_pos bs bop" by (simp add: op_pos_def)
  have "stored bs ct (rw_wCache rwc) f (op_pos bs bop + k) \<longrightarrow> int k < n" if "k < length buf" for k
    using stored_op [OF bop, of k ct "rw_wCache rwc" f] that fe m by (auto simp: fetched_def merged_def)
  then show ?thesis using fe m by (auto simp: read_piece_def fetched_def merged_def file_end_def)
qed


lemma wlocked_merge:
  assumes inv: "wc_inv bs {} c" and fb: "map_of (cc_Cache c) f = Some fb" and free: "locks c f (op_Index bop) = None"
  obtains c1 where "on_fb f (RLockBuffer (op_Index bop)) c = Ret c1" and "on_fb f (RUnLockBuffer (op_Index bop)) c1 = Ret c"
    and "\<And>fe ct ds. bop_ok bs fe bop \<Longrightarrow> 0 \<le> ds \<Longrightarrow> ds \<le> int (length (op_rwBuf bop)) \<Longrightarrow>
       (\<And>k. k < length (op_rwBuf bop) \<Longrightarrow> op_rwBuf bop ! k = zbyte (ct f) (op_pos bs bop + k)) \<Longrightarrow>
       \<exists>n buf. MergeOp c1 f bop ds = Ret (n, buf) \<and> merged bs (cbyte c) ct f bop ds n buf (cached_end bs c f)"
proof -
  obtain c1 fb1 where c1: "on_fb f (RLockBuffer (op_Index bop)) c = Ret c1" "on_fb f (RUnLockBuffer (op_Index bop)) c1 = Ret c"
      "map_of (cc_Cache c1) f = Some fb1" "cc_heap c1 = cc_heap c" "cc_FreeList c1 = cc_FreeList c"
      "attached c1 = attached c" "cbyte c1 = cbyte c" "pool_inv bs c1 = pool_inv bs c"
    by (rule rlock_cycle [OF fb free, where bs = bs]) blast
  have own: "wc_own bs c1" using inv c1(4-8) by (simp add: wc_inv_def wc_own_def)
  have e: "cached_end bs c1 f = cached_end bs c f" by (simp add: cached_end_def c1(4,6))
  show thesis
  proof (rule that [OF c1(1,2)])
    fix fe :: FileEntry and ct ds
    assume "bop_ok bs fe bop" "0 \<le> ds" "ds \<le> int (length (op_rwBuf bop))"
      "\<And>k. k < length (op_rwBuf bop) \<Longrightarrow> op_rwBuf bop ! k = zbyte (ct f) (op_pos bs bop + k)"
    from MergeOp_ok [where ct = ct, OF own this(1) c1(3) this(2-4)]
    show "\<exists>n buf. MergeOp c1 f bop ds = Ret (n, buf) \<and> merged bs (cbyte c) ct f bop ds n buf (cached_end bs c f)"
      using c1(7) e by metis
  qed
qed

text \<open>What one block of \<^const>\<open>doRead\<close> returns; the caches are as before.\<close>

fun read_op_post ::
  "u32 \<Rightarrow> ('s \<Rightarrow> contents) \<Rightarrow> RWCache \<Rightarrow> 's \<Rightarrow> u64 \<Rightarrow> RWBlockOp \<Rightarrow>
   (int \<times> go_error option \<times> byte list) \<times> RWCache \<times> 's \<Rightarrow> bool" where
  "read_op_post bs content rwc s f bop ((n, err, buf), rwc', s') \<longleftrightarrow>
     rwc' = rwc \<and> content s' = content s \<and> length buf = length (op_rwBuf bop) \<and>
     (err = None \<longrightarrow>
        read_piece bs (content s) rwc f (op_pos bs bop) (attached (rw_rCache rwc) f (op_Index bop) = None) n buf)"

definition wfile :: "WCache \<Rightarrow> u64 \<Rightarrow> u64 option" where
  "wfile c f = (if map_of (cc_Cache c) f = None then None else Some f)"

lemma rlocked_read:
  assumes ok: "server_ok post pc content" and rown: "rc_own bs c" and co: "coherent bs (content s) c (fe_Id fe)"
    and fr: "map_of (cc_Cache c) (fe_Id fe) = Some fr" and bop: "bop_ok bs fe bop"
    and zero: "op_rwBuf bop = replicate (length (op_rwBuf bop)) 0" and free: "locks c (fe_Id fe) (op_Index bop) = None"
  obtains c1 n err buf s' where "on_fb (fe_Id fe) (RLockBuffer (op_Index bop)) c = Ret c1"
    and "ReadOp post pc fe (fe_Id fe) bop c1 s = Ret (n, err, buf, s')"
    and "on_fb (fe_Id fe) (RUnLockBuffer (op_Index bop)) c1 = Ret c" and "content s' = content s"
    and "length buf = length (op_rwBuf bop)" and "err = None \<Longrightarrow> fetched bs (content s) c (fe_Id fe) bop n buf"
proof -
  let ?f = "fe_Id fe" and ?i = "op_Index bop"
  obtain rc1 fr1 where rc1: "on_fb ?f (RLockBuffer ?i) c = Ret rc1" "on_fb ?f (RUnLockBuffer ?i) rc1 = Ret c"
      "map_of (cc_Cache rc1) ?f = Some fr1" "cc_heap rc1 = cc_heap c" "attached rc1 = attached c" "cbyte rc1 = cbyte c"
      "pool_inv bs rc1 = pool_inv bs c"
    by (rule rlock_cycle [OF fr free, where bs = bs]) blast
  have pre: "rc_bufs bs rc1" "coherent bs (content s) rc1 ?f"
    using rown co rc1(4-7) by (auto simp: rc_own_def rc_bufs_def coherent_def)
  obtain n err buf s' where r: "ReadOp post pc fe ?f bop rc1 s = Ret (n, err, buf, s')" "content s' = content s"
      "length buf = length (op_rwBuf bop)" "err = None \<Longrightarrow> fetched bs (content s) rc1 ?f bop n buf"
    by (rule ReadOp_ok [where content = content, OF ok pre(1) bop zero pre(2) rc1(3)]) blast
  show thesis by (rule that [OF rc1(1) r(1) rc1(2) r(2,3)]) (use r(4) in \<open>unfold fetched_def rc1(5), blast\<close>)
qed

lemma doRead_op_ok:
  assumes ok: "server_ok post pc content" and winv: "wc_inv bs {} (rw_wCache rwc)"
    and rown: "rc_own bs (rw_rCache rwc)" and co: "coherent bs (content s) (rw_rCache rwc) (fe_Id fe)"
    and fr: "map_of (cc_Cache (rw_rCache rwc)) (fe_Id fe) = Some fr" and bop: "bop_ok bs fe bop"
    and zero: "op_rwBuf bop = replicate (length (op_rwBuf bop)) 0"
  shows "okG (locks (rw_wCache rwc) (fe_Id fe) (op_Index bop) \<noteq> None \<or> locks (rw_rCache rwc) (fe_Id fe) (op_Index bop) \<noteq> None)
     (doRead_op post pc fe (fe_Id fe) (wfile (rw_wCache rwc) (fe_Id fe)) bop rwc s)
     (read_op_post bs content rwc s (fe_Id fe) bop)"
proof -
  let ?f = "fe_Id fe" and ?i = "op_Index bop" and ?rc = "rw_rCache rwc" and ?wc = "rw_wCache rwc"
  have same: "rwc\<lparr>rw_rCache := ?rc, rw_wCache := ?wc\<rparr> = rwc" by simp
  have rblock: "on_fb ?f (RLockBuffer ?i) ?rc = Block" if "locks ?rc ?f ?i \<noteq> None"
    using that rown rlock_blocked [of ?rc ?f ?i] unfolding rc_own_def by metis
  note rd = rlocked_read [where content = content, OF ok rown co fr bop zero]
  show ?thesis
  proof (cases "map_of (cc_Cache ?wc) ?f")
    case None
    then have w: "wfile ?wc ?f = None" "\<And>i. cbyte ?wc ?f i = (\<lambda>_. None)"
      by (simp_all add: wfile_def cbyte_None attached_def)
    show ?thesis
    proof (cases "locks ?rc ?f ?i = None")
      case True
      obtain c1 n err buf s' where "on_fb ?f (RLockBuffer ?i) ?rc = Ret c1" "ReadOp post pc fe ?f bop c1 s = Ret (n, err, buf, s')"
          "on_fb ?f (RUnLockBuffer ?i) c1 = Ret ?rc" "content s' = content s" "length buf = length (op_rwBuf bop)"
          "err = None \<Longrightarrow> fetched bs (content s) ?rc ?f bop n buf"
        by (rule rd [OF True]) blast
      then show ?thesis using w fetched_piece [OF bop, of "content s" rwc ?f n buf] by (simp add: doRead_op_def)
    qed (use rblock w in \<open>simp add: doRead_op_def\<close>)
  next
    case (Some fw)
    then have w: "wfile ?wc ?f = Some ?f" by (simp add: wfile_def)
    show ?thesis
    proof (cases "locks ?wc ?f ?i = None")
      case wfree: True
      show ?thesis
      proof (cases "locks ?rc ?f ?i = None")
        case True
        obtain rc1 n err buf s' where r: "on_fb ?f (RLockBuffer ?i) ?rc = Ret rc1"
            "ReadOp post pc fe ?f bop rc1 s = Ret (n, err, buf, s')"
            "on_fb ?f (RUnLockBuffer ?i) rc1 = Ret ?rc" "content s' = content s" "length buf = length (op_rwBuf bop)"
            "err = None \<Longrightarrow> fetched bs (content s) ?rc ?f bop n buf"
          by (rule rd [OF True]) blast
        have bop': "bop_ok bs fe (bop\<lparr>op_rwBuf := buf\<rparr>)" "op_Index (bop\<lparr>op_rwBuf := buf\<rparr>) = ?i"
          using bop r(5) by (auto simp: bop_ok_def)
        obtain wc1 where m: "on_fb ?f (RLockBuffer ?i) ?wc = Ret wc1" "on_fb ?f (RUnLockBuffer ?i) wc1 = Ret ?wc"
            "err = None \<Longrightarrow> \<exists>n' buf'. MergeOp wc1 ?f (bop\<lparr>op_rwBuf := buf\<rparr>) n = Ret (n', buf') \<and>
               merged bs (cbyte ?wc) (content s) ?f (bop\<lparr>op_rwBuf := buf\<rparr>) n n' buf' (cached_end bs ?wc ?f)"
        proof (rule wlocked_merge [where bop = "bop\<lparr>op_rwBuf := buf\<rparr>", OF winv Some, unfolded bop'(2), OF wfree], goal_cases)
          case (1 c1)
          show ?case
          proof (rule 1(1) [OF 1(2,3)])
            assume "err = None"
            then have "fetched bs (content s) ?rc ?f bop n buf" by (rule r(6))
            then show "\<exists>n' buf'. MergeOp c1 ?f (bop\<lparr>op_rwBuf := buf\<rparr>) n = Ret (n', buf') \<and>
               merged bs (cbyte ?wc) (content s) ?f (bop\<lparr>op_rwBuf := buf\<rparr>) n n' buf' (cached_end bs ?wc ?f)"
              by (intro 1(4) [OF bop'(1)]) (auto simp: fetched_def op_pos_def)
          qed
        qed
        show ?thesis
        proof (cases err)
          case None
          then obtain n' buf' where "MergeOp wc1 ?f (bop\<lparr>op_rwBuf := buf\<rparr>) n = Ret (n', buf')"
              "merged bs (cbyte ?wc) (content s) ?f (bop\<lparr>op_rwBuf := buf\<rparr>) n n' buf' (cached_end bs ?wc ?f)"
            using m(3) by blast
          then show ?thesis using None r m w same merged_piece [OF bop r(6)]
            by (auto simp: doRead_op_def merged_def)
        qed (use r m w same in \<open>simp add: doRead_op_def\<close>)
      next
        case False
        obtain wc1 where "on_fb ?f (RLockBuffer ?i) ?wc = Ret wc1" by (rule rlock_cycle [OF Some wfree]) blast
        then show ?thesis using rblock [OF False] False w by (simp add: doRead_op_def)
      qed
    next
      case False
      then have "on_fb ?f (RLockBuffer ?i) ?wc = Block"
        using winv rlock_blocked [of ?wc ?f ?i] unfolding wc_inv_def wc_locks_def by metis
      then show ?thesis using w False by (simp add: doRead_op_def)
    qed
  qed
qed

section \<open>Reading a range\<close>

text \<open>
  \<open>read_range\<close>: \<open>n\<close> of the bytes \<open>data\<close> read from position \<open>off\<close> on count; they are the bytes of the view, no
  stored byte of the range is left out and, when no block of the range is in the read cache, none is
  beyond the end of the file.
\<close>

definition exact_at :: "RCache \<Rightarrow> u64 \<Rightarrow> bool" where
  "exact_at c f \<longleftrightarrow> (\<forall>i. attached c f i = None)"

lemma read_piece_mono:
  "read_piece bs ct rwc f pos e n buf \<Longrightarrow> e' \<longrightarrow> e \<Longrightarrow> read_piece bs ct rwc f pos e' n buf"
  by (auto simp: read_piece_def)

lemma read_piece_Nil: "read_piece bs ct rwc f pos e 0 []"
  by (simp add: read_piece_def)

lemma read_piece_append:
  assumes a: "read_piece bs ct rwc f off e n a" and b: "read_piece bs ct rwc f (off + length a) e m b"
  shows "read_piece bs ct rwc f off e (if m \<noteq> 0 then int (length a) + m else n) (a @ b)"
proof -
  let ?n = "if m \<noteq> 0 then int (length a) + m else n"
  let ?E = "file_end bs ct (rw_wCache rwc) f"
  have n: "0 \<le> n" "n \<le> int (length a)" "0 \<le> m" "m \<le> int (length b)"
    and e: "e \<Longrightarrow> n \<le> int (?E - off)" "e \<Longrightarrow> m \<le> int (?E - (off + length a))"
    using a b by (auto simp: read_piece_def)
  have "?n \<le> int (?E - off)" if e1: e
  proof (cases "m = 0")
    case False
    then have "off + length a \<le> ?E" using e(2) [OF e1] n(3) by simp
    then show ?thesis using e(2) [OF e1] False by simp
  qed (use e(1) [OF e1] in simp)
  moreover have "(a @ b) ! k = fview bs (cbyte (rw_wCache rwc)) ct f (off + k) \<and>
      (stored bs ct (rw_wCache rwc) f (off + k) \<longrightarrow> int k < ?n)" if k: "k < length (a @ b)" for k
  proof (cases "k < length a")
    case True
    then show ?thesis using a n by (auto simp: read_piece_def nth_append)
  next
    case False
    then obtain j where j: "k = length a + j" using le_Suc_ex not_less by blast
    have "j < length b" using k j by simp
    then show ?thesis using b n j by (auto simp: read_piece_def nth_append add.assoc)
  qed
  ultimately show ?thesis using n by (simp add: read_piece_def)
qed

fun read_loop_post ::
  "u32 \<Rightarrow> ('s \<Rightarrow> contents) \<Rightarrow> RWCache \<Rightarrow> 's \<Rightarrow> u64 \<Rightarrow> nat \<Rightarrow> nat \<Rightarrow>
   (int \<times> go_error option \<times> byte list) \<times> RWCache \<times> 's \<Rightarrow> bool" where
  "read_loop_post bs content rwc s f off len ((n, err, buf), rwc', s') \<longleftrightarrow>
     rwc' = rwc \<and> content s' = content s \<and> length buf = len \<and>
     (err = None \<longrightarrow> read_piece bs (content s) rwc f off (exact_at (rw_rCache rwc) f) n buf)"

lemma doRead_loop_ok:
  assumes ok: "server_ok post pc content" and winv: "wc_inv bs {} (rw_wCache rwc)"
    and rown: "rc_own bs (rw_rCache rwc)" and fr: "map_of (cc_Cache (rw_rCache rwc)) (fe_Id fe) = Some fr"
    and w: "\<And>bop. bop \<in> set allops \<Longrightarrow> locks (rw_wCache rwc) (fe_Id fe) (op_Index bop) \<noteq> None \<or>
       locks (rw_rCache rwc) (fe_Id fe) (op_Index bop) \<noteq> None \<Longrightarrow> w"
  shows "ops_at fe (unat offset + length filled) ops \<Longrightarrow> set ops \<subseteq> set allops \<Longrightarrow>
     (\<And>bop. bop \<in> set ops \<Longrightarrow> bop_ok bs fe bop \<and> op_rwBuf bop = replicate (length (op_rwBuf bop)) 0) \<Longrightarrow>
     coherent bs (content s) (rw_rCache rwc) (fe_Id fe) \<Longrightarrow>
     read_piece bs (content s) rwc (fe_Id fe) (unat offset) (exact_at (rw_rCache rwc) (fe_Id fe)) n filled \<Longrightarrow>
     okG w (doRead_loop post pc fe (fe_Id fe) (wfile (rw_wCache rwc) (fe_Id fe)) offset ops n filled rwc s)
       (read_loop_post bs content rwc s (fe_Id fe) (unat offset) (length filled + length (concat (map op_rwBuf ops))))"
proof (induction ops arbitrary: n filled s)
  case Nil
  then show ?case by simp
next
  case (Cons bop ops)
  let ?f = "fe_Id fe"
  have bop: "bop_ok bs fe bop" "op_rwBuf bop = replicate (length (op_rwBuf bop)) 0"
    and at: "op_pos bs bop = unat offset + length filled"
      "ops_at fe (unat offset + length filled + length (op_rwBuf bop)) ops"
    using Cons.prems(1) Cons.prems(3) [of bop] by (auto simp: op_pos_def bop_ok_def)
  have pos: "unat (Op_GetFileOffset bop - offset) = length filled"
    using unat_Op_GetFileOffset [OF bop(1)] at(1) by (simp add: unat_sub word_le_nat_alt)
  have l: "okG w (doRead_op post pc fe ?f (wfile (rw_wCache rwc) ?f) bop rwc s) (read_op_post bs content rwc s ?f bop)"
    by (rule okG_mono [OF doRead_op_ok [where content = content, OF ok winv rown Cons.prems(4) fr bop]])
       (use w [of bop] Cons.prems(2) in auto)
  show ?case
    unfolding doRead_loop.simps
  proof (rule okG_bind [OF l], goal_cases)
    case (1 x)
    obtain m err buf rwc1 s1 where x: "x = ((m, err, buf), rwc1, s1)" by (metis prod.collapse)
    then have p: "rwc1 = rwc" "content s1 = content s" "length buf = length (op_rwBuf bop)"
      "err = None \<Longrightarrow> read_piece bs (content s) rwc ?f (unat offset + length filled) (exact_at (rw_rCache rwc) ?f) m buf"
      using 1 at(1) read_piece_mono by (auto simp: exact_at_def)
    show ?case
    proof (cases err)
      case None
      have "okG w (doRead_loop post pc fe ?f (wfile (rw_wCache rwc) ?f) offset ops
          (if m \<noteq> 0 then int (length filled) + m else n) (filled @ buf) rwc s1)
          (read_loop_post bs content rwc s1 ?f (unat offset) (length (filled @ buf) + length (concat (map op_rwBuf ops))))"
        using Cons.prems(2,3,4) at(2) p(3) read_piece_append [OF Cons.prems(5) p(4) [OF None]] p(2)
        by (intro Cons.IH) (auto simp: add.assoc)
      moreover have "read_loop_post bs content rwc s1 ?f (unat offset) l = read_loop_post bs content rwc s ?f (unat offset) l"
        for l by (rule ext) (simp add: p(2) split_paired_all)
      moreover have "uint (Op_GetFileOffset bop - offset) = int (length filled)" unfolding pos [symmetric] by simp
      ultimately show ?thesis using x None p(1,3) by (cases "m = 0") (simp_all add: add.assoc)
    next
      case (Some e)
      then show ?thesis using x p by simp
    qed
  qed
qed


lemma concat_zero:
  assumes "concat (map op_rwBuf ops) = replicate n 0" and "bop \<in> set ops"
  shows "op_rwBuf bop = replicate (length (op_rwBuf bop)) 0"
proof -
  have "x = 0" if "x \<in> set (op_rwBuf bop)" for x
  proof -
    have "x \<in> set (concat (map op_rwBuf ops))" using that assms(2) by auto
    then show ?thesis by (simp add: assms(1) split: if_splits)
  qed
  then show ?thesis by (metis replicate_eqI)
qed

text \<open>The state in which the blocks are read, after the prefetches were started.\<close>

definition prefetched :: "u32 \<Rightarrow> u64 \<Rightarrow> RCache \<Rightarrow> RCache \<Rightarrow> bool" where
  "prefetched bs f c c' \<longleftrightarrow>
     rc_own bs c' \<and> attached c' = attached c \<and> cbyte c' = cbyte c \<and> map_of (cc_Cache c') f \<noteq> None"

fun read_post ::
  "u32 \<Rightarrow> ('s \<Rightarrow> contents) \<Rightarrow> RWCache \<Rightarrow> 's \<Rightarrow> u64 \<Rightarrow> nat \<Rightarrow> byte list \<Rightarrow>
   (int \<times> go_error option \<times> byte list) \<times> RWCache \<times> 's \<Rightarrow> bool" where
  "read_post bs content rwc s f off buffer ((n, err, buffer'), rwc', s') \<longleftrightarrow>
     rw_wCache rwc' = rw_wCache rwc \<and> prefetched bs f (rw_rCache rwc) (rw_rCache rwc') \<and> content s' = content s \<and>
     (if err = None
      then 0 \<le> n \<and> n \<le> int (length buffer) \<and>
        buffer' = map (wview bs content (rw_wCache rwc) s f) [off..<off + nat n] @ drop (nat n) buffer \<and>
        (\<forall>k < length buffer. stored bs (content s) (rw_wCache rwc) f (off + k) \<longrightarrow> k < nat n) \<and>
        (exact_at (rw_rCache rwc) f \<longrightarrow> nat n \<le> file_end bs (content s) (rw_wCache rwc) f - off)
      else buffer' = buffer)"

lemma GetFileBuffer_same: "GetFileBuffer fe False c = (wfile c (fe_Id fe), c)"
  by (simp add: GetFileBuffer_def wfile_def split: option.split)

lemma read_piece_result:
  assumes p: "read_piece bs ct rwc f off e n buf" and len: "length buf = length buffer"
  shows "slice 0 (nat n) buf = Ret (take (nat n) buf)" "0 \<le> n" "n \<le> int (length buffer)"
    "copy_at 0 (take (nat n) buf) buffer =
       map (fview bs (cbyte (rw_wCache rwc)) ct f) [off..<off + nat n] @ drop (nat n) buffer"
    "\<forall>k < length buffer. stored bs ct (rw_wCache rwc) f (off + k) \<longrightarrow> k < nat n"
    "e \<longrightarrow> nat n \<le> file_end bs ct (rw_wCache rwc) f - off"
proof -
  show n: "0 \<le> n" "n \<le> int (length buffer)" using p len by (auto simp: read_piece_def)
  show "slice 0 (nat n) buf = Ret (take (nat n) buf)" using n len by simp
  have "take (nat n) buf = map (fview bs (cbyte (rw_wCache rwc)) ct f) [off..<off + nat n]"
    using p n len by (intro nth_equalityI) (auto simp: read_piece_def)
  then show "copy_at 0 (take (nat n) buf) buffer =
      map (fview bs (cbyte (rw_wCache rwc)) ct f) [off..<off + nat n] @ drop (nat n) buffer"
    using n len by (simp add: copy_at_def)
  show "\<forall>k < length buffer. stored bs ct (rw_wCache rwc) f (off + k) \<longrightarrow> k < nat n"
    using p len by (auto simp: read_piece_def)
  show "e \<longrightarrow> nat n \<le> file_end bs ct (rw_wCache rwc) f - off" using p by (auto simp: read_piece_def)
qed

lemma doRead_ok:
  assumes ok: "server_ok post pc content" and winv: "wc_inv bs {} (rw_wCache rwc)"
    and co: "coherent bs (content s) (rw_rCache rwc) (fe_Id fe)"
    and bs: "fe_BlockSize fe = bs" and rq: "request_ok fe (length buffer) offset" and ne: "buffer \<noteq> []"
    and g: "GetFileBuffer fe True (rw_rCache rwc) = (Some (fe_Id fe), rc0)"
    and pf: "okG w (TryDoPrefetch (fe_Id fe) (of_nat (length buffer)) offset rc0)
       (\<lambda>rc1. prefetched bs (fe_Id fe) (rw_rCache rwc) rc1 \<and> R rc1)"
    and w: "\<And>rc1 i. TryDoPrefetch (fe_Id fe) (of_nat (length buffer)) offset rc0 = Ret rc1 \<Longrightarrow>
       locks (rw_wCache rwc) (fe_Id fe) i \<noteq> None \<or> locks rc1 (fe_Id fe) i \<noteq> None \<Longrightarrow> w"
  shows "okG w (doRead post pc fe buffer offset rwc s)
     (\<lambda>r. read_post bs content rwc s (fe_Id fe) (unat offset) buffer r \<and> R (rw_rCache (fst (snd r))))"
proof (cases "TryDoPrefetch (fe_Id fe) (of_nat (length buffer)) offset rc0")
  case (Ret rc1)
  let ?f = "fe_Id fe" and ?d = "replicate (length buffer) 0 :: byte list"
  let ?rwc = "rwc\<lparr>rw_rCache := rc1, rw_wCache := rw_wCache rwc\<rparr>"
  have pre: "rc_own bs rc1" "attached rc1 = attached (rw_rCache rwc)" "cbyte rc1 = cbyte (rw_rCache rwc)"
      "map_of (cc_Cache rc1) ?f \<noteq> None"
    using pf Ret by (auto simp: prefetched_def)
  then obtain fr where fr: "map_of (cc_Cache (rw_rCache ?rwc)) ?f = Some fr" by auto
  obtain ops where ops: "RSlice fe ?d offset = Ret ops" "concat (map op_rwBuf ops) = ?d"
      "ops_at fe (unat offset) ops" "\<And>bop. bop \<in> set ops \<Longrightarrow> op_rwBuf bop \<noteq> []"
    using rslice.cut_ok [of fe ?d offset] rq ne by auto
  have bops: "bop_ok bs fe bop \<and> op_rwBuf bop = replicate (length (op_rwBuf bop)) 0" if "bop \<in> set ops" for bop
    using ops_at_bop_ok [OF _ ops(2,3) that ops(4) [OF that]] concat_zero [OF ops(2) that] rq bs by simp
  have co1: "coherent bs (content s) (rw_rCache ?rwc) ?f" using co pre(3) by (simp add: coherent_def)
  have "okG w (doRead_loop post pc fe ?f (wfile (rw_wCache ?rwc) ?f) offset ops 0 [] ?rwc s)
      (read_loop_post bs content ?rwc s ?f (unat offset) (length ([] :: byte list) + length (concat (map op_rwBuf ops))))"
    by (rule doRead_loop_ok [where allops = ops, OF ok _ _ fr])
       (use winv pre(1) w [OF Ret] ops(3) bops co1 read_piece_Nil in auto)
  then have l: "okG w (doRead_loop post pc fe ?f (wfile (rw_wCache rwc) ?f) offset ops 0 [] ?rwc s)
      (read_loop_post bs content ?rwc s ?f (unat offset) (length buffer))"
    using ops(2) by simp
  have "okG w (bindG (doRead_loop post pc fe ?f (wfile (rw_wCache rwc) ?f) offset ops 0 [] ?rwc s)
      (\<lambda>((Size, err, dataBuf'), rwc1, s1).
        if err \<noteq> None then Ret ((Size, err, buffer), rwc1, s1)
        else bindG (Assert (Size \<le> int (length buffer))) (\<lambda>_. bindG (slice 0 (nat Size) dataBuf') (\<lambda>data.
          Ret ((Size, None, copy_at 0 data buffer), rwc1, s1)))))
      (\<lambda>r. read_post bs content rwc s ?f (unat offset) buffer r \<and> R (rw_rCache (fst (snd r))))"
  proof (rule okG_bind [OF l], goal_cases)
    case (1 x)
    obtain n err buf rwc1 s1 where x: "x = ((n, err, buf), rwc1, s1)" by (metis prod.collapse)
    have post: "rwc1 = ?rwc" "content s1 = content s" "length buf = length buffer" using 1 x by auto
    have pfd: "prefetched bs ?f (rw_rCache rwc) rc1" "R rc1" using pf Ret by simp_all
    show ?case
    proof (cases err)
      case None
      then have "read_piece bs (content s) ?rwc ?f (unat offset) (exact_at rc1 ?f) n buf" using 1 x by simp
      note r = read_piece_result [OF this post(3)]
      then show ?thesis using x None post pfd pre(2) by (simp add: exact_at_def wview_def)
    qed (use x post pfd in simp)
  qed
  then show ?thesis
    using g Ret ops(1) by (simp add: doRead_def GetFileBuffer_same Let_def)
qed (use pf g in \<open>simp_all add: doRead_def Let_def\<close>)


section \<open>The end of the cached writes\<close>

text \<open>Locking a free block and unlocking it again gives the old state back.\<close>

lemma lock_cycle:
  assumes fb: "map_of (cc_Cache c) f = Some fb" and free: "locks c f i = None"
  obtains c1 fb1 where "on_fb f (LockBuffer i) c = Ret c1" and "on_fb f (UnLockBuffer i) c1 = Ret c"
    and "map_of (cc_Cache c1) f = Some fb1" and "BufferMap fb1 = BufferMap fb" and "cc_heap c1 = cc_heap c"
proof -
  have l: "map_of (LockMap fb) i = None" using fb free by (simp add: locks_def)
  let ?fb = "fb\<lparr> LockMap := AList.update i wlock (LockMap fb) \<rparr>"
  let ?c = "c\<lparr>cc_Cache := AList.update f ?fb (cc_Cache c)\<rparr>"
  have "on_fb f (UnLockBuffer i) ?c = Ret c"
    using fb l by (simp add: on_fb_def UnLockBuffer_def update_conv' delete_new update_twice update_same wlock_def)
  then show thesis using that [of ?c ?fb] fb l by (simp add: on_fb_def LockBuffer_def update_conv' wlock_def)
qed

lemma IsZeroCache_attached:
  "map_of (cc_Cache c) f = Some fb \<Longrightarrow> IsZeroCache fb \<longleftrightarrow> (\<forall>i. attached c f i = None)"
  by (auto simp: IsZeroCache_def attached_def) (metis list.set_intros(1) map_of_eq_None_iff imageI list.exhaust option.distinct(1))

lemma StatSize_ok:
  assumes inv: "wc_inv bs {} c"
  shows "okG (\<exists>i. locks c (fe_Id fe) i \<noteq> None) (StatSize fe c)
     (\<lambda>((n, err), c'). err = None \<and> unat n = cached_end bs c (fe_Id fe) \<and> c' = c)"
proof (cases "map_of (cc_Cache c) (fe_Id fe)")
  case None
  then have "attached c (fe_Id fe) i = None" for i by (simp add: attached_def)
  then show ?thesis using None cached_end_0 [of c "fe_Id fe" bs] by (simp add: StatSize_def StatSize_locked_def GetFileBuffer_same wfile_def)
next
  case (Some fb)
  let ?f = "fe_Id fe" and ?u = "UpperIdx fb"
  have run: "StatSize fe c = (if IsZeroCache fb then Ret ((0, None), c)
      else bindG (on_fb ?f (LockBuffer ?u) c) (\<lambda>cache1.
            bindG (the_fb ?f cache1) (\<lambda>fb1.
            bindG
              (case GetBuffer ?u fb1 of
                 None \<Rightarrow> Ret (0, Some (Errno E_POSIX_EIO))
               | Some b \<Rightarrow>
                   bindG (index_at (cc_heap cache1) b) (\<lambda>buffer.
                   bindG (GetTailOffset buffer) (\<lambda>off. Ret (off, None)))) (\<lambda>r.
            bindG (on_fb ?f (UnLockBuffer ?u) cache1) (\<lambda>cache2. Ret (r, cache2))))))"
    using Some by (simp add: StatSize_def StatSize_locked_def GetFileBuffer_same wfile_def the_fb_def Let_def)
  show ?thesis
  proof (cases "IsZeroCache fb")
    case True
    then show ?thesis using run IsZeroCache_attached [OF Some] cached_end_0 [of c ?f bs] by simp
  next
    case False
    then obtain b where b: "attached c ?f ?u = Some b"
      using IsZeroCache_attached [OF Some] UpperIdx_attached(2) [OF Some] by blast
    note a = attachedD [OF wc_invD(1) [OF inv] b] and blk = wc_invD(3) [OF inv b]
    have end_is: "cached_end bs c ?f = unat ?u * unat bs + buf_tail (cc_heap c ! b)"
    proof (rule cached_end_eqI [OF b refl])
      fix j b' assume j: "attached c ?f j = Some b'"
      have t: "buf_tail (cc_heap c ! b') \<le> unat bs"
        using attachedD(3) [OF wc_invD(1) [OF inv] j] by (simp add: home_def buf_wf_def)
      show "unat j * unat bs + buf_tail (cc_heap c ! b') \<le> unat ?u * unat bs + buf_tail (cc_heap c ! b)"
      proof (cases "j = ?u")
        case False
        then have "unat j < unat ?u" using UpperIdx_attached(1) [OF Some, of j] j
          by (simp add: word_less_nat_alt [symmetric])
        then have "Suc (unat j) * unat bs \<le> unat ?u * unat bs" by (intro mult_le_mono1) simp
        then show ?thesis using t by simp
      qed (use j b in simp)
    qed
    have tail: "\<exists>off. GetTailOffset (cc_heap c ! b) = Ret off \<and> unat off = cached_end bs c ?f"
    proof -
      obtain fe0 where h: "buf_wf bs (cc_heap c ! b)" "buf_BlkIdx (cc_heap c ! b) = ?u"
          "buf_fe (cc_heap c ! b) = Some fe0" "fe_BlockSize fe0 = bs"
        using a(3) by (auto simp: home_def)
      have "buf_tail (cc_heap c ! b) \<le> unat bs" using h(1) by (simp add: buf_wf_def)
      then show ?thesis
        using h blk end_is by (simp add: GetTailOffset_def Buffer_GetAlignOffset_def buf_tail_def unat_plus unat_times)
    qed
    show ?thesis
    proof (cases "locks c ?f ?u")
      case None
      obtain c1 fb1 where c1: "on_fb ?f (LockBuffer ?u) c = Ret c1" "on_fb ?f (UnLockBuffer ?u) c1 = Ret c"
          "map_of (cc_Cache c1) ?f = Some fb1" "BufferMap fb1 = BufferMap fb" "cc_heap c1 = cc_heap c"
        by (rule lock_cycle [OF Some None]) blast
      then have "GetBuffer ?u fb1 = Some b" using b Some by (simp add: GetBuffer_def attached_def)
      then show ?thesis using run False c1 a(1) tail by (auto simp: the_fb_def)
    next
      case locked: (Some l)
      then have "on_fb ?f (LockBuffer ?u) c = Block"
        using Some by (auto simp: on_fb_def LockBuffer_def locks_def)
      then show ?thesis using run False locked by auto
    qed
  qed
qed


section \<open>Properties\<close>

lemma GetFileBuffer_new:
  "\<exists>c'. GetFileBuffer fe True c = (Some (fe_Id fe), c') \<and> locks c' = locks c \<and> map_of (cc_Cache c') (fe_Id fe) \<noteq> None"
proof -
  have "locks (c\<lparr>cc_Cache := AList.update (fe_Id fe) (NewFileBuffer fe) (cc_Cache c)\<rparr>) = locks c"
    if "map_of (cc_Cache c) (fe_Id fe) = None"
    using that by (auto simp: locks_update fun_eq_iff NewFileBuffer_def) (simp add: locks_def)
  then show ?thesis by (auto simp: GetFileBuffer_def update_conv' split: option.splits)
qed

lemma prefetched_new:
  assumes own: "rc_own bs c" and g: "GetFileBuffer fe True c = (Some (fe_Id fe), c')"
  shows "prefetched bs (fe_Id fe) c c'" "locks c' = locks c"
proof -
  note g' = GetFileBuffer_ok [OF g]
  show l: "locks c' = locks c" using GetFileBuffer_new [of fe c] g by auto
  show "prefetched bs (fe_Id fe) c c'"
    using own g' l unfolding prefetched_def rc_own_def rc_bufs_def by auto
qed

lemma RWCache_Read_ok:
  assumes "server_ok post pc content" and "wc_inv bs {} (rw_wCache rwc)" and "rc_own bs (rw_rCache rwc)"
    and "coherent bs (content s) (rw_rCache rwc) (fe_Id fe)" and "rc_chPrefetch (rw_rCache rwc) = None"
    and "fe_BlockSize fe = bs" and "request_ok fe (length buffer) offset" and "buffer \<noteq> []"
  shows "okG ((\<exists>i. locks (rw_wCache rwc) (fe_Id fe) i \<noteq> None) \<or> (\<exists>i. locks (rw_rCache rwc) (fe_Id fe) i \<noteq> None))
     (RWCache_Read post pc fe buffer offset rwc s) (read_post bs content rwc s (fe_Id fe) (unat offset) buffer)"
proof -
  obtain rc0 where g: "GetFileBuffer fe True (rw_rCache rwc) = (Some (fe_Id fe), rc0)"
    using GetFileBuffer_new [of fe "rw_rCache rwc"] by blast
  note p = prefetched_new [OF assms(3) g]
  have pf: "TryDoPrefetch (fe_Id fe) n offset rc0 = Ret rc0" for n
    using assms(5) GetFileBuffer_ok(7) [OF g] by (cases rc0; cases "rw_rCache rwc") (simp add: TryDoPrefetch_def)
  show ?thesis
    unfolding RWCache_Read_def
    by (rule okG_mono [OF doRead_ok [where content = content and R = "\<lambda>_. True", OF assms(1,2,4,6-8) g]]) (use pf p in auto)
qed


lemma NewRCache_own:
  assumes "0 < unat bs"
  shows "rc_own bs (NewRCache n e r t)" "attached (NewRCache n e r t) f i = None" "locks (NewRCache n e r t) f i = None"
    "coherent bs ct (NewRCache n e r t) f"
proof -
  show att: "attached (NewRCache n e r t) f i = None" for f i by (simp add: NewRCache_def attached_def)
  show l: "locks (NewRCache n e r t) f i = None" for f i by (simp add: NewRCache_def locks_def)
  have "pool_inv bs (NewRCache n e r t)"
    using att by (simp add: pool_defs pool_att_def) (auto simp: NewRCache_def pool_store_def NewBuffer_def)
  then show "rc_own bs (NewRCache n e r t)" using assms att l by (simp add: rc_own_def rc_bufs_def)
  show "coherent bs ct (NewRCache n e r t) f" using att by (simp add: coherent_def cbyte_def)
qed


text \<open>
  \<^verbatim>\<open>StatSize\<close> of the write cache is the end of the last byte that is cached for the file, 0 when
  none is; it waits only for a block that is being written and leaves the cache as it was.
\<close>

theorem stat_size_is_cached_end:
  assumes "wc_inv bs {} c"
  shows "okG (\<exists>i. locks c (fe_Id fe) i \<noteq> None) (StatSize fe c)
     (\<lambda>((n, err), c'). err = None \<and> unat n = cached_end bs c (fe_Id fe) \<and> c' = c)"
  by (rule StatSize_ok [OF assms])


theorem stat_size_is_cached_end_witness:
  "\<exists>c n c'. attached c 7 1 = Some 0 \<and> StatSize demo_file c = Ret ((n, None), c') \<and> unat n = cached_end 4 c 7"
proof -
  obtain c and s :: "u64 \<Rightarrow> byte list" where c: "wc_inv 4 {} c" "attached c 7 1 = Some 0" "qblocks c = {}"
    using demo_dirty by blast
  then have "locks c f i = None" for f i by (simp add: wc_inv_def wc_locks_def)
  then show ?thesis using stat_size_is_cached_end [OF c(1), of demo_file] c(2) by (auto simp: okG_returns)
qed

end
