(* ===== verification/Cfa_RInv.thy ===== *)
theory Cfa_RInv
  imports Cfa_Read
begin

text \<open>
  The invariant of the read cache with its prefetch goroutine. \<open>rc_inv bs H c\<close>: the buffers hold whole
  blocks and none is lost, the operations waiting in the channel are for distinct blocks that have
  no buffer yet, and the locked blocks are exactly those of the waiting operations and those in \<open>H\<close>.
  Every operation of \<^verbatim>\<open>rcache.go\<close> keeps it and none panics under it.
\<close>

section \<open>The invariant\<close>

definition rqueue :: "RCache \<Rightarrow> RWBlockOp list" where
  "rqueue c = (case rc_chPrefetch c of None \<Rightarrow> [] | Some q \<Rightarrow> q)"

definition op_block :: "RWBlockOp \<Rightarrow> u64 \<times> u64" where
  "op_block bop = (fe_Id (op_fe bop), op_Index bop)"

definition rblocks :: "RCache \<Rightarrow> (u64 \<times> u64) set" where
  "rblocks c = op_block ` set (rqueue c)"

definition fresh_op :: "u32 \<Rightarrow> RWBlockOp \<Rightarrow> bool" where
  "fresh_op bs bop \<longleftrightarrow>
     bop = prefetch_op (op_fe bop) (op_Index bop) \<and> fe_BlockSize (op_fe bop) = bs \<and>
     unat (op_Index bop) * unat bs + unat bs < 2 ^ 64"

definition rc_queue :: "u32 \<Rightarrow> RCache \<Rightarrow> bool" where
  "rc_queue bs c \<longleftrightarrow>
     distinct (map op_block (rqueue c)) \<and> (\<forall>bop \<in> set (rqueue c). fresh_op bs bop) \<and>
     (\<forall>f i. (f, i) \<in> rblocks c \<longrightarrow> attached c f i = None)"

definition rc_locks :: "(u64 \<times> u64) set \<Rightarrow> RCache \<Rightarrow> bool" where
  "rc_locks H c \<longleftrightarrow> (\<forall>f i. locks c f i = (if (f, i) \<in> H \<union> rblocks c then Some wlock else None))"

definition rc_files :: "u32 \<Rightarrow> RCache \<Rightarrow> bool" where
  "rc_files bs c \<longleftrightarrow>
     (\<forall>f fb. map_of (cc_Cache c) f = Some fb \<longrightarrow> fe_Id (fb_fe fb) = f \<and> fe_BlockSize (fb_fe fb) = bs)"

definition rc_kept :: "RCache \<Rightarrow> bool" where
  "rc_kept c \<longleftrightarrow> {..<length (cc_heap c)} \<subseteq> set (cc_FreeList c) \<union> owned (attached c)"

definition rc_inv :: "u32 \<Rightarrow> (u64 \<times> u64) set \<Rightarrow> RCache \<Rightarrow> bool" where
  "rc_inv bs H c \<longleftrightarrow> rc_bufs bs c \<and> rc_queue bs c \<and> rc_locks H c \<and> rc_files bs c \<and> rc_kept c"

lemmas rc_defs = rc_inv_def rc_bufs_def rc_queue_def rc_kept_def

lemma rc_invD:
  assumes "rc_inv bs H c"
  shows "pool_inv bs c" "0 < unat bs" "rc_bufs bs c"
    "\<And>f i. (f, i) \<in> H \<Longrightarrow> locks c f i = Some wlock"
    "\<And>f i. locks c f i \<noteq> None \<Longrightarrow> (f, i) \<in> H \<union> rblocks c"
    "\<And>f fb. map_of (cc_Cache c) f = Some fb \<Longrightarrow> fe_Id (fb_fe fb) = f \<and> fe_BlockSize (fb_fe fb) = bs"
  using assms by (auto simp: rc_defs rc_locks_def rc_files_def split: if_splits)

lemma rc_inv_own: "rc_inv bs H c \<Longrightarrow> rc_own bs c"
  by (auto simp: rc_own_def rc_inv_def rc_locks_def)

lemma rmore_same:
  assumes "CacheCore.more c' = CacheCore.more (c :: RCache)"
  shows "rc_chPrefetch c' = rc_chPrefetch c" "rc_PrefetchRoutine c' = rc_PrefetchRoutine c" "rc_chClosed c' = rc_chClosed c"
    "rc_PrefetchTimes c' = rc_PrefetchTimes c" "rqueue c' = rqueue c" "rblocks c' = rblocks c"
  using assms by (cases c; cases c'; simp add: rqueue_def rblocks_def)+

text \<open>What a step of the file and buffer layer keeps of the invariant.\<close>

lemma rc_inv_step:
  assumes inv: "rc_inv bs H c" and pool: "pool_inv bs c'" and more: "CacheCore.more c' = CacheCore.more c"
    and att: "attached c' = attached c"
    and bufs: "\<And>f i b. attached c f i = Some b \<Longrightarrow> buf_Offset (cc_heap c' ! b) = buf_Offset (cc_heap c ! b) \<and>
       buf_Len (cc_heap c' ! b) = buf_Len (cc_heap c ! b)"
    and locks: "rc_locks H' c'" and files: "rc_files bs c'"
    and kept: "length (cc_heap c') = length (cc_heap c)" "set (cc_FreeList c) \<subseteq> set (cc_FreeList c')"
  shows "rc_inv bs H' c'"
  using inv pool att bufs locks files kept rmore_same [OF more] by (auto simp: rc_defs)

text \<open>The prefetch windows of the files.\<close>

definition windows :: "RCache \<Rightarrow> u64 \<Rightarrow> PrefetchWindow option" where
  "windows c f = map_option fb_pw (map_of (cc_Cache c) f)"

lemma windows_upd:
  "map_of (cc_Cache c') = (map_of (cc_Cache c))(f \<mapsto> fb') \<Longrightarrow> map_of (cc_Cache c) f = Some fb \<Longrightarrow> fb_pw fb' = fb_pw fb \<Longrightarrow>
   windows c' = windows c"
  by (auto simp: windows_def fun_eq_iff)

section \<open>Locks\<close>

lemma rc_relock:
  assumes inv: "rc_inv bs H c" and fb: "map_of (cc_Cache c) f = Some fb" and nq: "(f, i) \<notin> rblocks c"
    and fb': "BufferMap fb' = BufferMap fb" "fb_fe fb' = fb_fe fb"
      "map_of (LockMap fb') = (map_of (LockMap fb))(i := if l then Some wlock else None)"
  defines "c' \<equiv> c\<lparr>cc_Cache := AList.update f fb' (cc_Cache c)\<rparr>"
  shows "rc_inv bs (if l then insert (f, i) H else H - {(f, i)}) c'"
    "attached c' = attached c" "cbyte c' = cbyte c" "CacheCore.more c' = CacheCore.more c"
proof -
  note b = fb_same_bufs [OF fb fb'(1), folded c'_def]
  show m: "CacheCore.more c' = CacheCore.more c" by (simp add: c'_def)
  show "attached c' = attached c" "cbyte c' = cbyte c" by (fact b)+
  have "locks c' = (locks c)(f := (locks c f)(i := if l then Some wlock else None))"
    using fb fb'(3) by (auto simp: c'_def locks_update fun_eq_iff) (simp_all add: locks_def)
  then have "rc_locks (if l then insert (f, i) H else H - {(f, i)}) c'"
    using inv nq unfolding rc_inv_def rc_locks_def rmore_same(6) [OF m] by auto
  moreover have "rc_files bs c'" using inv fb fb'(2) by (auto simp: rc_inv_def rc_files_def c'_def update_conv')
  ultimately show "rc_inv bs (if l then insert (f, i) H else H - {(f, i)}) c'"
    using inv b by (intro rc_inv_step [OF inv _ m b(1)]) (auto simp: rc_defs c'_def)
qed

lemma rlock_ok:
  assumes inv: "rc_inv bs {} c" and fb: "map_of (cc_Cache c) f = Some fb" and nq: "(f, i) \<notin> rblocks c"
  obtains c' fb' where "on_fb f (LockBuffer i) c = Ret c'" and "rc_inv bs {(f, i)} c'"
    and "attached c' = attached c" and "cbyte c' = cbyte c" and "CacheCore.more c' = CacheCore.more c"
    and "map_of (cc_Cache c') = (map_of (cc_Cache c))(f \<mapsto> fb')" and "fb_pw fb' = fb_pw fb"
    and "fb_fe fb' = fb_fe fb" and "BufferMap fb' = BufferMap fb"
proof -
  have "locks c f i = None" using rc_invD(5) [OF inv] nq by blast
  then have "map_of (LockMap fb) i = None" using fb by (simp add: locks_def)
  then have "on_fb f (LockBuffer i) c = Ret (c\<lparr>cc_Cache :=
      AList.update f (fb\<lparr>LockMap := AList.update i wlock (LockMap fb)\<rparr>) (cc_Cache c)\<rparr>)"
    using fb by (simp add: on_fb_def LockBuffer_def wlock_def)
  then show thesis
    using rc_relock [OF inv fb nq, of "fb\<lparr>LockMap := AList.update i wlock (LockMap fb)\<rparr>" True]
      that [of _ "fb\<lparr>LockMap := AList.update i wlock (LockMap fb)\<rparr>"]
    by (simp add: update_conv')
qed

lemma runlock_ok:
  assumes inv: "rc_inv bs {(f, i)} c" and nq: "(f, i) \<notin> rblocks c"
  obtains c' fb fb' where "on_fb f (UnLockBuffer i) c = Ret c'" and "rc_inv bs {} c'"
    and "attached c' = attached c" and "cbyte c' = cbyte c" and "CacheCore.more c' = CacheCore.more c"
    and "map_of (cc_Cache c) f = Some fb"
    and "map_of (cc_Cache c') = (map_of (cc_Cache c))(f \<mapsto> fb')" and "fb_pw fb' = fb_pw fb"
    and "fb_fe fb' = fb_fe fb" and "BufferMap fb' = BufferMap fb"
proof -
  have l: "locks c f i = Some wlock" using rc_invD(4) [OF inv] by simp
  then obtain fb where fb: "map_of (cc_Cache c) f = Some fb" using locked_file by fastforce
  then have "map_of (LockMap fb) i = Some wlock" using l by (simp add: locks_def)
  then have "on_fb f (UnLockBuffer i) c = Ret (c\<lparr>cc_Cache :=
      AList.update f (fb\<lparr>LockMap := AList.delete i (LockMap fb)\<rparr>) (cc_Cache c)\<rparr>)"
    using fb by (simp add: on_fb_def UnLockBuffer_def wlock_def)
  then show thesis
    using rc_relock [OF inv fb nq, of "fb\<lparr>LockMap := AList.delete i (LockMap fb)\<rparr>" False] fb
      that [of _ fb "fb\<lparr>LockMap := AList.delete i (LockMap fb)\<rparr>"]
    by (simp add: delete_conv' update_conv')
qed

lemma rlock_blocked': "rc_inv bs H c \<Longrightarrow> (f, i) \<in> H \<union> rblocks c \<Longrightarrow> on_fb f (LockBuffer i) c = Block"
proof -
  assume "rc_inv bs H c" "(f, i) \<in> H \<union> rblocks c"
  then have "locks c f i = Some wlock" by (simp add: rc_inv_def rc_locks_def)
  then show ?thesis by (auto simp: locks_def on_fb_def LockBuffer_def split: option.splits)
qed

section \<open>Releasing buffers\<close>

text \<open>
  \<open>released\<close>: what an operation that only drops buffers leaves. The channel and the windows are as
  before, and every buffer that is still there holds the bytes it had.
\<close>

definition released :: "u32 \<Rightarrow> RCache \<Rightarrow> RCache \<Rightarrow> bool" where
  "released bs c c' \<longleftrightarrow>
     rc_inv bs {} c' \<and> CacheCore.more c' = CacheCore.more c \<and>
     (\<forall>f i. attached c' f i = attached c f i \<and> cbyte c' f i = cbyte c f i \<or> attached c' f i = None) \<and>
     (\<forall>f. map_option fb_pw (map_of (cc_Cache c') f) = map_option fb_pw (map_of (cc_Cache c) f))"

lemma released_refl: "rc_inv bs {} c \<Longrightarrow> released bs c c"
  by (simp add: released_def)

lemma released_trans:
  assumes "released bs a b" and "released bs b c" shows "released bs a c"
proof -
  have "attached c f i = attached a f i \<and> cbyte c f i = cbyte a f i \<or> attached c f i = None" for f i
    using assms unfolding released_def by metis
  then show ?thesis using assms by (simp add: released_def)
qed

lemma map_option_None: "map_option h x = map_option h y \<Longrightarrow> (x = None) = (y = None)"
  by (cases x; cases y) auto

lemma released_files: "released bs c c' \<Longrightarrow> (map_of (cc_Cache c') f = None) = (map_of (cc_Cache c) f = None)"
  by (rule map_option_None [of fb_pw]) (simp add: released_def)

lemma released_rblocks: "released bs c c' \<Longrightarrow> rblocks c' = rblocks c"
  by (rule rmore_same(6)) (simp add: released_def)

lemma released_cbyte:
  assumes "released bs c c'" and "cbyte c' f i q = Some x"
  shows "cbyte c f i q = Some x"
proof -
  have "attached c' f i \<noteq> None" using assms(2) cbyte_None [of c' f i] by (cases "attached c' f i") auto
  then have "cbyte c' f i = cbyte c f i" using assms(1) unfolding released_def by metis
  then show ?thesis using assms(2) by simp
qed

lemma released_coherent: "released bs c c' \<Longrightarrow> coherent bs ct c f \<Longrightarrow> coherent bs ct c' f"
  unfolding coherent_def by (blast dest: released_cbyte)

lemma rc_detach_ok:
  assumes inv: "rc_inv bs {(f, i)} c" and att: "attached c f i = Some b" and lru: "b \<notin> set (cc_LruList c)"
  obtains c' where "on_fb f (\<lambda>fb. Ret (DetachBuffer i fb)) c = Ret c'" and "rc_inv bs {(f, i)} (FreeBuffer b c')"
    and "attached (FreeBuffer b c') = (attached c)(f := (attached c f)(i := None))"
    and "cbyte (FreeBuffer b c') = (cbyte c)(f := (cbyte c f)(i := (\<lambda>_. None)))"
    and "CacheCore.more (FreeBuffer b c') = CacheCore.more c"
    and "\<And>g. map_option fb_pw (map_of (cc_Cache (FreeBuffer b c')) g) = map_option fb_pw (map_of (cc_Cache c) g)"
proof -
  note pool = rc_invD(1) [OF inv]
  obtain fb where fb: "map_of (cc_Cache c) f = Some fb" using attachedD(4) [OF pool att] by blast
  obtain c' where c': "on_fb f (\<lambda>fb. Ret (DetachBuffer i fb)) c = Ret c'" "pool_inv bs c'"
      "attached c' = (attached c)(f := (attached c f)(i := None))"
      "cbyte c' = (cbyte c)(f := (cbyte c f)(i := (\<lambda>_. None)))"
      "cc_heap c' = cc_heap c" "cc_FreeList c' = cc_FreeList c" "cc_LruList c' = cc_LruList c"
      "CacheCore.more c' = CacheCore.more c" "locks c' = locks c" "\<And>f' i'. attached c' f' i' \<noteq> Some b"
    by (rule detach_ok [OF pool att]) blast
  let ?c = "FreeBuffer b c'"
  have p: "pool_inv bs ?c" and sv: "same_view c' ?c"
    using FreeBuffer_ok [OF c'(2)] attachedD(1,2) [OF pool att] lru c' by simp_all
  note sv = same_viewD [OF sv]
  have cache: "cc_Cache c' = AList.update f (DetachBuffer i fb) (cc_Cache c)"
    using c'(1) fb by (auto simp: on_fb_def)
  have m: "CacheCore.more ?c = CacheCore.more c" using c'(8) by (simp add: FreeBuffer_def)
  have fr: "cc_heap ?c = cc_heap c" "set (cc_FreeList ?c) = insert b (set (cc_FreeList c))"
    using c'(5,6) by (simp_all add: FreeBuffer_def)
  have att': "attached ?c = (attached c)(f := (attached c f)(i := None))" using sv(2) c'(3) by simp
  have "rc_locks {(f, i)} ?c" using inv sv(3) c'(9) rmore_same(6) [OF m] by (simp add: rc_inv_def rc_locks_def)
  moreover have "rc_files bs ?c" using inv sv(4) cache fb by (auto simp: rc_inv_def rc_files_def update_conv' DetachBuffer_def)
  moreover have "rc_bufs bs ?c" using inv p att' fr(1) by (auto simp: rc_defs)
  moreover have "rc_queue bs ?c"
    using inv att' rmore_same(5,6) [OF m] by (auto simp: rc_inv_def rc_queue_def)
  moreover have "owned (attached ?c) = owned (attached c) - {b}"
    unfolding att' by (rule owned_del) (use att attached_inj [OF pool att] in blast)+
  then have "rc_kept ?c" using inv fr by (auto simp: rc_inv_def rc_kept_def)
  ultimately have "rc_inv bs {(f, i)} ?c" by (simp add: rc_inv_def)
  then show thesis
    using that [OF c'(1)] att' m sv(1,4) c'(4) cache fb by (simp add: update_conv' DetachBuffer_def)
qed

lemma rc_RemoveLru_ok:
  assumes inv: "rc_inv bs H c" and att: "attached c f i = Some b"
  obtains c' where "RemoveLru b c = Ret c'" and "rc_inv bs H c'" and "attached c' = attached c" and "cbyte c' = cbyte c"
    and "CacheCore.more c' = CacheCore.more c" and "cc_Cache c' = cc_Cache c" and "b \<notin> set (cc_LruList c')"
proof -
  note pool = rc_invD(1) [OF inv]
  note a = attachedD [OF pool att]
  obtain c' where c': "RemoveLru b c = Ret c'" "pool_inv bs c'" "same_view c c'" "cc_FreeList c' = cc_FreeList c"
      "set (cc_LruList c') = set (cc_LruList c) - {b}" "CacheCore.more c' = CacheCore.more c"
    by (rule RemoveLru_ok [OF pool a(1)]) blast
  note sv = same_viewD [OF c'(3)]
  have "buf_Offset (cc_heap c' ! x) = buf_Offset (cc_heap c ! x) \<and> buf_Len (cc_heap c' ! x) = buf_Len (cc_heap c ! x)" for x
    using c'(1) a(1) by (auto simp: RemoveLru_def nth_list_update split: if_splits)
  then have "rc_inv bs H c'"
    using inv sv c' rmore_same(6) [OF c'(6)]
    by (intro rc_inv_step [OF inv c'(2,6) sv(2)]) (auto simp: rc_inv_def rc_locks_def rc_files_def)
  then show thesis using that c'(1,5,6) sv(1,2,4) by simp
qed


lemma ReleaseBuffer_ok:
  assumes inv: "rc_inv bs {} c" and fb: "map_of (cc_Cache c) f \<noteq> None"
  shows "okG ((f, i) \<in> rblocks c) (ReleaseBuffer f i c)
     (\<lambda>(err, c'). err = None \<and> released bs c c' \<and> attached c' f i = None)"
proof (cases "(f, i) \<in> rblocks c")
  case True
  then show ?thesis using rlock_blocked' [OF inv, of f i] by (simp add: ReleaseBuffer_def)
next
  case nq: False
  obtain fb0 where fb0: "map_of (cc_Cache c) f = Some fb0" using fb by blast
  obtain c1 fb1 where c1: "on_fb f (LockBuffer i) c = Ret c1" "rc_inv bs {(f, i)} c1"
      "attached c1 = attached c" "cbyte c1 = cbyte c" "CacheCore.more c1 = CacheCore.more c"
      "map_of (cc_Cache c1) = (map_of (cc_Cache c))(f \<mapsto> fb1)" "fb_pw fb1 = fb_pw fb0" "BufferMap fb1 = BufferMap fb0"
    by (rule rlock_ok [OF inv fb0 nq]) blast
  have pw1: "map_option fb_pw (map_of (cc_Cache c1) g) = map_option fb_pw (map_of (cc_Cache c) g)" for g
    using c1(6,7) fb0 by simp
  have the: "the_fb f c1 = Ret fb1" using c1(6) by (simp add: the_fb_def)
  have get: "GetBuffer i fb1 = attached c f i" using c1(8) fb0 by (simp add: GetBuffer_def attached_def)
  have main: "\<exists>c4. (case GetBuffer i fb1 of None \<Rightarrow> Ret c1
        | Some b \<Rightarrow> bindG (RemoveLru b c1) (\<lambda>cache2.
            bindG (on_fb f (\<lambda>fb. Ret (DetachBuffer i fb)) cache2) (\<lambda>cache3. Ret (FreeBuffer b cache3)))) = Ret c4 \<and>
      rc_inv bs {(f, i)} c4 \<and> attached c4 = (attached c)(f := (attached c f)(i := None)) \<and>
      cbyte c4 = (cbyte c)(f := (cbyte c f)(i := (\<lambda>_. None))) \<and> CacheCore.more c4 = CacheCore.more c \<and>
      (\<forall>g. map_option fb_pw (map_of (cc_Cache c4) g) = map_option fb_pw (map_of (cc_Cache c) g))"
  proof (cases "attached c f i")
    case None
    then have "(attached c)(f := (attached c f)(i := None)) = attached c" "(cbyte c)(f := (cbyte c f)(i := (\<lambda>_. None))) = cbyte c"
      using cbyte_None [OF None] by (simp_all add: fun_upd_idem)
    then show ?thesis using None get c1(2-5) pw1 by simp
  next
    case (Some b)
    obtain c2 where c2: "RemoveLru b c1 = Ret c2" "rc_inv bs {(f, i)} c2" "attached c2 = attached c1" "cbyte c2 = cbyte c1"
        "CacheCore.more c2 = CacheCore.more c1" "cc_Cache c2 = cc_Cache c1" "b \<notin> set (cc_LruList c2)"
      by (rule rc_RemoveLru_ok [OF c1(2), of f i b]) (use Some c1(3) in auto)
    obtain c3 where c3: "on_fb f (\<lambda>fb. Ret (DetachBuffer i fb)) c2 = Ret c3" "rc_inv bs {(f, i)} (FreeBuffer b c3)"
        "attached (FreeBuffer b c3) = (attached c2)(f := (attached c2 f)(i := None))"
        "cbyte (FreeBuffer b c3) = (cbyte c2)(f := (cbyte c2 f)(i := (\<lambda>_. None)))"
        "CacheCore.more (FreeBuffer b c3) = CacheCore.more c2"
        "\<And>g. map_option fb_pw (map_of (cc_Cache (FreeBuffer b c3)) g) = map_option fb_pw (map_of (cc_Cache c2) g)"
      by (rule rc_detach_ok [OF c2(2) _ c2(7)]) (use Some c1(3) c2(3) in auto)
    then show ?thesis using Some get c1(3-5) c2(1,3-6) pw1 by simp
  qed
  then obtain c4 where c4: "(case GetBuffer i fb1 of None \<Rightarrow> Ret c1
        | Some b \<Rightarrow> bindG (RemoveLru b c1) (\<lambda>cache2.
            bindG (on_fb f (\<lambda>fb. Ret (DetachBuffer i fb)) cache2) (\<lambda>cache3. Ret (FreeBuffer b cache3)))) = Ret c4"
      "rc_inv bs {(f, i)} c4" "attached c4 = (attached c)(f := (attached c f)(i := None))"
      "cbyte c4 = (cbyte c)(f := (cbyte c f)(i := (\<lambda>_. None)))" "CacheCore.more c4 = CacheCore.more c"
      "\<And>g. map_option fb_pw (map_of (cc_Cache c4) g) = map_option fb_pw (map_of (cc_Cache c) g)"
    by blast
  obtain c5 fb4 fb5 where c5: "on_fb f (UnLockBuffer i) c4 = Ret c5" "rc_inv bs {} c5" "attached c5 = attached c4"
      "cbyte c5 = cbyte c4" "CacheCore.more c5 = CacheCore.more c4" "map_of (cc_Cache c4) f = Some fb4"
      "map_of (cc_Cache c5) = (map_of (cc_Cache c4))(f \<mapsto> fb5)" "fb_pw fb5 = fb_pw fb4"
    by (rule runlock_ok [OF c4(2)]) (use nq rmore_same(6) [OF c4(5)] in auto)
  have "map_option fb_pw (map_of (cc_Cache c5) g) = map_option fb_pw (map_of (cc_Cache c) g)" for g
    unfolding c4(6) [symmetric] using c5(6-8) by simp
  then have "released bs c c5" using c5(2-5) c4(3-5) by (auto simp: released_def)
  then show ?thesis using c1(1) the c4(1) c5(1,3) c4(3) by (simp add: ReleaseBuffer_def)
qed

lemma released_attached: "released bs c c' \<Longrightarrow> attached c f i = None \<Longrightarrow> attached c' f i = None"
  unfolding released_def by metis

lemma release_each_ok:
  assumes "rc_inv bs {} c" and "map_of (cc_Cache c) f \<noteq> None"
  shows "okG (\<exists>i. (f, i) \<in> rblocks c) (release_each f is c)
     (\<lambda>(err, c'). err = None \<and> released bs c c' \<and> (\<forall>i \<in> set is. attached c' f i = None))"
  using assms
proof (induction "is" arbitrary: c)
  case Nil
  then show ?case by (simp add: released_refl)
next
  case (Cons i "is")
  have l: "okG (\<exists>i. (f, i) \<in> rblocks c) (ReleaseBuffer f i c)
      (\<lambda>(err, c'). err = None \<and> released bs c c' \<and> attached c' f i = None)"
    by (rule okG_mono [OF ReleaseBuffer_ok [OF Cons.prems]]) auto
  show ?case
    unfolding release_each.simps
  proof (rule okG_bind [OF l], goal_cases)
    case (1 x)
    then obtain c1 where x: "x = (None, c1)" and c1: "released bs c c1" "attached c1 f i = None" by auto
    have "okG (\<exists>i. (f, i) \<in> rblocks c1) (release_each f is c1)
        (\<lambda>(err, c'). err = None \<and> released bs c1 c' \<and> (\<forall>i \<in> set is. attached c' f i = None))"
      by (rule Cons.IH) (use c1(1) released_files [OF c1(1)] Cons.prems(2) in \<open>auto simp: released_def\<close>)
    then have "okG (\<exists>i. (f, i) \<in> rblocks c) (release_each f is c1)
        (\<lambda>(err, c'). err = None \<and> released bs c c' \<and> (\<forall>j \<in> set (i # is). attached c' f j = None))"
      using released_rblocks [OF c1(1)] released_trans [OF c1(1)] c1(2) released_attached
      by (elim okG_mono) auto
    then show ?case using x by simp
  qed
qed


lemma rblocks_locked: "rc_inv bs H c \<Longrightarrow> (f, i) \<in> rblocks c \<Longrightarrow> locks c f i = Some wlock"
  by (simp add: rc_inv_def rc_locks_def)

lemma Release_ok:
  assumes inv: "rc_inv bs {} c"
  shows "okG (\<exists>i. (fe_Id fe, i) \<in> rblocks c) (Release fe c)
     (\<lambda>(err, c'). err = None \<and> released bs c c' \<and> (\<forall>i. attached c' (fe_Id fe) i = None) \<and>
        (\<forall>i. (fe_Id fe, i) \<notin> rblocks c'))"
proof (cases "map_of (cc_Cache c) (fe_Id fe)")
  case None
  have "(fe_Id fe, i) \<notin> rblocks c" for i using rblocks_locked [OF inv, of "fe_Id fe" i] None by (auto simp: locks_def)
  then show ?thesis using None released_refl [OF inv] by (simp add: Release_def GetFileBuffer_def attached_def)
next
  case (Some fb)
  let ?f = "fe_Id fe"
  have run: "Release fe c = bindG (on_fb ?f fb_Wait c) (\<lambda>cache1. bindG (the_fb ?f cache1) (\<lambda>fb.
      release_each ?f (GetAllBufferIndex fb) cache1))"
    using Some by (simp add: Release_def GetFileBuffer_def)
  show ?thesis
  proof (cases "LockMap fb = []")
    case True
    then have nq: "(?f, i) \<notin> rblocks c" for i
      using rblocks_locked [OF inv, of ?f i] Some by (auto simp: locks_def)
    have w: "on_fb ?f fb_Wait c = Ret c" using Some True by (simp add: on_fb_def fb_Wait_def update_same)
    have "okG (\<exists>i. (?f, i) \<in> rblocks c) (release_each ?f (GetAllBufferIndex fb) c)
       (\<lambda>(err, c'). err = None \<and> released bs c c' \<and> (\<forall>i. attached c' ?f i = None) \<and> (\<forall>i. (?f, i) \<notin> rblocks c'))"
    proof (rule okG_mono [OF release_each_ok [OF inv, of ?f "GetAllBufferIndex fb"]], goal_cases)
      case (3 x)
      then obtain c' where x: "x = (None, c')" and c': "released bs c c'" "\<forall>i \<in> set (GetAllBufferIndex fb). attached c' ?f i = None"
        by auto
      have "attached c' ?f i = None" for i
      proof (cases "i \<in> set (GetAllBufferIndex fb)")
        case False
        then have "attached c ?f i = None" using Some by (simp add: GetAllBufferIndex_def attached_def map_of_eq_None_iff)
        then show ?thesis by (rule released_attached [OF c'(1)])
      qed (use c'(2) in blast)
      then show ?case using x c'(1) nq released_rblocks [OF c'(1)] by simp
    qed (use Some in auto)
    then show ?thesis using run w Some by (simp add: the_fb_def)
  next
    case False
    then obtain i l where "map_of (LockMap fb) i = Some l" by (cases "LockMap fb") fastforce+
    then have "locks c ?f i \<noteq> None" using Some by (simp add: locks_def)
    then have "(?f, i) \<in> rblocks c" using rc_invD(5) [OF inv] by fastforce
    moreover have "on_fb ?f fb_Wait c = Block" using False Some by (simp add: on_fb_def fb_Wait_def)
    ultimately show ?thesis using run by auto
  qed
qed

lemma RCheckExpire_round_ok:
  assumes inv: "rc_inv bs {} c"
  shows "okG (rblocks c \<noteq> {}) (RCheckExpire_round now c) (\<lambda>(more, c'). released bs c c')"
proof -
  obtain fe i c1 where e: "LruExpire now c = Ret (fe, i, c1)" "pool_inv bs c1" "same_view c c1"
      "cc_FreeList c1 = cc_FreeList c" "CacheCore.more c1 = CacheCore.more c"
    by (rule LruExpire_ok [OF rc_invD(1) [OF inv], of now]) blast
  note sv = same_viewD [OF e(3)]
  have same: "buf_Offset (cc_heap c1 ! x) = buf_Offset (cc_heap c ! x) \<and> buf_Len (cc_heap c1 ! x) = buf_Len (cc_heap c ! x)" for x
    using e(1) by (cases "x < length (cc_heap c)")
      (auto simp: LruExpire_def Let_def nth_list_update index_at_def go_simps split: if_splits)
  then have inv1: "rc_inv bs {} c1"
    using inv sv e(4,5) rmore_same(6) [OF e(5)]
    by (intro rc_inv_step [OF inv e(2,5) sv(2)]) (auto simp: rc_inv_def rc_locks_def rc_files_def)
  have rel: "released bs c c1" using inv1 e(5) sv by (simp add: released_def)
  show ?thesis
  proof (cases "fe = None \<or> map_of (cc_Cache c1) (fe_Id (the fe)) = None")
    case True
    then show ?thesis using e(1) rel by (cases fe) (auto simp: RCheckExpire_round_def GetFileBuffer_def)
  next
    case False
    then obtain fe0 where fe: "fe = Some fe0" "map_of (cc_Cache c1) (fe_Id fe0) \<noteq> None" by auto
    have "okG (rblocks c \<noteq> {}) (bindG (ReleaseBuffer (fe_Id fe0) i c1) (\<lambda>(err, c3). Ret (True, c3))) (\<lambda>(more, c'). released bs c c')"
      by (rule okG_bind [OF okG_mono [OF ReleaseBuffer_ok [OF inv1 fe(2)]]])
         (use rel released_trans released_rblocks [OF rel] in auto)
    then show ?thesis using e(1) fe by (auto simp: RCheckExpire_round_def GetFileBuffer_def)
  qed
qed


section \<open>Prefetching\<close>

lemma fresh_sel:
  assumes "fresh_op bs bop"
  shows "op_RwOffset bop = 0" "op_RwSize bop = bs" "op_rwBuf bop = replicate (unat bs) 0"
    "unat (op_Index bop) * unat bs + unat bs < 2 ^ 64" "fe_BlockSize (op_fe bop) = bs"
proof -
  obtain fe i where "bop = prefetch_op fe i" "fe_BlockSize fe = bs"
    using assms unfolding fresh_op_def by metis
  then show "op_RwOffset bop = 0" "op_RwSize bop = bs" "op_rwBuf bop = replicate (unat bs) 0"
    by (simp_all add: prefetch_op_def)
qed (use assms in \<open>simp_all add: fresh_op_def\<close>)

lemma fresh_bop_ok: "0 < unat bs \<Longrightarrow> fresh_op bs bop \<Longrightarrow> bop_ok bs (op_fe bop) bop"
  using fresh_sel [of bs bop] by (simp add: bop_ok_def)

text \<open>Receiving the next operation: its lock goes over to the prefetch goroutine.\<close>

lemma rreceive_ok:
  assumes inv: "rc_inv bs {} c" and q: "rc_chPrefetch c = Some (bop # q)"
  defines "c1 \<equiv> c\<lparr>rc_chPrefetch := Some q\<rparr>"
  shows "rc_inv bs {op_block bop} c1" "op_block bop \<notin> rblocks c1" "fresh_op bs bop"
    "attached c1 (fe_Id (op_fe bop)) (op_Index bop) = None" "attached c1 = attached c" "cbyte c1 = cbyte c" "rqueue c1 = q"
proof -
  show eqs: "attached c1 = attached c" "rqueue c1 = q"
    by (simp_all add: c1_def attached_def rqueue_def fun_eq_iff)
  have l: "locks c1 = locks c" by (simp add: c1_def locks_def fun_eq_iff)
  have qs: "rqueue c = bop # q" using q by (simp add: rqueue_def)
  have fr: "cc_heap c1 = cc_heap c" "cc_FreeList c1 = cc_FreeList c" "cc_LruList c1 = cc_LruList c" "cc_Cache c1 = cc_Cache c"
    by (simp_all add: c1_def)
  show "cbyte c1 = cbyte c" by (rule pool_inv_cong(2) [OF fr(2,3,1) eqs(1)])
  have pool: "pool_inv bs c1" using rc_invD(1) [OF inv] pool_inv_cong(1) [OF fr(2,3,1) eqs(1)] by simp
  have rb: "{op_block bop} \<union> rblocks c1 = rblocks c" by (simp add: rblocks_def qs eqs(2))
  show nq: "op_block bop \<notin> rblocks c1" using inv by (auto simp: rc_inv_def rc_queue_def qs rblocks_def eqs(2))
  show "fresh_op bs bop" using inv by (simp add: rc_inv_def rc_queue_def qs)
  have "op_block bop \<in> rblocks c" by (simp add: rblocks_def qs)
  then show "attached c1 (fe_Id (op_fe bop)) (op_Index bop) = None"
    using inv by (simp add: rc_inv_def rc_queue_def eqs(1) op_block_def)
  have "rc_locks {op_block bop} c1" using inv l rb by (simp add: rc_inv_def rc_locks_def)
  moreover have "rblocks c1 \<subseteq> rblocks c" using rb by blast
  then have "rc_queue bs c1" using inv eqs by (simp add: rc_inv_def rc_queue_def qs) blast
  ultimately show "rc_inv bs {op_block bop} c1"
    using inv pool eqs fr by (simp add: rc_inv_def rc_bufs_def rc_kept_def rc_files_def)
qed

text \<open>A new buffer for a block that was read, filled and attached.\<close>

lemma fill_whole:
  assumes home: "home bs f i buf" and empty: "buf_Offset buf = 0" "buf_Len buf = 0" and bs: "0 < unat bs"
    and len: "length d = unat bs"
  obtains buf2 buf3 where "Skip 0 buf = Ret buf2" and "CanMerge 0 buf2" and "MergeData now d buf2 = Ret buf3"
    and "home bs f i buf3" and "buf_elm buf3 = buf_elm buf" and "buf_Offset buf3 = 0" and "buf_Len buf3 = bs"
    and "\<And>q. buf_byte buf3 q = (if q < unat bs then Some (d ! q) else None)"
proof -
  obtain buf2 buf3 where f: "Skip 0 buf = Ret buf2" "CanMerge 0 buf2" "MergeData now d buf2 = Ret buf3"
      "home bs f i buf3" "buf_elm buf3 = buf_elm buf" "buf_tail buf3 = unat (0 :: u32) + length d"
      "\<And>p. buf_byte buf3 p = (if unat (0 :: u32) \<le> p \<and> p < unat (0 :: u32) + length d then Some (d ! (p - unat (0 :: u32))) else None)"
    by (rule fill_ok [OF home empty, of 0 d now]) (use len in auto)
  have "buf_byte buf3 0 \<noteq> None" using f(7) [of 0] bs len by simp
  then have off: "buf_Offset buf3 = 0" by (simp add: buf_byte_def word_unat_eq_iff split: if_splits)
  then have "buf_Len buf3 = bs" using f(6) len by (simp add: buf_tail_def word_unat_eq_iff)
  then show thesis using that [OF f(1-5) off] f(7) len by simp
qed

lemma rc_inv_attach:
  assumes inv: "rc_inv bs {(f, i)} c" and none: "attached c f i = None" and nq: "(f, i) \<notin> rblocks c"
    and pool: "pool_inv bs c'" and att: "attached c' = (attached c)(f := (attached c f)(i \<mapsto> b))"
    and more: "CacheCore.more c' = CacheCore.more c" and locks: "locks c' = locks c" and files: "rc_files bs c'"
    and heap: "length (cc_heap c') = length (cc_heap c)" "\<And>x. x \<noteq> b \<Longrightarrow> cc_heap c' ! x = cc_heap c ! x"
    and b: "\<And>f i. attached c f i \<noteq> Some b" "buf_Offset (cc_heap c' ! b) = 0" "buf_Len (cc_heap c' ! b) = bs"
    and free: "set (cc_FreeList c) \<subseteq> insert b (set (cc_FreeList c'))"
  shows "rc_inv bs {(f, i)} c'"
proof -
  note m = rmore_same [OF more]
  have "buf_Offset (cc_heap c' ! x) = 0 \<and> buf_Len (cc_heap c' ! x) = bs" if "attached c' g j = Some x" for g j x
  proof (cases "x = b")
    case False
    then have "attached c g j = Some x" using that att by (auto split: if_splits)
    then show ?thesis using inv heap(2) [OF False] by (auto simp: rc_inv_def rc_bufs_def)
  qed (use b in simp)
  then have "rc_bufs bs c'" using inv pool by (simp add: rc_inv_def rc_bufs_def)
  moreover have "rc_queue bs c'" using inv att m(5,6) nq by (auto simp: rc_inv_def rc_queue_def)
  moreover have "owned (attached c') = insert b (owned (attached c))" using owned_new [of "attached c" f i b] none att by simp
  then have "rc_kept c'" using inv heap(1) free by (auto simp: rc_inv_def rc_kept_def)
  ultimately show ?thesis using inv locks m(6) files by (simp add: rc_inv_def rc_locks_def)
qed

lemma rc_new_buffer_ok:
  assumes inv: "rc_inv bs {(fe_Id fe, i)} c" and nq: "(fe_Id fe, i) \<notin> rblocks c"
    and none: "attached c (fe_Id fe) i = None" and fe: "fe_BlockSize fe = bs" and free: "cc_FreeList c = b # rest"
    and len: "length d = unat bs" and fb: "map_of (cc_Cache c) (fe_Id fe) = Some fb"
  obtains c1 c2 c3 c4 c5 buf2 where "AllocBuffer fe i c = Ret (Some b, c1)" and "on_buf b (Skip 0) c1 = Ret c2"
    and "index_at (cc_heap c2) b = Ret buf2" and "CanMerge 0 buf2" and "on_buf b (MergeData now d) c2 = Ret c3"
    and "on_fb (fe_Id fe) (AttachBuffer i b) c3 = Ret c4" and "DoLru now b c4 = Ret c5"
    and "rc_inv bs {(fe_Id fe, i)} c5" and "attached c5 = (attached c)(fe_Id fe := (attached c (fe_Id fe))(i \<mapsto> b))"
    and "cbyte c5 = (cbyte c)(fe_Id fe := (cbyte c (fe_Id fe))(i := (\<lambda>q. if q < unat bs then Some (d ! q) else None)))"
    and "CacheCore.more c5 = CacheCore.more c" and "windows c5 = windows c"
proof -
  let ?f = "fe_Id fe"
  note pool = rc_invD(1) [OF inv] and bs = rc_invD(2) [OF inv]
  obtain buf where al: "AllocBuffer fe i c = Ret (Some b, c\<lparr>cc_FreeList := rest, cc_heap := (cc_heap c)[b := buf]\<rparr>)"
      "pool_inv bs (c\<lparr>cc_FreeList := rest, cc_heap := (cc_heap c)[b := buf]\<rparr>)"
    and buf: "home bs ?f i buf" "buf_Offset buf = 0" "buf_Len buf = 0" "\<not> buf_elm buf"
    and b: "b < length (cc_heap c)" "b \<notin> set rest" "\<And>f j. attached c f j \<noteq> Some b"
    by (rule AllocBuffer_ok [OF pool fe free, of i]) blast
  obtain buf2 buf3 where f: "Skip 0 buf = Ret buf2" "CanMerge 0 buf2" "MergeData now d buf2 = Ret buf3"
      "home bs ?f i buf3" "buf_elm buf3 = buf_elm buf" "buf_Offset buf3 = 0" "buf_Len buf3 = bs"
      "\<And>q. buf_byte buf3 q = (if q < unat bs then Some (d ! q) else None)"
    by (rule fill_whole [OF buf(1-3) bs len, of now]) blast
  define c3 where "c3 = c\<lparr>cc_FreeList := rest, cc_heap := (cc_heap c)[b := buf3]\<rparr>"
  have "length (buf_dataBuf buf3) < 2 ^ 32" using f(4) by (simp add: home_def buf_wf_def)
  then have c3: "pool_inv bs c3" "cbyte c3 = cbyte c" "attached c3 = attached c" "locks c3 = locks c"
    using pool_inv_buf [OF al(2), of b buf3] cbyte_buf_unattached [of b "c\<lparr>cc_FreeList := rest\<rparr>" buf3] f(4,5) b
    by (simp_all add: c3_def)
  have "map_of (cc_Cache c3) ?f = Some fb" "attached c3 ?f i = None" "b < length (cc_heap c3)" "b \<notin> set (cc_FreeList c3)"
      "home bs ?f i (cc_heap c3 ! b)"
    using none b f fb by (simp_all add: c3) (simp_all add: c3_def)
  then obtain c4 where c4: "on_fb ?f (AttachBuffer i b) c3 = Ret c4" "pool_inv bs c4"
      "attached c4 = (attached c3)(?f := (attached c3 ?f)(i \<mapsto> b))"
      "cbyte c4 = (cbyte c3)(?f := (cbyte c3 ?f)(i := buf_byte (cc_heap c3 ! b)))"
      "cc_heap c4 = cc_heap c3" "cc_FreeList c4 = cc_FreeList c3" "CacheCore.more c4 = CacheCore.more c3" "locks c4 = locks c3"
    using attach_ok [OF c3(1)] by metis
  have cache4: "cc_Cache c4 = AList.update ?f (fb\<lparr>BufferMap := AList.update i b (BufferMap fb)\<rparr>) (cc_Cache c)"
    using c4(1) fb by (auto simp: on_fb_def AttachBuffer_def c3_def go_simps Assert_def split: if_splits)
  obtain c5 where c5: "DoLru now b c4 = Ret c5" "pool_inv bs c5" "same_view c4 c5" "cc_FreeList c5 = cc_FreeList c4"
      "CacheCore.more c5 = CacheCore.more c4"
    by (rule DoLru_ok [OF c4(2), of b now]) (use b c4(5,6) in \<open>auto simp: c3_def\<close>)
  note sv = same_viewD [OF c5(3)]
  have heap5: "cc_heap c5 ! x = cc_heap c4 ! x" if "x \<noteq> b" for x
    using c5(1) that by (auto simp: DoLru_def Let_def go_simps index_at_def split: if_splits)
  have "buf_Offset (cc_heap c5 ! b) = buf_Offset (cc_heap c4 ! b) \<and> buf_Len (cc_heap c5 ! b) = buf_Len (cc_heap c4 ! b)"
    using c5(1) b c4(5) by (auto simp: DoLru_def Let_def go_simps index_at_def c3_def split: if_splits)
  then have b5: "buf_Offset (cc_heap c5 ! b) = 0" "buf_Len (cc_heap c5 ! b) = bs" using c4(5) b f(6,7) by (simp_all add: c3_def)
  have more: "CacheCore.more c5 = CacheCore.more c" using c5(5) c4(7) by (simp add: c3_def)
  have att: "attached c5 = (attached c)(?f := (attached c ?f)(i \<mapsto> b))" using sv(2) c4(3) c3(3) by simp
  have "rc_files bs c5" using inv fb sv(4) cache4 by (auto simp: rc_inv_def rc_files_def update_conv')
  then have "rc_inv bs {(?f, i)} c5"
    using sv(3,5) c4(5,6,8) c3(4) c5(4) b(3) b5 heap5 free
    by (intro rc_inv_attach [OF inv none nq c5(2) att more]) (auto simp: c3_def)
  moreover have "buf_byte buf3 = (\<lambda>q. if q < unat bs then Some (d ! q) else None)" using f(8) by (rule ext)
  then have "cbyte c5 = (cbyte c)(?f := (cbyte c ?f)(i := (\<lambda>q. if q < unat bs then Some (d ! q) else None)))"
    using sv(1) c4(4) c3(2) b(1) by (simp add: c3_def)
  moreover have "windows c5 = windows c" using sv(4) cache4 fb by (auto simp: windows_def update_conv' fun_eq_iff)
  ultimately show thesis
    by (intro that [OF al(1) _ _ f(2) _ c4(1) c5(1) _ att _ more, of "c\<lparr>cc_FreeList := rest, cc_heap := (cc_heap c)[b := buf2]\<rparr>"])
       (use b f(1,3) in \<open>simp_all add: on_buf_def c3_def\<close>)
qed

lemma DoPrefetchRead_ok:
  assumes ok: "server_ok post pc content" and inv: "rc_inv bs {op_block bop} c" and nq: "op_block bop \<notin> rblocks c"
    and fresh: "fresh_op bs bop" and none: "attached c (fe_Id (op_fe bop)) (op_Index bop) = None"
  shows "okG False (DoPrefetchRead post pc now (fe_Id (op_fe bop)) bop c s) (\<lambda>(err, c', s').
     rc_inv bs {op_block bop} c' \<and> CacheCore.more c' = CacheCore.more c \<and> content s' = content s \<and> windows c' = windows c \<and>
     (\<forall>f i. (f, i) \<noteq> op_block bop \<longrightarrow> attached c' f i = attached c f i \<and> cbyte c' f i = cbyte c f i) \<and>
     (\<forall>q x. cbyte c' (fe_Id (op_fe bop)) (op_Index bop) q = Some x \<longrightarrow>
        x = zbyte (content s (fe_Id (op_fe bop))) (unat (op_Index bop) * unat bs + q)))"
proof -
  let ?f = "fe_Id (op_fe bop)" and ?i = "op_Index bop" and ?d = "op_rwBuf bop"
  have blk: "op_block bop = (?f, ?i)" by (simp add: op_block_def)
  note bs = rc_invD(2) [OF inv] and sel = fresh_sel [OF fresh] and pool = rc_invD(1) [OF inv]
  note bop = fresh_bop_ok [OF bs fresh]
  obtain fb where fb: "map_of (cc_Cache c) ?f = Some fb"
    using locked_file [of c ?f ?i] rc_invD(4) [OF inv, of ?f ?i] by (auto simp: blk)
  obtain s' buf n err where rd: "Reader_Read post pc s ?f ?d (Op_GetFileOffset bop) = (s', buf, n, err)"
    by (metis prod_cases4)
  have "length ?d < 2 ^ 32" using sel(3) unat_u32_bound [of bs] by simp
  note r = Reader_Read_ok [OF ok rd this, unfolded unat_Op_GetFileOffset [OF bop]]
  have pos: "op_pos bs bop = unat ?i * unat bs" using sel(1) by (simp add: op_pos_def)
  show ?thesis
  proof (cases "err \<noteq> None \<or> n = 0 \<or> cc_FreeList c = []")
    case True
    have "n \<ge> 0" if "err = None" using r(3) [OF that] by simp
    then show ?thesis
      using True inv r(1) none cbyte_None [OF none] rd
      by (auto simp: DoPrefetchRead_def DirectRead_def AllocBuffer_empty blk)
  next
    case False
    then obtain b rest where free: "cc_FreeList c = b # rest" and e: "err = None" "n \<noteq> 0" by (cases "cc_FreeList c") auto
    have n: "n > 0" using r(3) [OF e(1)] e(2) by auto
    have byte: "buf ! k = zbyte (content s ?f) (unat ?i * unat bs + k)" if "k < unat bs" for k
    proof -
      have "?d ! k = 0" "k < length ?d" using sel(3) that by simp_all
      then show ?thesis using r(3) [OF e(1)] nth_copy_at [of 0 ?d k] pos by (auto simp: zbyte_def)
    qed
    have len: "length buf = unat bs" using r(2) sel(3) by simp
    obtain c1 c2 c3 c4 c5 buf2 where run: "AllocBuffer (op_fe bop) ?i c = Ret (Some b, c1)" "on_buf b (Skip 0) c1 = Ret c2"
        "index_at (cc_heap c2) b = Ret buf2" "CanMerge 0 buf2" "on_buf b (MergeData now buf) c2 = Ret c3"
        "on_fb ?f (AttachBuffer ?i b) c3 = Ret c4" "DoLru now b c4 = Ret c5"
      and c5: "rc_inv bs {(?f, ?i)} c5" "attached c5 = (attached c)(?f := (attached c ?f)(?i \<mapsto> b))"
        "cbyte c5 = (cbyte c)(?f := (cbyte c ?f)(?i := (\<lambda>q. if q < unat bs then Some (buf ! q) else None)))"
        "CacheCore.more c5 = CacheCore.more c" "windows c5 = windows c"
      by (rule rc_new_buffer_ok [OF inv [unfolded blk] nq [unfolded blk] none sel(5) free len fb, of now]) blast
    have "DoPrefetchRead post pc now ?f bop c s = Ret (None, c5, s')"
      using rd e n run sel(1) by (simp add: DoPrefetchRead_def DirectRead_def)
    then show ?thesis using c5 byte r(1) by (auto simp: blk split: if_splits)
  qed
qed

text \<open>One round of the prefetch goroutine always ends: the block is unlocked, and what it caches is coherent.\<close>

fun prefetch_post :: "u32 \<Rightarrow> ('s \<Rightarrow> contents) \<Rightarrow> RCache \<Rightarrow> 's \<Rightarrow> bool \<times> RCache \<times> 's \<Rightarrow> bool" where
  "prefetch_post bs content c s (cont, c', s') \<longleftrightarrow>
     cont \<and> rc_inv bs {} c' \<and> content s' = content s \<and> rqueue c' = tl (rqueue c) \<and> windows c' = windows c \<and>
     rc_chClosed c' = rc_chClosed c \<and> rc_PrefetchTimes c' = rc_PrefetchTimes c \<and>
     (\<forall>f. coherent bs (content s) c f \<longrightarrow> coherent bs (content s) c' f)"

lemma PrefetchRead_round_ok:
  assumes ok: "server_ok post pc content" and inv: "rc_inv bs {} c" and q: "rqueue c \<noteq> []"
  shows "okG False (PrefetchRead_round post pc now c s) (prefetch_post bs content c s)"
proof -
  obtain bop q' where q': "rc_chPrefetch c = Some (bop # q')"
    using q by (cases "rc_chPrefetch c"; cases "rqueue c") (auto simp: rqueue_def)
  let ?c = "c\<lparr>rc_chPrefetch := Some q'\<rparr>" and ?f = "fe_Id (op_fe bop)" and ?i = "op_Index bop"
  note rv = rreceive_ok [OF inv q']
  have blk: "op_block bop = (?f, ?i)" by (simp add: op_block_def)
  obtain fb where fb: "map_of (cc_Cache ?c) ?f = Some fb"
    using locked_file [of ?c ?f ?i] rc_invD(4) [OF rv(1), of ?f ?i] by (auto simp: blk)
  then have g: "GetFileBuffer (op_fe bop) False ?c = (Some ?f, ?c)" by (simp add: GetFileBuffer_def)
  have l: "okG False (DoPrefetchRead post pc now ?f bop ?c s) (\<lambda>(err, c', s').
     rc_inv bs {op_block bop} c' \<and> CacheCore.more c' = CacheCore.more ?c \<and> content s' = content s \<and> windows c' = windows ?c \<and>
     (\<forall>f i. (f, i) \<noteq> op_block bop \<longrightarrow> attached c' f i = attached ?c f i \<and> cbyte c' f i = cbyte ?c f i) \<and>
     (\<forall>q x. cbyte c' ?f ?i q = Some x \<longrightarrow> x = zbyte (content s ?f) (unat ?i * unat bs + q)))"
    by (rule DoPrefetchRead_ok [OF ok rv(1-4)])
  have "okG False (bindG (DoPrefetchRead post pc now ?f bop ?c s) (\<lambda>(err, cache2, s').
      bindG (on_fb ?f (UnLockBuffer ?i) cache2) (\<lambda>cache3. Ret (True, cache3, s')))) (prefetch_post bs content c s)"
  proof (rule okG_bind [OF l], goal_cases)
    case (1 x)
    obtain err c2 s2 where x: "x = (err, c2, s2)" by (metis prod.collapse)
    note p = 1 [unfolded x blk prod.case]
    have c2: "rc_inv bs {(?f, ?i)} c2" "CacheCore.more c2 = CacheCore.more ?c" "content s2 = content s"
        "windows c2 = windows ?c"
      by (rule p [THEN conjunct1], rule p [THEN conjunct2, THEN conjunct1], rule p [THEN conjunct2, THEN conjunct2, THEN conjunct1],
          rule p [THEN conjunct2, THEN conjunct2, THEN conjunct2, THEN conjunct1])
    have byte: "cbyte c2 f i = cbyte ?c f i" if "(f, i) \<noteq> (?f, ?i)" for f i
      using p [THEN conjunct2, THEN conjunct2, THEN conjunct2, THEN conjunct2, THEN conjunct1] that by blast
    have new: "y = zbyte (content s ?f) (unat ?i * unat bs + q)" if "cbyte c2 ?f ?i q = Some y" for q y
      using p [THEN conjunct2, THEN conjunct2, THEN conjunct2, THEN conjunct2, THEN conjunct2] that by blast
    note m2 = rmore_same [OF c2(2)]
    obtain c3 fb2 fb3 where c3: "on_fb ?f (UnLockBuffer ?i) c2 = Ret c3" "rc_inv bs {} c3" "cbyte c3 = cbyte c2"
        "CacheCore.more c3 = CacheCore.more c2" "map_of (cc_Cache c3) = (map_of (cc_Cache c2))(?f \<mapsto> fb3)"
        "map_of (cc_Cache c2) ?f = Some fb2" "fb_pw fb3 = fb_pw fb2"
      by (rule runlock_ok [OF c2(1)]) (use rv(2) m2(6) blk in auto)
    note m3 = rmore_same [OF c3(4)]
    have "coherent bs (content s) c3 g" if co: "coherent bs (content s) c g" for g
      unfolding coherent_def
    proof (intro allI impI)
      fix j q y assume "cbyte c3 g j q = Some y"
      then have y: "cbyte c2 g j q = Some y" using c3(3) by simp
      show "y = zbyte (content s g) (unat j * unat bs + q)"
      proof (cases "(g, j) = (?f, ?i)")
        case True
        then show ?thesis using new y by simp
      next
        case False
        then have "cbyte c g j q = Some y" using byte [OF False] rv(6) y by simp
        then show ?thesis using co by (simp add: coherent_def)
      qed
    qed
    moreover have "rqueue c3 = tl (rqueue c)" "rc_chClosed c3 = rc_chClosed c" "rc_PrefetchTimes c3 = rc_PrefetchTimes c"
      using m3(3-5) m2(3-5) rv(7) q' by (simp_all add: rqueue_def)
    moreover have "windows c3 = windows c"
      using windows_upd [OF c3(5-7)] c2(4) by (simp add: windows_def fun_eq_iff)
    ultimately show ?case using x c3(1,2) c2(3) by simp
  qed
  then show ?thesis using q' g by (simp add: PrefetchRead_round_def)
qed

section \<open>Starting prefetches\<close>

definition kept_bufs :: "u32 \<Rightarrow> RCache \<Rightarrow> RCache \<Rightarrow> bool" where
  "kept_bufs bs c c' \<longleftrightarrow>
     rc_inv bs {} c' \<and> attached c' = attached c \<and> cbyte c' = cbyte c \<and>
     rc_chClosed c' = rc_chClosed c \<and> rc_PrefetchTimes c' = rc_PrefetchTimes c \<and>
     (rc_chPrefetch c' = None) = (rc_chPrefetch c = None) \<and>
     (\<forall>f. (map_of (cc_Cache c') f = None) = (map_of (cc_Cache c) f = None))"

definition pushed :: "u32 \<Rightarrow> RCache \<Rightarrow> RCache \<Rightarrow> bool" where
  "pushed bs c c' \<longleftrightarrow> kept_bufs bs c c' \<and> windows c' = windows c"

lemma kept_bufs_trans: "kept_bufs bs a b \<Longrightarrow> kept_bufs bs b c \<Longrightarrow> kept_bufs bs a c"
  by (simp add: kept_bufs_def)

lemma pushed_trans: "pushed bs a b \<Longrightarrow> pushed bs b c \<Longrightarrow> pushed bs a c"
  using kept_bufs_trans by (auto simp: pushed_def)

lemma rc_inv_send:
  assumes inv: "rc_inv bs {op_block bop} c" and nq: "op_block bop \<notin> rblocks c" and fresh: "fresh_op bs bop"
    and none: "attached c (fe_Id (op_fe bop)) (op_Index bop) = None" and q: "rc_chPrefetch c = Some q"
  defines "c1 \<equiv> c\<lparr>rc_chPrefetch := Some (q @ [bop])\<rparr>"
  shows "rc_inv bs {} c1" "attached c1 = attached c" "cbyte c1 = cbyte c"
proof -
  show eqs: "attached c1 = attached c" by (simp add: c1_def attached_def fun_eq_iff)
  have l: "locks c1 = locks c" by (simp add: c1_def locks_def fun_eq_iff)
  have qs: "rqueue c = q" "rqueue c1 = q @ [bop]" using q by (simp_all add: rqueue_def c1_def)
  have fr: "cc_heap c1 = cc_heap c" "cc_FreeList c1 = cc_FreeList c" "cc_LruList c1 = cc_LruList c" "cc_Cache c1 = cc_Cache c"
    by (simp_all add: c1_def)
  show "cbyte c1 = cbyte c" by (rule pool_inv_cong(2) [OF fr(2,3,1) eqs])
  have pool: "pool_inv bs c1" using rc_invD(1) [OF inv] pool_inv_cong(1) [OF fr(2,3,1) eqs] by simp
  have rb: "rblocks c1 = insert (op_block bop) (rblocks c)" by (auto simp: rblocks_def qs)
  have "rc_locks {} c1" using inv l rb by (simp add: rc_inv_def rc_locks_def)
  moreover have "rc_queue bs c1"
    using inv nq fresh none rb eqs by (auto simp: rc_inv_def rc_queue_def qs rblocks_def op_block_def)
  ultimately show "rc_inv bs {} c1"
    using inv pool eqs fr by (simp add: rc_inv_def rc_bufs_def rc_kept_def rc_files_def)
qed

lemma push_prefetch_ok:
  assumes inv: "rc_inv bs {} c" and fb: "map_of (cc_Cache c) f \<noteq> None" and ch: "rc_chPrefetch c \<noteq> None" "\<not> rc_chClosed c"
    and blk: "unat i * unat bs + unat bs < 2 ^ 64"
  shows "okG True (push_prefetch f i c) (pushed bs c)"
proof (cases "(f, i) \<in> rblocks c")
  case True
  then show ?thesis
    using rlock_blocked' [OF inv, of f i] fb by (auto simp: push_prefetch_def the_fb_def Let_def prefetch_op_def)
next
  case nq: False
  obtain fb0 where fb0: "map_of (cc_Cache c) f = Some fb0" using fb by blast
  let ?bop = "prefetch_op (fb_fe fb0) i"
  have fe: "fe_Id (fb_fe fb0) = f" "fe_BlockSize (fb_fe fb0) = bs" using rc_invD(6) [OF inv fb0] by auto
  have sel: "op_Index ?bop = i" "op_block ?bop = (f, i)" "fresh_op bs ?bop" "fe_Id (op_fe ?bop) = f"
    using fe blk by (simp_all add: prefetch_op_def op_block_def fresh_op_def)
  obtain c1 fb1 where c1: "on_fb f (LockBuffer i) c = Ret c1" "rc_inv bs {(f, i)} c1"
      "attached c1 = attached c" "cbyte c1 = cbyte c" "CacheCore.more c1 = CacheCore.more c"
      "map_of (cc_Cache c1) = (map_of (cc_Cache c))(f \<mapsto> fb1)" "BufferMap fb1 = BufferMap fb0" "fb_pw fb1 = fb_pw fb0"
    by (rule rlock_ok [OF inv fb0 nq]) blast
  note m = rmore_same [OF c1(5)] and w1 = windows_upd [OF c1(6) fb0 c1(8)]
  have run: "push_prefetch f i c = (if attached c f i \<noteq> None then on_fb f (UnLockBuffer i) c1 else chPrefetch_send ?bop c1)"
    using fb0 c1(1,6,7) sel(1) by (simp add: push_prefetch_def the_fb_def Let_def GetBuffer_def attached_def)
  show ?thesis
  proof (cases "attached c f i")
    case None
    obtain q where q: "rc_chPrefetch c1 = Some q" using ch(1) m(1) by auto
    have "rc_inv bs {op_block ?bop} c1" "op_block ?bop \<notin> rblocks c1" "attached c1 (fe_Id (op_fe ?bop)) (op_Index ?bop) = None"
      using c1(2,3) sel nq m(6) None by simp_all
    note s = rc_inv_send [OF this(1,2) sel(3) this(3) q]
    moreover have "windows (c1\<lparr>rc_chPrefetch := x\<rparr>) = windows c" for x using w1 by (simp add: windows_def fun_eq_iff)
    ultimately show ?thesis
      using run None q m ch c1(3,4,6) fb0 by (auto simp: chPrefetch_send_def pushed_def kept_bufs_def)
  next
    case (Some b)
    obtain c2 fb2 fb3 where c2: "on_fb f (UnLockBuffer i) c1 = Ret c2" "rc_inv bs {} c2" "attached c2 = attached c1"
        "cbyte c2 = cbyte c1" "CacheCore.more c2 = CacheCore.more c1"
        "map_of (cc_Cache c2) = (map_of (cc_Cache c1))(f \<mapsto> fb3)" "map_of (cc_Cache c1) f = Some fb2" "fb_pw fb3 = fb_pw fb2"
      by (rule runlock_ok [OF c1(2)]) (use nq m(6) in auto)
    then show ?thesis using run Some c1(3,4,6) m rmore_same [OF c2(5)] fb0 windows_upd [OF c2(6-8)] w1
      by (auto simp: pushed_def kept_bufs_def)
  qed
qed

lemma DoPrefetch_loop_ok:
  assumes "rc_inv bs {} c" and "map_of (cc_Cache c) f \<noteq> None" and "rc_chPrefetch c \<noteq> None" "\<not> rc_chClosed c"
    and "unat z * unat bs < 2 ^ 64"
  shows "okG True (DoPrefetch_loop f a z c) (pushed bs c)"
  using assms
proof (induction f a z c rule: DoPrefetch_loop.induct)
  case (1 f a z c)
  show ?case
  proof (cases "a < z")
    case True
    have "Suc (unat a) * unat bs \<le> unat z * unat bs" using True by (intro mult_le_mono1) (simp add: word_less_nat_alt)
    then have "unat a * unat bs + unat bs < 2 ^ 64" using "1.prems"(5) by simp
    note l = push_prefetch_ok [OF "1.prems"(1-4) this]
    have "okG True (bindG (push_prefetch f a c) (DoPrefetch_loop f (a + 1) z)) (pushed bs c)"
    proof (cases "push_prefetch f a c")
      case (Ret c1)
      then have p: "pushed bs c c1" using l by simp
      have "okG True (DoPrefetch_loop f (a + 1) z c1) (pushed bs c1)"
        by (rule "1.IH" [OF True Ret]) (use p "1.prems" in \<open>auto simp: pushed_def kept_bufs_def\<close>)
      then show ?thesis using pushed_trans [OF p] Ret by (simp, elim okG_mono) auto
    qed (use l in simp_all)
    then show ?thesis using True by (subst DoPrefetch_loop.simps) simp
  next
    case False
    then show ?thesis using "1.prems"(1) by (subst DoPrefetch_loop.simps) (simp add: pushed_def kept_bufs_def)
  qed
qed


text \<open>
  The prefetch window. It is empty only before the first prefetch, and it never grows beyond what a
  32 bit size can count.
\<close>

definition win_ok :: "PrefetchWindow \<Rightarrow> bool" where
  "win_ok pw \<longleftrightarrow>
     unat (BlkStart pw) \<le> unat (BlkEnd pw) \<and> unat (BlkEnd pw) - unat (BlkStart pw) < 2 ^ 32 \<and>
     (BlkStart pw = BlkEnd pw \<longrightarrow> BlkStart pw = 0)"

definition win_size :: "PrefetchWindow \<Rightarrow> nat" where
  "win_size pw = unat (BlkEnd pw) - unat (BlkStart pw)"

definition rc_windows :: "RCache \<Rightarrow> bool" where
  "rc_windows c \<longleftrightarrow> (\<forall>f pw. windows c f = Some pw \<longrightarrow> win_ok pw)"

lemma pw_Size_ok:
  assumes "unat (BlkStart pw) \<le> unat (BlkEnd pw)" and "win_size pw < 2 ^ 32"
  shows "pw_Size pw = Ret (of_nat (win_size pw))" "(of_nat (win_size pw) :: u32) = 0 \<longleftrightarrow> win_size pw = 0"
proof -
  have "BlkStart pw \<le> BlkEnd pw" using assms(1) by (simp add: word_le_nat_alt)
  then have "unat (BlkEnd pw - BlkStart pw) = win_size pw" by (simp add: unat_sub win_size_def)
  then have "(ucast (BlkEnd pw - BlkStart pw) :: u32) = of_nat (win_size pw)" by (metis of_nat_unat)
  then show "pw_Size pw = Ret (of_nat (win_size pw))" using \<open>BlkStart pw \<le> BlkEnd pw\<close> by (simp add: pw_Size_def)
  show "(of_nat (win_size pw) :: u32) = 0 \<longleftrightarrow> win_size pw = 0"
    using assms(2) by (simp add: word_unat_eq_iff unat_of_nat_u32)
qed

lemma blocks_bound:
  assumes "0 < (B :: nat)"
  shows "(x + n + B - 1) div B < x div B + n div B + 3"
proof -
  have "x = x div B * B + x mod B" "n = n div B * B + n mod B" "x mod B < B" "n mod B < B" using assms by simp_all
  moreover have "(x div B + n div B + 3) * B = x div B * B + n div B * B + 3 * B" by (simp add: add_mult_distrib)
  ultimately have "x + n + B - 1 < (x div B + n div B + 3) * B" using assms by linarith
  then show ?thesis by (rule less_mult_imp_div_less)
qed

lemma blocks_fit:
  assumes "0 < (B :: nat)" and "n + B \<le> M"
  shows "(x + n + B - 1) div B - x div B < M"
proof (rule ccontr)
  let ?k = "(x + n + B - 1) div B - x div B"
  assume "\<not> ?k < M"
  then have "M * B \<le> ?k * B" by simp
  also have "\<dots> = (x + n + B - 1) div B * B - x div B * B" by (rule diff_mult_distrib)
  also have "\<dots> \<le> n + 2 * B - 2"
  proof -
    have "(x + n + B - 1) div B * B \<le> x + n + B - 1" by simp
    moreover have "x = x div B * B + x mod B" "x mod B < B" using assms(1) by simp_all
    ultimately show ?thesis by linarith
  qed
  also have "\<dots> \<le> M + B - 2" using assms(2) by simp
  finally have "M * B \<le> M + B - 2" .
  moreover have "(M - 1) * 1 \<le> (M - 1) * B" using assms(1) by (intro mult_le_mono) auto
  then have "M - 1 \<le> M * B - B" by (simp add: diff_mult_distrib)
  moreover have "1 * B \<le> M * B" using assms by (intro mult_le_mono1) simp
  ultimately show False using assms by linarith
qed

lemma blocks_far: "z \<le> k + m \<Longrightarrow> k * B < x + B \<Longrightarrow> x + (m + 1) * B < N \<Longrightarrow> z * B < (N :: nat)"
proof -
  assume "z \<le> k + m" and *: "k * B < x + B" "x + (m + 1) * B < N"
  then have "z * B \<le> (k + m) * B" by (intro mult_le_mono1)
  then have "z * B \<le> k * B + m * B" by (simp add: add_mult_distrib)
  moreover have "(m + 1) * B = m * B + B" by simp
  ultimately show ?thesis using * by linarith
qed

text \<open>The window of a read request.\<close>

lemma GetReadWindow_ok:
  assumes B: "0 < unat (fe_BlockSize fe)" and n: "0 < unat n"
    and fits: "unat offset + unat n + unat (fe_BlockSize fe) < 2 ^ 64"
  obtains rw where "GetReadWindow fe n offset = Ret rw" and "unat (BlkStart rw) = unat offset div unat (fe_BlockSize fe)"
    and "unat (BlkStart rw) < unat (BlkEnd rw)"
    and "unat (BlkEnd rw) * unat (fe_BlockSize fe) < unat offset + unat n + unat (fe_BlockSize fe)"
    and "win_size rw \<le> unat n div unat (fe_BlockSize fe) + 2"
    and "unat (BlkEnd rw) = (unat offset + unat n + unat (fe_BlockSize fe) - 1) div unat (fe_BlockSize fe)"
proof -
  let ?B = "unat (fe_BlockSize fe)" and ?b = "ucast (fe_BlockSize fe) :: u64"
  define rw where "rw = \<lparr> BlkStart = offset div ?b, BlkEnd = (offset + ucast n + ?b - 1) div ?b \<rparr>"
  have s: "unat (BlkStart rw) = unat offset div ?B" by (simp add: rw_def unat_div)
  have "unat (offset + ucast n + ?b - 1) = unat offset + unat n + ?B - 1"
  proof -
    have "unat (offset + ucast n + ?b) = unat offset + unat n + ?B" using fits by (simp add: unat_plus)
    moreover have "1 \<le> offset + ucast n + ?b" using calculation B by (simp add: word_le_nat_alt)
    ultimately show ?thesis by (simp add: unat_sub)
  qed
  then have e: "unat (BlkEnd rw) = (unat offset + unat n + ?B - 1) div ?B" by (simp add: rw_def unat_div)
  have "?b \<noteq> 0" using B by (simp add: word_unat_eq_iff)
  then have run: "GetReadWindow fe n offset = Ret rw" by (simp add: GetReadWindow_def rw_def Let_def)
  have "unat offset div ?B + 1 = (unat offset + ?B) div ?B" using B by (simp add: div_add_self2)
  also have "\<dots> \<le> (unat offset + unat n + ?B - 1) div ?B" using n by (intro div_le_mono) simp
  finally have lt: "unat (BlkStart rw) < unat (BlkEnd rw)" using s e by simp
  have "(unat offset + unat n + ?B - 1) div ?B * ?B \<le> unat offset + unat n + ?B - 1" by simp
  then have le: "unat (BlkEnd rw) * ?B < unat offset + unat n + ?B" unfolding e using B by linarith
  have "(unat offset + unat n + ?B - 1) div ?B < unat offset div ?B + unat n div ?B + 3" by (rule blocks_bound [OF B])
  then have "win_size rw \<le> unat n div ?B + 2" using s e by (simp add: win_size_def)
  then show thesis using that run s lt le e by blast
qed

text \<open>The two moves of the window, as numbers of blocks.\<close>

lemma pw_Move_ok:
  assumes "unat (BlkStart pw) \<le> unat (BlkEnd pw)" and "unat (BlkEnd pw) + win_size pw < 2 ^ 64"
  shows "BlkStart (pw_Move pw) = BlkEnd pw" "unat (BlkEnd (pw_Move pw)) = unat (BlkEnd pw) + win_size pw"
proof -
  have le: "BlkStart pw \<le> BlkEnd pw" using assms(1) by (simp add: word_le_nat_alt)
  show "BlkStart (pw_Move pw) = BlkEnd pw" by (simp add: pw_Move_def pw_Shift_def)
  show "unat (BlkEnd (pw_Move pw)) = unat (BlkEnd pw) + win_size pw"
  proof -
    have "BlkEnd (pw_Move pw) = BlkEnd pw + (BlkEnd pw - BlkStart pw)"
      by (cases pw) (simp add: pw_Move_def pw_Shift_def)
    moreover have "unat (BlkEnd pw - BlkStart pw) = win_size pw" using unat_sub [OF le] by (simp add: win_size_def)
    ultimately show ?thesis using assms(2) unat_plus [of "BlkEnd pw" "BlkEnd pw - BlkStart pw"] by simp
  qed
qed

lemma pw_Extend_ok:
  assumes "unat (BlkStart pw) \<le> unat (BlkEnd pw)" and "unat (BlkStart pw) + win_size pw * unat t < 2 ^ 64"
  shows "BlkStart (pw_Extend t pw) = BlkStart pw" "unat (BlkEnd (pw_Extend t pw)) = unat (BlkStart pw) + win_size pw * unat t"
proof -
  have le: "BlkStart pw \<le> BlkEnd pw" using assms(1) by (simp add: word_le_nat_alt)
  show "BlkStart (pw_Extend t pw) = BlkStart pw" by (simp add: pw_Extend_def Let_def)
  have "unat ((BlkEnd pw - BlkStart pw) * ucast t) = win_size pw * unat t"
    using assms(2) unat_sub [OF le] by (subst unat_times) (simp_all add: win_size_def)
  then show "unat (BlkEnd (pw_Extend t pw)) = unat (BlkStart pw) + win_size pw * unat t"
    using assms(2) by (simp add: pw_Extend_def Let_def unat_plus)
qed

text \<open>The requests for which the window stays inside the file offsets.\<close>

definition prefetch_ok :: "u32 \<Rightarrow> int \<Rightarrow> nat \<Rightarrow> u64 \<Rightarrow> bool" where
  "prefetch_ok bs pt n offset \<longleftrightarrow>
     0 < unat (word_of_int pt :: u32) \<and> 0 < n \<and> n < 2 ^ 32 \<and> (n div unat bs + 2) * unat (word_of_int pt :: u32) < 2 ^ 32 \<and>
     unat offset + n + (2 ^ 33 + 1) * unat bs < 2 ^ 64"

text \<open>Setting a new window for the file and starting its prefetches.\<close>

lemma set_window_ok:
  assumes inv: "rc_inv bs {} c" and fb: "map_of (cc_Cache c) f = Some fb" and ch: "rc_chPrefetch c \<noteq> None" "\<not> rc_chClosed c"
    and win: "rc_windows c" "win_ok pw" and z: "unat (BlkEnd pw) * unat bs < 2 ^ 64"
  shows "okG True (bindG (on_fb f (\<lambda>fb. Ret (fb\<lparr>fb_pw := pw\<rparr>)) c) (DoPrefetch_loop f (BlkStart pw) (BlkEnd pw)))
     (\<lambda>c'. kept_bufs bs c c' \<and> rc_windows c')"
proof -
  let ?fb = "fb\<lparr>fb_pw := pw\<rparr>"
  define c1 where "c1 = c\<lparr>cc_Cache := AList.update f ?fb (cc_Cache c)\<rparr>"
  have run: "on_fb f (\<lambda>fb. Ret (fb\<lparr>fb_pw := pw\<rparr>)) c = Ret c1" using fb by (simp add: on_fb_def c1_def)
  note b = fb_same_bufs [OF fb, of ?fb, folded c1_def]
  have m: "CacheCore.more c1 = CacheCore.more c" by (simp add: c1_def)
  have l: "locks c1 = locks c" using fb by (auto simp: c1_def locks_update fun_eq_iff) (simp add: locks_def)
  have "rc_locks {} c1" using inv l rmore_same(6) [OF m] by (simp add: rc_inv_def rc_locks_def)
  moreover have "rc_files bs c1" using inv fb by (auto simp: rc_inv_def rc_files_def c1_def update_conv')
  ultimately have inv1: "rc_inv bs {} c1"
    using rc_invD(1) [OF inv] b by (intro rc_inv_step [OF inv _ m]) (simp_all add: c1_def)
  have k1: "kept_bufs bs c c1" using inv1 b rmore_same [OF m] fb by (auto simp: kept_bufs_def) (auto simp: c1_def update_conv' split: if_splits)
  have w1: "rc_windows c1" using win fb by (auto simp: rc_windows_def windows_def c1_def update_conv' split: if_splits)
  have "okG True (DoPrefetch_loop f (BlkStart pw) (BlkEnd pw) c1) (pushed bs c1)"
    by (rule DoPrefetch_loop_ok [OF inv1 _ _ _ z]) (use k1 ch fb in \<open>auto simp: kept_bufs_def\<close>)
  then have "okG True (DoPrefetch_loop f (BlkStart pw) (BlkEnd pw) c1) (\<lambda>c'. kept_bufs bs c c' \<and> rc_windows c')"
    using kept_bufs_trans [OF k1] w1 by (elim okG_mono) (auto simp: pushed_def rc_windows_def)
  then show ?thesis using run by simp
qed

lemma DoPrefetch_ok:
  assumes inv: "rc_inv bs {} c" and fb: "map_of (cc_Cache c) f = Some fb" and ch: "rc_chPrefetch c \<noteq> None" "\<not> rc_chClosed c"
    and win: "rc_windows c" and pf: "prefetch_ok bs (rc_PrefetchTimes c) (unat n) offset"
  shows "okG True (DoPrefetch f n offset c) (\<lambda>c'. kept_bufs bs c c' \<and> rc_windows c')"
proof -
  let ?pw = "fb_pw fb" and ?t = "word_of_int (rc_PrefetchTimes c) :: u32" and ?B = "unat bs"
  have bs: "0 < ?B" "fe_BlockSize (fb_fe fb) = bs" using rc_invD(2,6) [OF inv] fb by auto
  have p: "0 < unat ?t" "0 < unat n" "(unat n div ?B + 2) * unat ?t < 2 ^ 32" "unat offset + unat n + (2 ^ 33 + 1) * ?B < 2 ^ 64"
    using pf by (auto simp: prefetch_ok_def)
  obtain rw where rw: "GetReadWindow (fb_fe fb) n offset = Ret rw" "unat (BlkStart rw) < unat (BlkEnd rw)"
      "unat (BlkEnd rw) * ?B < unat offset + unat n + ?B" "win_size rw \<le> unat n div ?B + 2"
  proof (rule GetReadWindow_ok [of "fb_fe fb" n offset, unfolded bs(2), OF bs(1) p(2)], goal_cases)
    case 1
    have "?B \<le> (2 ^ 33 + 1) * ?B" by simp
    then show ?case using p(4) by linarith
  qed (rule that)
  have rt: "win_size rw * unat ?t < 2 ^ 32" using mult_le_mono1 [OF rw(4), of "unat ?t"] p(3) by simp
  then have "win_size rw < 2 ^ 32" using p(1) by (cases "unat ?t") auto
  note rsz = pw_Size_ok [OF less_imp_le [OF rw(2)] this]
  have rpos: "(of_nat (win_size rw) :: u32) > 0" using rsz(2) rw(2) by (simp add: win_size_def word_gt_0)
  have wok: "win_ok ?pw" using win fb by (auto simp: rc_windows_def windows_def)
  then have wsz: "unat (BlkStart ?pw) \<le> unat (BlkEnd ?pw)" "win_size ?pw < 2 ^ 32" by (auto simp: win_ok_def win_size_def)
  note psz = pw_Size_ok [OF wsz]
  have far: "z * ?B < 2 ^ 64" if "z \<le> unat (BlkEnd rw) + 2 ^ 33" for z
    by (rule blocks_far [OF that rw(3) p(4)])
  then have far64: "z < 2 ^ 64" if "z \<le> unat (BlkEnd rw) + 2 ^ 33" for z
  proof -
    have "z \<le> z * ?B" using bs(1) by simp
    then show ?thesis using far [OF that] by linarith
  qed
  note set_win = set_window_ok [OF inv fb ch win]
  consider (start) "BlkStart rw = 0" "win_size ?pw = 0" | (cross) "\<not> (BlkStart rw = 0 \<and> win_size ?pw = 0)" "pw_Cross rw ?pw"
    | (idle) "\<not> (BlkStart rw = 0 \<and> win_size ?pw = 0)" "\<not> pw_Cross rw ?pw" by metis
  then show ?thesis
  proof cases
    case start
    let ?m = "pw_Move rw" and ?k = "unat (BlkEnd rw)"
    have k: "win_size rw = ?k" using start(1) by (simp add: win_size_def)
    have k32: "?k * unat ?t < 2 ^ 32" "?k < 2 ^ 32" "0 < ?k" using rt k \<open>win_size rw < 2 ^ 32\<close> rw(2) by auto
    have m: "BlkStart ?m = BlkEnd rw" "unat (BlkEnd ?m) = 2 * ?k"
      using pw_Move_ok [of rw] rw(2) k k32(2) by (auto simp: unat_u64_bound)
    then have ms: "win_size ?m = ?k" by (simp add: win_size_def)
    define pw where "pw = pw_Extend ?t ?m"
    have x: "unat (BlkStart pw) = ?k" "unat (BlkEnd pw) = ?k + ?k * unat ?t"
      using pw_Extend_ok [of ?m ?t] m ms k32 far64 [of "?k + ?k * unat ?t"] by (auto simp: pw_def)
    have "win_ok pw" using x k32 p(1) by (auto simp: win_ok_def)
    moreover have "unat (BlkEnd pw) * ?B < 2 ^ 64" by (rule far) (use x k32(1) in simp)
    ultimately show ?thesis
      using set_win [of pw] fb ch(1) rw(1) rsz(1) rpos psz start by (simp add: DoPrefetch_def the_fb_def Let_def pw_def)
  next
    case cross
    have c: "BlkStart ?pw < BlkEnd rw" "BlkStart rw < BlkEnd ?pw" using cross(2) by (auto simp: pw_Cross_def)
    have ne: "win_size ?pw > 0" using c wok by (auto simp: win_ok_def win_size_def word_less_nat_alt word_unat_eq_iff)
    define pw where "pw = pw_Move ?pw"
    have "unat (BlkEnd ?pw) + win_size ?pw \<le> unat (BlkEnd rw) + 2 ^ 33"
      using c(1) wsz by (simp add: win_size_def word_less_nat_alt)
    note x = pw_Move_ok [OF wsz(1) far64 [OF this], folded pw_def] and fa = far [OF this]
    have "win_ok pw" using x wsz(2) ne by (auto simp: win_ok_def)
    moreover have "unat (BlkEnd pw) * ?B < 2 ^ 64" using fa x(2) by simp
    moreover have "(of_nat (win_size ?pw) :: u32) > 0" using psz(2) ne by (simp add: word_gt_0)
    ultimately show ?thesis
      using set_win [of pw] fb ch(1) rw(1) rsz(1) rpos psz cross by (auto simp: DoPrefetch_def the_fb_def Let_def pw_def)
  next
    case idle
    then show ?thesis
      using fb ch(1) rw(1) rsz(1) rpos psz inv win by (auto simp: DoPrefetch_def the_fb_def Let_def kept_bufs_def)
  qed
qed

lemma TryDoPrefetch_ok:
  assumes inv: "rc_inv bs {} c" and fb: "map_of (cc_Cache c) f \<noteq> None" and ch: "\<not> rc_chClosed c"
    and win: "rc_windows c" and pf: "rc_chPrefetch c \<noteq> None \<Longrightarrow> prefetch_ok bs (rc_PrefetchTimes c) (unat n) offset"
  shows "okG (rc_chPrefetch c \<noteq> None) (TryDoPrefetch f n offset c) (\<lambda>c'. kept_bufs bs c c' \<and> rc_windows c')"
proof (cases "rc_chPrefetch c")
  case None
  then show ?thesis using inv win by (simp add: TryDoPrefetch_def kept_bufs_def)
next
  case (Some q)
  obtain fb0 where "map_of (cc_Cache c) f = Some fb0" using fb by blast
  then show ?thesis using Some DoPrefetch_ok [OF inv _ _ ch win pf] by (simp add: TryDoPrefetch_def)
qed

section \<open>Dropping what a write has overwritten\<close>

lemma Clean_loop_ok:
  assumes "rc_inv bs {} c" and "map_of (cc_Cache c) f \<noteq> None"
  shows "okG (\<exists>i. (f, i) \<in> rblocks c) (Clean_loop f a z c)
     (\<lambda>c'. released bs c c' \<and> (\<forall>i. a \<le> i \<and> i < z \<longrightarrow> attached c' f i = None))"
  using assms
proof (induction f a z c rule: Clean_loop.induct)
  case (1 f a z c)
  show ?case
  proof (cases "a < z")
    case True
    note l = ReleaseBuffer_ok [OF "1.prems", of a]
    have "okG (\<exists>i. (f, i) \<in> rblocks c) (bindG (ReleaseBuffer f a c) (\<lambda>(_, c1). Clean_loop f (a + 1) z c1))
        (\<lambda>c'. released bs c c' \<and> (\<forall>i. a \<le> i \<and> i < z \<longrightarrow> attached c' f i = None))"
    proof (cases "ReleaseBuffer f a c")
      case (Ret x)
      then obtain c1 where x: "x = (None, c1)" and c1: "released bs c c1" "attached c1 f a = None" using l by auto
      have "okG (\<exists>i. (f, i) \<in> rblocks c1) (Clean_loop f (a + 1) z c1)
          (\<lambda>c'. released bs c1 c' \<and> (\<forall>i. a + 1 \<le> i \<and> i < z \<longrightarrow> attached c' f i = None))"
        by (rule "1.IH" [OF True Ret x [symmetric]])
           (use c1(1) released_files [OF c1(1)] "1.prems"(2) in \<open>auto simp: released_def\<close>)
      then have "okG (\<exists>i. (f, i) \<in> rblocks c) (Clean_loop f (a + 1) z c1)
          (\<lambda>c'. released bs c c' \<and> (\<forall>i. a \<le> i \<and> i < z \<longrightarrow> attached c' f i = None))"
      proof (rule okG_mono, goal_cases)
        case (2 c')
        have "attached c' f i = None" if "a \<le> i" "i < z" for i
        proof (cases "i = a")
          case False
          then have "a + 1 \<le> i" using that unat_inc [OF True] by (simp add: word_le_nat_alt word_unat_eq_iff)
          then show ?thesis using 2 that by blast
        qed (use released_attached [of bs c1 c' f a] 2 c1(2) in auto)
        then show ?case using 2 released_trans [OF c1(1)] by blast
      qed (use released_rblocks [OF c1(1)] in simp)
      then show ?thesis using Ret x by simp
    qed (use l in auto)
    then show ?thesis using True by (subst Clean_loop.simps) simp
  next
    case False
    then have "\<not> (a \<le> i \<and> i < z)" for i by (meson order.strict_trans1)
    then show ?thesis using False released_refl [OF "1.prems"(1)] by (subst Clean_loop.simps) auto
  qed
qed

lemma Clean_ok:
  assumes inv: "rc_inv bs {} c" and bs: "fe_BlockSize fe = bs" and n: "0 < n" "n + unat bs \<le> 2 ^ 32"
    and fits: "unat offset + n + unat bs < 2 ^ 64"
  shows "okG (\<exists>i. (fe_Id fe, i) \<in> rblocks c) (Clean fe (int n) offset c)
     (\<lambda>(err, c'). err = None \<and> released bs c c' \<and>
        (\<forall>i. unat i * unat bs < unat offset + n \<and> unat offset < unat i * unat bs + unat bs \<longrightarrow> attached c' (fe_Id fe) i = None))"
proof (cases "map_of (cc_Cache c) (fe_Id fe)")
  case None
  then show ?thesis using released_refl [OF inv] by (simp add: Clean_def GetFileBuffer_def attached_def)
next
  case (Some fb)
  let ?f = "fe_Id fe" and ?B = "unat bs"
  note B = rc_invD(2) [OF inv]
  have un: "unat (word_of_int (int n) :: u32) = n" using n(2) B by (simp add: unat_of_nat_u32)
  obtain rw where rw: "GetReadWindow fe (word_of_int (int n)) offset = Ret rw" "unat (BlkStart rw) = unat offset div ?B"
      "unat (BlkStart rw) < unat (BlkEnd rw)" "unat (BlkEnd rw) = (unat offset + n + ?B - 1) div ?B"
    by (rule GetReadWindow_ok [of fe "word_of_int (int n)" offset, unfolded bs un, OF B n(1) fits])
  have "win_size rw < 2 ^ 32" unfolding win_size_def rw(2,4) by (rule blocks_fit [OF B n(2)])
  note sz = pw_Size_ok [OF less_imp_le [OF rw(3)] this]
  have pos: "(of_nat (win_size rw) :: u32) > 0" using sz(2) rw(3) by (simp add: win_size_def word_gt_0)
  have "okG (\<exists>i. (?f, i) \<in> rblocks c) (bindG (Clean_loop ?f (BlkStart rw) (BlkEnd rw) c) (\<lambda>c1. Ret (None, c1)))
     (\<lambda>(err, c'). err = None \<and> released bs c c' \<and>
        (\<forall>i. unat i * ?B < unat offset + n \<and> unat offset < unat i * ?B + ?B \<longrightarrow> attached c' ?f i = None))"
  proof (rule okG_bind [OF Clean_loop_ok [OF inv]], goal_cases)
    case (2 c1)
    have "attached c1 ?f i = None" if "unat i * ?B < unat offset + n" "unat offset < unat i * ?B + ?B" for i
    proof -
      have "unat offset div ?B < unat i + 1" using that(2) by (intro less_mult_imp_div_less) simp
      then have "BlkStart rw \<le> i" using rw(2) by (simp add: word_le_nat_alt)
      moreover have "(unat i + 1) * ?B \<le> unat offset + n + ?B - 1" using that(1) B by simp
      then have "unat i + 1 \<le> (unat offset + n + ?B - 1) div ?B" using B by (simp add: less_eq_div_iff_mult_less_eq)
      then have "i < BlkEnd rw" using rw(4) by (simp add: word_less_nat_alt)
      ultimately show ?thesis using 2 by blast
    qed
    then show ?case using 2 by simp
  qed (use Some in auto)
  then show ?thesis using Some rw(1) sz(1) pos by (simp add: Clean_def GetFileBuffer_def)
qed

end
