(* ===== verification/Cfa_RSteps.thy ===== *)
theory Cfa_RSteps
  imports Cfa_RInv
begin

text \<open>
  The read cache under interleaving: the steps of its clients and of its goroutines, the invariant in
  every reachable state, progress of the prefetch goroutine, and the reads and writes of both caches
  together. The last section holds concrete runs in which the code does not do what it means to.
\<close>

section \<open>Closing\<close>

lemma rc_close_ok:
  assumes inv: "rc_inv bs {} c" and none: "\<And>i. attached c (fe_Id fe) i = None" "\<And>i. (fe_Id fe, i) \<notin> rblocks c"
  defines "c' \<equiv> DetachFileBuffer fe c"
  shows "rc_inv bs {} c'" "attached c' = attached c" "cbyte c' = cbyte c" "CacheCore.more c' = CacheCore.more c"
    "map_of (cc_Cache c') = (map_of (cc_Cache c))(fe_Id fe := None)"
proof -
  show att: "attached c' = attached c"
    using none(1) by (auto simp: c'_def DetachFileBuffer_def attached_def delete_conv' fun_eq_iff)
  show m: "CacheCore.more c' = CacheCore.more c" by (simp add: c'_def DetachFileBuffer_def)
  have fr: "cc_heap c' = cc_heap c" "cc_FreeList c' = cc_FreeList c" "cc_LruList c' = cc_LruList c"
    by (simp_all add: c'_def DetachFileBuffer_def)
  show "cbyte c' = cbyte c" by (rule pool_inv_cong(2) [OF fr(2,3,1) att])
  show cache: "map_of (cc_Cache c') = (map_of (cc_Cache c))(fe_Id fe := None)"
    by (simp add: c'_def DetachFileBuffer_def delete_conv')
  have "locks c (fe_Id fe) i = None" for i using inv none(2) by (simp add: rc_inv_def rc_locks_def)
  then have "locks c' = locks c" using cache by (auto simp: locks_def fun_eq_iff)
  then have "rc_locks {} c'" using inv rmore_same(6) [OF m] by (simp add: rc_inv_def rc_locks_def)
  moreover have "rc_files bs c'" using inv cache by (auto simp: rc_inv_def rc_files_def split: if_splits)
  ultimately show "rc_inv bs {} c'"
    using rc_invD(1) [OF inv] pool_inv_cong(1) [OF fr(2,3,1) att] fr by (intro rc_inv_step [OF inv _ m att]) simp_all
qed

lemma RCache_Close_ok:
  assumes inv: "rc_inv bs {} c"
  shows "okG (\<exists>i. (fe_Id fe, i) \<in> rblocks c) (RCache_Close fe c)
     (\<lambda>(err, c'). err = None \<and> rc_inv bs {} c' \<and> CacheCore.more c' = CacheCore.more c \<and> (rc_windows c \<longrightarrow> rc_windows c') \<and>
        (\<forall>i. attached c' (fe_Id fe) i = None) \<and> map_of (cc_Cache c') (fe_Id fe) = None)"
  unfolding RCache_Close_def
proof (rule okG_bind [OF Release_ok [OF inv]], goal_cases)
  case (1 x)
  obtain err c1 where x: "x = (err, c1)" by (cases x)
  then have c1: "err = None" "released bs c c1" "\<And>i. attached c1 (fe_Id fe) i = None" "\<And>i. (fe_Id fe, i) \<notin> rblocks c1"
    using 1 by auto
  have inv1: "rc_inv bs {} c1" and m1: "CacheCore.more c1 = CacheCore.more c" and w1: "windows c1 = windows c"
    using c1(2) by (simp_all add: released_def windows_def fun_eq_iff)
  note d = rc_close_ok [OF inv1 c1(3,4)]
  have "windows (DetachFileBuffer fe c1) g = (if g = fe_Id fe then None else windows c g)" for g
    using d(5) unfolding w1 [symmetric] by (simp add: windows_def)
  then have "rc_windows (DetachFileBuffer fe c1)" if "rc_windows c" using that by (simp add: rc_windows_def)
  then show ?case using x c1 d m1 by simp
qed

lemma NewRCache_inv:
  assumes "0 < unat bs"
  shows "rc_inv bs {} (NewRCache n e r t)" "rc_windows (NewRCache n e r t)"
proof -
  note own = NewRCache_own [OF assms]
  have q: "rqueue (NewRCache n e r t) = []" by (simp add: NewRCache_def rqueue_def)
  then have rb: "rblocks (NewRCache n e r t) = {}" by (simp add: rblocks_def)
  have "rc_kept (NewRCache n e r t)" by (auto simp: rc_kept_def NewRCache_def pool_store_def)
  moreover have "rc_files bs (NewRCache n e r t)" by (simp add: rc_files_def NewRCache_def)
  ultimately show "rc_inv bs {} (NewRCache n e r t)"
    using own q rb by (simp add: rc_inv_def rc_own_def rc_queue_def rc_locks_def)
  show "rc_windows (NewRCache n e r t)" by (simp add: rc_windows_def windows_def NewRCache_def)
qed

lemma rc_inv_GetFileBuffer:
  assumes inv: "rc_inv bs {} c" "rc_windows c" and g: "GetFileBuffer fe bAlloc c = (r, c')" and bs: "fe_BlockSize fe = bs"
  shows "rc_inv bs {} c'" "rc_windows c'"
proof -
  note g' = GetFileBuffer_ok [OF g]
  have cache: "cc_Cache c' = cc_Cache c \<or> map_of (cc_Cache c) (fe_Id fe) = None \<and>
      cc_Cache c' = AList.update (fe_Id fe) (NewFileBuffer fe) (cc_Cache c)"
    using g by (auto simp: GetFileBuffer_def split: option.splits if_splits)
  then have "locks c' = locks c" by (auto simp: locks_def fun_eq_iff update_conv' NewFileBuffer_def)
  then have "rc_locks {} c'" using inv rmore_same(6) [OF g'(7)] by (simp add: rc_inv_def rc_locks_def)
  moreover have "rc_files bs c'" using inv(1) cache bs by (auto simp: rc_inv_def rc_files_def update_conv' NewFileBuffer_def split: if_splits)
  ultimately show "rc_inv bs {} c'"
    using rc_invD(1) [OF inv(1)] g' by (intro rc_inv_step [OF inv(1) _ g'(7,1)]) simp_all
  show "rc_windows c'"
  proof -
    have "windows c' g = windows c g \<or> windows c' g = Some NewPrefetchWindow" for g
      using cache by (auto simp: windows_def update_conv' NewFileBuffer_def)
    moreover have "win_ok NewPrefetchWindow" by (simp add: win_ok_def NewPrefetchWindow_def)
    ultimately show ?thesis using inv(2) unfolding rc_windows_def by (metis option.inject)
  qed
qed

section \<open>The steps of the read cache\<close>

text \<open>
  Clients open files, start prefetches before a read, drop the blocks a write has touched, release and
  close files; the prefetch goroutine takes operations from the channel; the expiry goroutine
  releases old buffers.
\<close>

inductive rstep :: "u32 \<Rightarrow> 's poster \<Rightarrow> ProxyClient \<Rightarrow> RCache \<times> 's \<Rightarrow> RCache \<times> 's \<Rightarrow> bool"
  for bs :: u32 and post :: "'s poster" and pc :: ProxyClient where
  rs_open: "fe_BlockSize fe = bs \<Longrightarrow> GetFileBuffer fe bAlloc c = (r, c') \<Longrightarrow> rstep bs post pc (c, s) (c', s)"
| rs_prefetch: "map_of (cc_Cache c) f \<noteq> None \<Longrightarrow> \<not> rc_chClosed c \<Longrightarrow>
     (rc_chPrefetch c \<noteq> None \<Longrightarrow> prefetch_ok bs (rc_PrefetchTimes c) (unat n) offset) \<Longrightarrow>
     TryDoPrefetch f n offset c = Ret c' \<Longrightarrow> rstep bs post pc (c, s) (c', s)"
| rs_round: "PrefetchRead_round post pc now c s = Ret (cont, c', s') \<Longrightarrow> rqueue c \<noteq> [] \<Longrightarrow> rstep bs post pc (c, s) (c', s')"
| rs_expire: "RCheckExpire_round now c = Ret (again, c') \<Longrightarrow> rstep bs post pc (c, s) (c', s)"
| rs_clean: "fe_BlockSize fe = bs \<Longrightarrow> 0 < n \<Longrightarrow> n + unat bs \<le> 2 ^ 32 \<Longrightarrow> unat offset + n + unat bs < 2 ^ 64 \<Longrightarrow>
     Clean fe (int n) offset c = Ret (err, c') \<Longrightarrow> rstep bs post pc (c, s) (c', s)"
| rs_release: "Release fe c = Ret (err, c') \<Longrightarrow> rstep bs post pc (c, s) (c', s)"
| rs_close: "RCache_Close fe c = Ret (err, c') \<Longrightarrow> rstep bs post pc (c, s) (c', s)"

lemma released_inv: "released bs c c' \<Longrightarrow> rc_windows c \<Longrightarrow> rc_inv bs {} c' \<and> rc_windows c'"
  by (auto simp: released_def rc_windows_def windows_def)

lemma rstep_inv:
  assumes "rstep bs post pc x y" and "server_ok post pc content" and "rc_inv bs {} (fst x) \<and> rc_windows (fst x)"
  shows "rc_inv bs {} (fst y) \<and> rc_windows (fst y)"
  using assms
proof (induction rule: rstep.induct)
  case (rs_open fe bAlloc c r c' s)
  then show ?case using rc_inv_GetFileBuffer [of bs c fe bAlloc r c'] by simp
next
  case (rs_prefetch c f n offset c' s)
  then show ?case
    using okG_Ret [OF TryDoPrefetch_ok [of bs c f n offset] rs_prefetch(4)] by (auto simp: kept_bufs_def)
next
  case (rs_round now c s cont c' s')
  then show ?case
    using okG_Ret [OF PrefetchRead_round_ok [of post pc content bs c now s] rs_round(1)] by (simp add: rc_windows_def)
next
  case (rs_expire now c again c' s)
  then show ?case using okG_Ret [OF RCheckExpire_round_ok [of bs c now] rs_expire(1)] released_inv by auto
next
  case (rs_clean fe n offset c err c' s)
  then show ?case using okG_Ret [OF Clean_ok [of bs c fe n offset] rs_clean(5)] released_inv by auto
next
  case (rs_release fe c err c' s)
  then show ?case using okG_Ret [OF Release_ok [of bs c fe] rs_release(1)] released_inv by auto
next
  case (rs_close fe c err c' s)
  then show ?case using okG_Ret [OF RCache_Close_ok [of bs c fe] rs_close(1)] by auto
qed

interpretation read_cache: invariant_system "\<lambda>x. \<exists>n e r t s. x = (NewRCache n e r t, s)"
    "\<lambda>x y. (\<exists>content. server_ok post pc content) \<and> 0 < unat bs \<and> rstep bs post pc x y"
    "\<lambda>x. 0 < unat bs \<longrightarrow> rc_inv bs {} (fst x) \<and> rc_windows (fst x)"
  for bs :: u32 and post :: "'s poster" and pc
proof (unfold_locales, goal_cases)
  case (1 x)
  then show ?case using NewRCache_inv by auto
next
  case (2 x y)
  then show ?case using rstep_inv by blast
qed

section \<open>Properties of the read cache\<close>

text \<open>
  The read cache in every state that its clients and goroutines can reach from an empty cache,
  in any order: every buffer is free or attached to a block and holds the whole block; a block is
  locked exactly when its prefetch waits in the channel; and no call of a client or of a goroutine
  panics (a call may wait for a lock or for room in the channel).
\<close>

theorem read_cache_never_panics:
  assumes "server_ok post pc content" and "0 < unat bs"
    and "(rstep bs post pc)\<^sup>*\<^sup>* (NewRCache n e r t, s) (c, s')"
  shows "{..<length (cc_heap c)} \<subseteq> set (cc_FreeList c) \<union> owned (attached c) \<and>
    (\<forall>f i. locks c f i \<noteq> None \<longleftrightarrow> (f, i) \<in> op_block ` set (rqueue c)) \<and>
    (\<forall>f i b. attached c f i = Some b \<longrightarrow> buf_Offset (cc_heap c ! b) = 0 \<and> buf_Len (cc_heap c ! b) = bs) \<and>
    Release fe c \<noteq> Panic \<and> RCache_Close fe c \<noteq> Panic \<and> RCheckExpire_round now c \<noteq> Panic \<and>
    PrefetchRead_round post pc now c s' \<noteq> Panic"
proof -
  have mono: "rstep bs post pc \<le> (\<lambda>x y. (\<exists>content. server_ok post pc content) \<and> 0 < unat bs \<and> rstep bs post pc x y)"
    using assms(1,2) by blast
  have "rc_inv bs {} c \<and> rc_windows c"
    using read_cache.inv_reachable [OF _ rtranclp_mono [OF mono, THEN predicate2D, OF assms(3)]] assms(2) by auto
  then have inv: "rc_inv bs {} c" by blast
  have "PrefetchRead_round post pc now c s' \<noteq> Panic"
  proof (cases "rqueue c = []")
    case True
    then show ?thesis by (auto simp: PrefetchRead_round_def rqueue_def split: option.splits)
  next
    case False
    then show ?thesis using PrefetchRead_round_ok [OF assms(1) inv False, of now s'] by (cases "PrefetchRead_round post pc now c s'") auto
  qed
  moreover have "Release fe c \<noteq> Panic" using Release_ok [OF inv, of fe] by (cases "Release fe c") auto
  moreover have "RCache_Close fe c \<noteq> Panic" using RCache_Close_ok [OF inv, of fe] by (cases "RCache_Close fe c") auto
  moreover have "RCheckExpire_round now c \<noteq> Panic"
    using RCheckExpire_round_ok [OF inv, of now] by (cases "RCheckExpire_round now c") auto
  ultimately show ?thesis using inv by (auto simp: rc_inv_def rc_bufs_def rc_kept_def rc_locks_def rblocks_def)
qed

text \<open>
  C26: Progress of prefetching. As many rounds of the prefetch goroutine as operations wait in the
  channel all end, whatever the server answers; afterwards the channel is empty and no block is
  locked any more, so nobody waits for a prefetch forever.
\<close>

fun prefetch_rounds :: "nat \<Rightarrow> 's poster \<Rightarrow> ProxyClient \<Rightarrow> int \<Rightarrow> RCache \<Rightarrow> 's \<Rightarrow> (RCache \<times> 's) go" where
  "prefetch_rounds 0 post pc now c s = Ret (c, s)"
| "prefetch_rounds (Suc k) post pc now c s =
     bindG (PrefetchRead_round post pc now c s) (\<lambda>(_, c', s'). prefetch_rounds k post pc now c' s')"

lemma prefetch_rounds_ok:
  assumes ok: "server_ok post pc content"
  shows "rc_inv bs {} c \<Longrightarrow> k \<le> length (rqueue c) \<Longrightarrow>
    okG False (prefetch_rounds k post pc now c s) (\<lambda>(c', s'). rc_inv bs {} c' \<and> rqueue c' = drop k (rqueue c) \<and> content s' = content s)"
proof (induction k arbitrary: c s)
  case (Suc k)
  have q: "rqueue c \<noteq> []" using Suc.prems(2) by auto
  show ?case
    unfolding prefetch_rounds.simps
  proof (rule okG_bind [OF PrefetchRead_round_ok [OF ok Suc.prems(1) q]], goal_cases)
    case (1 x)
    obtain b c1 s1 where x: "x = (b, c1, s1)" by (metis prod.collapse)
    then have c1: "rc_inv bs {} c1" "rqueue c1 = tl (rqueue c)" "content s1 = content s" using 1 by simp_all
    then have "okG False (prefetch_rounds k post pc now c1 s1)
        (\<lambda>(c', s'). rc_inv bs {} c' \<and> rqueue c' = drop k (rqueue c1) \<and> content s' = content s1)"
      using Suc.prems(2) by (intro Suc.IH) auto
    then show ?case using x c1 by (simp add: drop_Suc)
  qed
qed simp

theorem prefetch_drains:
  assumes "server_ok post pc content" and "rc_inv bs {} c"
  shows "\<exists>c' s'. prefetch_rounds (length (rqueue c)) post pc now c s = Ret (c', s') \<and>
     rqueue c' = [] \<and> (\<forall>f i. locks c' f i = None) \<and> content s' = content s"
proof -
  obtain c' s' where r: "prefetch_rounds (length (rqueue c)) post pc now c s = Ret (c', s')" "rc_inv bs {} c'"
      "rqueue c' = []" "content s' = content s"
    using prefetch_rounds_ok [OF assms, of "length (rqueue c)" now s] by (auto simp: okG_returns)
  then have "locks c' f i = None" for f i by (simp add: rc_inv_def rc_locks_def rblocks_def)
  then show ?thesis using r by blast
qed

section \<open>Reading and writing through both caches\<close>

lemma kept_prefetched:
  assumes "kept_bufs bs c c'" and "map_of (cc_Cache c) f \<noteq> None"
  shows "prefetched bs f c c'"
  using assms rc_inv_own by (auto simp: kept_bufs_def prefetched_def)


lemma seen_stored:
  assumes bs: "0 < unat bs" and nz: "fview bs (cbyte c) ct f p \<noteq> 0"
  shows "stored bs ct c f p"
  using bs
proof (cases rule: block_cases [where p = p])
  case (blk i q)
  then show ?thesis
    using nz fview_block [OF blk(2), of "cbyte c" ct f i] by (auto simp: stored_def zbyte_def split: option.splits if_splits)
next
  case out
  then show ?thesis using nz fview_out [OF out, of "cbyte c" ct f] by (auto simp: stored_def zbyte_def split: if_splits)
qed

fun rw_write_post ::
  "u32 \<Rightarrow> ('s \<Rightarrow> contents) \<Rightarrow> RWCache \<Rightarrow> 's \<Rightarrow> u64 \<Rightarrow> nat \<Rightarrow> byte list \<Rightarrow>
   (int \<times> go_error option) \<times> RWCache \<times> 's \<Rightarrow> bool" where
  "rw_write_post bs content rwc s f off buffer ((n, err), rwc', s') \<longleftrightarrow>
     wc_inv bs {} (rw_wCache rwc') \<and> \<not> wc_chClosed (rw_wCache rwc') \<and>
     released bs (rw_rCache rwc) (rw_rCache rwc') \<and> 0 \<le> n \<and>
     write_effect f off buffer (nat n) err (wview bs content (rw_wCache rwc) s) (wview bs content (rw_wCache rwc') s') \<and>
     (\<forall>i. unat i * unat bs < off + length buffer \<and> off < unat i * unat bs + unat bs \<longrightarrow>
        attached (rw_rCache rwc') f i = None)"

lemma RWCache_Write_ok:
  assumes "server_ok post pc content" and "wc_inv bs {} (rw_wCache rwc)" and "\<not> wc_chClosed (rw_wCache rwc)"
    and "rc_inv bs {} (rw_rCache rwc)"
    and "fe_BlockSize fe = bs" and "request_ok fe (length buffer) offset" and "buffer \<noteq> []"
  shows "okG (\<not> SyncIo (rw_wCache rwc) \<or> (\<exists>i. (fe_Id fe, i) \<in> rblocks (rw_rCache rwc)))
     (RWCache_Write post pc now fe buffer offset rwc s) (rw_write_post bs content rwc s (fe_Id fe) (unat offset) buffer)"
  unfolding RWCache_Write_def
proof (rule okG_bind [where P = "write_post (SyncIo (rw_wCache rwc)) bs content (fe_Id fe) (unat offset) buffer 0
         (wview bs content (rw_wCache rwc) s)"], goal_cases)
  case 1
  show ?case by (rule okG_mono [OF WCache_Write_ok [OF assms(1-3,5-7)]]) auto
next
  case (2 x)
  obtain n err wc1 s1 where x: "x = ((n, err), wc1, s1)" by (metis prod.collapse)
  obtain k where w: "wc_inv bs {} wc1" "\<not> wc_chClosed wc1" "n = int k"
      "write_effect (fe_Id fe) (unat offset) buffer k err (wview bs content (rw_wCache rwc) s) (wview bs content wc1 s1)"
    using 2 x by auto
  have rq: "0 < length buffer" "length buffer + unat bs \<le> 2 ^ 32" "unat offset + length buffer + unat bs < 2 ^ 64"
    using assms(5-7) by (auto simp: request_ok_def)
  have "okG (\<not> SyncIo (rw_wCache rwc) \<or> (\<exists>i. (fe_Id fe, i) \<in> rblocks (rw_rCache rwc)))
      (Clean fe (int (length buffer)) offset (rw_rCache rwc)) (\<lambda>(err, c'). err = None \<and> released bs (rw_rCache rwc) c' \<and>
        (\<forall>i. unat i * unat bs < unat offset + length buffer \<and> unat offset < unat i * unat bs + unat bs \<longrightarrow> attached c' (fe_Id fe) i = None))"
    by (rule okG_mono [OF Clean_ok [OF assms(4,5) rq]]) auto
  then have "okG (\<not> SyncIo (rw_wCache rwc) \<or> (\<exists>i. (fe_Id fe, i) \<in> rblocks (rw_rCache rwc)))
      (bindG (Clean fe (int (length buffer)) offset (rw_rCache rwc)) (\<lambda>(_, rc1).
         Ret ((n, err), rwc\<lparr>rw_rCache := rc1, rw_wCache := wc1\<rparr>, s1)))
      (rw_write_post bs content rwc s (fe_Id fe) (unat offset) buffer)"
    by (rule okG_bind) (use w in auto)
  then show ?case using x by simp
qed


text \<open>
  A write through both caches. It never panics; it reports and has the effect of the write cache,
  the read cache keeps its invariant, and it holds no block any more that the written range meets, so
  that a later read does not find the old bytes there.
\<close>

theorem write_invalidates_read_cache:
  assumes "server_ok post pc content" and "wc_inv bs {} (rw_wCache rwc)" and "\<not> wc_chClosed (rw_wCache rwc)"
    and "rc_inv bs {} (rw_rCache rwc)"
    and "fe_BlockSize fe = bs" and "request_ok fe (length buffer) offset" and "buffer \<noteq> []"
  shows "okG (\<not> SyncIo (rw_wCache rwc) \<or> (\<exists>i. (fe_Id fe, i) \<in> rblocks (rw_rCache rwc)))
     (RWCache_Write post pc now fe buffer offset rwc s) (\<lambda>((n, err), rwc', s').
        wc_inv bs {} (rw_wCache rwc') \<and> released bs (rw_rCache rwc) (rw_rCache rwc') \<and> 0 \<le> n \<and>
        write_effect (fe_Id fe) (unat offset) buffer (nat n) err
          (wview bs content (rw_wCache rwc) s) (wview bs content (rw_wCache rwc') s') \<and>
        (\<forall>i. unat i * unat bs < unat offset + length buffer \<and> unat offset < unat i * unat bs + unat bs \<longrightarrow>
           attached (rw_rCache rwc') (fe_Id fe) i = None))"
  by (rule okG_mono [OF RWCache_Write_ok [OF assms]]) auto



subsection \<open>Concrete runs\<close>

definition demo_rc :: RCache where
  "demo_rc = snd (GetFileBuffer demo_file True (NewRCache 2 1000 1 1))"

lemma demo_prefetch_ok: "prefetch_ok 4 1 4 0" "prefetch_ok 4 1 (length [0, 0, 0, 0 :: byte]) 0"
  by (simp_all add: prefetch_ok_def)

lemma demo_push: "okG False (TryDoPrefetch 7 4 0 demo_rc) (\<lambda>c. map op_Index (rqueue c) = [1])"
  by code_simp

lemma demo_rc_reach:
  "\<exists>c. (rstep 4 mem_server mem_client)\<^sup>*\<^sup>* (NewRCache 2 1000 1 1, s) (c, s) \<and> map op_Index (rqueue c) = [1] \<and>
     rc_inv 4 {} c \<and> rc_windows c"
proof -
  obtain r where g: "GetFileBuffer demo_file True (NewRCache 2 1000 1 1) = (r, demo_rc)"
    by (metis demo_rc_def prod.collapse)
  have i1: "rc_inv 4 {} demo_rc" "rc_windows demo_rc"
    using rc_inv_GetFileBuffer [OF NewRCache_inv(1) [of 4] NewRCache_inv(2) [of 4] g] by simp_all
  have s1: "rstep 4 mem_server mem_client (NewRCache 2 1000 1 1, s) (demo_rc, s)"
    by (rule rs_open [OF _ g]) simp
  have d: "map_of (cc_Cache demo_rc) 7 \<noteq> None" "\<not> rc_chClosed demo_rc" "rc_PrefetchTimes demo_rc = 1" "rc_chPrefetch demo_rc = Some []"
    by code_simp+
  obtain c where c: "TryDoPrefetch 7 4 0 demo_rc = Ret c" "map op_Index (rqueue c) = [1]"
    using demo_push by (auto simp: okG_returns)
  have "rstep 4 mem_server mem_client (demo_rc, s) (c, s)"
    by (rule rs_prefetch [OF d(1,2) _ c(1)]) (use demo_prefetch_ok(1) d(3) in simp)
  moreover have "rc_inv 4 {} c \<and> rc_windows c"
    using okG_Ret [OF TryDoPrefetch_ok [OF i1(1) d(1,2) i1(2), of 4 0] c(1)] demo_prefetch_ok(1) d(3) by (auto simp: kept_bufs_def)
  ultimately show ?thesis using s1 c(2) by (meson converse_rtranclp_into_rtranclp rtranclp.rtrancl_refl)
qed

theorem read_cache_never_panics_witness:
  "\<exists>c. rqueue c \<noteq> [] \<and> PrefetchRead_round mem_server mem_client 0 c (\<lambda>_. [1, 2, 3, 4, 5]) \<noteq> Panic \<and> Release demo_file c \<noteq> Panic"
proof -
  obtain c where c: "(rstep 4 mem_server mem_client)\<^sup>*\<^sup>* (NewRCache 2 1000 1 1, \<lambda>_. [1, 2, 3, 4, 5]) (c, \<lambda>_. [1, 2, 3, 4, 5])"
      "map op_Index (rqueue c) = [1]"
    using demo_rc_reach [of "\<lambda>_. [1, 2, 3, 4, 5]"] by (elim exE conjE)
  have "0 < unat (4 :: u32)" by simp
  note p = read_cache_never_panics [OF mem_server_ok this c(1), of demo_file 0]
  have "rqueue c \<noteq> []" using c(2) by (cases "rqueue c") simp_all
  then show ?thesis using p by (elim conjE, intro exI conjI)
qed

theorem prefetch_drains_witness:
  "\<exists>c c' s'. length (rqueue c) = 1 \<and> prefetch_rounds 1 mem_server mem_client 0 c (\<lambda>_. [1, 2, 3, 4, 5]) = Ret (c', s') \<and>
     rqueue c' = [] \<and> locks c' 7 1 = None"
proof -
  obtain c where c: "rc_inv 4 {} c" "map op_Index (rqueue c) = [1]"
    using demo_rc_reach [of "\<lambda>_. [1 :: byte]"] by (elim exE conjE)
  then have "length (rqueue c) = 1" by (metis length_map length_Cons list.size(3) One_nat_def)
  then show ?thesis using prefetch_drains [OF mem_server_ok c(1), of 0 "\<lambda>_. [1, 2, 3, 4, 5]"] by auto
qed


lemma demo_rw:
  "\<exists>c rc. wc_inv 4 {} c \<and> \<not> wc_chClosed c \<and> SyncIo c \<and> rc_inv 4 {} rc \<and> rc_windows rc \<and> \<not> rc_chClosed rc \<and>
     rc_PrefetchTimes rc = 1 \<and> rc_chPrefetch rc = Some [] \<and> (\<forall>f i. attached rc f i = None)"
proof -
  have "rc_inv 4 {} (NewRCache 2 1000 1 1)" "rc_windows (NewRCache 2 1000 1 1)" 
    using NewRCache_inv [of 4] by simp_all
  moreover have "\<not> rc_chClosed (NewRCache 2 1000 1 1)" "rc_PrefetchTimes (NewRCache 2 1000 1 1) = 1"
      "rc_chPrefetch (NewRCache 2 1000 1 1) = Some []" by (simp_all add: NewRCache_def)
  moreover have "attached (NewRCache 2 1000 1 1) f i = None" for f i by (simp add: NewRCache_def attached_def)
  ultimately show ?thesis using demo_inv by blast
qed


theorem write_invalidates_read_cache_witness:
  "\<exists>rwc n err rwc' s'. RWCache_Write mem_server mem_client 0 demo_file [1, 2, 3, 4, 5] 2 rwc (\<lambda>_. []) = Ret ((n, err), rwc', s') \<and>
     write_effect 7 2 [1, 2, 3, 4, 5] (nat n) err (wview 4 (\<lambda>s. s) (rw_wCache rwc) (\<lambda>_. [])) (wview 4 (\<lambda>s. s) (rw_wCache rwc') s')"
proof -
  obtain c rc where r: "wc_inv 4 {} c" "\<not> wc_chClosed c" "SyncIo c" "rc_inv 4 {} rc" "rc_chPrefetch rc = Some []"
    using demo_rw by metis
  let ?rwc = "\<lparr>rw_rCache = rc, rw_wCache = c\<rparr>"
  have nb: "rblocks rc = {}" using r(5) by (simp add: rblocks_def rqueue_def)
  have "okG False (RWCache_Write mem_server mem_client 0 demo_file [1, 2, 3, 4, 5] 2 ?rwc (\<lambda>_. []))
     (\<lambda>((n, err), rwc', s'). write_effect 7 2 [1, 2, 3, 4, 5] (nat n) err (wview 4 (\<lambda>s. s) c (\<lambda>_. [])) (wview 4 (\<lambda>s. s) (rw_wCache rwc') s'))"
    by (rule okG_mono [OF write_invalidates_read_cache [where content = "\<lambda>s. s" and bs = 4, OF mem_server_ok _ _ _ _ demo_request]])
       (use r nb in auto)
  then show ?thesis by (fastforce simp: okG_returns)
qed



section \<open>Runs in which the caches go wrong\<close>

text \<open>The file of the runs on the server: eight bytes, two blocks.\<close>

definition two_blocks :: "u64 \<Rightarrow> byte list" where
  "two_blocks = (\<lambda>_. [10, 11, 12, 13, 14, 15, 16, 17])"

text \<open>The run: write, prefetch, flush, read; the result is what was read and what the server holds.\<close>

definition stale_run :: "(int \<times> byte list \<times> byte) go" where
  "stale_run =
     bindG (RWCache_Write mem_server mem_client 0 demo_file [99] 4 (NewRWCache 2 1000 0 1 1) two_blocks) (\<lambda>(_, rwc1, s1).
     bindG (RWCache_Read mem_server mem_client demo_file [0, 0, 0, 0] 0 rwc1 s1) (\<lambda>(_, rwc2, s2).
     bindG (PrefetchRead_round mem_server mem_client 0 (rw_rCache rwc2) s2) (\<lambda>(_, rc3, s3).
     bindG (RWCache_Flush id id mem_server mem_client 0 demo_file (rwc2\<lparr>rw_rCache := rc3\<rparr>) s3) (\<lambda>(_, rwc4, s4).
     bindG (RWCache_Read mem_server mem_client demo_file [0] 4 rwc4 s4) (\<lambda>((n, err, buffer), _, s5).
     Ret (n, buffer, s5 7 ! 4))))))"

text \<open>
  A byte is written and stays in the write cache, the block is prefetched with its old contents, the
  write is flushed to the server: then a read returns the old byte, because flushing does not drop
  the block from the read cache.
\<close>

theorem prefetched_block_goes_stale: "stale_run = Ret (1, [14], 99)"
  by code_simp

text \<open>A prefetched last block is padded with zeros: a read beyond the end of the file returns them.\<close>

definition padded_run :: "(int \<times> byte list) go" where
  "padded_run =
     bindG (RWCache_Read mem_server mem_client demo_file [9, 9, 9, 9] 0 (NewRWCache 2 1000 0 1 1) (\<lambda>_. [10, 11, 12, 13, 14])) (\<lambda>(_, rwc1, s1).
     bindG (PrefetchRead_round mem_server mem_client 0 (rw_rCache rwc1) s1) (\<lambda>(_, rc2, s2).
     bindG (RWCache_Read mem_server mem_client demo_file [9, 9, 9] 5 (rwc1\<lparr>rw_rCache := rc2\<rparr>) s2) (\<lambda>((n, err, buffer), _).
     Ret (n, buffer))))"

theorem prefetched_block_exceeds_file: "padded_run = Ret (3, [0, 0, 0])"
  by code_simp

text \<open>
  The file ends in a cached block, and another block has a cached byte before the hole that is read:
  the read reports the end of the file, although \<^verbatim>\<open>StatSize\<close> is far beyond it.
\<close>

definition hole_run :: "(u64 \<times> int) go" where
  "hole_run =
     bindG (RWCache_Write mem_server mem_client 0 demo_file [1] 0 (NewRWCache 4 1000 0 0 0) (\<lambda>_. [])) (\<lambda>(_, rwc1, s1).
     bindG (RWCache_Write mem_server mem_client 0 demo_file [2] 8 rwc1 s1) (\<lambda>(_, rwc2, s2).
     bindG (StatSize demo_file (rw_wCache rwc2)) (\<lambda>((size1, err), _).
     bindG (RWCache_Read mem_server mem_client demo_file [0, 0] 2 rwc2 s2) (\<lambda>((n, err, buffer), _).
     Ret (size1, n)))))"

theorem hole_reads_as_end_of_file: "hole_run = Ret (9, 0)"
  by code_simp

text \<open>
  A write of no bytes at an offset inside a block panics once the file has been read (the window that
  \<^verbatim>\<open>Clean\<close> is given is empty at a block boundary), and leaves an empty buffer otherwise, on which the next
  read of the block panics.
\<close>

theorem empty_write_panics:
  "bindG (RWCache_Read mem_server mem_client demo_file [0] 0 (NewRWCache 2 1000 0 0 0) two_blocks) (\<lambda>(_, rwc1, s1).
     RWCache_Write mem_server mem_client 0 demo_file [] 4 rwc1 s1) = Panic \<and>
   bindG (RWCache_Write mem_server mem_client 0 demo_file [] 2 (NewRWCache 2 1000 0 0 0) two_blocks) (\<lambda>(_, rwc1, s1).
     RWCache_Read mem_server mem_client demo_file [0, 0, 0, 0] 0 rwc1 s1) = Panic"
  by (rule conjI; code_simp)

text \<open>
  With a prefetch factor of 0 the window stays empty but moves away from 0; a later read across its
  place panics.
\<close>

theorem zero_prefetch_factor_panics:
  "bindG (RWCache_Read mem_server mem_client demo_file [0, 0, 0, 0, 0, 0, 0, 0] 0 (NewRWCache 2 1000 0 1 0) two_blocks) (\<lambda>(_, rwc1, s1).
     RWCache_Read mem_server mem_client demo_file [0, 0, 0, 0, 0, 0, 0, 0] 4 rwc1 s1) = Panic"
  by code_simp

end
