(* ===== verification/Cfa_RSafe.thy ===== *)
theory Cfa_RSafe
  imports Cfa_RSteps
begin

text \<open>
  Reads without the assumption that the read cache agrees with the server: whatever its buffers hold,
  a read does not panic, keeps both caches as they were (up to the prefetches it starts), does not
  change a file, and counts at most the bytes asked for.
\<close>

definition within :: "int \<Rightarrow> byte list \<Rightarrow> bool" where
  "within n buf \<longleftrightarrow> 0 \<le> n \<and> n \<le> int (length buf)"

lemma ReadOp_safe:
  assumes ok: "server_ok post pc content" and own: "rc_bufs bs c" and bop: "bop_ok bs fe bop"
    and zero: "op_rwBuf bop = replicate (length (op_rwBuf bop)) 0" and fb: "map_of (cc_Cache c) (fe_Id fe) = Some fb"
  obtains n err buf s' where "ReadOp post pc fe (fe_Id fe) bop c s = Ret (n, err, buf, s')"
    and "content s' = content s" and "length buf = length (op_rwBuf bop)" and "err = None \<Longrightarrow> within n buf"
proof (cases "attached c (fe_Id fe) (op_Index bop)")
  case None
  obtain n err buf s' where "ReadOp post pc fe (fe_Id fe) bop c s = Ret (n, err, buf, s')" "content s' = content s"
      "length buf = length (op_rwBuf bop)" "err = None \<Longrightarrow> fetched bs (content s) c (fe_Id fe) bop n buf"
    by (rule ReadOp_direct [OF ok bop zero fb None, of s]) blast
  then show thesis using that by (simp add: fetched_def within_def)
next
  case (Some b)
  obtain buf where "ReadOp post pc fe (fe_Id fe) bop c s = Ret (int (length (op_rwBuf bop)), None, buf, s)"
      "length buf = length (op_rwBuf bop)"
    by (rule ReadOp_hit [OF own bop fb Some, of post pc s]) blast
  then show thesis using that by (simp add: within_def)
qed

lemma rlocked_read_safe:
  assumes ok: "server_ok post pc content" and rown: "rc_own bs c"
    and fr: "map_of (cc_Cache c) (fe_Id fe) = Some fr" and bop: "bop_ok bs fe bop"
    and zero: "op_rwBuf bop = replicate (length (op_rwBuf bop)) 0" and free: "locks c (fe_Id fe) (op_Index bop) = None"
  obtains c1 n err buf s' where "on_fb (fe_Id fe) (RLockBuffer (op_Index bop)) c = Ret c1"
    and "ReadOp post pc fe (fe_Id fe) bop c1 s = Ret (n, err, buf, s')"
    and "on_fb (fe_Id fe) (RUnLockBuffer (op_Index bop)) c1 = Ret c" and "content s' = content s"
    and "length buf = length (op_rwBuf bop)" and "err = None \<Longrightarrow> within n buf"
proof -
  let ?f = "fe_Id fe" and ?i = "op_Index bop"
  obtain rc1 fr1 where rc1: "on_fb ?f (RLockBuffer ?i) c = Ret rc1" "on_fb ?f (RUnLockBuffer ?i) rc1 = Ret c"
      "map_of (cc_Cache rc1) ?f = Some fr1" "cc_heap rc1 = cc_heap c" "attached rc1 = attached c" "cbyte rc1 = cbyte c"
      "pool_inv bs rc1 = pool_inv bs c"
    by (rule rlock_cycle [OF fr free, where bs = bs]) blast
  have "rc_bufs bs rc1" using rown rc1(4-7) by (auto simp: rc_own_def rc_bufs_def)
  from ReadOp_safe [OF ok this bop zero rc1(3), of s] show thesis using that [OF rc1(1) _ rc1(2)] by blast
qed

text \<open>Merging works on any bytes: the contents that the lemma asks for can be made up from the buffer.\<close>

lemma merge_safe:
  assumes winv: "wc_inv bs {} c" and fb: "map_of (cc_Cache c) f = Some fb" and free: "locks c f (op_Index bop) = None"
    and bop: "bop_ok bs fe bop" and buf: "length buf = length (op_rwBuf bop)"
  obtains c1 where "on_fb f (RLockBuffer (op_Index bop)) c = Ret c1" and "on_fb f (RUnLockBuffer (op_Index bop)) c1 = Ret c"
    and "\<And>n. within n buf \<Longrightarrow> \<exists>n' buf'. MergeOp c1 f (bop\<lparr>op_rwBuf := buf\<rparr>) n = Ret (n', buf') \<and>
       length buf' = length (op_rwBuf bop) \<and> within n' buf'"
proof -
  let ?bop = "bop\<lparr>op_rwBuf := buf\<rparr>" and ?ct = "\<lambda>_ :: u64. replicate (op_pos bs bop) 0 @ buf"
  have bop': "bop_ok bs fe ?bop" "op_Index ?bop = op_Index bop" "op_pos bs ?bop = op_pos bs bop"
    using bop buf by (auto simp: bop_ok_def op_pos_def)
  obtain c1 where c1: "on_fb f (RLockBuffer (op_Index bop)) c = Ret c1" "on_fb f (RUnLockBuffer (op_Index bop)) c1 = Ret c"
    and m: "\<And>fe ct ds. bop_ok bs fe ?bop \<Longrightarrow> 0 \<le> ds \<Longrightarrow> ds \<le> int (length (op_rwBuf ?bop)) \<Longrightarrow>
       (\<And>k. k < length (op_rwBuf ?bop) \<Longrightarrow> op_rwBuf ?bop ! k = zbyte (ct f) (op_pos bs ?bop + k)) \<Longrightarrow>
       \<exists>n buf. MergeOp c1 f ?bop ds = Ret (n, buf) \<and> merged bs (cbyte c) ct f ?bop ds n buf (cached_end bs c f)"
    by (rule wlocked_merge [where bop = ?bop, OF winv fb, unfolded bop'(2), OF free]) blast
  have "\<exists>n' buf'. MergeOp c1 f ?bop n = Ret (n', buf') \<and> length buf' = length (op_rwBuf bop) \<and> within n' buf'"
    if "within n buf" for n
  proof -
    have "\<exists>n' buf'. MergeOp c1 f ?bop n = Ret (n', buf') \<and> merged bs (cbyte c) ?ct f ?bop n n' buf' (cached_end bs c f)"
      by (rule m [OF bop'(1)]) (use that in \<open>auto simp: within_def zbyte_def nth_append bop'(3)\<close>)
    then show ?thesis using that buf by (fastforce simp: merged_def within_def)
  qed
  then show thesis by (rule that [OF c1])
qed

fun read_op_safe ::
  "('s \<Rightarrow> contents) \<Rightarrow> RWCache \<Rightarrow> 's \<Rightarrow> nat \<Rightarrow> (int \<times> go_error option \<times> byte list) \<times> RWCache \<times> 's \<Rightarrow> bool" where
  "read_op_safe content rwc s len ((n, err, buf), rwc', s') \<longleftrightarrow>
     rwc' = rwc \<and> content s' = content s \<and> length buf = len \<and> (err = None \<longrightarrow> within n buf)"

lemma doRead_op_safe:
  assumes ok: "server_ok post pc content" and winv: "wc_inv bs {} (rw_wCache rwc)"
    and rown: "rc_own bs (rw_rCache rwc)"
    and fr: "map_of (cc_Cache (rw_rCache rwc)) (fe_Id fe) = Some fr" and bop: "bop_ok bs fe bop"
    and zero: "op_rwBuf bop = replicate (length (op_rwBuf bop)) 0"
  shows "okG True (doRead_op post pc fe (fe_Id fe) (wfile (rw_wCache rwc) (fe_Id fe)) bop rwc s)
     (read_op_safe content rwc s (length (op_rwBuf bop)))"
proof -
  let ?f = "fe_Id fe" and ?i = "op_Index bop" and ?rc = "rw_rCache rwc" and ?wc = "rw_wCache rwc"
  have same: "rwc\<lparr>rw_rCache := ?rc, rw_wCache := ?wc\<rparr> = rwc" by simp
  have rblock: "on_fb ?f (RLockBuffer ?i) ?rc = Block" if "locks ?rc ?f ?i \<noteq> None"
    using that rown rlock_blocked [of ?rc ?f ?i] unfolding rc_own_def by metis
  have wblock: "on_fb ?f (RLockBuffer ?i) ?wc = Block" if "locks ?wc ?f ?i \<noteq> None"
    using that winv rlock_blocked [of ?wc ?f ?i] unfolding wc_inv_def wc_locks_def by metis
  show ?thesis
  proof (cases "locks ?rc ?f ?i = None")
    case True
    obtain rc1 n err buf s' where r: "on_fb ?f (RLockBuffer ?i) ?rc = Ret rc1"
        "ReadOp post pc fe ?f bop rc1 s = Ret (n, err, buf, s')"
        "on_fb ?f (RUnLockBuffer ?i) rc1 = Ret ?rc" "content s' = content s" "length buf = length (op_rwBuf bop)"
        "err = None \<Longrightarrow> within n buf"
      by (rule rlocked_read_safe [OF ok rown fr bop zero True, of s]) blast
    show ?thesis
    proof (cases "map_of (cc_Cache ?wc) ?f")
      case None
      then show ?thesis using r by (simp add: doRead_op_def wfile_def)
    next
      case (Some fw)
      then have w: "wfile ?wc ?f = Some ?f" by (simp add: wfile_def)
      show ?thesis
      proof (cases "locks ?wc ?f ?i = None")
        case wfree: True
        obtain wc1 where m: "on_fb ?f (RLockBuffer ?i) ?wc = Ret wc1" "on_fb ?f (RUnLockBuffer ?i) wc1 = Ret ?wc"
            "\<And>n. within n buf \<Longrightarrow> \<exists>n' buf'. MergeOp wc1 ?f (bop\<lparr>op_rwBuf := buf\<rparr>) n = Ret (n', buf') \<and>
               length buf' = length (op_rwBuf bop) \<and> within n' buf'"
          by (rule merge_safe [OF winv Some wfree bop r(5)]) blast
        show ?thesis
        proof (cases err)
          case None
          then obtain n' buf' where "MergeOp wc1 ?f (bop\<lparr>op_rwBuf := buf\<rparr>) n = Ret (n', buf')"
              "length buf' = length (op_rwBuf bop)" "within n' buf'"
            using m(3) r(6) by blast
          then show ?thesis using None r m w same by (simp add: doRead_op_def)
        qed (use r m w same in \<open>simp add: doRead_op_def\<close>)
      qed (use wblock w in \<open>simp add: doRead_op_def\<close>)
    qed
  next
    case False
    show ?thesis
      using rblock [OF False] wblock rlock_cycle [of ?wc ?f _ ?i]
      by (cases "map_of (cc_Cache ?wc) ?f"; cases "locks ?wc ?f ?i")
         (auto simp: doRead_op_def wfile_def elim: rlock_cycle [of ?wc ?f _ ?i])
  qed
qed

lemma doRead_loop_safe:
  assumes ok: "server_ok post pc content" and winv: "wc_inv bs {} (rw_wCache rwc)"
    and rown: "rc_own bs (rw_rCache rwc)" and fr: "map_of (cc_Cache (rw_rCache rwc)) (fe_Id fe) = Some fr"
  shows "ops_at fe (unat offset + length filled) ops \<Longrightarrow>
     (\<And>bop. bop \<in> set ops \<Longrightarrow> bop_ok bs fe bop \<and> op_rwBuf bop = replicate (length (op_rwBuf bop)) 0) \<Longrightarrow>
     within n filled \<Longrightarrow>
     okG True (doRead_loop post pc fe (fe_Id fe) (wfile (rw_wCache rwc) (fe_Id fe)) offset ops n filled rwc s)
       (read_op_safe content rwc s (length filled + length (concat (map op_rwBuf ops))))"
proof (induction ops arbitrary: n filled s)
  case Nil
  then show ?case by simp
next
  case (Cons bop ops)
  let ?f = "fe_Id fe"
  have bop: "bop_ok bs fe bop" "op_rwBuf bop = replicate (length (op_rwBuf bop)) 0"
    and at: "op_pos bs bop = unat offset + length filled"
      "ops_at fe (unat offset + length filled + length (op_rwBuf bop)) ops"
    using Cons.prems(1) Cons.prems(2) [of bop] by (auto simp: op_pos_def bop_ok_def)
  have pos: "unat (Op_GetFileOffset bop - offset) = length filled"
    using unat_Op_GetFileOffset [OF bop(1)] at(1) by (simp add: unat_sub word_le_nat_alt)
  show ?case
    unfolding doRead_loop.simps
  proof (rule okG_bind [OF doRead_op_safe [OF ok winv rown fr bop]], goal_cases)
    case (1 x)
    obtain m err buf rwc1 s1 where x: "x = ((m, err, buf), rwc1, s1)" by (metis prod.collapse)
    then have p: "rwc1 = rwc" "content s1 = content s" "length buf = length (op_rwBuf bop)" "err = None \<Longrightarrow> within m buf"
      using 1 by auto
    show ?case
    proof (cases err)
      case None
      then have "within (if m \<noteq> 0 then int (length filled) + m else n) (filled @ buf)"
        using p(4) Cons.prems(3) by (auto simp: within_def)
      then have "okG True (doRead_loop post pc fe ?f (wfile (rw_wCache rwc) ?f) offset ops
          (if m \<noteq> 0 then int (length filled) + m else n) (filled @ buf) rwc s1)
          (read_op_safe content rwc s1 (length (filled @ buf) + length (concat (map op_rwBuf ops))))"
        using Cons.prems(2) at(2) p(3) by (intro Cons.IH) (auto simp: add.assoc)
      moreover have "read_op_safe content rwc s1 l = read_op_safe content rwc s l" for l
        by (rule ext) (simp add: p(2) split_paired_all)
      moreover have "uint (Op_GetFileOffset bop - offset) = int (length filled)" unfolding pos [symmetric] by simp
      ultimately show ?thesis using x None p(1,3) by (cases "m = 0") (simp_all add: add.assoc)
    qed (use x p in simp)
  qed
qed

text \<open>A read of both caches keeps the invariants, whatever the read cache holds.\<close>

lemma RWCache_Read_safe:
  assumes ok: "server_ok post pc content" and winv: "wc_inv bs {} (rw_wCache rwc)"
    and rinv: "rc_inv bs {} (rw_rCache rwc)" "rc_windows (rw_rCache rwc)" "\<not> rc_chClosed (rw_rCache rwc)"
    and pok: "rc_chPrefetch (rw_rCache rwc) \<noteq> None \<Longrightarrow> prefetch_ok bs (rc_PrefetchTimes (rw_rCache rwc)) (length buffer) offset"
    and bs: "fe_BlockSize fe = bs" and rq: "request_ok fe (length buffer) offset" and ne: "buffer \<noteq> []"
  shows "okG True (RWCache_Read post pc fe buffer offset rwc s) (\<lambda>((n, err, buffer'), rwc', s').
     kept_bufs bs (snd (GetFileBuffer fe True (rw_rCache rwc))) (rw_rCache rwc') \<and> rc_windows (rw_rCache rwc') \<and>
     rw_wCache rwc' = rw_wCache rwc \<and> content s' = content s \<and> length buffer' = length buffer \<and>
     (err = None \<longrightarrow> within n buffer))"
proof -
  let ?f = "fe_Id fe" and ?rc = "rw_rCache rwc" and ?d = "replicate (length buffer) 0 :: byte list"
  obtain rc0 where g: "GetFileBuffer fe True ?rc = (Some ?f, rc0)" "map_of (cc_Cache rc0) ?f \<noteq> None"
    using GetFileBuffer_new [of fe ?rc] by blast
  note g' = GetFileBuffer_ok [OF g(1)] and i0 = rc_inv_GetFileBuffer [OF rinv(1,2) g(1) bs]
  note m = rmore_same [OF g'(7)]
  have len: "unat (of_nat (length buffer) :: u32) = length buffer"
    using rq by (intro unat_of_nat_u32) (auto simp: request_ok_def simp flip: unat_gt_0)
  have pf: "okG True (TryDoPrefetch ?f (of_nat (length buffer)) offset rc0) (\<lambda>c'. kept_bufs bs rc0 c' \<and> rc_windows c')"
    by (rule okG_mono [OF TryDoPrefetch_ok [OF i0(1) g(2) _ i0(2)]]) (use rinv(3) pok m len in auto)
  obtain ops where ops: "RSlice fe ?d offset = Ret ops" "concat (map op_rwBuf ops) = ?d"
      "ops_at fe (unat offset) ops" "\<And>bop. bop \<in> set ops \<Longrightarrow> op_rwBuf bop \<noteq> []"
    using rslice.cut_ok [of fe ?d offset] rq ne by auto
  have bops: "bop_ok bs fe bop \<and> op_rwBuf bop = replicate (length (op_rwBuf bop)) 0" if "bop \<in> set ops" for bop
    using ops_at_bop_ok [OF _ ops(2,3) that ops(4) [OF that]] concat_zero [OF ops(2) that] rq bs by simp
  have run: "RWCache_Read post pc fe buffer offset rwc s =
      bindG (TryDoPrefetch ?f (of_nat (length buffer)) offset rc0) (\<lambda>rc1.
      bindG (doRead_loop post pc fe ?f (wfile (rw_wCache rwc) ?f) offset ops 0 []
               (rwc\<lparr> rw_rCache := rc1, rw_wCache := rw_wCache rwc \<rparr>) s) (\<lambda>((Size, err, dataBuf'), rwc1, s1).
      if err \<noteq> None then Ret ((Size, err, buffer), rwc1, s1)
      else
        bindG (Assert (Size \<le> int (length buffer))) (\<lambda>_.
        bindG (slice 0 (nat Size) dataBuf') (\<lambda>data.
        Ret ((Size, None, copy_at 0 data buffer), rwc1, s1)))))"
    by (simp add: RWCache_Read_def doRead_def g(1) GetFileBuffer_same ops(1) Let_def cong: if_cong)
  show ?thesis
    unfolding run
  proof (rule okG_bind [OF pf], goal_cases)
    case kept: (1 rc1)
    let ?rwc = "rwc\<lparr> rw_rCache := rc1, rw_wCache := rw_wCache rwc \<rparr>"
    have own: "rc_own bs (rw_rCache ?rwc)" and fr: "map_of (cc_Cache (rw_rCache ?rwc)) ?f \<noteq> None"
      using kept_prefetched [of bs rc0 rc1 ?f] kept g(2) by (simp_all add: prefetched_def)
    then obtain fr where fr: "map_of (cc_Cache (rw_rCache ?rwc)) ?f = Some fr" by blast
    have l: "okG True (doRead_loop post pc fe ?f (wfile (rw_wCache ?rwc) ?f) offset ops 0 [] ?rwc s)
        (read_op_safe content ?rwc s (length ([] :: byte list) + length (concat (map op_rwBuf ops))))"
      by (rule doRead_loop_safe [OF ok _ own fr]) (use winv ops(3) bops in \<open>auto simp: within_def\<close>)
    have l': "okG True (doRead_loop post pc fe ?f (wfile (rw_wCache rwc) ?f) offset ops 0 [] ?rwc s)
        (read_op_safe content ?rwc s (length buffer))"
      using l ops(2) by simp
    show ?case
    proof (rule okG_bind [OF l'], goal_cases)
      case (1 x)
      obtain n err buf rwc1 s1 where x: "x = ((n, err, buf), rwc1, s1)" by (metis prod.collapse)
      have keep: "kept_bufs bs (snd (GetFileBuffer fe True ?rc)) rc1" "rc_windows rc1" using kept g(1) by simp_all
      show ?case
      proof (cases err)
        case None
        then have "0 \<le> n" "n \<le> int (length buf)" "length buf = length buffer" using 1 x by (simp_all add: within_def)
        then show ?thesis using 1 x None keep by (simp add: within_def)
      qed (use 1 x keep in simp)
    qed
  qed
qed

end
