(* ===== verification/Cfa_Lru.thy ===== *)
theory Cfa_Lru
  imports Cfa_Prelude "HOL-Library.AList"
begin

text \<open>
  The LRU cache with expiry, \<^verbatim>\<open>lib/cache/lru.go\<close>, and the cache of directory entries over it,
  \<^verbatim>\<open>lib/libfs/dentrycache.go\<close>. The interface of a bounded cache is the locale \<open>bounded_cache\<close>: what it
  holds is at any time part of what an unbounded map would hold after the same operations. The list
  and the map of the code provide it.
\<close>

section \<open>State\<close>

record ('k, 'v) CacheNode =
  node_Key :: 'k
  node_Value :: 'v
  node_Expiration :: int

text \<open>
  \<^verbatim>\<open>dlist\<close> is the list of its elements, front first; an element is named by its position in the store
  \<open>lru_elems\<close> of all elements ever allocated. \<^verbatim>\<open>cacheMap\<close> maps a key to an element. The constructor makes both;
  \<open>lru_inited\<close> tells whether they are there, which the code tests. Times are nanoseconds.
\<close>

record ('k, 'v) LRUCache =
  lru_Capacity :: int
  lru_inited :: bool
  lru_dlist :: "nat list"
  lru_cacheMap :: "('k \<times> nat) list"
  lru_elems :: "('k, 'v) CacheNode list"

section \<open>Operations\<close>

definition NewLRUCache :: "int \<Rightarrow> ('k, 'v) LRUCache option" where
  "NewLRUCache cap =
     (if cap \<le> 0 then None
      else Some \<lparr> lru_Capacity = cap, lru_inited = True, lru_dlist = [], lru_cacheMap = [], lru_elems = [] \<rparr>)"

definition lru_Size :: "('k, 'v) LRUCache \<Rightarrow> nat" where
  "lru_Size lru = length (lru_dlist lru)"

definition MoveToFront :: "nat \<Rightarrow> nat list \<Rightarrow> nat list" where
  "MoveToFront e dlist = e # remove1 e dlist"

definition lru_evict :: "('k, 'v) LRUCache \<Rightarrow> ('k, 'v) LRUCache" where
  "lru_evict lru =
     (if int (length (lru_dlist lru)) > lru_Capacity lru then
        (if lru_dlist lru = [] then lru
         else
           let lastElement = last (lru_dlist lru)
           in lru\<lparr> lru_cacheMap := AList.delete (node_Key (lru_elems lru ! lastElement)) (lru_cacheMap lru),
                   lru_dlist := remove1 lastElement (lru_dlist lru) \<rparr>)
      else lru)"

definition SetExpire :: "int \<Rightarrow> 'k \<Rightarrow> 'v \<Rightarrow> int \<Rightarrow> ('k, 'v) LRUCache \<Rightarrow> string option \<times> ('k, 'v) LRUCache" where
  "SetExpire now k v d lru =
     (if \<not> lru_inited lru then (Some ''not inited'', lru)
      else
        let e = (if d \<le> 0 then 0 else int64 (now + d)) in
        case map_of (lru_cacheMap lru) k of
          Some pElement \<Rightarrow>
            (None,
             lru\<lparr> lru_dlist := MoveToFront pElement (lru_dlist lru),
                  lru_elems := (lru_elems lru)[pElement := (lru_elems lru ! pElement)\<lparr> node_Value := v, node_Expiration := e \<rparr>] \<rparr>)
        | None \<Rightarrow>
            let newElement = length (lru_elems lru) in
            (None,
             lru_evict
               (lru\<lparr> lru_elems := lru_elems lru @ [\<lparr> node_Key = k, node_Value = v, node_Expiration = e \<rparr>],
                     lru_dlist := newElement # lru_dlist lru,
                     lru_cacheMap := AList.update k newElement (lru_cacheMap lru) \<rparr>)))"

definition lru_Set :: "int \<Rightarrow> 'k \<Rightarrow> 'v \<Rightarrow> ('k, 'v) LRUCache \<Rightarrow> string option \<times> ('k, 'v) LRUCache" where
  "lru_Set now k v lru = SetExpire now k v 0 lru"

text \<open>The value, when there is a hit, the error and the cache.\<close>

definition lru_Get :: "int \<Rightarrow> 'k \<Rightarrow> ('k, 'v) LRUCache \<Rightarrow> 'v option \<times> string option \<times> ('k, 'v) LRUCache" where
  "lru_Get now k lru =
     (if \<not> lru_inited lru then (None, Some ''LRUCache not inited.'', lru)
      else
        case map_of (lru_cacheMap lru) k of
          None \<Rightarrow> (None, None, lru)
        | Some pElement \<Rightarrow>
            let e = node_Expiration (lru_elems lru ! pElement) in
            if e = 0 \<or> now < e then
              (Some (node_Value (lru_elems lru ! pElement)), None,
               lru\<lparr> lru_dlist := MoveToFront pElement (lru_dlist lru) \<rparr>)
            else (None, None, lru))"

definition lru_Remove :: "'k \<Rightarrow> ('k, 'v) LRUCache \<Rightarrow> bool \<times> ('k, 'v) LRUCache" where
  "lru_Remove k lru =
     (if \<not> lru_inited lru then (False, lru)
      else
        case map_of (lru_cacheMap lru) k of
          None \<Rightarrow> (False, lru)
        | Some pElement \<Rightarrow>
            (True,
             lru\<lparr> lru_cacheMap := AList.delete (node_Key (lru_elems lru ! pElement)) (lru_cacheMap lru),
                  lru_dlist := remove1 pElement (lru_dlist lru) \<rparr>))"

text \<open>Go ranges over a map in an unspecified order: \<open>ord\<close> arranges the keys.\<close>

definition GetKeys :: "('k list \<Rightarrow> 'k list) \<Rightarrow> 'k \<Rightarrow> ('k \<Rightarrow> 'k \<Rightarrow> bool) \<Rightarrow> ('k, 'v) LRUCache \<Rightarrow> 'k list" where
  "GetKeys ord k matchFunc lru =
     (if \<not> lru_inited lru then []
      else filter (\<lambda>cacheKey. matchFunc cacheKey k) (ord (map fst (lru_cacheMap lru))))"

section \<open>The cache of directory entries\<close>

record 'v DentryCache =
  dc_dentryCache :: "(string, 'v) LRUCache option"
  dc_expireMs :: int

definition NewDentryCache :: "int \<Rightarrow> int \<Rightarrow> 'v DentryCache" where
  "NewDentryCache cacheSize expireTimeMs =
     \<lparr> dc_dentryCache = NewLRUCache cacheSize, dc_expireMs = expireTimeMs \<rparr>"

definition DentryCache_Set :: "int \<Rightarrow> string \<Rightarrow> 'v \<Rightarrow> 'v DentryCache \<Rightarrow> string option \<times> 'v DentryCache" where
  "DentryCache_Set now k v cache =
     (case dc_dentryCache cache of
        None \<Rightarrow> (Some ''0 Capacity'', cache)
      | Some lru \<Rightarrow>
          (case SetExpire now k v (int64 (dc_expireMs cache * 1000000)) lru of
             (err, lru') \<Rightarrow> (err, cache\<lparr> dc_dentryCache := Some lru' \<rparr>)))"

definition DentryCache_Get :: "int \<Rightarrow> string \<Rightarrow> 'v DentryCache \<Rightarrow> 'v option \<times> string option \<times> 'v DentryCache" where
  "DentryCache_Get now k cache =
     (case dc_dentryCache cache of
        None \<Rightarrow> (None, Some ''0 Capacity'', cache)
      | Some lru \<Rightarrow>
          (case lru_Get now k lru of
             (v, err, lru') \<Rightarrow> (v, err, cache\<lparr> dc_dentryCache := Some lru' \<rparr>)))"

definition DentryCache_Remove :: "string \<Rightarrow> 'v DentryCache \<Rightarrow> bool \<times> 'v DentryCache" where
  "DentryCache_Remove k cache =
     (case dc_dentryCache cache of
        None \<Rightarrow> (False, cache)
      | Some lru \<Rightarrow>
          (case lru_Remove k lru of (r, lru') \<Rightarrow> (r, cache\<lparr> dc_dentryCache := Some lru' \<rparr>)))"

primrec RemovePrefix_loop :: "string list \<Rightarrow> (string, 'v) LRUCache \<Rightarrow> (string, 'v) LRUCache" where
  "RemovePrefix_loop [] lru = lru"
| "RemovePrefix_loop (k # ks) lru = RemovePrefix_loop ks (snd (lru_Remove k lru))"

definition RemovePrefix :: "(string list \<Rightarrow> string list) \<Rightarrow> string \<Rightarrow> 'v DentryCache \<Rightarrow> 'v DentryCache" where
  "RemovePrefix ord pre cache =
     (case dc_dentryCache cache of
        None \<Rightarrow> cache
      | Some lru \<Rightarrow>
          let rtKeys = GetKeys ord pre (\<lambda>cacheKey pre. prefix pre cacheKey) lru
          in cache\<lparr> dc_dentryCache := Some (RemovePrefix_loop rtKeys lru) \<rparr>)"

section \<open>Invariant and abstraction\<close>

definition lru_wf :: "('k, 'v) LRUCache \<Rightarrow> bool" where
  "lru_wf lru \<longleftrightarrow>
     lru_inited lru \<and> distinct (lru_dlist lru) \<and> distinct (map fst (lru_cacheMap lru)) \<and>
     set (lru_dlist lru) = snd ` set (lru_cacheMap lru) \<and>
     (\<forall>(k, e) \<in> set (lru_cacheMap lru). e < length (lru_elems lru) \<and> node_Key (lru_elems lru ! e) = k)"

definition lru_inv :: "('k, 'v) LRUCache \<Rightarrow> bool" where
  "lru_inv lru \<longleftrightarrow> lru_wf lru \<and> 0 < lru_Capacity lru \<and> int (lru_Size lru) \<le> lru_Capacity lru"

text \<open>The cached entries, most recently used first.\<close>

definition lru_entry :: "('k, 'v) LRUCache \<Rightarrow> nat \<Rightarrow> 'k \<times> 'v \<times> int" where
  "lru_entry lru e = (case lru_elems lru ! e of n \<Rightarrow> (node_Key n, node_Value n, node_Expiration n))"

definition lru_abs :: "('k, 'v) LRUCache \<Rightarrow> ('k \<times> 'v \<times> int) list" where
  "lru_abs lru = map (lru_entry lru) (lru_dlist lru)"

definition deadline :: "int \<Rightarrow> int \<Rightarrow> int" where
  "deadline now d = (if d \<le> 0 then 0 else int64 (now + d))"

definition live :: "int \<Rightarrow> int \<Rightarrow> bool" where
  "live now e \<longleftrightarrow> e = 0 \<or> now < e"

lemma lru_mapped:
  assumes "lru_wf lru" and "map_of (lru_cacheMap lru) k = Some e"
  shows "e \<in> set (lru_dlist lru)" and "e < length (lru_elems lru)" and "node_Key (lru_elems lru ! e) = k"
proof -
  have "(k, e) \<in> set (lru_cacheMap lru)" using assms(2) by (rule map_of_SomeD)
  then show "e \<in> set (lru_dlist lru)" "e < length (lru_elems lru)" "node_Key (lru_elems lru ! e) = k"
    using assms(1) by (force simp: lru_wf_def)+
qed

lemma lru_listed:
  assumes "lru_wf lru" and "e \<in> set (lru_dlist lru)"
  shows "map_of (lru_cacheMap lru) (node_Key (lru_elems lru ! e)) = Some e" and "e < length (lru_elems lru)"
proof -
  obtain k where k: "(k, e) \<in> set (lru_cacheMap lru)" using assms by (force simp: lru_wf_def)
  then show "map_of (lru_cacheMap lru) (node_Key (lru_elems lru ! e)) = Some e" "e < length (lru_elems lru)"
    using assms(1) by (auto simp: lru_wf_def)
qed

lemma lru_key_inj:
  "lru_wf lru \<Longrightarrow> e \<in> set (lru_dlist lru) \<Longrightarrow> e' \<in> set (lru_dlist lru) \<Longrightarrow>
   node_Key (lru_elems lru ! e) = node_Key (lru_elems lru ! e') \<longleftrightarrow> e = e'"
  by (metis lru_listed(1) option.inject)

lemma fst_lru_entry [simp]: "fst (lru_entry lru e) = node_Key (lru_elems lru ! e)"
  by (simp add: lru_entry_def)

lemma length_lru_abs [simp]: "length (lru_abs lru) = length (lru_dlist lru)"
  by (simp add: lru_abs_def)

lemma lru_abs_distinct: "lru_wf lru \<Longrightarrow> distinct (map fst (lru_abs lru))"
  by (auto simp: lru_abs_def distinct_map inj_on_def lru_key_inj lru_wf_def comp_def)

lemma map_of_lru_abs:
  assumes "lru_wf lru"
  shows "map_of (lru_abs lru) k = map_option (\<lambda>e. snd (lru_entry lru e)) (map_of (lru_cacheMap lru) k)"
proof (cases "map_of (lru_cacheMap lru) k")
  case None
  have "k \<notin> fst ` set (lru_abs lru)"
    using None lru_listed(1) [OF assms] by (auto simp: lru_abs_def)
  then have "map_of (lru_abs lru) k = None" by (simp add: map_of_eq_None_iff)
  then show ?thesis using None by simp
next
  case (Some e)
  have "(k, snd (lru_entry lru e)) \<in> set (lru_abs lru)"
    using lru_mapped [OF assms Some] unfolding lru_abs_def by (metis fst_lru_entry image_eqI list.set_map prod.collapse)
  then show ?thesis using Some lru_abs_distinct [OF assms] by simp
qed

text \<open>Taking an element out of the list takes its key out of the abstraction.\<close>

lemma lru_abs_remove:
  assumes "lru_wf lru" and "e \<in> set (lru_dlist lru)"
  shows "map (lru_entry lru) (remove1 e (lru_dlist lru)) = AList.delete (node_Key (lru_elems lru ! e)) (lru_abs lru)"
proof -
  have d: "distinct (lru_dlist lru)" using assms(1) by (simp add: lru_wf_def)
  have "filter (\<lambda>x. x \<noteq> e) (lru_dlist lru) =
      filter (\<lambda>x. node_Key (lru_elems lru ! e) \<noteq> node_Key (lru_elems lru ! x)) (lru_dlist lru)"
    using lru_key_inj [OF assms(1) assms(2)] by (intro filter_cong) auto
  then show ?thesis
    by (simp add: distinct_remove1_removeAll [OF d] removeAll_filter_not_eq lru_abs_def AList.delete_eq
        filter_map comp_def case_prod_beta eq_commute)
qed


section \<open>What the operations do\<close>

lemma NewLRUCache_ok: "NewLRUCache cap = Some lru \<Longrightarrow> lru_inv lru \<and> lru_abs lru = [] \<and> lru_Capacity lru = cap"
  by (auto simp: NewLRUCache_def lru_inv_def lru_wf_def lru_Size_def lru_abs_def split: if_splits)

lemma snd_delete:
  assumes "distinct (map fst m)" and "map_of m k = Some e" and "inj_on snd (set m)"
  shows "snd ` set (AList.delete k m) = snd ` set m - {e}"
proof -
  have ke: "(k, e) \<in> set m" using assms(2) by (rule map_of_SomeD)
  have "x = e \<longleftrightarrow> k' = k" if x: "(k', x) \<in> set m" for k' x
  proof
    assume "x = e"
    then show "k' = k" using inj_onD [OF assms(3) _ x ke] by simp
  next
    assume "k' = k"
    then show "x = e" using map_of_is_SomeI [OF assms(1) x] assms(2) by simp
  qed
  then have "(k', x) \<in> set (AList.delete k m) \<longleftrightarrow> (k', x) \<in> set m \<and> x \<noteq> e" for k' x
    by (auto simp: AList.delete_eq)
  then have "set (AList.delete k m) = {p \<in> set m. snd p \<noteq> e}" by auto
  then show ?thesis by auto
qed

lemma lru_snd_inj: "lru_wf lru \<Longrightarrow> inj_on snd (set (lru_cacheMap lru))"
proof (rule inj_onI)
  fix x y
  assume inv: "lru_wf lru" and x: "x \<in> set (lru_cacheMap lru)" and y: "y \<in> set (lru_cacheMap lru)" and eq: "snd x = snd y"
  have "node_Key (lru_elems lru ! snd x) = fst x" "node_Key (lru_elems lru ! snd y) = fst y"
    using inv x y unfolding lru_wf_def by (simp_all add: case_prod_beta)
  then show "x = y" using eq by (simp add: prod_eq_iff)
qed

text \<open>Dropping a mapped element from map and list.\<close>

lemma lru_drop_ok:
  assumes inv: "lru_wf lru" and e: "map_of (lru_cacheMap lru) k = Some e"
  defines "lru' \<equiv> lru\<lparr> lru_cacheMap := AList.delete k (lru_cacheMap lru), lru_dlist := remove1 e (lru_dlist lru) \<rparr>"
  shows "lru_wf lru' \<and> lru_abs lru' = AList.delete k (lru_abs lru)"
proof -
  note d = lru_mapped [OF inv e]
  have "snd ` set (AList.delete k (lru_cacheMap lru)) = set (lru_dlist lru) - {e}"
    using snd_delete [OF _ e lru_snd_inj [OF inv]] inv by (simp add: lru_wf_def)
  moreover have "set (AList.delete k (lru_cacheMap lru)) \<subseteq> set (lru_cacheMap lru)"
    by (auto simp: AList.delete_eq)
  ultimately have "lru_wf lru'"
    using inv d(1) by (auto simp: lru_wf_def lru'_def length_remove1 set_remove1_eq AList.distinct_delete)
  moreover have "lru_abs lru' = AList.delete k (lru_abs lru)"
    using lru_abs_remove [OF inv d(1)] d(3) by (simp add: lru_abs_def lru'_def lru_entry_def [abs_def])
  ultimately show ?thesis ..
qed

lemma lru_Remove_ok:
  assumes "lru_wf lru"
  shows "lru_wf (snd (lru_Remove k lru)) \<and> lru_abs (snd (lru_Remove k lru)) = AList.delete k (lru_abs lru) \<and>
     (fst (lru_Remove k lru) \<longleftrightarrow> k \<in> dom (map_of (lru_abs lru))) \<and>
     lru_Capacity (snd (lru_Remove k lru)) = lru_Capacity lru"
proof (cases "map_of (lru_cacheMap lru) k")
  case None
  then have "map_of (lru_abs lru) k = None" by (simp add: map_of_lru_abs [OF assms])
  then have "AList.delete k (lru_abs lru) = lru_abs lru" and "k \<notin> dom (map_of (lru_abs lru))"
    by (auto simp: map_of_eq_None_iff AList.delete_idem domIff)
  then show ?thesis using None assms by (simp add: lru_Remove_def)
next
  case (Some e)
  have "lru_inited lru" using assms by (simp add: lru_wf_def)
  then show ?thesis
    using Some lru_drop_ok [OF assms Some] lru_mapped(3) [OF assms Some]
    by (simp add: lru_Remove_def domIff map_of_lru_abs [OF assms])
qed

lemma lru_move_ok:
  assumes inv: "lru_wf lru" and e: "map_of (lru_cacheMap lru) k = Some e"
  defines "lru' \<equiv> lru\<lparr> lru_dlist := MoveToFront e (lru_dlist lru) \<rparr>"
  shows "lru_wf lru' \<and> lru_abs lru' = lru_entry lru e # AList.delete k (lru_abs lru)"
proof -
  note d = lru_mapped [OF inv e]
  have "length (remove1 e (lru_dlist lru)) = length (lru_dlist lru) - 1" "lru_dlist lru \<noteq> []"
    using d(1) by (auto simp: length_remove1)
  then have "lru_wf lru'"
    using inv d(1) by (auto simp: lru_wf_def lru'_def MoveToFront_def)
  moreover have "lru_abs lru' = lru_entry lru e # AList.delete k (lru_abs lru)"
    using lru_abs_remove [OF inv d(1)] d(3)
    by (simp add: lru_abs_def lru'_def MoveToFront_def lru_entry_def [abs_def])
  ultimately show ?thesis ..
qed

lemma lru_Get_ok:
  assumes "lru_wf lru" and "lru_Get now k lru = (r, err, lru')"
  shows "lru_wf lru' \<and> err = None \<and> lru_Capacity lru' = lru_Capacity lru \<and>
     r = (case map_of (lru_abs lru) k of None \<Rightarrow> None | Some (v, e) \<Rightarrow> if live now e then Some v else None) \<and>
     lru_abs lru' =
       (case map_of (lru_abs lru) k of
          None \<Rightarrow> lru_abs lru
        | Some ve \<Rightarrow> if live now (snd ve) then (k, ve) # AList.delete k (lru_abs lru) else lru_abs lru)"
proof (cases "map_of (lru_cacheMap lru) k")
  case None
  have "lru_inited lru" using assms(1) by (simp add: lru_wf_def)
  moreover have "map_of (lru_abs lru) k = None" using None by (simp add: map_of_lru_abs [OF assms(1)])
  ultimately show ?thesis using assms None by (auto simp: lru_Get_def)
next
  case (Some e)
  have "lru_entry lru e = (k, node_Value (lru_elems lru ! e), node_Expiration (lru_elems lru ! e))"
    using lru_mapped(3) [OF assms(1) Some] by (simp add: lru_entry_def)
  moreover have "lru_inited lru" using assms(1) by (simp add: lru_wf_def)
  ultimately show ?thesis
    using assms Some lru_move_ok [OF assms(1) Some]
    by (auto simp: lru_Get_def map_of_lru_abs [OF assms(1)] live_def Let_def split: if_splits)
qed


lemma update_fresh: "k \<notin> fst ` set m \<Longrightarrow> AList.update k n m = m @ [(k, n)]"
  by (induction m) auto

text \<open>Replacing value and expiration of the front element; pushing a fresh element; evicting the last one.\<close>

lemma lru_update_ok:
  fixes lru :: "('k, 'v) LRUCache" and v :: 'v and x :: int
  assumes inv: "lru_wf lru" and e: "map_of (lru_cacheMap lru) k = Some e"
  defines "lru' \<equiv> lru\<lparr> lru_dlist := MoveToFront e (lru_dlist lru),
       lru_elems := (lru_elems lru)[e := (lru_elems lru ! e)\<lparr> node_Value := v, node_Expiration := x \<rparr>] \<rparr>"
  shows "lru_wf lru' \<and> lru_abs lru' = (k, v, x) # AList.delete k (lru_abs lru)"
proof -
  let ?m = "lru\<lparr> lru_dlist := MoveToFront e (lru_dlist lru) \<rparr>"
  note d = lru_mapped [OF inv e] and m = lru_move_ok [OF inv e]
  have key: "node_Key (lru_elems lru' ! e') = node_Key (lru_elems lru ! e')" for e'
    using d(2) by (cases "e' = e") (simp_all add: lru'_def)
  have "e \<notin> set (remove1 e (lru_dlist lru))" using inv by (simp add: lru_wf_def)
  then have "map (lru_entry lru') (remove1 e (lru_dlist lru)) = map (lru_entry lru) (remove1 e (lru_dlist lru))"
    by (intro map_cong refl) (metis (no_types, lifting) LRUCache.select_convs(5) LRUCache.surjective
        LRUCache.update_convs(3,5) lru'_def lru_entry_def nth_list_update_neq)
  moreover have "lru_entry lru' e = (k, v, x)" using d by (simp add: lru_entry_def lru'_def)
  moreover have "lru_dlist lru' = e # remove1 e (lru_dlist lru)" by (simp add: lru'_def MoveToFront_def)
  ultimately have "lru_abs lru' = (k, v, x) # AList.delete k (lru_abs lru)"
    using lru_abs_remove [OF inv d(1)] d(3) by (simp add: lru_abs_def)
  moreover have "lru_wf lru'"
    using conjunct1 [OF m] key unfolding lru_wf_def by (simp add: lru'_def)
  ultimately show ?thesis by simp
qed

lemma lru_push_ok:
  fixes lru :: "('k, 'v) LRUCache" and v :: 'v and x :: int
  assumes inv: "lru_wf lru" and k: "map_of (lru_cacheMap lru) k = None"
  defines "lru' \<equiv> lru\<lparr> lru_elems := lru_elems lru @ [\<lparr> node_Key = k, node_Value = v, node_Expiration = x \<rparr>],
       lru_dlist := length (lru_elems lru) # lru_dlist lru,
       lru_cacheMap := AList.update k (length (lru_elems lru)) (lru_cacheMap lru) \<rparr>"
  shows "lru_abs lru' = (k, v, x) # lru_abs lru"
    and "lru_wf lru'"
proof -
  have len: "e < length (lru_elems lru)" if "e \<in> set (lru_dlist lru)" for e
    using lru_listed(2) [OF inv that] .
  then show "lru_abs lru' = (k, v, x) # lru_abs lru"
    by (auto simp: lru_abs_def lru'_def lru_entry_def nth_append)
  have fresh: "length (lru_elems lru) \<notin> set (lru_dlist lru)" using len by blast
  have upd: "AList.update k n (lru_cacheMap lru) = lru_cacheMap lru @ [(k, n)]" for n
    using k by (simp add: map_of_eq_None_iff update_fresh)
  have keys: "\<forall>(k', e) \<in> set (lru_cacheMap lru'). e < length (lru_elems lru') \<and> node_Key (lru_elems lru' ! e) = k'"
    using inv by (auto simp: lru'_def upd lru_wf_def nth_append)
  have st: "lru_inited lru'" "distinct (lru_dlist lru')"
      "distinct (map fst (lru_cacheMap lru'))" "set (lru_dlist lru') = snd ` set (lru_cacheMap lru')"
    using inv fresh k by (simp_all add: lru_wf_def lru'_def upd map_of_eq_None_iff)
  show "lru_wf lru'" using st keys unfolding lru_wf_def by simp
qed


lemma delete_last:
  assumes "distinct (map fst xs)" and "xs \<noteq> []"
  shows "AList.delete (fst (last xs)) xs = butlast xs"
proof -
  obtain ys y where xs: "xs = ys @ [y]" using assms(2) by (metis append_butlast_last_id)
  then have "fst y \<notin> fst ` set ys" using assms(1) by auto
  then have "filter (\<lambda>p. fst y \<noteq> fst p) ys = ys" by (auto simp: filter_id_conv)
  then show ?thesis using xs by (simp add: AList.delete_eq case_prod_beta')
qed

lemma lru_evict_ok:
  assumes wf: "lru_wf lru" and cap: "0 < lru_Capacity lru" and len: "int (lru_Size lru) \<le> lru_Capacity lru + 1"
  shows "lru_inv (lru_evict lru) \<and> lru_Capacity (lru_evict lru) = lru_Capacity lru \<and>
     lru_abs (lru_evict lru) = take (nat (lru_Capacity lru)) (lru_abs lru)"
proof (cases "int (lru_Size lru) \<le> lru_Capacity lru")
  case True
  then have "lru_evict lru = lru" by (simp add: lru_evict_def lru_Size_def)
  then show ?thesis using True wf cap by (simp add: lru_inv_def lru_Size_def)
next
  case False
  let ?e = "last (lru_dlist lru)" and ?k = "node_Key (lru_elems lru ! last (lru_dlist lru))"
  let ?l = "lru\<lparr> lru_cacheMap := AList.delete ?k (lru_cacheMap lru), lru_dlist := remove1 ?e (lru_dlist lru) \<rparr>"
  have ne: "lru_dlist lru \<noteq> []" and size: "length (lru_dlist lru) = Suc (nat (lru_Capacity lru))"
    using False cap len by (auto simp: lru_Size_def)
  then have e: "?e \<in> set (lru_dlist lru)" by simp
  have ev: "lru_evict lru = ?l" using False ne by (simp add: lru_evict_def lru_Size_def Let_def)
  note d = lru_drop_ok [OF wf lru_listed(1) [OF wf e]]
  have "fst (last (lru_abs lru)) = ?k" using ne by (simp add: lru_abs_def last_map)
  then have abs: "AList.delete ?k (lru_abs lru) = butlast (lru_abs lru)"
    using delete_last [OF lru_abs_distinct [OF wf]] ne by (metis length_greater_0_conv length_lru_abs)
  have "butlast (lru_abs lru) = take (nat (lru_Capacity lru)) (lru_abs lru)"
    using size by (simp add: butlast_conv_take)
  moreover have "int (length (lru_dlist ?l)) \<le> lru_Capacity lru" using size cap e by (simp add: length_remove1)
  ultimately show ?thesis using d abs ev cap by (simp add: lru_inv_def lru_Size_def)
qed

lemma lru_SetExpire_ok:
  assumes inv: "lru_inv lru" and call: "SetExpire now k v d lru = (err, lru')"
  shows "lru_inv lru' \<and> err = None \<and> lru_Capacity lru' = lru_Capacity lru \<and>
     lru_abs lru' = take (nat (lru_Capacity lru)) ((k, v, deadline now d) # AList.delete k (lru_abs lru))"
proof -
  have wf: "lru_wf lru" and st: "lru_inited lru" "length (lru_dlist lru) \<le> nat (lru_Capacity lru)" "0 < lru_Capacity lru"
    using inv by (auto simp: lru_inv_def lru_wf_def lru_Size_def)
  show ?thesis
  proof (cases "map_of (lru_cacheMap lru) k")
    case (Some e)
    note u = lru_update_ok [OF wf Some, where v = v and x = "deadline now d"] and m = lru_mapped(1) [OF wf Some]
    have "length (lru_dlist lru') = length (lru_dlist lru)"
      using call Some st m length_pos_if_in_set [OF m]
      by (auto simp: SetExpire_def Let_def MoveToFront_def length_remove1)
    moreover have "lru_wf lru' \<and> lru_abs lru' = (k, v, deadline now d) # AList.delete k (lru_abs lru)"
        "err = None" "lru_Capacity lru' = lru_Capacity lru"
      using call Some st u by (auto simp: SetExpire_def deadline_def Let_def)
    moreover from this have "length ((k, v, deadline now d) # AList.delete k (lru_abs lru)) = length (lru_dlist lru')"
      by (metis length_lru_abs)
    ultimately show ?thesis using st by (simp add: lru_inv_def lru_Size_def)
  next
    case None
    note p = lru_push_ok [OF wf None, where v = v and x = "deadline now d"]
    have "map_of (lru_abs lru) k = None" using None by (simp add: map_of_lru_abs [OF wf])
    then have "AList.delete k (lru_abs lru) = lru_abs lru" by (simp add: map_of_eq_None_iff AList.delete_idem)
    moreover note lru_evict_ok [OF p(2)]
    ultimately show ?thesis using call None st p(1) by (auto simp: SetExpire_def deadline_def Let_def lru_Size_def)
  qed
qed


section \<open>The interface of a bounded cache\<close>

text \<open>
  What a client of a cache relies on. \<open>view c\<close> is what the cache holds; \<open>life c\<close> how long an entry
  lives, not positive for ever; \<open>forget d\<close> takes out the keys that \<open>forgets d\<close> names. The cache may lose
  entries when a new one is set, but it never makes one up.
\<close>

datatype ('k, 'v, 'd) cache_op = OpSet int 'k 'v | OpGet int 'k | OpForget 'd

primrec cache_step ::
  "(int \<Rightarrow> 'k \<Rightarrow> 'v \<Rightarrow> 'c \<Rightarrow> 'c) \<Rightarrow> (int \<Rightarrow> 'k \<Rightarrow> 'c \<Rightarrow> 'v option \<times> 'c) \<Rightarrow> ('d \<Rightarrow> 'c \<Rightarrow> 'c) \<Rightarrow>
   ('k, 'v, 'd) cache_op \<Rightarrow> 'c \<Rightarrow> 'c" where
  "cache_step put look forget (OpSet t k v) c = put t k v c"
| "cache_step put look forget (OpGet t k) c = snd (look t k c)"
| "cache_step put look forget (OpForget d) c = forget d c"

text \<open>The same operations on an unbounded map, and the operations that leave the entry of a key alone.\<close>

primrec ideal_step ::
  "('d \<Rightarrow> 'k \<Rightarrow> bool) \<Rightarrow> int \<Rightarrow> ('k, 'v, 'd) cache_op \<Rightarrow> ('k \<Rightarrow> ('v \<times> int) option) \<Rightarrow> 'k \<Rightarrow> ('v \<times> int) option" where
  "ideal_step forgets l (OpSet t k v) m = m(k \<mapsto> (v, deadline t l))"
| "ideal_step forgets l (OpGet t k) m = m"
| "ideal_step forgets l (OpForget d) m = (\<lambda>k. if forgets d k then None else m k)"

definition keeps :: "('d \<Rightarrow> 'k \<Rightarrow> bool) \<Rightarrow> 'k \<Rightarrow> ('k, 'v, 'd) cache_op \<Rightarrow> bool" where
  "keeps forgets k x = (case x of OpSet _ k' _ \<Rightarrow> k' \<noteq> k | OpGet _ _ \<Rightarrow> True | OpForget d \<Rightarrow> \<not> forgets d k)"

locale bounded_cache =
  fixes inv :: "'c \<Rightarrow> bool"
    and view :: "'c \<Rightarrow> 'k \<Rightarrow> ('v \<times> int) option"
    and life :: "'c \<Rightarrow> int"
    and put :: "int \<Rightarrow> 'k \<Rightarrow> 'v \<Rightarrow> 'c \<Rightarrow> 'c"
    and look :: "int \<Rightarrow> 'k \<Rightarrow> 'c \<Rightarrow> 'v option \<times> 'c"
    and forget :: "'d \<Rightarrow> 'c \<Rightarrow> 'c"
    and forgets :: "'d \<Rightarrow> 'k \<Rightarrow> bool"
  assumes put_inv: "inv c \<Longrightarrow> inv (put t k v c) \<and> life (put t k v c) = life c"
    and put_view: "inv c \<Longrightarrow> view (put t k v c) \<subseteq>\<^sub>m (view c)(k \<mapsto> (v, deadline t (life c)))"
    and look_inv: "inv c \<Longrightarrow> inv (snd (look t k c)) \<and> life (snd (look t k c)) = life c"
    and look_view: "inv c \<Longrightarrow> view (snd (look t k c)) = view c"
    and look_hit: "inv c \<Longrightarrow> fst (look t k c) = Some v \<longleftrightarrow> (\<exists>e. view c k = Some (v, e) \<and> live t e)"
    and forget_inv: "inv c \<Longrightarrow> inv (forget d c) \<and> life (forget d c) = life c"
    and forget_view: "inv c \<Longrightarrow> view (forget d c) = (\<lambda>k. if forgets d k then None else view c k)"
begin

abbreviation run1 :: "('k, 'v, 'd) cache_op \<Rightarrow> 'c \<Rightarrow> 'c" where
  "run1 \<equiv> cache_step put look forget"

abbreviation ideal1 :: "int \<Rightarrow> ('k, 'v, 'd) cache_op \<Rightarrow> ('k \<Rightarrow> ('v \<times> int) option) \<Rightarrow> 'k \<Rightarrow> ('v \<times> int) option" where
  "ideal1 \<equiv> ideal_step forgets"

lemma run1_ok:
  assumes "inv c" and "view c \<subseteq>\<^sub>m m"
  shows "inv (run1 x c) \<and> life (run1 x c) = life c \<and> view (run1 x c) \<subseteq>\<^sub>m ideal1 (life c) x m"
proof (cases x)
  case (OpSet t k v)
  have "(view c)(k \<mapsto> (v, deadline t (life c))) \<subseteq>\<^sub>m m(k \<mapsto> (v, deadline t (life c)))"
    using assms(2) by (simp add: map_le_upd)
  then show ?thesis using OpSet put_inv [OF assms(1)] map_le_trans [OF put_view [OF assms(1)]] by simp
next
  case (OpGet t k)
  then show ?thesis using look_inv [OF assms(1)] look_view [OF assms(1)] assms(2) by simp
next
  case (OpForget d)
  then show ?thesis using forget_inv [OF assms(1)] forget_view [OF assms(1)] assms(2)
    by (auto simp: map_le_def dom_def)
qed

lemma run_ok:
  "inv c \<Longrightarrow> view c \<subseteq>\<^sub>m m \<Longrightarrow>
   inv (fold run1 ops c) \<and> life (fold run1 ops c) = life c \<and> view (fold run1 ops c) \<subseteq>\<^sub>m fold (ideal1 (life c)) ops m"
proof (induction ops arbitrary: c m)
  case Nil
  then show ?case by simp
next
  case (Cons x ops)
  note r = run1_ok [OF Cons.prems, of x]
  show ?case using Cons.IH [OF conjunct1 [OF r] conjunct2 [OF conjunct2 [OF r]]] r by simp
qed

text \<open>Where an entry of the ideal map comes from.\<close>

lemma ideal_from:
  "fold (ideal1 l) ops Map.empty k = Some (v, e) \<Longrightarrow>
   \<exists>before t after. ops = before @ OpSet t k v # after \<and> list_all (keeps forgets k) after \<and> e = deadline t l"
proof (induction ops arbitrary: v e rule: rev_induct)
  case Nil
  then show ?case by simp
next
  case (snoc x ops)
  let ?m = "fold (ideal1 l) ops Map.empty"
  have m: "ideal1 l x ?m k = Some (v, e)" using snoc.prems by simp
  have old: ?case if was: "?m k = Some (v, e)" and kept: "keeps forgets k x"
  proof -
    obtain before t after where "ops = before @ OpSet t k v # after" "list_all (keeps forgets k) after" "e = deadline t l"
      using snoc.IH [OF was] by blast
    then have "ops @ [x] = before @ OpSet t k v # (after @ [x])" "list_all (keeps forgets k) (after @ [x])" "e = deadline t l"
      using kept by simp_all
    then show ?thesis by blast
  qed
  show ?case
  proof (cases "\<exists>t. x = OpSet t k v \<and> e = deadline t l")
    case True
    then show ?thesis by (metis list.pred_inject(1))
  next
    case False
    then have "?m k = Some (v, e)" "keeps forgets k x"
      using m by (cases x; auto simp: keeps_def split: if_splits)+
    then show ?thesis by (rule old)
  qed
qed

lemma hit_is_last_put:
  assumes "inv c" and "view c = Map.empty" and "fst (look t k (fold run1 ops c)) = Some v"
  shows "\<exists>before t0 after. ops = before @ OpSet t0 k v # after \<and> list_all (keeps forgets k) after \<and> live t (deadline t0 (life c))"
proof -
  have r: "inv (fold run1 ops c)" "view (fold run1 ops c) \<subseteq>\<^sub>m fold (ideal1 (life c)) ops Map.empty"
    using run_ok [OF assms(1), of Map.empty] assms(2) by simp_all
  obtain e where e: "view (fold run1 ops c) k = Some (v, e)" "live t e" using look_hit [OF r(1)] assms(3) by blast
  then have "fold (ideal1 (life c)) ops Map.empty k = Some (v, e)" using r(2) by (metis domI map_le_def)
  from ideal_from [OF this] e(2) show ?thesis by blast
qed

end

text \<open>A cache of positive capacity holds what was just put into it.\<close>

locale holding_cache = bounded_cache +
  assumes put_holds: "inv c \<Longrightarrow> view (put t k v c) k = Some (v, deadline t (life c))"
begin

lemma put_then_look:
  assumes "inv c" and "life c \<le> 0 \<or> t' < int64 (t + life c)"
  shows "fst (look t' k (put t k v c)) = Some v"
  using look_hit [of "put t k v c"] put_inv [OF assms(1)] put_holds [OF assms(1)] assms(2)
  by (auto simp: deadline_def live_def)

end


section \<open>The caches of the code provide it\<close>

definition lru_view :: "('k, 'v) LRUCache \<Rightarrow> 'k \<Rightarrow> ('v \<times> int) option" where
  "lru_view lru = map_of (lru_abs lru)"

lemma map_of_take: "map_of (take n xs) \<subseteq>\<^sub>m map_of xs"
  by (metis append_take_drop_id map_add_le_mapI map_le_refl map_le_map_add map_of_append map_le_iff_map_add_commute
      map_add_assoc map_add_find_right map_le_def domIff not_None_eq)

lemma lru_SetExpire_view:
  assumes "lru_inv lru" and "SetExpire now k v d lru = (err, lru')"
  shows "lru_view lru' \<subseteq>\<^sub>m (lru_view lru)(k \<mapsto> (v, deadline now d)) \<and> lru_view lru' k = Some (v, deadline now d)"
proof -
  note s = lru_SetExpire_ok [OF assms]
  have "map_of ((k, v, deadline now d) # AList.delete k (lru_abs lru)) = (lru_view lru)(k \<mapsto> (v, deadline now d))"
    by (auto simp: lru_view_def AList.delete_conv)
  moreover have "nat (lru_Capacity lru) \<noteq> 0" using assms(1) by (simp add: lru_inv_def)
  ultimately show ?thesis
    using s map_of_take [of "nat (lru_Capacity lru)" "(k, v, deadline now d) # AList.delete k (lru_abs lru)"]
    by (auto simp: lru_view_def take_Cons')
qed

lemma lru_Get_view:
  assumes inv: "lru_inv lru" and call: "lru_Get now k lru = (r, err, lru')"
  shows "lru_view lru' = lru_view lru \<and> (r = Some v \<longleftrightarrow> (\<exists>e. lru_view lru k = Some (v, e) \<and> live now e))"
proof -
  have "lru_wf lru" using inv by (simp add: lru_inv_def)
  note g = lru_Get_ok [OF this call]
  have "lru_view lru' = lru_view lru"
    using g by (auto simp: lru_view_def AList.delete_conv fun_eq_iff split: option.splits if_splits)
  then show ?thesis using g by (auto simp: lru_view_def split: option.splits if_splits)
qed

lemma lru_inv_keep:
  assumes inv: "lru_inv lru"
  shows "lru_inv (snd (snd (lru_Get now k lru)))" and "lru_inv (snd (lru_Remove k lru))"
    and "lru_view (snd (lru_Remove k lru)) = (lru_view lru)(k := None)"
proof -
  have wf: "lru_wf lru" using inv by (simp add: lru_inv_def)
  obtain r err lru' where g: "lru_Get now k lru = (r, err, lru')" by (metis prod_cases3)
  have len: "length (AList.delete k (lru_abs lru)) \<le> length (lru_abs lru)" by (rule AList.length_delete_le)
  have lt: "length (AList.delete k (lru_abs lru)) < length (lru_abs lru)" if "map_of (lru_abs lru) k = Some x" for x
    using length_filter_less [OF map_of_SomeD [OF that], of "\<lambda>p. k \<noteq> fst p"] by (simp add: AList.delete_eq case_prod_beta')
  have "length (lru_abs lru') \<le> length (lru_abs lru)"
    using lru_Get_ok [OF wf g] lt by (auto simp: Suc_le_eq split: option.splits if_splits)
  then show "lru_inv (snd (snd (lru_Get now k lru)))"
    using lru_Get_ok [OF wf g] g inv unfolding lru_inv_def lru_Size_def by (auto simp del: length_lru_abs simp: length_lru_abs [symmetric])
  have "length (lru_abs (snd (lru_Remove k lru))) \<le> length (lru_abs lru)" using lru_Remove_ok [OF wf, of k] len by simp
  then show "lru_inv (snd (lru_Remove k lru))" using lru_Remove_ok [OF wf, of k] inv
    unfolding lru_inv_def lru_Size_def by (auto simp del: length_lru_abs simp: length_lru_abs [symmetric])
  show "lru_view (snd (lru_Remove k lru)) = (lru_view lru)(k := None)"
    using lru_Remove_ok [OF wf, of k] by (auto simp: lru_view_def AList.delete_conv)
qed

interpretation lru: holding_cache lru_inv lru_view "\<lambda>_. d" "\<lambda>t k v c. snd (SetExpire t k v d c)"
  "\<lambda>t k c. (fst (lru_Get t k c), snd (snd (lru_Get t k c)))" "\<lambda>k c. snd (lru_Remove k c)" "(=)"
  for d :: int
proof unfold_locales
  fix c :: "('a, 'b) LRUCache" and t k v
  assume inv: "lru_inv c"
  obtain err c' where s: "SetExpire t k v d c = (err, c')" by (metis prod.collapse)
  obtain r err' c'' where g: "lru_Get t k c = (r, err', c'')" by (metis prod_cases3)
  show "lru_inv (snd (SetExpire t k v d c)) \<and> d = d" using lru_SetExpire_ok [OF inv s] s by simp
  show "lru_view (snd (SetExpire t k v d c)) \<subseteq>\<^sub>m (lru_view c)(k \<mapsto> (v, deadline t d))"
    "lru_view (snd (SetExpire t k v d c)) k = Some (v, deadline t d)"
    using lru_SetExpire_view [OF inv s] s by simp_all
  show "lru_inv (snd (fst (lru_Get t k c), snd (snd (lru_Get t k c)))) \<and> d = d" using lru_inv_keep(1) [OF inv] by simp
  show "lru_view (snd (fst (lru_Get t k c), snd (snd (lru_Get t k c)))) = lru_view c"
    "fst (fst (lru_Get t k c), snd (snd (lru_Get t k c))) = Some v \<longleftrightarrow> (\<exists>e. lru_view c k = Some (v, e) \<and> live t e)"
    using lru_Get_view [OF inv g] g by simp_all
  show "lru_inv (snd (lru_Remove k c)) \<and> d = d" using lru_inv_keep(2) [OF inv] by simp
  show "lru_view (snd (lru_Remove k c)) = (\<lambda>k'. if k = k' then None else lru_view c k')"
    using lru_inv_keep(3) [OF inv, of k] by auto
qed


text \<open>The cache of directory entries: removing is forgetting one key (\<^const>\<open>Inl\<close>) or a prefix (\<^const>\<open>Inr\<close>).\<close>

definition dc_inv :: "'v DentryCache \<Rightarrow> bool" where
  "dc_inv cache \<longleftrightarrow> (case dc_dentryCache cache of None \<Rightarrow> True | Some lru \<Rightarrow> lru_inv lru)"

definition dc_view :: "'v DentryCache \<Rightarrow> string \<Rightarrow> ('v \<times> int) option" where
  "dc_view cache = (case dc_dentryCache cache of None \<Rightarrow> Map.empty | Some lru \<Rightarrow> lru_view lru)"

definition dc_look :: "int \<Rightarrow> string \<Rightarrow> 'v DentryCache \<Rightarrow> 'v option \<times> 'v DentryCache" where
  "dc_look now k cache = (case DentryCache_Get now k cache of (v, _, cache') \<Rightarrow> (v, cache'))"

definition dc_forget :: "(string list \<Rightarrow> string list) \<Rightarrow> string + string \<Rightarrow> 'v DentryCache \<Rightarrow> 'v DentryCache" where
  "dc_forget ord d cache =
     (case d of Inl k \<Rightarrow> snd (DentryCache_Remove k cache) | Inr p \<Rightarrow> RemovePrefix ord p cache)"

definition dc_forgets :: "string + string \<Rightarrow> string \<Rightarrow> bool" where
  "dc_forgets d k = (case d of Inl k' \<Rightarrow> k' = k | Inr p \<Rightarrow> prefix p k)"

definition reorders :: "('a list \<Rightarrow> 'a list) \<Rightarrow> bool" where
  "reorders f \<longleftrightarrow> (\<forall>xs. set (f xs) = set xs)"

lemma RemovePrefix_loop_ok:
  "lru_inv lru \<Longrightarrow>
   lru_inv (RemovePrefix_loop ks lru) \<and>
   lru_view (RemovePrefix_loop ks lru) = (\<lambda>k. if k \<in> set ks then None else lru_view lru k)"
proof (induction ks arbitrary: lru)
  case Nil
  then show ?case by simp
next
  case (Cons k ks)
  then show ?case using lru_inv_keep(2,3) [OF Cons.prems, of k] Cons.IH [of "snd (lru_Remove k lru)"]
    by (auto simp: fun_eq_iff)
qed

lemma lru_view_dom: "lru_inv lru \<Longrightarrow> lru_view lru k \<noteq> None \<longleftrightarrow> k \<in> fst ` set (lru_cacheMap lru)"
  by (metis lru_inv_def lru_view_def map_of_eq_None_iff map_of_lru_abs option.map_disc_iff)

lemma RemovePrefix_ok:
  assumes inv: "dc_inv cache" and ord: "reorders ord"
  shows "dc_inv (RemovePrefix ord p cache) \<and> dc_expireMs (RemovePrefix ord p cache) = dc_expireMs cache \<and>
     dc_view (RemovePrefix ord p cache) = (\<lambda>k. if prefix p k then None else dc_view cache k)"
proof (cases "dc_dentryCache cache")
  case None
  then show ?thesis by (auto simp: RemovePrefix_def dc_inv_def dc_view_def)
next
  case (Some lru)
  then have lru: "lru_inv lru" "lru_inited lru" using inv by (auto simp: dc_inv_def lru_inv_def lru_wf_def)
  let ?ks = "GetKeys ord p (\<lambda>cacheKey pre. prefix pre cacheKey) lru"
  have "k \<in> set ?ks \<longleftrightarrow> prefix p k \<and> lru_view lru k \<noteq> None" for k
    using lru_view_dom [OF lru(1), of k] ord lru(2) by (auto simp: GetKeys_def reorders_def)
  then have "(if k \<in> set ?ks then None else lru_view lru k) = (if prefix p k then None else lru_view lru k)" for k
    by (cases "lru_view lru k") simp_all
  then show ?thesis using Some RemovePrefix_loop_ok [OF lru(1), of ?ks]
    by (simp add: RemovePrefix_def dc_inv_def dc_view_def fun_eq_iff)
qed

lemma dc_Remove_ok:
  assumes "dc_inv cache"
  shows "dc_inv (snd (DentryCache_Remove k cache)) \<and> dc_expireMs (snd (DentryCache_Remove k cache)) = dc_expireMs cache \<and>
     dc_view (snd (DentryCache_Remove k cache)) = (dc_view cache)(k := None)"
proof (cases "dc_dentryCache cache")
  case None
  then show ?thesis using assms by (auto simp: DentryCache_Remove_def dc_view_def)
next
  case (Some lru)
  then have "lru_inv lru" using assms by (simp add: dc_inv_def)
  then show ?thesis using Some lru_inv_keep(2,3) [of lru k]
    by (simp add: DentryCache_Remove_def dc_view_def dc_inv_def case_prod_beta)
qed

lemma dc_Set_ok:
  assumes "dc_inv cache" and "DentryCache_Set now k v cache = (err, cache')"
  shows "dc_inv cache' \<and> dc_expireMs cache' = dc_expireMs cache \<and>
     dc_view cache' \<subseteq>\<^sub>m (dc_view cache)(k \<mapsto> (v, deadline now (int64 (dc_expireMs cache * 1000000))))"
proof (cases "dc_dentryCache cache")
  case None
  then show ?thesis using assms by (auto simp: DentryCache_Set_def dc_view_def map_le_def)
next
  case (Some lru)
  obtain e lru' where s: "SetExpire now k v (int64 (dc_expireMs cache * 1000000)) lru = (e, lru')" by (metis prod.collapse)
  have "lru_inv lru" using Some assms(1) by (simp add: dc_inv_def)
  then show ?thesis using Some assms(2) s lru_SetExpire_ok [OF _ s] lru_SetExpire_view [OF _ s]
    by (auto simp: DentryCache_Set_def dc_view_def dc_inv_def)
qed

lemma dc_look_ok:
  assumes "dc_inv cache"
  shows "dc_inv (snd (dc_look now k cache)) \<and> dc_expireMs (snd (dc_look now k cache)) = dc_expireMs cache \<and>
     dc_view (snd (dc_look now k cache)) = dc_view cache \<and>
     (fst (dc_look now k cache) = Some v \<longleftrightarrow> (\<exists>e. dc_view cache k = Some (v, e) \<and> live now e))"
proof (cases "dc_dentryCache cache")
  case None
  then show ?thesis using assms by (simp add: dc_look_def DentryCache_Get_def dc_view_def)
next
  case (Some lru)
  obtain r err lru' where g: "lru_Get now k lru = (r, err, lru')" by (metis prod_cases3)
  have inv: "lru_inv lru" using Some assms by (simp add: dc_inv_def)
  then show ?thesis using Some g lru_inv_keep(1) [OF inv, of now k] lru_Get_view [OF inv g]
    by (simp add: dc_look_def DentryCache_Get_def dc_view_def dc_inv_def)
qed

lemma NewDentryCache_ok:
  "c = NewDentryCache n ms \<Longrightarrow> dc_inv c \<and> dc_view c = Map.empty \<and> dc_expireMs c = ms"
  by (cases "dc_dentryCache c")
     (auto dest!: NewLRUCache_ok simp: NewDentryCache_def dc_inv_def dc_view_def lru_view_def)

text \<open>Whatever the order in which Go ranges over a map.\<close>

locale map_order =
  fixes ord :: "string list \<Rightarrow> string list"
  assumes ord_set: "reorders ord"

sublocale map_order \<subseteq> dentry: bounded_cache dc_inv dc_view "\<lambda>c. int64 (dc_expireMs c * 1000000)"
  "\<lambda>t k v c. snd (DentryCache_Set t k v c)" dc_look "dc_forget ord" dc_forgets
proof unfold_locales
  fix c :: "'a DentryCache" and t k v d
  assume inv: "dc_inv c"
  obtain err c' where s: "DentryCache_Set t k v c = (err, c')" by (metis prod.collapse)
  show "dc_inv (snd (DentryCache_Set t k v c)) \<and> int64 (dc_expireMs (snd (DentryCache_Set t k v c)) * 1000000) = int64 (dc_expireMs c * 1000000)"
    "dc_view (snd (DentryCache_Set t k v c)) \<subseteq>\<^sub>m (dc_view c)(k \<mapsto> (v, deadline t (int64 (dc_expireMs c * 1000000))))"
    using dc_Set_ok [OF inv s] s by simp_all
  show "dc_inv (snd (dc_look t k c)) \<and> int64 (dc_expireMs (snd (dc_look t k c)) * 1000000) = int64 (dc_expireMs c * 1000000)"
    "dc_view (snd (dc_look t k c)) = dc_view c"
    "fst (dc_look t k c) = Some v \<longleftrightarrow> (\<exists>e. dc_view c k = Some (v, e) \<and> live t e)"
    using dc_look_ok [OF inv] by simp_all
  show "dc_inv (dc_forget ord d c) \<and> int64 (dc_expireMs (dc_forget ord d c) * 1000000) = int64 (dc_expireMs c * 1000000)"
    "dc_view (dc_forget ord d c) = (\<lambda>k. if dc_forgets d k then None else dc_view c k)"
    using RemovePrefix_ok [OF inv ord_set] dc_Remove_ok [OF inv]
    by (auto simp: dc_forget_def dc_forgets_def split: sum.splits)
qed

context map_order
begin

lemma dentry_run_hit:
  assumes c: "c = NewDentryCache cacheSize expireMs"
    and "fst (dc_look now k (fold (cache_step (\<lambda>t k v c. snd (DentryCache_Set t k v c)) dc_look (dc_forget ord)) ops c)) = Some v"
  shows "\<exists>before t after. ops = before @ OpSet t k v # after \<and> list_all (keeps dc_forgets k) after \<and>
     live now (deadline t (int64 (expireMs * 1000000)))"
  using dentry.hit_is_last_put [OF _ _ assms(2)] NewDentryCache_ok [OF c] by simp

lemma dentry_run_inv:
  assumes c: "c = NewDentryCache cacheSize expireMs"
  shows "dc_inv (fold (cache_step (\<lambda>t k v c. snd (DentryCache_Set t k v c)) dc_look (dc_forget ord)) ops c)"
  using dentry.run_ok [of c Map.empty] NewDentryCache_ok [OF c] by simp

end

interpretation in_order: map_order "\<lambda>ks. ks"
  by unfold_locales (simp add: reorders_def)

interpretation backwards: map_order rev
  by unfold_locales (simp add: reorders_def)


section \<open>Properties\<close>

text \<open>
  C19: Over every sequence of calls of a new cache of directory entries (\<^verbatim>\<open>Set\<close>, \<^verbatim>\<open>Get\<close>, \<^verbatim>\<open>Remove\<close>, \<^verbatim>\<open>RemovePrefix\<close>,
  whatever the order in which the map is ranged over), a hit returns the value of the last \<^verbatim>\<open>Set\<close> of its
  key, after which no \<^verbatim>\<open>Remove\<close> or \<^verbatim>\<open>RemovePrefix\<close> hit the key, and whose time to live is not over. Evictions
  lose entries but never bring back an old one.
\<close>

theorem dentry_hit_is_last_set:
  assumes "reorders ord"
    and "fst (dc_look now k (fold (cache_step (\<lambda>t k v c. snd (DentryCache_Set t k v c)) dc_look (dc_forget ord)) ops
               (NewDentryCache cacheSize expireMs))) = Some v"
  shows "\<exists>before t after. ops = before @ OpSet t k v # after \<and> list_all (keeps dc_forgets k) after \<and>
     live now (deadline t (int64 (expireMs * 1000000)))"
proof -
  have "map_order ord" using assms(1) by (rule map_order.intro)
  from map_order.dentry_run_hit [OF this refl assms(2)] show ?thesis .
qed

theorem dentry_hit_is_last_set_witness:
  "fst (dc_look 7 ''/a'' (fold (cache_step (\<lambda>t k v c. snd (DentryCache_Set t k v c)) dc_look (dc_forget rev))
      [OpSet 1 ''/a'' (1 :: int), OpSet 2 ''/b'' 2, OpSet 3 ''/a'' 3, OpForget (Inr ''/b''), OpSet 4 ''/c'' 4] (NewDentryCache 2 500))) = Some 3 \<and>
   (\<exists>before t after. [OpSet 1 ''/a'' (1 :: int), OpSet 2 ''/b'' 2, OpSet 3 ''/a'' 3, OpForget (Inr ''/b''), OpSet 4 ''/c'' 4] =
      before @ OpSet t ''/a'' 3 # after \<and> list_all (keeps dc_forgets ''/a'') after \<and> live 7 (deadline t (int64 (500 * 1000000))))"
proof -
  have hit: "fst (dc_look 7 ''/a'' (fold (cache_step (\<lambda>t k v c. snd (DentryCache_Set t k v c)) dc_look (dc_forget rev))
      [OpSet 1 ''/a'' (1 :: int), OpSet 2 ''/b'' 2, OpSet 3 ''/a'' 3, OpForget (Inr ''/b''), OpSet 4 ''/c'' 4] (NewDentryCache 2 500))) = Some 3"
    by code_simp
  have "reorders (rev :: string list \<Rightarrow> string list)" by (simp add: reorders_def)
  from dentry_hit_is_last_set [OF this hit] hit show ?thesis by blast
qed

text \<open>
  C20: The list and map of the LRU cache refine one list of entries, most recently used first: \<^verbatim>\<open>SetExpire\<close>
  puts its entry in front in place of an older one of the same key and cuts the list at the
  capacity, so exactly the least recently used entry goes when there is no room; a \<^verbatim>\<open>Get\<close> that hits
  moves its entry to the front and one that misses or finds an expired entry changes nothing;
  \<^verbatim>\<open>Remove\<close> takes the entry of its key out; and the cache stays well formed and within its capacity.
\<close>

theorem lru_refines_recency_list:
  assumes "lru_inv lru"
    and "SetExpire now k v d lru = (serr, lru1)" and "lru_Get now k lru = (r, gerr, lru2)" and "lru_Remove k lru = (found, lru3)"
  shows "(lru_inv lru1 \<and> serr = None \<and>
        lru_abs lru1 = take (nat (lru_Capacity lru)) ((k, v, deadline now d) # AList.delete k (lru_abs lru))) \<and>
     (lru_inv lru2 \<and> gerr = None \<and>
        (case map_of (lru_abs lru) k of
           None \<Rightarrow> r = None \<and> lru_abs lru2 = lru_abs lru
         | Some (w, e) \<Rightarrow>
             if live now e then r = Some w \<and> lru_abs lru2 = (k, w, e) # AList.delete k (lru_abs lru)
             else r = None \<and> lru_abs lru2 = lru_abs lru)) \<and>
     (lru_inv lru3 \<and> lru_abs lru3 = AList.delete k (lru_abs lru) \<and> (found \<longleftrightarrow> k \<in> dom (map_of (lru_abs lru))))"
proof -
  have wf: "lru_wf lru" using assms(1) by (simp add: lru_inv_def)
  note s = lru_SetExpire_ok [OF assms(1,2)] and g = lru_Get_ok [OF wf assms(3)] and r = lru_Remove_ok [OF wf, of k]
  have "lru_inv lru2" "lru_inv lru3" using lru_inv_keep(1) [OF assms(1), of now k] lru_inv_keep(2) [OF assms(1), of k] assms(3,4)
    by simp_all
  moreover have "case map_of (lru_abs lru) k of
           None \<Rightarrow> r = None \<and> lru_abs lru2 = lru_abs lru
         | Some (w, e) \<Rightarrow>
             if live now e then r = Some w \<and> lru_abs lru2 = (k, w, e) # AList.delete k (lru_abs lru)
             else r = None \<and> lru_abs lru2 = lru_abs lru"
    using g by (auto split: option.splits)
  ultimately show ?thesis using s g r assms(4) by simp
qed

definition demo_lru :: "(string, int) LRUCache" where
  "demo_lru = snd (SetExpire 2 ''/b'' 2 0 (snd (SetExpire 1 ''/a'' 1 0 (the (NewLRUCache 2)))))"

theorem lru_refines_recency_list_witness:
  "\<exists>serr lru1 r gerr lru2 found lru3.
     SetExpire 3 ''/c'' 3 0 demo_lru = (serr, lru1) \<and> lru_Get 3 ''/c'' demo_lru = (r, gerr, lru2) \<and>
     lru_Remove ''/c'' demo_lru = (found, lru3) \<and> lru_abs lru1 = [(''/c'', 3, 0), (''/b'', 2, 0)] \<and> r = None \<and> \<not> found"
proof -
  obtain serr lru1 where s: "SetExpire 3 ''/c'' 3 0 demo_lru = (serr, lru1)" by (metis prod.collapse)
  obtain r gerr lru2 where g: "lru_Get 3 ''/c'' demo_lru = (r, gerr, lru2)" by (metis prod_cases3)
  obtain found lru3 where d: "lru_Remove ''/c'' demo_lru = (found, lru3)" by (metis prod.collapse)
  have inv: "lru_inv demo_lru" by code_simp
  have "lru_abs demo_lru = [(''/b'', 2, 0), (''/a'', 1, 0)]" "lru_Capacity demo_lru = 2" by code_simp+
  then show ?thesis using lru_refines_recency_list [OF inv s g d] s g d by (auto simp: deadline_def)
qed

text \<open>
  \<^verbatim>\<open>RemovePrefix\<close> takes out of the cache of directory entries exactly the entries whose path starts
  with the prefix, in whatever order the map is ranged over, and keeps the cache well formed.
\<close>

theorem remove_prefix_exact:
  assumes "dc_inv cache" and "reorders ord"
  shows "dc_inv (RemovePrefix ord p cache) \<and>
     (\<forall>k. dc_view (RemovePrefix ord p cache) k = (if prefix p k then None else dc_view cache k))"
  using RemovePrefix_ok [OF assms, of p] by simp

theorem remove_prefix_exact_witness:
  "dc_view (RemovePrefix rev ''/a'' \<lparr> dc_dentryCache = Some demo_lru, dc_expireMs = 0 \<rparr>) ''/b'' = Some (2, 0) \<and>
   dc_view (RemovePrefix rev ''/a'' \<lparr> dc_dentryCache = Some demo_lru, dc_expireMs = 0 \<rparr>) ''/a'' = None"
proof -
  have inv: "dc_inv \<lparr> dc_dentryCache = Some demo_lru, dc_expireMs = 0 \<rparr>" by code_simp
  moreover have "reorders (rev :: string list \<Rightarrow> string list)" by (simp add: reorders_def)
  moreover have "dc_view \<lparr> dc_dentryCache = Some demo_lru, dc_expireMs = 0 \<rparr> ''/b'' = Some (2, 0)" by code_simp
  ultimately show ?thesis using remove_prefix_exact [OF inv, of rev "''/a''"] by simp
qed

end
