(* ===== verification/Cfa_Mount.thy ===== *)
theory Cfa_Mount
  imports Cfa_RWCache Cfa_Lru
begin

text \<open>
  The mount point, \<^verbatim>\<open>lib/libfs/mount.go\<close>, and \<^verbatim>\<open>lib/libfs/stat.go\<close>: the state \<^verbatim>\<open>CfaMountInfo\<close>, its life cycle,
  the check that every operation starts with, and the attributes of files. The calls of the server
  are those of the proxy client; the state of the mount and the state \<open>s\<close> of the server are passed
  along. Logging and statistics are left out.
\<close>

unbundle bit_operations_syntax

section \<open>State\<close>

datatype MountStu = MountStuNew | MountStuMounted | MountStuDel

text \<open>\<open>m_stopped\<close> tells whether the channel \<^verbatim>\<open>stop\<close> has been closed.\<close>

record CfaMountInfo =
  m_Path :: string
  m_MountStu :: MountStu
  m_MountMode :: u32
  m_LsSize :: u16
  m_fileCache :: FileCache
  m_dentryCache :: "Dentry DentryCache"
  m_rwCache :: "RWCache option"
  m_proxyClient :: ProxyClient
  m_stopped :: bool

text \<open>
  What an operation finds around it: the exchange with the server, the time on the clock, the order
  in which Go ranges over the map of the directory entries, the order in which the goroutines of
  a flush run and report, and the goroutines that unmounting waits for.
\<close>

record 's Env =
  env_post :: "'s poster"
  env_now :: int
  env_ord :: "string list \<Rightarrow> string list"
  env_sched :: "u64 list \<Rightarrow> u64 list"
  env_recv :: "go_error option list \<Rightarrow> go_error option list"
  env_wait :: Waits

abbreviation errno :: "int \<Rightarrow> go_error option" where
  "errno n \<equiv> Some (Errno n)"

text \<open>Dropping a path from the cache of directory entries.\<close>

definition dentry_Remove :: "string \<Rightarrow> CfaMountInfo \<Rightarrow> CfaMountInfo" where
  "dentry_Remove path m = m\<lparr> m_dentryCache := snd (DentryCache_Remove path (m_dentryCache m)) \<rparr>"

definition dentry_RemovePrefix :: "'s Env \<Rightarrow> string \<Rightarrow> CfaMountInfo \<Rightarrow> CfaMountInfo" where
  "dentry_RemovePrefix env path m = m\<lparr> m_dentryCache := RemovePrefix (env_ord env) path (m_dentryCache m) \<rparr>"

definition dentry_Set :: "'s Env \<Rightarrow> string \<Rightarrow> Dentry \<Rightarrow> CfaMountInfo \<Rightarrow> CfaMountInfo" where
  "dentry_Set env path d m = m\<lparr> m_dentryCache := snd (DentryCache_Set (env_now env) path d (m_dentryCache m)) \<rparr>"

section \<open>Paths\<close>

text \<open>\<^verbatim>\<open>strings.LastIndex\<close> of a slash, and the slice up to it, which panics when there is none.\<close>

definition LastIndex :: "char \<Rightarrow> string \<Rightarrow> int" where
  "LastIndex c s = (if c \<in> set s then int (length s) - 1 - int (length (takeWhile (\<lambda>x. x \<noteq> c) (rev s))) else - 1)"

definition parent :: "string \<Rightarrow> string go" where
  "parent path =
     (let i = LastIndex (CHR ''/'') path in if i < 0 then Panic else Ret (take (nat i) path))"

definition bad_path :: "string \<Rightarrow> bool" where
  "bad_path path \<longleftrightarrow>
     length path = 0 \<or> path ! 0 \<noteq> CHR ''/'' \<or> (path ! (length path - 1) = CHR ''/'' \<and> length path > 1)"

definition checkMount :: "string \<Rightarrow> u32 \<Rightarrow> CfaMountInfo \<Rightarrow> go_error option" where
  "checkMount path perm m =
     (if m_MountStu m \<noteq> MountStuMounted then errno E_POSIX_EPERM
      else if perm = 0 \<or> (perm AND m_MountMode m) \<noteq> perm then errno E_POSIX_EPERM
      else if bad_path path then errno E_POSIX_EPERM
      else if \<not> prefix (m_Path m) path then errno E_POSIX_EACCES
      else None)"

section \<open>Attributes\<close>

text \<open>
  \<^verbatim>\<open>fs.FileMode\<close>: \<^verbatim>\<open>IsDir\<close> tests bit 31, \<^verbatim>\<open>IsRegular\<close> that none of the type bits (directory 31, symbolic link
  27, device 26, named pipe 25, socket 24, character device 21, irregular 19) is set.
\<close>

definition ModeDir :: u32 where "ModeDir = push_bit 31 1"

definition ModeType :: u32 where
  "ModeType = push_bit 31 1 OR push_bit 27 1 OR push_bit 26 1 OR push_bit 25 1 OR push_bit 24 1 OR push_bit 21 1 OR push_bit 19 1"

definition IsDir :: "u32 \<Rightarrow> bool" where "IsDir mode \<longleftrightarrow> mode AND ModeDir \<noteq> 0"

definition IsRegular :: "u32 \<Rightarrow> bool" where "IsRegular mode \<longleftrightarrow> mode AND ModeType = 0"

text \<open>The last component of \<^verbatim>\<open>strings.Split(path, "/")\<close>.\<close>

definition base_name :: "string \<Rightarrow> string" where
  "base_name path = rev (takeWhile (\<lambda>c. c \<noteq> CHR ''/'') (rev path))"

definition doStat :: "'s Env \<Rightarrow> string \<Rightarrow> CfaMountInfo \<Rightarrow> 's \<Rightarrow> 's \<times> (go_error option + Dentry)" where
  "doStat env path m s =
     (case px_Stat (env_post env) (m_proxyClient m) s path of (s', resp, err) \<Rightarrow>
        if err \<noteq> None \<or> resp_Code resp \<noteq> 0 then (s', Inl (toErr err (resp_Code resp)))
        else
          let item_name = (if path \<noteq> ''/'' then base_name path else ''/'');
              mode = ino_Mode (stat_Data resp);
              item_type = (if IsDir mode then ucast DentryTypeDir
                           else if IsRegular mode then ucast DentryTypeFile
                           else ucast DentryTypeLink)
          in (s', Inr \<lparr> d_Name = item_name, d_Inode = ino_Inode (stat_Data resp), d_Type = item_type,
                        d_Info = Some (stat_Data resp) \<rparr>))"

definition GetSimpleFileEntry :: "Dentry \<Rightarrow> FileEntry option" where
  "GetSimpleFileEntry dentry =
     (if ucast (d_Type dentry) \<noteq> DentryTypeFile then None
      else Some \<lparr> fe_Id = d_Inode dentry, fe_BlockSize = DefaultBlockSize, fe_Handle = 0, fe_FilePath = [],
                  fe_OpenFlag = 0, fe_Mode = 0, fe_DirectIO = False, fe_Owner = [], fe_Pid = 0,
                  fe_LastAccessTime = 0, fe_closed = False \<rparr>)"

text \<open>\<^verbatim>\<open>dentry.Info.Size\<close>: a \<^verbatim>\<open>nil\<close> pointer panics.\<close>

definition raise_size :: "u64 \<Rightarrow> Dentry \<Rightarrow> Dentry go" where
  "raise_size CacheSize dentry =
     (case d_Info dentry of
        None \<Rightarrow> Panic
      | Some info \<Rightarrow>
          Ret (if ino_Size info < CacheSize then dentry\<lparr> d_Info := Some (info\<lparr> ino_Size := CacheSize \<rparr>) \<rparr> else dentry))"

type_synonym ('r, 's) mres = "(('r \<times> go_error option) \<times> CfaMountInfo \<times> 's) go"

text \<open>What \<^verbatim>\<open>Stat\<close> does after a miss, up to filling the cache: the entry with the size of the cached data.\<close>

definition Stat_size :: "'s Env \<Rightarrow> string \<Rightarrow> Dentry \<Rightarrow> CfaMountInfo \<Rightarrow> 's \<Rightarrow> ((go_error option + Dentry) \<times> CfaMountInfo \<times> 's) go" where
  "Stat_size env path dentry m s =
     (case m_rwCache m of
        None \<Rightarrow> Ret (Inr dentry, m, s)
      | Some rwc \<Rightarrow>
          (case GetSimpleFileEntry dentry of
             None \<Rightarrow> Ret (Inr dentry, m, s)
           | Some fe \<Rightarrow>
               bindG (StatSize fe (rw_wCache rwc)) (\<lambda>((CacheSize, err), wc).
               let m1 = m\<lparr> m_rwCache := Some (rwc\<lparr> rw_wCache := wc \<rparr>) \<rparr> in
               if err \<noteq> None then
                 (case doStat env path m1 s of (s', r) \<Rightarrow> Ret (r, m1, s'))
               else bindG (raise_size CacheSize dentry) (\<lambda>dentry'. Ret (Inr dentry', m1, s)))))"

definition Stat :: "'s Env \<Rightarrow> string \<Rightarrow> CfaMountInfo \<Rightarrow> 's \<Rightarrow> (Dentry option, 's) mres" where
  "Stat env path m s =
     (if checkMount path MountModeRead m \<noteq> None then Ret ((None, errno E_POSIX_EACCES), m, s)
      else
        case DentryCache_Get (env_now env) path (m_dentryCache m) of (hit, _, dc) \<Rightarrow>
        let m0 = m\<lparr> m_dentryCache := dc \<rparr> in
        case hit of
          Some dentry \<Rightarrow> Ret ((Some dentry, None), m0, s)
        | None \<Rightarrow>
            (case doStat env path m0 s of
               (s1, Inl err) \<Rightarrow> Ret ((None, err), m0, s1)
             | (s1, Inr dentry) \<Rightarrow>
                 bindG (Stat_size env path dentry m0 s1) (\<lambda>(r, m1, s2).
                 case r of
                   Inl err \<Rightarrow> Ret ((None, err), m1, s2)
                 | Inr dentry' \<Rightarrow> Ret ((Some dentry', None), dentry_Set env path dentry' m1, s2))))"

definition Fstat :: "'s Env \<Rightarrow> int \<Rightarrow> CfaMountInfo \<Rightarrow> 's \<Rightarrow> (Dentry option, 's) mres" where
  "Fstat env fd m s =
     bindG (GetFileEntry (env_now env) (word_of_int fd) (m_fileCache m)) (\<lambda>(entry, err, fc).
     let m0 = m\<lparr> m_fileCache := fc \<rparr> in
     case entry of
       None \<Rightarrow> Ret ((None, errno E_POSIX_EBADF), m0, s)
     | Some entry \<Rightarrow>
         if checkMount (fe_FilePath entry) MountModeRead m0 \<noteq> None then Ret ((None, errno E_POSIX_EACCES), m0, s)
         else
           case DentryCache_Get (env_now env) (fe_FilePath entry) (m_dentryCache m0) of (hit, _, dc) \<Rightarrow>
           let m1 = m0\<lparr> m_dentryCache := dc \<rparr> in
           case hit of
             Some dentry \<Rightarrow> Ret ((Some dentry, None), m1, s)
           | None \<Rightarrow>
               bindG (case m_rwCache m1 of
                        None \<Rightarrow> Ret (0, m1)
                      | Some rwc \<Rightarrow>
                          bindG (StatSize entry (rw_wCache rwc)) (\<lambda>((CacheSize, _), wc).
                          Ret (CacheSize, m1\<lparr> m_rwCache := Some (rwc\<lparr> rw_wCache := wc \<rparr>) \<rparr>))) (\<lambda>(CacheSize, m2).
               case doStat env (fe_FilePath entry) m2 s of
                 (s1, Inl err) \<Rightarrow> Ret ((None, err), m2, s1)
               | (s1, Inr dentry) \<Rightarrow>
                   bindG (raise_size CacheSize dentry) (\<lambda>dentry'.
                   Ret ((Some dentry', None), dentry_Set env (fe_FilePath entry) dentry' m2, s1))))"

record Statfs_t =
  st_BlockSize :: u32
  st_Blocks :: u32
  st_Files :: u32
  st_Folders :: u32
  st_Fbytes :: u64
  st_Fubytes :: u64
  st_Rfiles :: u64
  st_Rfolders :: u64
  st_Rbytes :: u64
  st_Rubytes :: u64

text \<open>The caller's structure, \<^const>\<open>None\<close> for \<^verbatim>\<open>nil\<close>, and the structure filled in.\<close>

definition Statfs ::
  "'s Env \<Rightarrow> string \<Rightarrow> Statfs_t option \<Rightarrow> CfaMountInfo \<Rightarrow> 's \<Rightarrow> (Statfs_t option \<times> go_error option) \<times> 's" where
  "Statfs env path stat m s =
     (if stat = None then ((stat, errno E_POSIX_EPERM), s)
      else if checkMount path MountModeRead m \<noteq> None then ((stat, errno E_POSIX_EACCES), s)
      else
        case px_StatFs (env_post env) (m_proxyClient m) s path of (s', resp, err) \<Rightarrow>
        if err \<noteq> None \<or> resp_Code resp \<noteq> 0 then ((stat, toErr err (resp_Code resp)), s')
        else
          let blkSize = 4 * 1024 :: u64; d = statfs_Data resp in
          ((Some \<lparr> st_BlockSize = ucast blkSize, st_Blocks = ucast (sf_Fbytes d div blkSize),
                   st_Files = sf_Files d, st_Folders = sf_Folders d, st_Fbytes = sf_Fbytes d,
                   st_Fubytes = sf_Fubytes d, st_Rfiles = sf_Rfiles d, st_Rfolders = sf_Rfolders d,
                   st_Rbytes = sf_Rbytes d, st_Rubytes = sf_Rubytes d \<rparr>, None), s'))"

section \<open>Life cycle\<close>

text \<open>
  \<^verbatim>\<open>Mount\<close> marks the mount as mounted before it asks for the attributes of the root, and leaves it so
  when that fails.
\<close>

definition Mount :: "'s Env \<Rightarrow> CfaMountInfo \<Rightarrow> 's \<Rightarrow> (go_error option \<times> CfaMountInfo \<times> 's) go" where
  "Mount env m s =
     (if m_MountStu m \<noteq> MountStuNew then Ret (errno E_POSIX_EPERM, m, s)
      else
        let m1 = m\<lparr> m_MountMode := MountModeRead OR MountModeWrite OR MountModeDel,
                    m_MountStu := MountStuMounted \<rparr>
        in bindG (Stat env (m_Path m) m1 s) (\<lambda>((_, err), m2, s2). Ret (err, m2, s2)))"

text \<open>An iteration of the loop of \<^verbatim>\<open>StatTo\<close>, which \<^verbatim>\<open>Mount\<close> starts.\<close>

definition StatTo_step :: "Config \<Rightarrow> CfaMountInfo \<Rightarrow> int \<Rightarrow> stat_loop \<Rightarrow> stat_loop go" where
  "StatTo_step cfg m now x =
     (case x of (running, lastStatTime, st) \<Rightarrow>
      if \<not> running then Ret x
      else if m_MountStu m \<noteq> MountStuMounted then Ret (False, lastStatTime, st)
      else if now - lastStatTime < GetIntValue cfg CfgStatGap 60 * 1000000000 then Ret x
      else Ret (True, now, snd (ClearStat (snd (WriteStat st)))))"

definition Mount_gor :: "Config \<Rightarrow> int \<Rightarrow> stat_loop \<Rightarrow> CfaMountInfo \<Rightarrow> 's \<Rightarrow> (stat_loop \<times> CfaMountInfo \<times> 's) go" where
  "Mount_gor cfg now x m s = bindG (StatTo_step cfg m now x) (\<lambda>x'. Ret (x', m, s))"

text \<open>
  \<^verbatim>\<open>DelMount\<close>: \<^verbatim>\<open>proxyClient.Close\<close> gives idle connections back and \<^verbatim>\<open>log.Close\<close> closes the files of the log; neither
  touches the state here.
\<close>

definition DelMount :: "'s Env \<Rightarrow> CfaMountInfo \<Rightarrow> 's \<Rightarrow> (CfaMountInfo \<times> 's) go" where
  "DelMount env m s =
     bindG (case m_rwCache m of
              None \<Rightarrow> Ret (m, s)
            | Some rwc \<Rightarrow>
                bindG (RWCache_CloseAll (env_wait env) (env_sched env) (env_recv env) (env_post env) (m_proxyClient m)
                         (env_now env) rwc s)
                  (\<lambda>(rwc', s'). Ret (m\<lparr> m_rwCache := Some rwc' \<rparr>, s'))) (\<lambda>(m1, s1).
     if m_stopped m1 then Panic
     else
       wg_Wait (Mount_gor (wt_cfg (env_wait env))) (\<lambda>x. \<not> fst x) (wt_sturns (env_wait env)) (wt_stats (env_wait env))
         (m1\<lparr> m_MountStu := MountStuDel, m_stopped := True \<rparr>) s1)"

text \<open>The loop of the statistics leaves the mount alone, and ends at its next turn after the mount is deleted.\<close>

interpretation mount_gor: goroutines "Mount_gor cfg" "\<lambda>x. \<not> fst x" "\<lambda>m s. m = m0 \<and> s = s0"
    "\<lambda>m. m_MountStu m \<noteq> MountStuMounted" "\<lambda>_. True" "\<lambda>_ _. True" "\<lambda>_ x. if fst x then 1 else 0"
  for cfg m0 and s0 :: 's
  by unfold_locales (auto simp: Mount_gor_def StatTo_step_def split: prod.splits if_splits)

lemma stat_Wait:
  "okG (m_MountStu m = MountStuMounted \<or> (\<exists>i < length xs. turns_of i turns = 0))
     (wg_Wait (Mount_gor cfg) (\<lambda>x. \<not> fst x) turns xs m s) (\<lambda>r. r = (m, s))"
proof (cases "m_MountStu m = MountStuMounted \<or> (\<exists>i < length xs. turns_of i turns = 0)")
  case True
  show ?thesis by (rule okG_mono [OF mount_gor.Wait_inv [where ?m0.0 = m and ?s0.0 = s]]) (use True in auto)
next
  case False
  have "okG False (wg_Wait (Mount_gor cfg) (\<lambda>x. \<not> fst x) turns xs m s) (\<lambda>(m', s'). m' = m \<and> s' = s)"
    by (rule mount_gor.Wait_ends) (use False in \<open>auto simp: Suc_le_eq\<close>)
  then show ?thesis by (rule okG_mono) auto
qed

end
