(* ===== verification/Cfa_File.thy ===== *)
theory Cfa_File
  imports Cfa_Mount
begin

text \<open>
  Operations on open files, \<^verbatim>\<open>lib/libfs/file.go\<close>: each checks the mount or the handle, goes to the
  read/write cache or directly to the server, and drops the directory entry it outdates.
\<close>

definition InvalidHandle :: int where "InvalidHandle = - 1"

definition UseRWCache :: "FileEntry \<Rightarrow> CfaMountInfo \<Rightarrow> bool" where
  "UseRWCache fdEntry m \<longleftrightarrow> \<not> fe_DirectIO fdEntry \<and> m_rwCache m \<noteq> None"

text \<open>
  Looking up a handle, which every operation on a handle starts with; the handle is cut to 32 bits.
  The entry is there exactly when there is no error.
\<close>

definition get_entry :: "'s Env \<Rightarrow> int \<Rightarrow> CfaMountInfo \<Rightarrow> (FileEntry option \<times> go_error option \<times> CfaMountInfo) go" where
  "get_entry env fd m =
     bindG (GetFileEntry (env_now env) (word_of_int fd) (m_fileCache m)) (\<lambda>(e, err, fc).
     Ret (e, err, m\<lparr> m_fileCache := fc \<rparr>))"

definition open_perm :: "int \<Rightarrow> u32" where
  "open_perm flags =
     (let perm0 = (if flags AND O_WRONLY > 0 then MountModeWrite
                   else if flags AND O_RDWR > 0 then MountModeRead OR MountModeWrite
                   else MountModeRead)
      in if flags AND (O_CREATE OR O_TRUNC) > 0 then perm0 OR MountModeWrite else perm0)"

definition Open :: "'s Env \<Rightarrow> string \<Rightarrow> int \<Rightarrow> u32 \<Rightarrow> CfaMountInfo \<Rightarrow> 's \<Rightarrow> (int, 's) mres" where
  "Open env path flags mode0 m s =
     (if checkMount path (open_perm flags) m \<noteq> None then Ret ((InvalidHandle, errno E_POSIX_EACCES), m, s)
      else
        let mode = (if mode0 AND S_IFMT \<noteq> S_IFLNK then (mode0 AND SysPerm) OR S_IFREG else mode0);
            OpenFlag = (if flags AND O_CREATE > 0 then OpenFlagCreate else OpenFlagOpen)
        in case px_Open (env_post env) (m_proxyClient m) s path OpenFlag mode of (s1, resp, err) \<Rightarrow>
           if err \<noteq> None \<or> resp_Code resp \<noteq> 0 then Ret ((InvalidHandle, toErr err (resp_Code resp)), m, s1)
           else
             let fileEntry = \<lparr> fe_Id = open_Id resp, fe_BlockSize = DefaultBlockSize, fe_Handle = - 1,
                               fe_FilePath = path, fe_OpenFlag = flags, fe_Mode = mode, fe_DirectIO = False,
                               fe_Owner = [], fe_Pid = 0, fe_LastAccessTime = 0, fe_closed = False \<rparr>
             in bindG (NewFile (env_now env) InvalidHandle fileEntry (m_fileCache m)) (\<lambda>(fd, err, fc).
                if err \<noteq> None then Ret ((InvalidHandle, errno E_POSIX_EBADF), m\<lparr> m_fileCache := fc \<rparr>, s1)
                else
                  bindG (get_entry env fd (m\<lparr> m_fileCache := fc \<rparr>)) (\<lambda>(_, errFile, m1).
                  if errFile \<noteq> None then Panic
                  else bindG (parent path) (\<lambda>dir. Ret ((fd, None), dentry_Remove dir m1, s1)))))"

text \<open>The part of \<^verbatim>\<open>Close\<close> that writes the cached data of the file back.\<close>

definition close_cached ::
  "'s Env \<Rightarrow> FileEntry \<Rightarrow> RWCache \<Rightarrow> CfaMountInfo \<Rightarrow> 's \<Rightarrow> (go_error option \<times> CfaMountInfo \<times> 's) go" where
  "close_cached env fdEntry rwc m s =
     bindG (IsLastRefer fdEntry (m_fileCache m)) (\<lambda>last.
     bindG (if last
            then RWCache_Close (env_sched env) (env_recv env) (env_post env) (m_proxyClient m) (env_now env) fdEntry rwc s
            else RWCache_Flush (env_sched env) (env_recv env) (env_post env) (m_proxyClient m) (env_now env) fdEntry rwc s)
       (\<lambda>(err, rwc', s'). Ret (err, m\<lparr> m_rwCache := Some rwc' \<rparr>, s')))"

definition Close_fd :: "'s Env \<Rightarrow> int \<Rightarrow> CfaMountInfo \<Rightarrow> 's \<Rightarrow> (go_error option \<times> CfaMountInfo \<times> 's) go" where
  "Close_fd env fd m s =
     bindG (get_entry env fd m) (\<lambda>(entry, err, m0).
     case entry of
       None \<Rightarrow> Ret (errno E_POSIX_EBADF, m0, s)
     | Some fdEntry \<Rightarrow>
         bindG (if UseRWCache fdEntry m0 then close_cached env fdEntry (the (m_rwCache m0)) m0 s
                else Ret (None, m0, s)) (\<lambda>(cerr, m1, s1).
         if cerr \<noteq> None then Ret (errno E_POSIX_EBADF, m1, s1)
         else
           bindG (CloseFile (word_of_int fd) (m_fileCache m1)) (\<lambda>(err, fc).
           if err \<noteq> None then Ret (errno E_POSIX_EBADF, m1\<lparr> m_fileCache := fc \<rparr>, s1)
           else Ret (None, m1\<lparr> m_fileCache := fc \<rparr>, s1))))"

text \<open>The results of a read are the size, the error and the buffer.\<close>

definition Read_fd :: "'s Env \<Rightarrow> int \<Rightarrow> byte list \<Rightarrow> u64 \<Rightarrow> CfaMountInfo \<Rightarrow> 's \<Rightarrow>
    ((int \<times> go_error option \<times> byte list) \<times> CfaMountInfo \<times> 's) go" where
  "Read_fd env fd buffer offset m s =
     (if length buffer > 512 * 1024 * 1024 then Ret ((0, errno E_POSIX_EIO, buffer), m, s)
      else
        bindG (get_entry env fd m) (\<lambda>(entry, err, m0).
        case entry of
          None \<Rightarrow> Ret ((0, errno (ToErrno err), buffer), m0, s)
        | Some fdEntry \<Rightarrow>
            if fe_OpenFlag fdEntry AND O_WRONLY = O_WRONLY then Ret ((0, errno E_POSIX_EPERM, buffer), m0, s)
            else
              bindG (if UseRWCache fdEntry m0
                     then
                       bindG (RWCache_Read (env_post env) (m_proxyClient m0) fdEntry buffer offset (the (m_rwCache m0)) s)
                         (\<lambda>(r, rwc, s'). Ret (r, m0\<lparr> m_rwCache := Some rwc \<rparr>, s'))
                     else
                       case Reader_Read (env_post env) (m_proxyClient m0) s (fe_Id fdEntry) buffer offset of
                         (s', buf, n, e) \<Rightarrow> Ret ((n, e, buf), m0, s')) (\<lambda>((rdSize, rdErr, buf), m1, s1).
              Ret ((rdSize, if rdErr \<noteq> None then errno (ToErrno rdErr) else None, buf), m1, s1))))"

definition Write_fd :: "'s Env \<Rightarrow> int \<Rightarrow> byte list \<Rightarrow> u64 \<Rightarrow> CfaMountInfo \<Rightarrow> 's \<Rightarrow> (int, 's) mres" where
  "Write_fd env fd buffer offset m s =
     (if length buffer > 512 * 1024 * 1024 then Ret ((0, errno E_POSIX_EIO), m, s)
      else
        bindG (get_entry env fd m) (\<lambda>(entry, err, m0).
        case entry of
          None \<Rightarrow> Ret ((0, errno E_POSIX_EBADF), m0, s)
        | Some fdEntry \<Rightarrow>
            if fe_OpenFlag fdEntry AND (O_RDWR OR O_WRONLY) = 0 then Ret ((InvalidHandle, errno E_POSIX_EPERM), m0, s)
            else
              bindG (if UseRWCache fdEntry m0
                     then
                       bindG (RWCache_Write (env_post env) (m_proxyClient m0) (env_now env) fdEntry buffer offset (the (m_rwCache m0)) s)
                         (\<lambda>(r, rwc, s'). Ret (r, m0\<lparr> m_rwCache := Some rwc \<rparr>, s'))
                     else
                       case Writer_Write (env_post env) (m_proxyClient m0) s (fe_Id fdEntry) buffer offset of
                         (s', n, e) \<Rightarrow> Ret ((n, e), m0, s')) (\<lambda>((wtSize, wtErr), m1, s1).
              Ret ((wtSize, if wtErr \<noteq> None then errno (ToErrno wtErr) else None),
                   dentry_Remove (fe_FilePath fdEntry) m1, s1))))"

definition Utime :: "'s Env \<Rightarrow> string \<Rightarrow> u64 \<Rightarrow> u64 \<Rightarrow> CfaMountInfo \<Rightarrow> 's \<Rightarrow> go_error option \<times> CfaMountInfo \<times> 's" where
  "Utime env path utime atime m s =
     (if checkMount path MountModeWrite m \<noteq> None then (errno E_POSIX_EACCES, m, s)
      else
        case px_Utime (env_post env) (m_proxyClient m) s path utime atime of (s', resp, err) \<Rightarrow>
        if err \<noteq> None \<or> resp_Code resp \<noteq> 0 then (toErr err (resp_Code resp), m, s')
        else (None, dentry_Remove path m, s'))"

text \<open>Before a file is cut, its cached data is written back and its read cache dropped.\<close>

definition truncate_flush ::
  "'s Env \<Rightarrow> string \<Rightarrow> CfaMountInfo \<Rightarrow> 's \<Rightarrow> (go_error option \<times> CfaMountInfo \<times> 's) go" where
  "truncate_flush env path m s =
     (case m_rwCache m of
        None \<Rightarrow> Ret (None, m, s)
      | Some rwc \<Rightarrow>
          (case doStat env path m s of
             (s1, Inl err) \<Rightarrow> Ret (err, m, s1)
           | (s1, Inr dEntry) \<Rightarrow>
               (case GetSimpleFileEntry dEntry of
                  None \<Rightarrow> Ret (None, m, s1)
                | Some fe \<Rightarrow>
                    bindG (RWCache_Flush (env_sched env) (env_recv env) (env_post env) (m_proxyClient m) (env_now env) fe rwc s1)
                      (\<lambda>(err, rwc1, s2).
                    if err \<noteq> None then Ret (err, m\<lparr> m_rwCache := Some rwc1 \<rparr>, s2)
                    else
                      bindG (RWCache_Release fe rwc1) (\<lambda>(err, rwc2).
                      Ret (err, m\<lparr> m_rwCache := Some rwc2 \<rparr>, s2))))))"

definition Truncate :: "'s Env \<Rightarrow> string \<Rightarrow> u64 \<Rightarrow> CfaMountInfo \<Rightarrow> 's \<Rightarrow> (go_error option \<times> CfaMountInfo \<times> 's) go" where
  "Truncate env path len m s =
     (if checkMount path MountModeWrite m \<noteq> None then Ret (errno E_POSIX_EACCES, m, s)
      else
        bindG (truncate_flush env path m s) (\<lambda>(ferr, m1, s1).
        if ferr \<noteq> None then Ret (ferr, m1, s1)
        else
          case px_Truncate (env_post env) (m_proxyClient m1) s1 path len of (s2, resp, err) \<Rightarrow>
          if err \<noteq> None \<or> resp_Code resp \<noteq> 0 then Ret (toErr err (resp_Code resp), m1, s2)
          else Ret (None, dentry_Remove path m1, s2)))"

text \<open>The error of the cache's flush is overwritten by that of the call to the server.\<close>

definition Flush_fd :: "'s Env \<Rightarrow> int \<Rightarrow> CfaMountInfo \<Rightarrow> 's \<Rightarrow> (go_error option \<times> CfaMountInfo \<times> 's) go" where
  "Flush_fd env fd m s =
     bindG (get_entry env fd m) (\<lambda>(entry, err, m0).
     case entry of
       None \<Rightarrow> Ret (errno E_POSIX_EBADF, m0, s)
     | Some fdEntry \<Rightarrow>
         bindG (if UseRWCache fdEntry m0
                then
                  bindG (RWCache_Flush (env_sched env) (env_recv env) (env_post env) (m_proxyClient m0) (env_now env) fdEntry
                          (the (m_rwCache m0)) s) (\<lambda>(err, rwc, s'). Ret (err, m0\<lparr> m_rwCache := Some rwc \<rparr>, s'))
                else Ret (None, m0, s)) (\<lambda>(err, m1, s1).
         case px_Fsync (env_post env) (m_proxyClient m1) s1 (fe_Id fdEntry) of (s2, resp, err) \<Rightarrow>
         if err \<noteq> None \<or> resp_Code resp \<noteq> 0 then Ret (toErr err (resp_Code resp), m1, s2)
         else Ret (None, m1, s2)))"

definition Fsync_fd :: "'s Env \<Rightarrow> int \<Rightarrow> int \<Rightarrow> CfaMountInfo \<Rightarrow> 's \<Rightarrow> (go_error option \<times> CfaMountInfo \<times> 's) go" where
  "Fsync_fd env fd datasync m s = Flush_fd env fd m s"

definition Ftruncate :: "'s Env \<Rightarrow> int \<Rightarrow> u64 \<Rightarrow> CfaMountInfo \<Rightarrow> 's \<Rightarrow> (go_error option \<times> CfaMountInfo \<times> 's) go" where
  "Ftruncate env fd len m s =
     bindG (get_entry env fd m) (\<lambda>(entry, err, m0).
     case entry of
       None \<Rightarrow> Ret (errno E_POSIX_EBADF, m0, s)
     | Some fdEntry \<Rightarrow>
         if fe_OpenFlag fdEntry AND (O_RDWR OR O_WRONLY) = 0 then Ret (errno E_POSIX_EPERM, m0, s)
         else Truncate env (fe_FilePath fdEntry) len m0 s)"

end
