(* ===== verification/Cfa_Meta.thy ===== *)
theory Cfa_Meta
  imports Cfa_File
begin

text \<open>
  Operations on names and attributes: \<^verbatim>\<open>lib/libfs/acl.go\<close>, \<^verbatim>\<open>attr.go\<close>, \<^verbatim>\<open>rm.go\<close>, \<^verbatim>\<open>rename.go\<close> and \<^verbatim>\<open>link.go\<close>.
\<close>

type_synonym 's ares = "go_error option \<times> CfaMountInfo \<times> 's"

section \<open>Permissions and owners\<close>

definition Chmod :: "'s Env \<Rightarrow> string \<Rightarrow> u32 \<Rightarrow> CfaMountInfo \<Rightarrow> 's \<Rightarrow> 's ares" where
  "Chmod env path mode0 m s =
     (let mode = mode0 AND 0x1FF in
      if checkMount path MountModeWrite m \<noteq> None then (errno E_POSIX_EACCES, m, s)
      else
        case px_Chmod (env_post env) (m_proxyClient m) s path mode of (s', resp, err) \<Rightarrow>
        if err \<noteq> None \<or> resp_Code resp \<noteq> 0 then (toErr err (resp_Code resp), m, s')
        else (None, dentry_Remove path m, s'))"

definition Fchmod :: "'s Env \<Rightarrow> int \<Rightarrow> u32 \<Rightarrow> CfaMountInfo \<Rightarrow> 's \<Rightarrow> 's ares go" where
  "Fchmod env fd mode m s =
     bindG (get_entry env fd m) (\<lambda>(entry, err, m0).
     case entry of
       None \<Rightarrow> Ret (errno E_POSIX_EBADF, m0, s)
     | Some fdEntry \<Rightarrow>
         if checkMount (fe_FilePath fdEntry) MountModeWrite m0 \<noteq> None then Ret (errno E_POSIX_EACCES, m0, s)
         else
           case px_Chmod (env_post env) (m_proxyClient m0) s (fe_FilePath fdEntry) mode of (s', resp, err) \<Rightarrow>
           if err \<noteq> None \<or> resp_Code resp \<noteq> 0 then Ret (toErr err (resp_Code resp), m0, s')
           else Ret (None, dentry_Remove (fe_FilePath fdEntry) m0, s'))"

definition Chown :: "'s Env \<Rightarrow> string \<Rightarrow> u32 \<Rightarrow> u32 \<Rightarrow> CfaMountInfo \<Rightarrow> 's \<Rightarrow> 's ares" where
  "Chown env path uid gid m s =
     (if checkMount path MountModeWrite m \<noteq> None then (errno E_POSIX_EACCES, m, s)
      else
        case px_Chown (env_post env) (m_proxyClient m) s path uid gid of (s', resp, err) \<Rightarrow>
        if err \<noteq> None \<or> resp_Code resp \<noteq> 0 then (toErr err (resp_Code resp), m, s')
        else (None, dentry_Remove path m, s'))"

definition ChownEx :: "'s Env \<Rightarrow> string \<Rightarrow> string \<Rightarrow> string \<Rightarrow> CfaMountInfo \<Rightarrow> 's \<Rightarrow> 's ares" where
  "ChownEx env path owner grp m s =
     (if checkMount path MountModeWrite m \<noteq> None then (errno E_POSIX_EACCES, m, s)
      else
        case px_ChownEx (env_post env) (m_proxyClient m) s path owner grp of (s', resp, err) \<Rightarrow>
        if err \<noteq> None \<or> resp_Code resp \<noteq> 0 then (toErr err (resp_Code resp), m, s')
        else (None, dentry_Remove path m, s'))"

section \<open>Extended attributes\<close>

definition Setxattr :: "'s Env \<Rightarrow> string \<Rightarrow> string \<Rightarrow> byte list \<Rightarrow> u32 \<Rightarrow> CfaMountInfo \<Rightarrow> 's \<Rightarrow> 's ares" where
  "Setxattr env path key value flag m s =
     (if checkMount path MountModeWrite m \<noteq> None then (errno E_POSIX_EACCES, m, s)
      else
        case px_SetXattr (env_post env) (m_proxyClient m) s path flag key value of (s', resp, err) \<Rightarrow>
        if err \<noteq> None \<or> resp_Code resp \<noteq> 0 then (toErr err (resp_Code resp), m, s')
        else (None, dentry_Remove path m, s'))"

text \<open>The data of the reply is returned with an error as well.\<close>

definition Getxattr :: "'s Env \<Rightarrow> string \<Rightarrow> string \<Rightarrow> CfaMountInfo \<Rightarrow> 's \<Rightarrow> (byte list \<times> go_error option) \<times> 's" where
  "Getxattr env path key m s =
     (if checkMount path MountModeRead m \<noteq> None then (([], errno E_POSIX_EACCES), s)
      else
        case px_GetXattr (env_post env) (m_proxyClient m) s path key of (s', resp, err) \<Rightarrow>
        if err \<noteq> None \<or> resp_Code resp \<noteq> 0 then ((getxr_Data resp, toErr err (resp_Code resp)), s')
        else ((getxr_Data resp, None), s'))"

definition Listxattr :: "'s Env \<Rightarrow> string \<Rightarrow> CfaMountInfo \<Rightarrow> 's \<Rightarrow> (string list \<times> go_error option) \<times> 's" where
  "Listxattr env path m s =
     (if checkMount path MountModeRead m \<noteq> None then (([], errno E_POSIX_EACCES), s)
      else
        case px_ListXAttr (env_post env) (m_proxyClient m) s path of (s', resp, err) \<Rightarrow>
        if err \<noteq> None \<or> resp_Code resp \<noteq> 0 then (([], toErr err (resp_Code resp)), s')
        else ((lx_Names resp, None), s'))"

definition Removexattr :: "'s Env \<Rightarrow> string \<Rightarrow> string \<Rightarrow> CfaMountInfo \<Rightarrow> 's \<Rightarrow> 's ares" where
  "Removexattr env path key m s =
     (if checkMount path MountModeWrite m \<noteq> None then (errno E_POSIX_EACCES, m, s)
      else
        case px_RmXAttr (env_post env) (m_proxyClient m) s path key of (s', resp, err) \<Rightarrow>
        if err \<noteq> None \<or> resp_Code resp \<noteq> 0 then (toErr err (resp_Code resp), m, s')
        else (None, dentry_Remove path m, s'))"

definition Fsetxattr :: "'s Env \<Rightarrow> int \<Rightarrow> string \<Rightarrow> byte list \<Rightarrow> int \<Rightarrow> CfaMountInfo \<Rightarrow> 's \<Rightarrow> 's ares go" where
  "Fsetxattr env fd key value flag m s =
     bindG (get_entry env fd m) (\<lambda>(entry, err, m0).
     case entry of
       None \<Rightarrow> Ret (errno E_POSIX_EBADF, m0, s)
     | Some fdEntry \<Rightarrow>
         if fe_OpenFlag fdEntry AND (O_RDWR OR O_WRONLY) = 0 then Ret (errno E_POSIX_EPERM, m0, s)
         else Ret (Setxattr env (fe_FilePath fdEntry) key value (word_of_int flag) m0 s))"

definition Fgetxattr ::
  "'s Env \<Rightarrow> int \<Rightarrow> string \<Rightarrow> CfaMountInfo \<Rightarrow> 's \<Rightarrow> ((byte list \<times> go_error option) \<times> CfaMountInfo \<times> 's) go" where
  "Fgetxattr env fd key m s =
     bindG (get_entry env fd m) (\<lambda>(entry, err, m0).
     case entry of
       None \<Rightarrow> Ret (([], errno E_POSIX_EBADF), m0, s)
     | Some fdEntry \<Rightarrow>
         if fe_OpenFlag fdEntry AND O_WRONLY = O_WRONLY then Ret (([], errno E_POSIX_EPERM), m0, s)
         else (case Getxattr env (fe_FilePath fdEntry) key m0 s of (r, s') \<Rightarrow> Ret (r, m0, s')))"

definition Flistxattr ::
  "'s Env \<Rightarrow> int \<Rightarrow> CfaMountInfo \<Rightarrow> 's \<Rightarrow> ((string list \<times> go_error option) \<times> CfaMountInfo \<times> 's) go" where
  "Flistxattr env fd m s =
     bindG (get_entry env fd m) (\<lambda>(entry, err, m0).
     case entry of
       None \<Rightarrow> Ret (([], errno E_POSIX_EBADF), m0, s)
     | Some fdEntry \<Rightarrow>
         if fe_OpenFlag fdEntry AND O_WRONLY = O_WRONLY then Ret (([], errno E_POSIX_EPERM), m0, s)
         else (case Listxattr env (fe_FilePath fdEntry) m0 s of (r, s') \<Rightarrow> Ret (r, m0, s')))"

definition Fremovexattr :: "'s Env \<Rightarrow> int \<Rightarrow> string \<Rightarrow> CfaMountInfo \<Rightarrow> 's \<Rightarrow> 's ares go" where
  "Fremovexattr env fd key m s =
     bindG (get_entry env fd m) (\<lambda>(entry, err, m0).
     case entry of
       None \<Rightarrow> Ret (errno E_POSIX_EBADF, m0, s)
     | Some fdEntry \<Rightarrow>
         if fe_OpenFlag fdEntry AND (O_RDWR OR O_WRONLY) = 0 then Ret (errno E_POSIX_EPERM, m0, s)
         else Ret (Removexattr env (fe_FilePath fdEntry) key m0 s))"

section \<open>Removing\<close>

definition Rmdir :: "'s Env \<Rightarrow> string \<Rightarrow> CfaMountInfo \<Rightarrow> 's \<Rightarrow> 's ares" where
  "Rmdir env path m s =
     (if checkMount path MountModeDel m \<noteq> None then (errno E_POSIX_EACCES, m, s)
      else
        case px_RmDir (env_post env) (m_proxyClient m) s path of (s', resp, err) \<Rightarrow>
        if err \<noteq> None \<or> resp_Code resp \<noteq> 0 then (toErr err (resp_Code resp), m, s')
        else (None, dentry_Remove path m, s'))"

definition RmDirTree :: "'s Env \<Rightarrow> string \<Rightarrow> CfaMountInfo \<Rightarrow> 's \<Rightarrow> 's ares" where
  "RmDirTree env path m s =
     (if checkMount path MountModeDel m \<noteq> None then (errno E_POSIX_EACCES, m, s)
      else
        case px_RmDirTree (env_post env) (m_proxyClient m) s path of (s', resp, err) \<Rightarrow>
        if err \<noteq> None \<or> resp_Code resp \<noteq> 0 then (toErr err (resp_Code resp), m, s')
        else (None, dentry_RemovePrefix env path m, s'))"

definition UnLink :: "'s Env \<Rightarrow> string \<Rightarrow> CfaMountInfo \<Rightarrow> 's \<Rightarrow> 's ares" where
  "UnLink env path m s =
     (if checkMount path MountModeDel m \<noteq> None then (errno E_POSIX_EACCES, m, s)
      else
        case px_Unlink (env_post env) (m_proxyClient m) s path of (s', resp, err) \<Rightarrow>
        if err \<noteq> None \<or> resp_Code resp \<noteq> 0 then (toErr err (resp_Code resp), m, s')
        else (None, dentry_Remove path m, s'))"

section \<open>Renaming and links\<close>

definition Rename :: "'s Env \<Rightarrow> string \<Rightarrow> string \<Rightarrow> CfaMountInfo \<Rightarrow> 's \<Rightarrow> 's ares" where
  "Rename env srcpath dstpath m s =
     (if checkMount srcpath MountModeWrite m \<noteq> None then (errno E_POSIX_EACCES, m, s)
      else
        case px_Rename (env_post env) (m_proxyClient m) s srcpath dstpath of (s', resp, err) \<Rightarrow>
        if err \<noteq> None then (errno (ToErrno err), m, s')
        else if resp_Code resp \<noteq> 0 then (toErr err (resp_Code resp), m, s')
        else (None, dentry_RemovePrefix env dstpath (dentry_RemovePrefix env srcpath m), s'))"

definition Readlink :: "'s Env \<Rightarrow> string \<Rightarrow> CfaMountInfo \<Rightarrow> 's \<Rightarrow> (string \<times> go_error option) \<times> 's" where
  "Readlink env path m s =
     (if checkMount path MountModeRead m \<noteq> None then (([], errno E_POSIX_EACCES), s)
      else
        case px_Stat (env_post env) (m_proxyClient m) s path of (s', resp, err) \<Rightarrow>
        if err \<noteq> None \<or> resp_Code resp \<noteq> 0 then (([], toErr err (resp_Code resp)), s')
        else ((ino_Target (stat_Data resp), None), s'))"

definition Link :: "'s Env \<Rightarrow> string \<Rightarrow> string \<Rightarrow> CfaMountInfo \<Rightarrow> 's \<Rightarrow> 's ares" where
  "Link env path linkPath m s =
     (if checkMount path MountModeWrite m \<noteq> None then (errno E_POSIX_EACCES, m, s)
      else
        case px_Link (env_post env) (m_proxyClient m) s path linkPath of (s', resp, err) \<Rightarrow>
        if err \<noteq> None \<or> resp_Code resp \<noteq> 0 then (toErr err (resp_Code resp), m, s')
        else (None, dentry_Remove path m, s'))"

definition Symlink :: "'s Env \<Rightarrow> string \<Rightarrow> string \<Rightarrow> CfaMountInfo \<Rightarrow> 's \<Rightarrow> 's ares" where
  "Symlink env path linkPath m s =
     (if checkMount path MountModeWrite m \<noteq> None then (errno E_POSIX_EACCES, m, s)
      else
        case px_SymLink (env_post env) (m_proxyClient m) s path linkPath of (s', resp, err) \<Rightarrow>
        if err \<noteq> None \<or> resp_Code resp \<noteq> 0 then (toErr err (resp_Code resp), m, s')
        else (None, m, s'))"

end
