(* ===== verification/Cfa_Dir.thy ===== *)
theory Cfa_Dir
  imports Cfa_Meta
begin

text \<open>
  Directories, \<^verbatim>\<open>lib/libfs/dir.go\<close>: making directories and nodes, and listing. A listing has a goroutine
  that fetches pages from the server into a queue and a reader that takes entries out of it; the
  sections between \<^verbatim>\<open>Lock\<close> and \<^verbatim>\<open>Unlock\<close> are the steps of the model.
\<close>

section \<open>Making directories and nodes\<close>

definition Mkdir :: "'s Env \<Rightarrow> string \<Rightarrow> u32 \<Rightarrow> CfaMountInfo \<Rightarrow> 's \<Rightarrow> 's ares go" where
  "Mkdir env path mode0 m s =
     (if checkMount path MountModeWrite m \<noteq> None then Ret (errno E_POSIX_EACCES, m, s)
      else
        let mode = (mode0 AND SysPerm) OR S_IFDIR in
        case px_MkDir (env_post env) (m_proxyClient m) s path mode of (s', resp, err) \<Rightarrow>
        if err \<noteq> None \<or> resp_Code resp \<noteq> 0 then Ret (toErr err (resp_Code resp), m, s')
        else bindG (parent path) (\<lambda>dir. Ret (None, dentry_Remove dir m, s')))"

text \<open>\<^verbatim>\<open>strings.Split\<close> at slashes.\<close>

fun split_slash :: "string \<Rightarrow> string list" where
  "split_slash [] = [[]]"
| "split_slash (c # cs) =
     (if c = CHR ''/'' then [] # split_slash cs
      else case split_slash cs of [] \<Rightarrow> [[c]] | w # ws \<Rightarrow> (c # w) # ws)"

definition join :: "string \<Rightarrow> string \<Rightarrow> string" where
  "join baseDir subDir = (if baseDir = ''/'' then baseDir @ subDir else baseDir @ ''/'' @ subDir)"

fun MkdirAll_loop :: "'s Env \<Rightarrow> string \<Rightarrow> u32 \<Rightarrow> string \<Rightarrow> string list \<Rightarrow> CfaMountInfo \<Rightarrow> 's \<Rightarrow> 's ares go" where
  "MkdirAll_loop env path mode baseDir [] m s = Ret (None, m, s)"
| "MkdirAll_loop env path mode baseDir (subDir # subDirVec) m s =
     (if length subDir > 0 then
        let baseDir' = join baseDir subDir in
        case px_MkDir (env_post env) (m_proxyClient m) s baseDir' mode of (s', resp, err) \<Rightarrow>
        if err \<noteq> None then Ret (err, m, s')
        else if resp_Code resp = E_POSIX_EEXIST then MkdirAll_loop env path mode baseDir' subDirVec m s'
        else if resp_Code resp \<noteq> 0 then Ret (errno (resp_Code resp), m, s')
        else
          bindG (parent path) (\<lambda>dir.
          MkdirAll_loop env path mode baseDir' subDirVec (dentry_Remove dir m) s')
      else MkdirAll_loop env path mode baseDir subDirVec m s)"

definition MkdirAll :: "'s Env \<Rightarrow> string \<Rightarrow> u32 \<Rightarrow> CfaMountInfo \<Rightarrow> 's \<Rightarrow> 's ares go" where
  "MkdirAll env path mode0 m s =
     (if checkMount path MountModeWrite m \<noteq> None then Ret (errno E_POSIX_EACCES, m, s)
      else
        MkdirAll_loop env path ((mode0 AND SysPerm) OR S_IFDIR) (m_Path m)
          (split_slash (drop (length (m_Path m)) path)) m s)"

definition Mknod :: "'s Env \<Rightarrow> string \<Rightarrow> u32 \<Rightarrow> int \<Rightarrow> CfaMountInfo \<Rightarrow> 's \<Rightarrow> 's ares go" where
  "Mknod env path mode0 dev m s =
     (if checkMount path MountModeWrite m \<noteq> None then Ret (errno E_POSIX_EACCES, m, s)
      else if (mode0 AND S_IFIFO = 0 \<and> mode0 AND S_IFSOCK = 0) \<or> dev \<noteq> 0 then Ret (errno E_POSIX_ENOTSUP, m, s)
      else
        let mode = (if mode0 AND S_IFIFO \<noteq> 0 then (mode0 AND SysPerm) OR (mode0 AND S_IFIFO)
                    else if mode0 AND S_IFSOCK \<noteq> 0 then (mode0 AND SysPerm) OR (mode0 AND S_IFSOCK)
                    else mode0)
        in case px_Open (env_post env) (m_proxyClient m) s path OpenFlagCreate mode of (s', resp, err) \<Rightarrow>
           if err \<noteq> None \<or> resp_Code resp \<noteq> 0 then Ret (toErr err (resp_Code resp), m, s')
           else bindG (parent path) (\<lambda>dir. Ret (None, dentry_Remove dir m, s')))"

section \<open>Listing\<close>

datatype LsStatus = LsFetching | LsDone | LsError | LsUserAbort

text \<open>\<open>dir_ch\<close> tells whether the channel, which holds at most one token, holds it.\<close>

record Dir =
  dir_dirList :: "Dentry list"
  dir_startKey :: string
  dir_lsSize :: u16
  dir_lsStatus :: LsStatus
  dir_cacheSize :: u64
  dir_Error :: "go_error option"
  dir_ch :: bool

definition Opendir :: "string \<Rightarrow> CfaMountInfo \<Rightarrow> Dir option \<times> go_error option" where
  "Opendir path m =
     (if checkMount path MountModeRead m \<noteq> None then (None, errno E_POSIX_EACCES)
      else
        (Some \<lparr> dir_dirList = [], dir_startKey = [], dir_lsSize = m_LsSize m, dir_lsStatus = LsFetching,
                dir_cacheSize = ucast (m_LsSize m), dir_Error = None, dir_ch = False \<rparr>, None))"

text \<open>
  Where the fetching goroutine is: at the top of its loop, at the call, with a page, after storing
  it, after the notification, with an error, after storing that, or gone.
\<close>

datatype fetch_pc =
    FTop
  | FAsk
  | FGot "Dentry list"
  | FNotify "Dentry list"
  | FCache "Dentry list"
  | FErr "go_error option"
  | FErrNotify
  | FEnd

text \<open>A send that does not wait: a full channel stays as it is.\<close>

definition ch_notify :: "Dir \<Rightarrow> Dir" where
  "ch_notify dir = dir\<lparr> dir_ch := True \<rparr>"

definition cache_entries :: "'s Env \<Rightarrow> string \<Rightarrow> Dentry list \<Rightarrow> CfaMountInfo \<Rightarrow> CfaMountInfo" where
  "cache_entries env path ds m = fold (\<lambda>e m. dentry_Set env (path @ ''/'' @ d_Name e) e m) ds m"

definition fetch_step ::
  "'s Env \<Rightarrow> string \<Rightarrow> fetch_pc \<Rightarrow> Dir \<Rightarrow> CfaMountInfo \<Rightarrow> 's \<Rightarrow> (fetch_pc \<times> Dir \<times> CfaMountInfo \<times> 's) go" where
  "fetch_step env path pc dir m s =
     (case pc of
        FTop \<Rightarrow>
          if dir_lsStatus dir = LsUserAbort then Ret (FEnd, dir, m, s)
          else if of_nat (length (dir_dirList dir)) > dir_cacheSize dir then Ret (FTop, dir, m, s)
          else Ret (FAsk, dir, m, s)
      | FAsk \<Rightarrow>
          (case px_ReadDirEx (env_post env) (m_proxyClient m) s path (dir_startKey dir) (dir_lsSize dir) of
             (s', resp, err) \<Rightarrow>
               if err \<noteq> None \<or> resp_Code resp \<noteq> 0 then Ret (FErr (toErr err (resp_Code resp)), dir, m, s')
               else Ret (FGot (rd_Dentrys resp), dir, m, s'))
      | FGot ds \<Rightarrow>
          let dir1 = dir\<lparr> dir_dirList := dir_dirList dir @ ds \<rparr> in
          if length ds < unat (dir_lsSize dir) then Ret (FNotify ds, dir1\<lparr> dir_lsStatus := LsDone \<rparr>, m, s)
          else if ds = [] then Panic
          else Ret (FNotify ds, dir1\<lparr> dir_startKey := d_Name (ds ! (length ds - 1)) \<rparr>, m, s)
      | FNotify ds \<Rightarrow> Ret (FCache ds, ch_notify dir, m, s)
      | FCache ds \<Rightarrow>
          Ret (if length ds < unat (dir_lsSize dir) then FEnd else FTop, dir, cache_entries env path ds m, s)
      | FErr lastErr \<Rightarrow>
          if lastErr \<noteq> None then Ret (FErrNotify, dir\<lparr> dir_lsStatus := LsError, dir_Error := lastErr \<rparr>, m, s)
          else Ret (FEnd, dir, m, s)
      | FErrNotify \<Rightarrow> Ret (FEnd, ch_notify dir, m, s)
      | FEnd \<Rightarrow> Ret (FEnd, dir, m, s))"

text \<open>
  \<^verbatim>\<open>make([]Dentry, count)\<close>: it panics when the slice cannot be addressed, with 40 bytes for an entry and the
  48 bits of an address that Go uses on 64-bit machines.
\<close>

definition make_Dentrys :: "u64 \<Rightarrow> unit go" where
  "make_Dentrys count = (if uint count * 40 > 2 ^ 48 then Panic else Ret ())"

text \<open>
  One round of the loop of \<^verbatim>\<open>Readdir\<close>, under the lock: it returns with entries or an error, or goes to
  wait for a token. The slice that the call makes first is made or fails in every round alike.
\<close>

datatype rd_result = RdError "go_error option" | RdEntries "Dentry list" | RdWaits

definition Readdir_round :: "u64 \<Rightarrow> Dir \<Rightarrow> (rd_result \<times> Dir) go" where
  "Readdir_round count dir0 =
     bindG (make_Dentrys count) (\<lambda>_.
     let dir = (if count * 2 > dir_cacheSize dir0 then dir0\<lparr> dir_cacheSize := count * 2 \<rparr> else dir0) in
     if dir_lsStatus dir = LsError \<or> dir_lsStatus dir = LsUserAbort then Ret (RdError (dir_Error dir), dir)
     else if dir_lsStatus dir = LsDone \<and> length (dir_dirList dir) = 0 then Ret (RdEntries [], dir)
     else if dir_lsStatus dir = LsFetching \<and> of_nat (length (dir_dirList dir)) < count then Ret (RdWaits, dir)
     else
       Ret (RdEntries (take (unat count) (dir_dirList dir)),
            dir\<lparr> dir_dirList := drop (unat count) (dir_dirList dir) \<rparr>))"

definition ch_receive :: "Dir \<Rightarrow> Dir go" where
  "ch_receive dir = (if dir_ch dir then Ret (dir\<lparr> dir_ch := False \<rparr>) else Block)"

definition CloseDir :: "Dir option \<Rightarrow> (go_error option \<times> Dir) go" where
  "CloseDir dir = (case dir of None \<Rightarrow> Panic | Some d \<Rightarrow> Ret (None, d\<lparr> dir_lsStatus := LsUserAbort \<rparr>))"

end
