(* ===== verification/Cfa_Fuse.thy ===== *)
theory Cfa_Fuse
  imports Cfa_Dir
begin

text \<open>
  The file system that the FUSE library calls, \<^verbatim>\<open>client/cfafuse/fuse_op.go\<close> and \<^verbatim>\<open>client/cfafuse/file.go\<close>: names
  relative to the mount become paths of the server, errors become FUSE status codes.
\<close>

section \<open>Paths\<close>

definition genPath :: "string \<Rightarrow> string \<Rightarrow> string" where
  "genPath root name =
     (if name = [] then root
      else
        let root' = (if suffix ''/'' root then take (length root - 1) root else root)
        in root' @ ''/'' @ name)"

definition TrimPrefix :: "string \<Rightarrow> string \<Rightarrow> string" where
  "TrimPrefix s pre = (if prefix pre s then drop (length pre) s else s)"

definition removeRoot :: "string \<Rightarrow> string \<Rightarrow> string" where
  "removeRoot root path =
     (if path = root then []
      else TrimPrefix path (if \<not> suffix ''/'' root then root @ ''/'' else root))"

section \<open>Attributes\<close>

definition ModeSymlink :: u32 where "ModeSymlink = push_bit 27 1"

definition osModeToSyscall :: "u32 \<Rightarrow> u32" where
  "osModeToSyscall m =
     (let typ = (if m AND ModeType = ModeDir then S_IFDIR
                 else if m AND ModeType = ModeSymlink then S_IFLNK
                 else S_IFREG)
      in typ OR (m AND 0x1FF))"

record Attr =
  at_Ino :: u64
  at_Size :: u64
  at_Blocks :: u64
  at_Atime :: u64
  at_Mtime :: u64
  at_Ctime :: u64
  at_Mode :: u32
  at_Nlink :: u32
  at_Uid :: u32
  at_Gid :: u32

definition setFuseAttr :: "Dentry \<Rightarrow> Attr go" where
  "setFuseAttr node =
     (case d_Info node of
        None \<Rightarrow> Panic
      | Some info \<Rightarrow>
          Ret \<lparr> at_Ino = ino_Inode info, at_Size = ino_Size info, at_Blocks = 0, at_Atime = ino_ATime info,
                at_Mtime = ino_MTime info, at_Ctime = ino_CTime info, at_Mode = osModeToSyscall (ino_Mode info),
                at_Nlink = ino_Nlink info, at_Uid = ino_Uid info, at_Gid = ino_Gid info \<rparr>)"

section \<open>Operations on names\<close>

text \<open>The root is \<^verbatim>\<open>fs.options.GetPath()\<close>. Results are a value, where there is one, and the status.\<close>

type_synonym 's fres = "int \<times> CfaMountInfo \<times> 's"

definition status :: "'s ares \<Rightarrow> 's fres" where
  "status r = (case r of (err, m, s) \<Rightarrow> (if err \<noteq> None then parseErr err else fuse_OK, m, s))"

definition status_go :: "'s ares go \<Rightarrow> 's fres go" where
  "status_go r = bindG r (\<lambda>x. Ret (status x))"

definition fs_GetAttr :: "'s Env \<Rightarrow> string \<Rightarrow> string \<Rightarrow> CfaMountInfo \<Rightarrow> 's \<Rightarrow> ((Attr option \<times> int) \<times> CfaMountInfo \<times> 's) go" where
  "fs_GetAttr env root name m s =
     bindG (Stat env (genPath root name) m s) (\<lambda>((dEntry, err), m', s').
     if err \<noteq> None then Ret ((None, parseErr err), m', s')
     else case dEntry of
       None \<Rightarrow> Panic
     | Some d \<Rightarrow> bindG (setFuseAttr d) (\<lambda>attr. Ret ((Some attr, fuse_OK), m', s')))"

definition fs_GetXAttr :: "'s Env \<Rightarrow> string \<Rightarrow> string \<Rightarrow> string \<Rightarrow> CfaMountInfo \<Rightarrow> 's \<Rightarrow> (byte list \<times> int) \<times> 's" where
  "fs_GetXAttr env root name attr m s =
     (case Getxattr env (genPath root name) attr m s of ((data, err), s') \<Rightarrow>
        if err \<noteq> None then (([], parseErr err), s') else ((data, fuse_OK), s'))"

definition fs_SetXAttr :: "'s Env \<Rightarrow> string \<Rightarrow> string \<Rightarrow> string \<Rightarrow> byte list \<Rightarrow> int \<Rightarrow> CfaMountInfo \<Rightarrow> 's \<Rightarrow> 's fres" where
  "fs_SetXAttr env root name attr data flags m s =
     status (Setxattr env (genPath root name) attr data (word_of_int flags) m s)"

definition fs_ListXAttr :: "'s Env \<Rightarrow> string \<Rightarrow> string \<Rightarrow> CfaMountInfo \<Rightarrow> 's \<Rightarrow> (string list \<times> int) \<times> 's" where
  "fs_ListXAttr env root name m s =
     (case Listxattr env (genPath root name) m s of ((names, err), s') \<Rightarrow>
        if err \<noteq> None then (([], parseErr err), s') else ((names, fuse_OK), s'))"

definition fs_RemoveXAttr :: "'s Env \<Rightarrow> string \<Rightarrow> string \<Rightarrow> string \<Rightarrow> CfaMountInfo \<Rightarrow> 's \<Rightarrow> 's fres" where
  "fs_RemoveXAttr env root name attr m s = status (Removexattr env (genPath root name) attr m s)"

definition fs_Readlink :: "'s Env \<Rightarrow> string \<Rightarrow> string \<Rightarrow> CfaMountInfo \<Rightarrow> 's \<Rightarrow> (string \<times> int) \<times> 's" where
  "fs_Readlink env root name m s =
     (case Readlink env (genPath root name) m s of ((data, err), s') \<Rightarrow>
        if err \<noteq> None then (([], parseErr err), s') else ((removeRoot root data, fuse_OK), s'))"

definition fs_Mknod :: "'s Env \<Rightarrow> string \<Rightarrow> string \<Rightarrow> u32 \<Rightarrow> u32 \<Rightarrow> CfaMountInfo \<Rightarrow> 's \<Rightarrow> 's fres go" where
  "fs_Mknod env root name mode dev m s = status_go (Mknod env (genPath root name) mode (uint dev) m s)"

definition fs_Mkdir :: "'s Env \<Rightarrow> string \<Rightarrow> string \<Rightarrow> u32 \<Rightarrow> CfaMountInfo \<Rightarrow> 's \<Rightarrow> 's fres go" where
  "fs_Mkdir env root name mode m s = status_go (Mkdir env (genPath root name) mode m s)"

definition fs_Unlink :: "'s Env \<Rightarrow> string \<Rightarrow> string \<Rightarrow> CfaMountInfo \<Rightarrow> 's \<Rightarrow> 's fres" where
  "fs_Unlink env root name m s = status (UnLink env (genPath root name) m s)"

definition fs_Rmdir :: "'s Env \<Rightarrow> string \<Rightarrow> string \<Rightarrow> CfaMountInfo \<Rightarrow> 's \<Rightarrow> 's fres" where
  "fs_Rmdir env root name m s = status (Rmdir env (genPath root name) m s)"

definition fs_Symlink :: "'s Env \<Rightarrow> string \<Rightarrow> string \<Rightarrow> string \<Rightarrow> CfaMountInfo \<Rightarrow> 's \<Rightarrow> 's fres" where
  "fs_Symlink env root value linkName m s =
     status (Symlink env (genPath root value) (genPath root linkName) m s)"

definition fs_Rename :: "'s Env \<Rightarrow> string \<Rightarrow> string \<Rightarrow> string \<Rightarrow> CfaMountInfo \<Rightarrow> 's \<Rightarrow> 's fres" where
  "fs_Rename env root oldName newName m s =
     status (Rename env (genPath root oldName) (genPath root newName) m s)"

definition fs_Link :: "'s Env \<Rightarrow> string \<Rightarrow> string \<Rightarrow> string \<Rightarrow> CfaMountInfo \<Rightarrow> 's \<Rightarrow> 's fres" where
  "fs_Link env root oldName newName m s =
     status (Link env (genPath root oldName) (genPath root newName) m s)"

definition fs_Chmod :: "'s Env \<Rightarrow> string \<Rightarrow> string \<Rightarrow> u32 \<Rightarrow> CfaMountInfo \<Rightarrow> 's \<Rightarrow> 's fres" where
  "fs_Chmod env root name mode m s = status (Chmod env (genPath root name) mode m s)"

definition fs_Chown :: "'s Env \<Rightarrow> string \<Rightarrow> string \<Rightarrow> u32 \<Rightarrow> u32 \<Rightarrow> CfaMountInfo \<Rightarrow> 's \<Rightarrow> 's fres" where
  "fs_Chown env root name uid gid m s = status (Chown env (genPath root name) uid gid m s)"

definition fs_Truncate :: "'s Env \<Rightarrow> string \<Rightarrow> string \<Rightarrow> u64 \<Rightarrow> CfaMountInfo \<Rightarrow> 's \<Rightarrow> 's fres go" where
  "fs_Truncate env root name offset m s = status_go (Truncate env (genPath root name) offset m s)"

text \<open>An open file of the FUSE library.\<close>

record fuse_file =
  ff_fd :: int
  ff_path :: string
  ff_node :: Dentry

text \<open>\<^verbatim>\<open>Open\<close> and \<^verbatim>\<open>Create\<close>: when the attributes cannot be had, the handle just opened stays open.\<close>

definition open_stat ::
  "'s Env \<Rightarrow> string \<Rightarrow> int \<Rightarrow> u32 \<Rightarrow> CfaMountInfo \<Rightarrow> 's \<Rightarrow> ((fuse_file option \<times> int) \<times> CfaMountInfo \<times> 's) go" where
  "open_stat env path flags mode m s =
     bindG (Open env path flags mode m s) (\<lambda>((handle, err), m1, s1).
     if err \<noteq> None then Ret ((None, parseErr err), m1, s1)
     else
       bindG (Stat env path m1 s1) (\<lambda>((node, err), m2, s2).
       if err \<noteq> None then Ret ((None, parseErr err), m2, s2)
       else case node of
         None \<Rightarrow> Panic
       | Some d \<Rightarrow> Ret ((Some \<lparr> ff_fd = handle, ff_path = path, ff_node = d \<rparr>, fuse_OK), m2, s2)))"

definition fs_Open ::
  "'s Env \<Rightarrow> string \<Rightarrow> string \<Rightarrow> u32 \<Rightarrow> CfaMountInfo \<Rightarrow> 's \<Rightarrow> ((fuse_file option \<times> int) \<times> CfaMountInfo \<times> 's) go" where
  "fs_Open env root name flags m s = open_stat env (genPath root name) (uint flags) SysPerm m s"

definition fs_Create ::
  "'s Env \<Rightarrow> string \<Rightarrow> string \<Rightarrow> u32 \<Rightarrow> u32 \<Rightarrow> CfaMountInfo \<Rightarrow> 's \<Rightarrow> ((fuse_file option \<times> int) \<times> CfaMountInfo \<times> 's) go" where
  "fs_Create env root name flags mode m s = open_stat env (genPath root name) (uint flags) mode m s"

text \<open>Times are seconds, \<^const>\<open>None\<close> for a \<^verbatim>\<open>nil\<close> pointer.\<close>

definition fs_Utimens ::
  "'s Env \<Rightarrow> string \<Rightarrow> string \<Rightarrow> int option \<Rightarrow> int option \<Rightarrow> CfaMountInfo \<Rightarrow> 's \<Rightarrow> 's fres go" where
  "fs_Utimens env root name Atime Mtime m s =
     (case (Mtime, Atime) of
        (Some mt, Some at) \<Rightarrow> Ret (status (Utime env (genPath root name) (word_of_int mt) (word_of_int at) m s))
      | _ \<Rightarrow> Panic)"

record StatfsOut =
  so_Blocks :: u64
  so_Bfree :: u64
  so_Bavail :: u64
  so_Files :: u64
  so_Ffree :: u64
  so_Bsize :: u32
  so_NameLen :: u32
  so_Frsize :: u32

definition zero_Statfs :: Statfs_t where
  "zero_Statfs =
     \<lparr> st_BlockSize = 0, st_Blocks = 0, st_Files = 0, st_Folders = 0, st_Fbytes = 0, st_Fubytes = 0,
       st_Rfiles = 0, st_Rfolders = 0, st_Rbytes = 0, st_Rubytes = 0 \<rparr>"

definition fs_StatFs :: "'s Env \<Rightarrow> string \<Rightarrow> string \<Rightarrow> CfaMountInfo \<Rightarrow> 's \<Rightarrow> (StatfsOut option \<times> 's) go" where
  "fs_StatFs env root name m s =
     (case Statfs env (genPath root name) (Some zero_Statfs) m s of ((stats, err), s') \<Rightarrow>
        if err \<noteq> None then Ret (None, s')
        else case stats of
          None \<Rightarrow> Panic
        | Some st \<Rightarrow>
            let total = 1024 * 1024 * 1024 * 1024 :: u64; blkSize = ucast (st_BlockSize st) :: u64 in
            if blkSize = 0 then Panic
            else
              let free = (total - st_Fbytes st - st_Rbytes st) div blkSize in
              Ret (Some \<lparr> so_Blocks = total div blkSize, so_Bfree = free, so_Bavail = free,
                          so_Files = st_Rfiles st + ucast (st_Files st),
                          so_Ffree = 0x7FFFFFFFFFFFFFFF - st_Rfiles st - ucast (st_Files st),
                          so_Bsize = ucast blkSize, so_NameLen = 256, so_Frsize = 4096 \<rparr>, s'))"

definition fs_Access :: "string \<Rightarrow> u32 \<Rightarrow> int" where
  "fs_Access name mode = fuse_OK"

section \<open>Operations on open files\<close>

definition ENOSYS :: int where "ENOSYS = 38"

definition FALLOC_FL_KEEP_SIZE :: u32 where "FALLOC_FL_KEEP_SIZE = 1"

definition f_Read :: "'s Env \<Rightarrow> fuse_file \<Rightarrow> byte list \<Rightarrow> int \<Rightarrow> CfaMountInfo \<Rightarrow> 's \<Rightarrow> ((byte list \<times> int) \<times> CfaMountInfo \<times> 's) go" where
  "f_Read env f buf off m s =
     bindG (Read_fd env (ff_fd f) buf (word_of_int off) m s) (\<lambda>((n, err, buf'), m', s').
     if err \<noteq> None then Ret (([], parseErr err), m', s')
     else if n < 0 then Panic
     else bindG (slice 0 (nat n) buf') (\<lambda>d. Ret ((d, fuse_OK), m', s')))"

definition f_Write :: "'s Env \<Rightarrow> fuse_file \<Rightarrow> byte list \<Rightarrow> int \<Rightarrow> CfaMountInfo \<Rightarrow> 's \<Rightarrow> ((u32 \<times> int) \<times> CfaMountInfo \<times> 's) go" where
  "f_Write env f data off m s =
     bindG (Write_fd env (ff_fd f) data (word_of_int off) m s) (\<lambda>((n, err), m', s').
     if err \<noteq> None then Ret ((0, parseErr err), m', s') else Ret ((word_of_int n, fuse_OK), m', s'))"

definition f_Flush :: "'s Env \<Rightarrow> fuse_file \<Rightarrow> CfaMountInfo \<Rightarrow> 's \<Rightarrow> 's fres go" where
  "f_Flush env f m s = status_go (Flush_fd env (ff_fd f) m s)"

text \<open>The error of closing is dropped.\<close>

definition f_Release :: "'s Env \<Rightarrow> fuse_file \<Rightarrow> CfaMountInfo \<Rightarrow> 's \<Rightarrow> (CfaMountInfo \<times> 's) go" where
  "f_Release env f m s = bindG (Close_fd env (ff_fd f) m s) (\<lambda>(_, m', s'). Ret (m', s'))"

definition f_GetAttr :: "'s Env \<Rightarrow> fuse_file \<Rightarrow> CfaMountInfo \<Rightarrow> 's \<Rightarrow> ((Attr option \<times> int) \<times> CfaMountInfo \<times> 's) go" where
  "f_GetAttr env f m s =
     bindG (Fstat env (ff_fd f) m s) (\<lambda>((den, err), m', s').
     if err \<noteq> None then Ret ((None, parseErr err), m', s')
     else case den of
       None \<Rightarrow> Panic
     | Some d \<Rightarrow> bindG (setFuseAttr d) (\<lambda>attr. Ret ((Some attr, fuse_OK), m', s')))"

definition f_Fsync :: "'s Env \<Rightarrow> fuse_file \<Rightarrow> int \<Rightarrow> CfaMountInfo \<Rightarrow> 's \<Rightarrow> 's fres go" where
  "f_Fsync env f flags m s = status_go (Fsync_fd env (ff_fd f) flags m s)"

definition f_Utimens :: "'s Env \<Rightarrow> fuse_file \<Rightarrow> int option \<Rightarrow> int option \<Rightarrow> CfaMountInfo \<Rightarrow> 's \<Rightarrow> 's fres go" where
  "f_Utimens env f atime mtime m s =
     (case (mtime, atime) of
        (Some mt, Some at) \<Rightarrow> Ret (status (Utime env (ff_path f) (word_of_int mt) (word_of_int at) m s))
      | _ \<Rightarrow> Panic)"

definition f_Truncate :: "'s Env \<Rightarrow> fuse_file \<Rightarrow> u64 \<Rightarrow> CfaMountInfo \<Rightarrow> 's \<Rightarrow> 's fres go" where
  "f_Truncate env f len m s = status_go (Truncate env (ff_path f) len m s)"

definition f_Chown :: "'s Env \<Rightarrow> fuse_file \<Rightarrow> u32 \<Rightarrow> u32 \<Rightarrow> CfaMountInfo \<Rightarrow> 's \<Rightarrow> 's fres" where
  "f_Chown env f uid gid m s = status (Chown env (ff_path f) uid gid m s)"

definition f_Chmod :: "'s Env \<Rightarrow> fuse_file \<Rightarrow> u32 \<Rightarrow> CfaMountInfo \<Rightarrow> 's \<Rightarrow> 's fres" where
  "f_Chmod env f perms m s = status (Chmod env (ff_path f) perms m s)"

definition f_Allocate :: "'s Env \<Rightarrow> fuse_file \<Rightarrow> u64 \<Rightarrow> u64 \<Rightarrow> u32 \<Rightarrow> CfaMountInfo \<Rightarrow> 's \<Rightarrow> 's fres go" where
  "f_Allocate env f off len mode m s =
     (if mode = 0 then f_Truncate env f (off + len) m s
      else if mode = FALLOC_FL_KEEP_SIZE then Ret (fuse_OK, m, s)
      else Ret (ENOSYS, m, s))"

section \<open>Listing a directory\<close>

record DirEntry =
  de_Mode :: u32
  de_Name :: string
  de_Ino :: u64

definition dir_entry :: "Dentry \<Rightarrow> DirEntry go" where
  "dir_entry e =
     (case d_Info e of
        None \<Rightarrow> Panic
      | Some info \<Rightarrow> Ret \<lparr> de_Mode = ino_Mode info, de_Name = d_Name e, de_Ino = d_Inode e \<rparr>)"

fun dir_entries :: "Dentry list \<Rightarrow> DirEntry list go" where
  "dir_entries [] = Ret []"
| "dir_entries (e # es) = bindG (dir_entry e) (\<lambda>d. bindG (dir_entries es) (\<lambda>ds. Ret (d # ds)))"

definition ls_count :: "int \<Rightarrow> int" where
  "ls_count ReadDirCount = (if ReadDirCount > 0 then ReadDirCount else 10000)"

text \<open>
  \<^verbatim>\<open>OpenDir\<close> runs beside the goroutine of its \<^verbatim>\<open>Dir\<close>: it is in a round of \<^verbatim>\<open>Readdir\<close>, waits for a token, or
  has returned the stream and the status. A round that returns fewer entries than asked for ends it,
  and closes the directory.
\<close>

datatype ls_pc = LsRound | LsWait | LsReturn "DirEntry list" int

record 's ls_state =
  ls_pc :: ls_pc
  ls_stream :: "DirEntry list"
  ls_fetch :: fetch_pc
  ls_dir :: Dir
  ls_mount :: CfaMountInfo
  ls_server :: 's

definition ls_step :: "int \<Rightarrow> 's ls_state \<Rightarrow> 's ls_state go" where
  "ls_step count st =
     (case ls_pc st of
        LsRound \<Rightarrow>
          bindG (Readdir_round (word_of_int count) (ls_dir st)) (\<lambda>(r, dir).
          case r of
             RdError err \<Rightarrow>
               if err \<noteq> None then
                 bindG (CloseDir (Some dir)) (\<lambda>(_, dir'). Ret (st\<lparr> ls_pc := LsReturn [] (parseErr err), ls_dir := dir' \<rparr>))
               else
                 bindG (CloseDir (Some dir)) (\<lambda>(_, dir'). Ret (st\<lparr> ls_pc := LsReturn (ls_stream st) fuse_OK, ls_dir := dir' \<rparr>))
           | RdWaits \<Rightarrow> Ret (st\<lparr> ls_pc := LsWait, ls_dir := dir \<rparr>)
           | RdEntries es \<Rightarrow>
               bindG (dir_entries es) (\<lambda>ds.
               let stream = ls_stream st @ ds in
               if int (length es) < count then
                 bindG (CloseDir (Some dir)) (\<lambda>(_, dir'). Ret (st\<lparr> ls_pc := LsReturn stream fuse_OK, ls_stream := stream, ls_dir := dir' \<rparr>))
               else Ret (st\<lparr> ls_stream := stream, ls_dir := dir \<rparr>)))
      | LsWait \<Rightarrow> bindG (ch_receive (ls_dir st)) (\<lambda>dir. Ret (st\<lparr> ls_pc := LsRound, ls_dir := dir \<rparr>))
      | LsReturn _ _ \<Rightarrow> Ret st)"

definition ls_fetch_step :: "'s Env \<Rightarrow> string \<Rightarrow> 's ls_state \<Rightarrow> 's ls_state go" where
  "ls_fetch_step env path st =
     bindG (fetch_step env path (ls_fetch st) (ls_dir st) (ls_mount st) (ls_server st)) (\<lambda>(pc, dir, m, s).
     Ret (st\<lparr> ls_fetch := pc, ls_dir := dir, ls_mount := m, ls_server := s \<rparr>))"

text \<open>The start: the status of a refused \<^verbatim>\<open>Opendir\<close>, or both sides at their first step.\<close>

definition fs_OpenDir :: "string \<Rightarrow> string \<Rightarrow> CfaMountInfo \<Rightarrow> 's \<Rightarrow> int + 's ls_state" where
  "fs_OpenDir root name m s =
     (case Opendir (genPath root name) m of
        (None, err) \<Rightarrow> Inl (parseErr err)
      | (Some dir, _) \<Rightarrow>
          Inr \<lparr> ls_pc = LsRound, ls_stream = [], ls_fetch = FTop, ls_dir = dir, ls_mount = m, ls_server = s \<rparr>)"

end
