(* ===== verification/Cfa_MProps.thy ===== *)
theory Cfa_MProps
  imports Cfa_Fuse Cfa_RSteps
begin

text \<open>
  What the operations of a mount promise: nothing is asked of the server for a path that the mount
  refuses, writing and closing through a handle do what the caches promise, \<^verbatim>\<open>Stat\<close> reports the size
  with the cached data, and a change drops the outdated directory entries.
\<close>

section \<open>Refused paths\<close>

lemma refused:
  "m_MountStu m \<noteq> MountStuMounted \<or> bad_path path \<or> \<not> prefix (m_Path m) path \<Longrightarrow> checkMount path perm m \<noteq> None"
  by (auto simp: checkMount_def)


section \<open>Reading a handle\<close>

lemma get_entry_ok:
  fixes env :: "'s Env"
  assumes inv: "fc_inv (m_fileCache m)" and e: "handles (m_fileCache m) (unat (word_of_int fd :: u32)) = Some e"
  defines "e' \<equiv> e\<lparr> fe_LastAccessTime := env_now env \<rparr>"
  shows "\<exists>fc. get_entry env fd m = Ret (Some e', None, m\<lparr> m_fileCache := fc \<rparr>) \<and> fc_inv fc \<and>
     handles fc = (handles (m_fileCache m))(unat (word_of_int fd :: u32) \<mapsto> e')"
  using GetFileEntry_spec [OF inv e, of "env_now env"] by (auto simp: get_entry_def e'_def)

lemma get_entry_bad:
  assumes "fc_inv (m_fileCache m)" and "handles (m_fileCache m) (unat (word_of_int fd :: u32)) = None"
  shows "get_entry env fd m = Ret (None, Some (ErrNew ''GetFileEntry invalid handle''), m)"
  using GetFileEntry_bad [OF assms] by (simp add: get_entry_def)

lemma dentry_Remove_ok:
  assumes "dc_inv (m_dentryCache m)"
  shows "dc_inv (m_dentryCache (dentry_Remove path m)) \<and>
     dc_view (m_dentryCache (dentry_Remove path m)) = (dc_view (m_dentryCache m))(path := None)"
  using dc_Remove_ok [OF assms] by (simp add: dentry_Remove_def)

lemma dentry_Remove_same [simp]:
  "m_fileCache (dentry_Remove path m) = m_fileCache m" "m_rwCache (dentry_Remove path m) = m_rwCache m"
  "m_proxyClient (dentry_Remove path m) = m_proxyClient m" "m_MountStu (dentry_Remove path m) = m_MountStu m"
  by (simp_all add: dentry_Remove_def)

section \<open>Writing through a handle\<close>

text \<open>The caches of a mount, all files with blocks of the size \<open>bs\<close>, no channel closed.\<close>

definition rw_ok :: "u32 \<Rightarrow> RWCache \<Rightarrow> bool" where
  "rw_ok bs rwc \<longleftrightarrow> wc_inv bs {} (rw_wCache rwc) \<and> \<not> wc_chClosed (rw_wCache rwc) \<and> rc_inv bs {} (rw_rCache rwc)"



section \<open>Closing a handle\<close>

text \<open>The channel and the prefetch windows of the read cache are still in order.\<close>

definition rw_kept :: "RWCache \<Rightarrow> RWCache \<Rightarrow> bool" where
  "rw_kept rwc rwc' \<longleftrightarrow> CacheCore.more (rw_rCache rwc') = CacheCore.more (rw_rCache rwc) \<and>
     (rc_windows (rw_rCache rwc) \<longrightarrow> rc_windows (rw_rCache rwc'))"

lemma RWCache_Flush_ok:
  assumes ok: "server_ok post pc content" and inv: "rw_ok bs rwc" and sched: "\<And>xs. set (sched xs) = set xs" and recv: "\<And>es. set (recv es) = set es"
  shows "okG True (RWCache_Flush sched recv post pc now fe rwc s) (\<lambda>(err, rwc', s'). rw_ok bs rwc' \<and>
     rw_kept rwc rwc' \<and> file_flushed bs content (fe_Id fe) (rw_wCache rwc) s (err, rw_wCache rwc', s'))"
proof -
  have w: "wc_inv bs {} (rw_wCache rwc)" using inv by (simp add: rw_ok_def)
  have "okG True (WCache_Flush sched recv post pc now fe (rw_wCache rwc) s) (file_flushed bs content (fe_Id fe) (rw_wCache rwc) s)"
    by (rule okG_mono [OF WCache_Flush_ok [where sched = sched and recv = recv, OF ok w sched recv]]) auto
  then show ?thesis
    unfolding RWCache_Flush_def
  proof (rule okG_bind, goal_cases)
    case (1 x)
    obtain err wc1 s1 where x: "x = (err, wc1, s1)" by (metis prod.collapse)
    then have "wc_inv bs {} wc1" "CacheCore.more wc1 = CacheCore.more (rw_wCache rwc)" using 1 by simp_all
    then have "rw_ok bs (rwc\<lparr> rw_wCache := wc1 \<rparr>)" using inv more_same(3) [of wc1 "rw_wCache rwc"] by (simp add: rw_ok_def)
    then show ?case using 1 x by (simp add: rw_kept_def)
  qed
qed

lemma RWCache_Close_ok:
  assumes ok: "server_ok post pc content" and inv: "rw_ok bs rwc" and sched: "\<And>xs. set (sched xs) = set xs" and recv: "\<And>es. set (recv es) = set es"
  shows "okG True (RWCache_Close sched recv post pc now fe rwc s) (\<lambda>(err, rwc', s'). rw_ok bs rwc' \<and> rw_kept rwc rwc' \<and>
     file_flushed bs content (fe_Id fe) (rw_wCache rwc) s (err, rw_wCache rwc', s'))"
proof -
  have w: "wc_inv bs {} (rw_wCache rwc)" and r: "rc_inv bs {} (rw_rCache rwc)" using inv by (simp_all add: rw_ok_def)
  have cl: "okG True (WCache_Close sched recv post pc now fe (rw_wCache rwc) s) (file_flushed bs content (fe_Id fe) (rw_wCache rwc) s)"
    by (rule okG_mono [OF WCache_Close_ok [where sched = sched and recv = recv, OF ok w sched recv]]) auto
  have "okG True (RCache_Close fe (rw_rCache rwc)) (\<lambda>(err, c'). err = None \<and> rc_inv bs {} c' \<and>
      CacheCore.more c' = CacheCore.more (rw_rCache rwc) \<and> (rc_windows (rw_rCache rwc) \<longrightarrow> rc_windows c'))"
    by (rule okG_mono [OF RCache_Close_ok [OF r]]) auto
  then show ?thesis
    unfolding RWCache_Close_def
  proof (rule okG_bind, goal_cases)
    case (1 x)
    obtain err rc1 where x: "x = (err, rc1)" by (metis prod.collapse)
    then have rc1: "err = None" "rc_inv bs {} rc1" and kept: "CacheCore.more rc1 = CacheCore.more (rw_rCache rwc)"
        "rc_windows (rw_rCache rwc) \<Longrightarrow> rc_windows rc1" using 1 by simp_all
    have "okG True (bindG (WCache_Close sched recv post pc now fe (rw_wCache rwc) s)
        (\<lambda>(err, wc1, s1). Ret (err, rwc\<lparr> rw_rCache := rc1, rw_wCache := wc1 \<rparr>, s1))) (\<lambda>(err, rwc', s'). rw_ok bs rwc' \<and> rw_kept rwc rwc' \<and>
        file_flushed bs content (fe_Id fe) (rw_wCache rwc) s (err, rw_wCache rwc', s'))"
    proof (rule okG_bind [OF cl], goal_cases)
      case (1 y)
      obtain err wc1 s1 where y: "y = (err, wc1, s1)" by (metis prod.collapse)
      then have "wc_inv bs {} wc1" "CacheCore.more wc1 = CacheCore.more (rw_wCache rwc)" using 1 by simp_all
      then have "rw_ok bs (rwc\<lparr> rw_rCache := rc1, rw_wCache := wc1 \<rparr>)"
        using inv rc1 more_same(3) [of wc1 "rw_wCache rwc"] by (simp add: rw_ok_def)
      then show ?case using 1 y kept by (simp add: rw_kept_def)
    qed
    then show ?case using x rc1 by simp
  qed
qed

lemma IsLastRefer_returns:
  assumes inv: "fc_inv fc" and e: "handles fc i = Some e" and d: "\<not> fe_DirectIO e"
  shows "\<exists>b. IsLastRefer e fc = Ret b"
proof -
  have "i < length (fileEntryVec fc)" "fileEntryVec fc ! i = Some e" using e by (auto simp: handles_def split: if_splits)
  then have "0 < open_refs (fe_Id e) (fileEntryVec fc)" using open_refs_pos d by blast
  moreover have "refs_ok fc" using inv by (simp add: fc_inv_def)
  ultimately show ?thesis by (simp add: IsLastRefer_def LastRef_def refs_ok_def)
qed

lemma close_cached_ok:
  assumes ok: "server_ok (env_post env) (m_proxyClient m) content" and inv: "fc_inv (m_fileCache m)"
    and e: "handles (m_fileCache m) i = Some e" and d: "\<not> fe_DirectIO e" and rw: "rw_ok bs rwc"
    and env: "\<And>xs. set (env_sched env xs) = set xs" "\<And>es. set (env_recv env es) = set es"
  shows "okG True (close_cached env e rwc m s) (\<lambda>(err, m', s'). \<exists>rwc'. m' = m\<lparr> m_rwCache := Some rwc' \<rparr> \<and> rw_ok bs rwc' \<and> rw_kept rwc rwc' \<and>
     file_flushed bs content (fe_Id e) (rw_wCache rwc) s (err, rw_wCache rwc', s'))"
proof -
  obtain b where b: "IsLastRefer e (m_fileCache m) = Ret b" using IsLastRefer_returns [OF inv e d] by blast
  let ?Q = "\<lambda>(err, rwc', s'). rw_ok bs rwc' \<and> rw_kept rwc rwc' \<and> file_flushed bs content (fe_Id e) (rw_wCache rwc) s (err, rw_wCache rwc', s')"
  have "okG True (RWCache_Flush (env_sched env) (env_recv env) (env_post env) (m_proxyClient m) (env_now env) e rwc s) ?Q"
    by (rule okG_mono [OF RWCache_Flush_ok [OF ok rw env]]) auto
  moreover have "okG True (RWCache_Close (env_sched env) (env_recv env) (env_post env) (m_proxyClient m) (env_now env) e rwc s) ?Q"
    by (rule okG_mono [OF RWCache_Close_ok [OF ok rw env]]) auto
  ultimately have "okG True (if b
            then RWCache_Close (env_sched env) (env_recv env) (env_post env) (m_proxyClient m) (env_now env) e rwc s
            else RWCache_Flush (env_sched env) (env_recv env) (env_post env) (m_proxyClient m) (env_now env) e rwc s) ?Q"
    by simp
  then show ?thesis
    unfolding close_cached_def b bindG.simps by (rule okG_bind) (auto simp del: file_flushed.simps)
qed

text \<open>
  C17: Closing a handle of a mount with caches, the last one of its file or not, in any order of the
  flushing goroutines. It never panics. When it reports no error, the handle and no other is gone,
  no block of the file is cached any more and what a client sees has not changed, so the server
  holds the file as the client saw it. When writing back fails, the error is \<^verbatim>\<open>EBADF\<close> and the handle
  stays open.
\<close>

theorem close_writes_back:
  assumes "server_ok (env_post env) (m_proxyClient m) content" and "fc_inv (m_fileCache m)"
    and "handles (m_fileCache m) (unat (word_of_int fd :: u32)) = Some e"
    and "\<not> fe_DirectIO e" and "m_rwCache m = Some rwc" and "rw_ok bs rwc"
    and "reorders (env_sched env)" and "reorders (env_recv env)"
  shows "okG True (Close_fd env fd m s) (\<lambda>(err, m', s'). \<exists>rwc'. m_rwCache m' = Some rwc' \<and> rw_ok bs rwc' \<and> fc_inv (m_fileCache m') \<and>
     (if err = None
      then handles (m_fileCache m') = (handles (m_fileCache m))(unat (word_of_int fd :: u32) := None) \<and>
        (\<forall>i. attached (rw_wCache rwc') (fe_Id e) i = None) \<and>
        wview bs content (rw_wCache rwc') s' = wview bs content (rw_wCache rwc) s
      else err = errno E_POSIX_EBADF \<and> dom (handles (m_fileCache m')) = dom (handles (m_fileCache m))))"
proof -
  let ?e = "e\<lparr> fe_LastAccessTime := env_now env \<rparr>" and ?h = "unat (word_of_int fd :: u32)"
  obtain fc where g: "get_entry env fd m = Ret (Some ?e, None, m\<lparr> m_fileCache := fc \<rparr>)" "fc_inv fc"
      "handles fc = (handles (m_fileCache m))(?h \<mapsto> ?e)"
    using get_entry_ok [OF assms(2,3), of env] by blast
  let ?m = "m\<lparr> m_fileCache := fc \<rparr>"
  have cl: "okG True (close_cached env ?e rwc ?m s) (\<lambda>(err, m', s'). \<exists>rwc'. m' = ?m\<lparr> m_rwCache := Some rwc' \<rparr> \<and> rw_ok bs rwc' \<and> rw_kept rwc rwc' \<and>
     file_flushed bs content (fe_Id ?e) (rw_wCache rwc) s (err, rw_wCache rwc', s'))"
    by (rule close_cached_ok) (use assms g in \<open>auto simp: reorders_def\<close>)
  obtain fc' where c: "CloseFile (word_of_int fd) fc = Ret (None, fc')" "fc_inv fc'" "handles fc' = (handles fc)(?h := None)"
    using CloseFile_spec [OF g(2), of "word_of_int fd" ?e] g(3) by auto
  have dom: "dom (handles fc) = dom (handles (m_fileCache m))" using g(3) assms(3) by auto
  have use: "UseRWCache ?e ?m" using assms(4,5) by (simp add: UseRWCache_def)
  show ?thesis
    unfolding Close_fd_def g(1) bindG.simps prod.case option.case
  proof (rule okG_bind [where P = "\<lambda>(err, m', s'). \<exists>rwc'. m' = ?m\<lparr> m_rwCache := Some rwc' \<rparr> \<and> rw_ok bs rwc' \<and> rw_kept rwc rwc' \<and>
      file_flushed bs content (fe_Id e) (rw_wCache rwc) s (err, rw_wCache rwc', s')"], goal_cases)
    case 1
    then show ?case using cl use assms(5) by simp
  next
    case (2 x)
    obtain err m1 s1 where x: "x = (err, m1, s1)" by (metis prod.collapse)
    then obtain rwc' where r: "m1 = ?m\<lparr> m_rwCache := Some rwc' \<rparr>" "rw_ok bs rwc'"
        "file_flushed bs content (fe_Id e) (rw_wCache rwc) s (err, rw_wCache rwc', s1)"
      using 2 by auto
    show ?case using x r g c dom by (cases err) auto
  qed
qed


section \<open>Attributes\<close>

lemma raise_size_ok:
  assumes "d_Info d = Some info"
  shows "raise_size n d = Ret (d\<lparr> d_Info := Some (info\<lparr> ino_Size := max (ino_Size info) n \<rparr>) \<rparr>)"
  using assms by (cases d; cases info) (auto simp: raise_size_def max_def)

lemma unat_max: "unat (max a b :: u64) = max (unat a) (unat b)"
  by (auto simp: max_def word_le_nat_alt)

lemma Stat_size_ok:
  assumes rwc: "m_rwCache m = Some rwc" and inv: "wc_inv bs {} (rw_wCache rwc)" and info: "d_Info dentry = Some info"
    and fe: "GetSimpleFileEntry dentry = Some fe" "fe_Id fe = f"
  shows "okG (\<exists>i. locks (rw_wCache rwc) f i \<noteq> None) (Stat_size env path dentry m s) (\<lambda>(r, m1, s2).
      m1 = m \<and> s2 = s \<and>
      (\<exists>n. r = Inr (dentry\<lparr> d_Info := Some (info\<lparr> ino_Size := max (ino_Size info) n \<rparr>) \<rparr>) \<and> unat n = cached_end bs (rw_wCache rwc) f))"
proof -
  have "okG (\<exists>i. locks (rw_wCache rwc) f i \<noteq> None) (StatSize fe (rw_wCache rwc))
      (\<lambda>((n, err), c'). err = None \<and> unat n = cached_end bs (rw_wCache rwc) f \<and> c' = rw_wCache rwc)"
    using StatSize_ok [OF inv, of fe] fe(2) by simp
  moreover have "m\<lparr> m_rwCache := Some rwc \<rparr> = m" "rwc\<lparr> rw_wCache := rw_wCache rwc \<rparr> = rwc" using rwc by simp_all
  ultimately show ?thesis using rwc fe(1)
    by (cases "StatSize fe (rw_wCache rwc)") (auto simp: Stat_size_def raise_size_ok [OF info] Let_def)
qed


section \<open>Directory entries\<close>

lemma dentry_RemovePrefix_ok:
  assumes "dc_inv (m_dentryCache m)" and "reorders (env_ord env)"
  shows "dc_inv (m_dentryCache (dentry_RemovePrefix env p m)) \<and>
     dc_view (m_dentryCache (dentry_RemovePrefix env p m)) = (\<lambda>k. if prefix p k then None else dc_view (m_dentryCache m) k)"
  using RemovePrefix_ok [OF assms] by (simp add: dentry_RemovePrefix_def)

text \<open>
  C24: A change of the attributes or the name of a file that the server accepted leaves no entry of the
  path in the cache of directory entries; removing a tree leaves none under the path, and renaming
  none under the old and the new path.
\<close>

theorem changes_drop_entries:
  assumes "dc_inv (m_dentryCache m)" and "reorders (env_ord env)"
  shows "(Chmod env path mode m s = (None, m', s') \<longrightarrow> dc_view (m_dentryCache m') path = None) \<and>
     (Chown env path uid gid m s = (None, m', s') \<longrightarrow> dc_view (m_dentryCache m') path = None) \<and>
     (ChownEx env path owner grp m s = (None, m', s') \<longrightarrow> dc_view (m_dentryCache m') path = None) \<and>
     (Utime env path utime atime m s = (None, m', s') \<longrightarrow> dc_view (m_dentryCache m') path = None) \<and>
     (Setxattr env path key value flag m s = (None, m', s') \<longrightarrow> dc_view (m_dentryCache m') path = None) \<and>
     (Removexattr env path key m s = (None, m', s') \<longrightarrow> dc_view (m_dentryCache m') path = None) \<and>
     (Link env path dst m s = (None, m', s') \<longrightarrow> dc_view (m_dentryCache m') path = None) \<and>
     (UnLink env path m s = (None, m', s') \<longrightarrow> dc_view (m_dentryCache m') path = None) \<and>
     (Rmdir env path m s = (None, m', s') \<longrightarrow> dc_view (m_dentryCache m') path = None) \<and>
     (RmDirTree env path m s = (None, m', s') \<longrightarrow> (\<forall>k. prefix path k \<longrightarrow> dc_view (m_dentryCache m') k = None)) \<and>
     (Rename env path dst m s = (None, m', s') \<longrightarrow>
        (\<forall>k. prefix path k \<or> prefix dst k \<longrightarrow> dc_view (m_dentryCache m') k = None))"
proof -
  note r = dentry_Remove_ok [OF assms(1)] and t = dentry_RemovePrefix_ok [OF assms]
  have two: "dc_view (m_dentryCache (dentry_RemovePrefix env dst (dentry_RemovePrefix env path m))) k = None"
    if "prefix path k \<or> prefix dst k" for k
    using dentry_RemovePrefix_ok [OF conjunct1 [OF t [of path]] assms(2), of dst] t [of path] that by auto
  have one: "m' = dentry_Remove path m \<Longrightarrow> dc_view (m_dentryCache m') path = None" using r by simp
  note defs = Chmod_def Chown_def ChownEx_def Utime_def Setxattr_def Removexattr_def Link_def UnLink_def Rmdir_def Let_def
  show ?thesis
  proof (intro conjI impI allI)
    fix k
    assume "RmDirTree env path m s = (None, m', s')" and "prefix path k"
    then show "dc_view (m_dentryCache m') k = None"
      using t [of path] by (auto simp: RmDirTree_def toErr_None_iff split: prod.splits if_splits)
  next
    fix k
    assume "Rename env path dst m s = (None, m', s')" and k: "prefix path k \<or> prefix dst k"
    then have "m' = dentry_RemovePrefix env dst (dentry_RemovePrefix env path m)"
      by (auto simp: Rename_def toErr_None_iff split: prod.splits if_splits)
    then show "dc_view (m_dentryCache m') k = None" using two [OF k] by simp
  qed (rule one; simp add: defs toErr_None_iff split: prod.splits if_splits; blast?)+
qed


section \<open>Life cycle\<close>

lemma Stat_keeps_mount:
  assumes "Stat env path m s = Ret (r, m', s')"
  shows "m_MountStu m' = m_MountStu m \<and> m_MountMode m' = m_MountMode m \<and> m_Path m' = m_Path m \<and> m_stopped m' = m_stopped m"
proof -
  have size: "m_MountStu m2 = m_MountStu m1 \<and> m_MountMode m2 = m_MountMode m1 \<and> m_Path m2 = m_Path m1 \<and> m_stopped m2 = m_stopped m1"
    if "Stat_size env path d m1 s1 = Ret (x, m2, s2)" for d m1 s1 x m2 s2
    using that by (auto simp: Stat_size_def Let_def go_simps split: option.splits if_splits prod.splits)
  obtain hit e dc where look: "DentryCache_Get (env_now env) path (m_dentryCache m) = (hit, e, dc)" by (metis prod_cases3)
  obtain s1 x where st: "doStat env path (m\<lparr> m_dentryCache := dc \<rparr>) s = (s1, x)" by (metis prod.collapse)
  show ?thesis
  proof (cases "checkMount path MountModeRead m = None \<and> hit = None")
    case False
    then show ?thesis using assms look by (auto simp: Stat_def Let_def split: if_splits option.splits)
  next
    case True
    show ?thesis
    proof (cases x)
      case (Inl err)
      then show ?thesis using assms look st True by (auto simp: Stat_def Let_def)
    next
      case (Inr d)
      then obtain y m1 s2 where y: "Stat_size env path d (m\<lparr> m_dentryCache := dc \<rparr>) s1 = Ret (y, m1, s2)"
        using assms look st True by (cases "Stat_size env path d (m\<lparr> m_dentryCache := dc \<rparr>) s1") (auto simp: Stat_def Let_def)
      then show ?thesis using assms look st True Inr size [OF y]
        by (cases y) (auto simp: Stat_def Let_def dentry_Set_def)
    qed
  qed
qed

lemma DelMount_ends:
  assumes "DelMount env m s = Ret (m', s')"
  shows "m_MountStu m' = MountStuDel" "m_stopped m'"
proof -
  obtain m1 s1 where "wg_Wait (Mount_gor (wt_cfg (env_wait env))) (\<lambda>x. \<not> fst x) (wt_sturns (env_wait env)) (wt_stats (env_wait env))
      (m1\<lparr> m_MountStu := MountStuDel, m_stopped := True \<rparr>) s1 = Ret (m', s')"
    using assms by (auto simp: DelMount_def go_simps split: if_splits prod.splits)
  from okG_Ret [OF stat_Wait this] show "m_MountStu m' = MountStuDel" "m_stopped m'" by auto
qed

text \<open>
  C28: A mount goes from new to mounted to deleted and never back. \<^verbatim>\<open>Mount\<close> refuses a mount that is not new
  and changes nothing; on a new one it ends mounted with all permissions, also when it reports an error
  because the attributes of the root could not be read. After \<^verbatim>\<open>DelMount\<close> every path is refused, and so is
  a further \<^verbatim>\<open>Mount\<close>; a second \<^verbatim>\<open>DelMount\<close> does not return.
\<close>

theorem mount_life_cycle:
  "(m_MountStu m \<noteq> MountStuNew \<longrightarrow> Mount env m s = Ret (errno E_POSIX_EPERM, m, s)) \<and>
   (m_MountStu m = MountStuNew \<and> Mount env m s = Ret (err, m1, s1) \<longrightarrow>
      m_MountStu m1 = MountStuMounted \<and> m_MountMode m1 = MountModeRead OR MountModeWrite OR MountModeDel \<and> m_Path m1 = m_Path m) \<and>
   (DelMount env m s = Ret (m2, s2) \<longrightarrow>
      m_MountStu m2 = MountStuDel \<and> (\<forall>path perm. checkMount path perm m2 = errno E_POSIX_EPERM) \<and>
      Mount env m2 s2 = Ret (errno E_POSIX_EPERM, m2, s2) \<and> (\<forall>x. DelMount env m2 s2 \<noteq> Ret x))"
proof (intro conjI impI)
  assume "m_MountStu m \<noteq> MountStuNew"
  then show "Mount env m s = Ret (errno E_POSIX_EPERM, m, s)" by (simp add: Mount_def)
next
  assume new: "m_MountStu m = MountStuNew \<and> Mount env m s = Ret (err, m1, s1)"
  let ?m = "m\<lparr> m_MountMode := MountModeRead OR MountModeWrite OR MountModeDel, m_MountStu := MountStuMounted \<rparr>"
  obtain d where st: "Stat env (m_Path m) ?m s = Ret ((d, err), m1, s1)"
    using new by (auto simp: Mount_def Let_def go_simps)
  show "m_MountStu m1 = MountStuMounted" "m_MountMode m1 = MountModeRead OR MountModeWrite OR MountModeDel" "m_Path m1 = m_Path m"
    using Stat_keeps_mount [OF st] by simp_all
next
  assume "DelMount env m s = Ret (m2, s2)"
  note del = DelMount_ends [OF this]
  then show "m_MountStu m2 = MountStuDel" "\<forall>path perm. checkMount path perm m2 = errno E_POSIX_EPERM"
      "Mount env m2 s2 = Ret (errno E_POSIX_EPERM, m2, s2)"
    by (simp_all add: checkMount_def Mount_def)
  show "\<forall>x. DelMount env m2 s2 \<noteq> Ret x"
    using del by (auto simp: DelMount_def go_simps split: option.splits prod.splits)
qed

section \<open>Names and paths\<close>

lemma genPath_root: "suffix ''/'' root \<Longrightarrow> genPath root name = (if name = [] then root else root @ name)"
  by (auto simp: genPath_def suffix_def)

lemma genPath_noroot: "\<not> suffix ''/'' root \<Longrightarrow> genPath root name = (if name = [] then root else root @ ''/'' @ name)"
  by (simp add: genPath_def)

lemma removeRoot_genPath: "removeRoot root (genPath root name) = name"
  by (cases "suffix ''/'' root") (simp_all add: genPath_root genPath_noroot removeRoot_def TrimPrefix_def)

lemma bad_path_last: "bad_path path \<longleftrightarrow> path = [] \<or> hd path \<noteq> CHR ''/'' \<or> (last path = CHR ''/'' \<and> 1 < length path)"
  by (cases "path = []") (simp_all add: bad_path_def hd_conv_nth last_conv_nth)

text \<open>
  C29: The paths that FUSE asks for. With a legal mount path, the path made from a relative name that does
  not end in a slash passes the check of a mounted mount for every permission the mount has; and
  taking the root off a path gives the name back, so that the target of a symbolic link comes back
  as it was given.
\<close>

theorem fuse_paths_are_legal:
  assumes "\<not> bad_path (m_Path m)" and "name = [] \<or> last name \<noteq> CHR ''/''"
    and "m_MountStu m = MountStuMounted" and "perm \<noteq> 0" and "perm AND m_MountMode m = perm"
  shows "checkMount (genPath (m_Path m) name) perm m = None \<and> removeRoot (m_Path m) (genPath (m_Path m) name) = name"
proof -
  have ne: "m_Path m \<noteq> []" "hd (m_Path m) = CHR ''/''" using assms(1) by (auto simp: bad_path_last)
  have "prefix (m_Path m) (genPath (m_Path m) name) \<and> \<not> bad_path (genPath (m_Path m) name)"
    using assms(1,2) ne by (cases "suffix ''/'' (m_Path m)") (auto simp: genPath_root genPath_noroot bad_path_last)
  then show ?thesis using assms(3-5) removeRoot_genPath by (simp add: checkMount_def)
qed

section \<open>Limits of the code\<close>

text \<open>
  The error of the cache is lost: when the server accepts the \<^verbatim>\<open>fsync\<close>, \<^verbatim>\<open>Flush\<close> reports success whatever
  writing back the cached data reported.
\<close>

theorem flush_drops_cache_error:
  assumes "fc_inv (m_fileCache m)" and "handles (m_fileCache m) (unat (word_of_int fd :: u32)) = Some e"
    and "\<And>s. \<exists>s' resp. px_Fsync (env_post env) (m_proxyClient m) s (fe_Id e) = (s', resp, None) \<and> resp_Code resp = 0"
    and "Flush_fd env fd m s = Ret (err, m', s')"
  shows "err = None"
proof -
  obtain fc where g: "get_entry env fd m = Ret (Some (e\<lparr> fe_LastAccessTime := env_now env \<rparr>), None, m\<lparr> m_fileCache := fc \<rparr>)"
    using get_entry_ok [OF assms(1,2), of env] by blast
  let ?e = "e\<lparr> fe_LastAccessTime := env_now env \<rparr>" and ?m = "m\<lparr> m_fileCache := fc \<rparr>"
  show ?thesis
  proof (cases "UseRWCache ?e ?m")
    case True
    then obtain err1 rwc' s1 where fl: "RWCache_Flush (env_sched env) (env_recv env) (env_post env) (m_proxyClient m) (env_now env) ?e
        (the (m_rwCache m)) s = Ret (err1, rwc', s1)"
      using assms(4) g by (cases "RWCache_Flush (env_sched env) (env_recv env) (env_post env) (m_proxyClient m) (env_now env) ?e
        (the (m_rwCache m)) s") (auto simp: Flush_fd_def)
    obtain s2 resp where "px_Fsync (env_post env) (m_proxyClient m) s1 (fe_Id e) = (s2, resp, None)" "resp_Code resp = 0"
      using assms(3) by blast
    then show ?thesis using assms(4) g True fl by (simp add: Flush_fd_def)
  next
    case False
    obtain s2 resp where "px_Fsync (env_post env) (m_proxyClient m) s (fe_Id e) = (s2, resp, None)" "resp_Code resp = 0"
      using assms(3) by blast
    then show ?thesis using assms(4) g False by (simp add: Flush_fd_def)
  qed
qed

text \<open>The parent of a path directly under the root is the empty path, not the root whose entry is cached under \<^verbatim>\<open>/\<close>.\<close>

theorem parent_of_top_level:
  assumes "CHR ''/'' \<notin> set name"
  shows "parent (CHR ''/'' # name) = Ret []"
proof -
  have "takeWhile (\<lambda>x. x \<noteq> CHR ''/'') (rev name @ ''/'') = rev name" using assms by (subst takeWhile_append2) auto
  then show ?thesis by (simp add: parent_def LastIndex_def)
qed

text \<open>The check compares characters, not components: a mount of \<^verbatim>\<open>/a\<close> lets the path \<^verbatim>\<open>/ab\<close> in.\<close>

theorem sibling_passes_check:
  "checkMount ''/ab'' MountModeWrite
     \<lparr> m_Path = ''/a'', m_MountStu = MountStuMounted, m_MountMode = MountModeRead OR MountModeWrite OR MountModeDel, m_LsSize = 1,
       m_fileCache = NewFileCache 2, m_dentryCache = NewDentryCache 0 0, m_rwCache = None, m_proxyClient = mem_client, m_stopped = False \<rparr> = None"
  by code_simp


section \<open>Witnesses\<close>

text \<open>A mount of \<^verbatim>\<open>/\<close> with caches of two buffers, and a server that accepts everything.\<close>

definition wit_mount :: "FileCache \<Rightarrow> CfaMountInfo" where
  "wit_mount fc =
     \<lparr> m_Path = ''/'', m_MountStu = MountStuMounted, m_MountMode = MountModeRead OR MountModeWrite OR MountModeDel,
       m_LsSize = 1, m_fileCache = fc, m_dentryCache = NewDentryCache 4 0, m_rwCache = Some (NewRWCache 2 1000 0 0 1),
       m_proxyClient = mem_client, m_stopped = False \<rparr>"

text \<open>An expiry for each cache, a writer that is gone and the statistics; each goroutine of a cache gets four turns.\<close>

definition wit_waits :: Waits where
  "wit_waits = \<lparr> wt_cfg = Map.empty, wt_wgs = [Expirer ESweep 0, Worker False], wt_wturns = [(0, 0), (1, 0), (0, 0), (1, 0), (1, 0), (0, 0), (0, 0), (1, 0)],
     wt_rgs = [Expirer ETop 0], wt_rturns = replicate 4 (0, 0), wt_stats = [StatTo_start Map.empty 0 Statistic], wt_sturns = [(0, 0)] \<rparr>"

definition wit_env :: "'s poster \<Rightarrow> 's Env" where
  "wit_env post = \<lparr> env_post = post, env_now = 0, env_ord = rev, env_sched = rev, env_recv = rev, env_wait = wit_waits \<rparr>"

definition ok_server :: "unit poster" where
  "ok_server s url j = (s, Inr (JObj [(''code'', JNum 0)]))"

definition wit_entry :: FileEntry where
  "wit_entry = \<lparr> fe_Id = 7, fe_BlockSize = 4, fe_Handle = - 1, fe_FilePath = ''/f'', fe_OpenFlag = O_RDWR, fe_Mode = 0, fe_DirectIO = False,
     fe_Owner = [], fe_Pid = 0, fe_LastAccessTime = 0, fe_closed = False \<rparr>"

lemma wit_handle:
  "\<exists>fc. fc_inv fc \<and> handles fc 0 = Some (new_entry 0 0 wit_entry) \<and> dom (handles fc) = {0}"
proof -
  have inv: "fc_inv (NewFileCache 2)" by (rule NewFileCache_inv) simp
  have h0: "handles (NewFileCache 2) = Map.empty" by (auto simp: handles_def NewFileCache_def)
  have ix: "fileEntryIndex (NewFileCache 2) = 0" "fileEntryIndex (NewFileCache 2) < fileEntryVecSize (NewFileCache 2)"
    by (simp_all add: NewFileCache_def)
  obtain fc where "fc_inv fc" "handles fc = [0 \<mapsto> new_entry 0 0 wit_entry]"
    using NewFile_spec [OF inv ix(2), of 0 0 wit_entry] h0 ix(1) by auto
  then show ?thesis by (intro exI [of _ fc]) simp
qed

lemma wit_new_entry [simp]:
  "fe_Id (new_entry 0 0 wit_entry) = 7" "fe_BlockSize (new_entry 0 0 wit_entry) = 4" "fe_FilePath (new_entry 0 0 wit_entry) = ''/f''"
  "fe_OpenFlag (new_entry 0 0 wit_entry) = O_RDWR" "\<not> fe_DirectIO (new_entry 0 0 wit_entry)"
  by (simp_all add: new_entry_def wit_entry_def O_RDWR_def O_DIRECT_def)

lemma wit_rw_ok: "rw_ok 4 (NewRWCache 2 1000 0 0 1)"
  using NewWCache_inv [of 4 2 1000 0] NewRCache_inv [of 4 2 1000 0 1]
  by (simp add: rw_ok_def NewRWCache_def) (simp add: NewWCache_def)



theorem close_writes_back_witness:
  "\<exists>fc. handles fc 0 \<noteq> None \<and>
     okG True (Close_fd (wit_env mem_server) 0 (wit_mount fc) (\<lambda>_. [])) (\<lambda>(err, m', s'). err = None \<longrightarrow> handles (m_fileCache m') 0 = None)"
proof -
  obtain fc where fc: "fc_inv fc" "handles fc 0 = Some (new_entry 0 0 wit_entry)" using wit_handle by blast
  have "okG True (Close_fd (wit_env mem_server) 0 (wit_mount fc) (\<lambda>_. [])) (\<lambda>(err, m', s'). err = None \<longrightarrow> handles (m_fileCache m') 0 = None)"
    by (rule okG_mono [OF close_writes_back [where e = "new_entry 0 0 wit_entry" and content = "\<lambda>s. s" and rwc = "NewRWCache 2 1000 0 0 1" and bs = 4]])
       (use fc mem_server_ok wit_rw_ok in \<open>auto simp: wit_env_def wit_mount_def reorders_def\<close>)
  then show ?thesis using fc(2) by (intro exI [of _ fc]) simp
qed


theorem changes_drop_entries_witness:
  "\<exists>m' s'. Rename (wit_env ok_server) ''/f'' ''/g'' (wit_mount (NewFileCache 2)) () = (None, m', s') \<and>
     dc_view (m_dentryCache m') ''/f/x'' = None"
proof -
  let ?m = "wit_mount (NewFileCache 2)"
  have "fst (Rename (wit_env ok_server) ''/f'' ''/g'' ?m ()) = None" by code_simp
  then obtain m' s' where r: "Rename (wit_env ok_server) ''/f'' ''/g'' ?m () = (None, m', s')" by (metis prod.collapse)
  have "dc_inv (m_dentryCache ?m)" using NewDentryCache_ok [of "m_dentryCache ?m" 4 0] by (simp add: wit_mount_def)
  moreover have "reorders (env_ord (wit_env ok_server))" by (simp add: reorders_def wit_env_def)
  ultimately have "dc_view (m_dentryCache m') ''/f/x'' = None"
    using changes_drop_entries [of ?m "wit_env ok_server" "''/f''" _ "()" m' s'] r by (auto simp: prefix_def)
  then show ?thesis using r by blast
qed

theorem mount_life_cycle_witness:
  "Mount (wit_env ok_server) (wit_mount (NewFileCache 2)) () = Ret (errno E_POSIX_EPERM, wit_mount (NewFileCache 2), ())"
  using mount_life_cycle [of "wit_mount (NewFileCache 2)" "wit_env ok_server" "()"] by (simp add: wit_mount_def)

theorem fuse_paths_are_legal_witness:
  "checkMount (genPath ''/'' ''d/f'') MountModeWrite (wit_mount (NewFileCache 2)) = None \<and> removeRoot ''/'' (genPath ''/'' ''d/f'') = ''d/f''"
  using fuse_paths_are_legal [of "wit_mount (NewFileCache 2)" "''d/f''" MountModeWrite]
  by (simp add: wit_mount_def bad_path_def MountModeRead_def MountModeWrite_def MountModeDel_def)

end
