(* ===== verification/Cfa_Expire.thy ===== *)
theory Cfa_Expire
  imports Cfa_MProps Cfa_RSteps
begin

text \<open>
  The goroutines that work in the background until a mount is deleted: the expiry of the write cache
  and of the read cache (\<^verbatim>\<open>CheckExpire\<close> of \<^verbatim>\<open>wcache.go\<close> and \<^verbatim>\<open>rcache.go\<close>), the writer of queued blocks, and the
  statistics (\<^verbatim>\<open>StatTo\<close> of \<^verbatim>\<open>mount.go\<close>, \<^verbatim>\<open>stat/statistic.go\<close>). Unmounting waits for them, so they have to end.
\<close>

section \<open>The loops\<close>

text \<open>The loop is \<^const>\<open>expire_step\<close>, with the round of each cache.\<close>

definition WCache_CheckExpire_step ::
  "'s poster \<Rightarrow> ProxyClient \<Rightarrow> Config \<Rightarrow> int \<Rightarrow> expire_pc \<times> int \<times> WCache \<times> 's \<Rightarrow> (expire_pc \<times> int \<times> WCache \<times> 's) go" where
  "WCache_CheckExpire_step post pc cfg = expire_step (CheckExpire_round post pc) cc_Stop (CheckGap cfg)"

definition RCache_CheckExpire_step ::
  "Config \<Rightarrow> int \<Rightarrow> expire_pc \<times> int \<times> RCache \<times> 's \<Rightarrow> (expire_pc \<times> int \<times> RCache \<times> 's) go" where
  "RCache_CheckExpire_step cfg =
     expire_step RCheckExpire_work cc_Stop (CheckGap cfg)"

text \<open>Steps one after the other, the clock read at each.\<close>

fun run_steps :: "(int \<Rightarrow> 'x \<Rightarrow> 'x go) \<Rightarrow> (nat \<Rightarrow> int) \<Rightarrow> nat \<Rightarrow> 'x \<Rightarrow> 'x go" where
  "run_steps step clock 0 x = Ret x"
| "run_steps step clock (Suc n) x = bindG (step (clock 0) x) (run_steps step (clock \<circ> Suc) n)"

section \<open>Stopping\<close>

text \<open>The entries that \<^verbatim>\<open>CloseAll\<close> goes through, and the cache when it starts to: the channel closed, the stop flag set.\<close>

definition cached_entries :: "'a CacheCore_scheme \<Rightarrow> FileEntry list" where
  "cached_entries c = map (fb_fe \<circ> snd) (cc_Cache c)"

definition stopping :: "WCache \<Rightarrow> WCache" where
  "stopping c = (if wc_chSync c \<noteq> None then c\<lparr> wc_chClosed := True \<rparr> else c)\<lparr> cc_Stop := True \<rparr>"

lemma stopping_same:
  "attached (stopping c) = attached c" "cbyte (stopping c) = cbyte c" "qblocks (stopping c) = qblocks c"
  "wview bs content (stopping c) s = wview bs content c s" "cached_entries (stopping c) = cached_entries c"
  "wc_inv bs H (stopping c) = wc_inv bs H c"
proof -
  let ?c = "stopping c"
  have fr: "cc_FreeList ?c = cc_FreeList c" "cc_LruList ?c = cc_LruList c" "cc_heap ?c = cc_heap c" "cc_Cache ?c = cc_Cache c"
      "queue ?c = queue c"
    by (simp_all add: stopping_def queue_def)
  show att: "attached ?c = attached c" by (rule attached_cong) (rule fr)
  note pool = pool_inv_cong [OF fr(1-3) att]
  show cb: "cbyte ?c = cbyte c" by (rule pool(2))
  show q: "qblocks ?c = qblocks c" by (rule qblocks_cong [OF fr(5) att])
  show "wview bs content ?c s = wview bs content c s" by (rule wview_cong [OF cb])
  show "cached_entries ?c = cached_entries c" by (simp add: cached_entries_def fr)
  have "wc_locks H ?c = wc_locks H c" by (rule wc_locks_cong [OF locks_cong]) (simp_all add: fr q)
  then show "wc_inv bs H ?c = wc_inv bs H c"
    using pool(1) fr att cb wc_files_cong [OF fe_ids_cong [OF fr(4)]] by (simp add: wc_defs)
qed

definition rstopping :: "RCache \<Rightarrow> RCache" where
  "rstopping c = (if rc_chPrefetch c \<noteq> None then c\<lparr> rc_chClosed := True \<rparr> else c)\<lparr> cc_Stop := True \<rparr>"

lemma rstopping_same: "rc_inv bs {} (rstopping c) = rc_inv bs {} c" "rblocks (rstopping c) = rblocks c"
proof -
  let ?c = "rstopping c"
  have fr: "cc_FreeList ?c = cc_FreeList c" "cc_LruList ?c = cc_LruList c" "cc_heap ?c = cc_heap c" "cc_Cache ?c = cc_Cache c"
      "rqueue ?c = rqueue c"
    by (simp_all add: rstopping_def rqueue_def)
  have att: "attached ?c = attached c" and l: "locks ?c = locks c" by (rule attached_cong locks_cong, rule fr)+
  show q: "rblocks ?c = rblocks c" by (simp add: rblocks_def fr)
  show "rc_inv bs {} ?c = rc_inv bs {} c"
    using pool_inv_cong(1) [OF fr(1-3) att] fr att l q by (simp add: rc_defs rc_locks_def rc_files_def)
qed

section \<open>Ending\<close>

text \<open>
  What a goroutine of expiry relies on: a round keeps an invariant and the stop flag, and when the
  clock has moved by less than the life time since some time \<open>T\<close>, every round that goes on leaves less
  to do.
\<close>

locale expiry =
  fixes round :: "int \<Rightarrow> 'c \<Rightarrow> 's \<Rightarrow> (bool \<times> 'c \<times> 's) go"
    and stop :: "'c \<Rightarrow> bool" and inv :: "'c \<Rightarrow> bool" and life :: "'c \<Rightarrow> int" and pending :: "int \<Rightarrow> 'c \<Rightarrow> nat"
    and timely :: "int \<Rightarrow> int \<Rightarrow> int \<Rightarrow> bool" and waits :: "'c \<Rightarrow> bool"
  assumes round_ok: "inv c \<Longrightarrow> okG (waits c) (round now c s) (\<lambda>(again, c', s'). inv c' \<and> stop c' = stop c \<and> life c' = life c \<and>
      (waits c' \<longrightarrow> waits c) \<and>
      (timely (life c) T now \<and> again \<longrightarrow> pending T c' < pending T c))"
begin

lemma ended: "okG w (run_steps (expire_step round stop gap) clock n (EEnd, lt, c, s)) (\<lambda>x. x = (EEnd, lt, c, s))"
  by (induction n arbitrary: clock) (simp_all add: expire_step_def)

lemma stops_at_top:
  assumes "inv c" and "stop c" and "0 < n"
  shows "okG w (run_steps (expire_step round stop gap) clock n (ETop, lt, c, s)) (\<lambda>(q, _, c', _). q = EEnd \<and> inv c')"
proof -
  obtain k where n: "n = Suc k" using assms(3) by (cases n) auto
  have step: "run_steps (expire_step round stop gap) clock n (ETop, lt, c, s) =
      run_steps (expire_step round stop gap) (clock \<circ> Suc) k (EEnd, lt, c, s)"
    using assms(2) by (simp add: n expire_step_def)
  show ?thesis unfolding step by (rule okG_mono [OF ended]) (use assms(1) in auto)
qed

lemma stops:
  assumes "inv c" and "stop c" and "\<And>j. j < n \<Longrightarrow> timely (life c) T (clock j)" and "pending T c + 2 \<le> n"
  shows "okG (waits c) (run_steps (expire_step round stop gap) clock n (q, lt, c, s)) (\<lambda>(q, _, c', _). q = EEnd \<and> inv c')"
  using assms
proof (induction n arbitrary: clock c q lt s)
  case (Suc n)
  consider "q = ETop" | "q = EEnd" | "q = ESweep" by (cases q)
  then show ?case
  proof cases
    case 1
    show ?thesis unfolding 1 by (rule stops_at_top) (use Suc.prems in auto)
  next
    case 2
    show ?thesis unfolding 2 by (rule okG_mono [OF ended]) (use Suc.prems in auto)
  next
    case 3
    have step: "run_steps (expire_step round stop gap) clock (Suc n) (q, lt, c, s) =
        bindG (round (clock 0) c s) (\<lambda>(again, c', s'). run_steps (expire_step round stop gap) (clock \<circ> Suc) n
          (if again then (ESweep, lt, c', s') else (ETop, clock 0, c', s')))"
      by (cases "round (clock 0) c s") (simp_all add: 3 expire_step_def split: prod.split)
    show ?thesis
      unfolding step
    proof (rule okG_bind [OF round_ok [OF Suc.prems(1), of "clock 0" s T]], goal_cases)
      case (1 x)
      obtain again c' s' where x: "x = (again, c', s')" by (metis prod_cases3)
      have c': "inv c'" "stop c'" "life c' = life c" "again \<Longrightarrow> pending T c' < pending T c" "waits c' \<Longrightarrow> waits c"
        using 1 x Suc.prems(2) Suc.prems(3) [of 0] by auto
      show ?case
      proof (cases again)
        case True
        have "pending T c' + 2 \<le> n" using c'(4) [OF True] Suc.prems(4) by simp
        moreover have "timely (life c') T ((clock \<circ> Suc) j)" if "j < n" for j using Suc.prems(3) [of "Suc j"] that c'(3) by simp
        ultimately have "okG (waits c') (run_steps (expire_step round stop gap) (clock \<circ> Suc) n (ESweep, lt, c', s'))
            (\<lambda>(q, _, c', _). q = EEnd \<and> inv c')"
          by (intro Suc.IH c'(1,2)) auto
        from okG_mono [OF this c'(5)] show ?thesis using x True by simp
      next
        case False
        have "0 < n" using Suc.prems(4) by simp
        then show ?thesis using stops_at_top [OF c'(1,2), of n] x False by simp
      qed
    qed
  qed
qed simp

end

section \<open>What is left to do\<close>

text \<open>The buffers of the LRU list whose time satisfies \<open>P\<close>; an operation that keeps the flags and adds none of them.\<close>

definition aged :: "(int \<Rightarrow> bool) \<Rightarrow> 'a CacheCore_scheme \<Rightarrow> nat" where
  "aged P c = length (filter (\<lambda>b. P (buf_LastUpdateTime (cc_heap c ! b))) (cc_LruList c))"

definition ages :: "(int \<Rightarrow> bool) \<Rightarrow> 'a CacheCore_scheme \<Rightarrow> 'a CacheCore_scheme \<Rightarrow> bool" where
  "ages P c c' \<longleftrightarrow> cc_Stop c' = cc_Stop c \<and> cc_ExpireTime c' = cc_ExpireTime c \<and> length (cc_heap c') = length (cc_heap c) \<and>
     aged P c' \<le> aged P c"

lemma ages_refl: "ages P c c"
  by (simp add: ages_def)

lemma ages_trans: "ages P a b \<Longrightarrow> ages P b c \<Longrightarrow> ages P a c"
  by (simp add: ages_def)

lemma filter_mono_length: "(\<And>x. x \<in> set xs \<Longrightarrow> Q x \<Longrightarrow> P x) \<Longrightarrow> length (filter Q xs) \<le> length (filter P xs)"
  by (induction xs) auto

lemma filter_remove1_le: "length (filter P (remove1 x xs)) \<le> length (filter P xs)"
  by (induction xs) auto

lemma filter_remove1_less: "x \<in> set xs \<Longrightarrow> P x \<Longrightarrow> length (filter P (remove1 x xs)) < length (filter P xs)"
  by (induction xs) auto

lemma time_same: "buf_LastUpdateTime (h[b := (h ! b)\<lparr> buf_elm := v \<rparr>] ! x) = buf_LastUpdateTime (h ! x)"
  by (cases "b < length h") (auto simp: nth_list_update list_update_beyond)

lemma ages_on_fb: "on_fb f g c = Ret c' \<Longrightarrow> ages P c c'"
  by (auto simp: on_fb_def go_simps ages_def aged_def split: option.splits)

lemma index_at_Ret: "index_at xs i = Ret x \<longleftrightarrow> i < length xs \<and> x = xs ! i"
  by (auto simp: index_at_def)

lemma ages_RemoveLru: "RemoveLru b c = Ret c' \<Longrightarrow> ages P c c'"
  using filter_remove1_le [of "\<lambda>x. P (buf_LastUpdateTime (cc_heap c ! x))" b "cc_LruList c"]
  by (auto simp: RemoveLru_def go_simps index_at_Ret ages_def aged_def time_same split: if_splits)

lemma ages_FreeBuffer: "ages P c (FreeBuffer b c)"
  by (simp add: ages_def aged_def FreeBuffer_def)

lemma ages_DoLru:
  assumes "DoLru now b c = Ret c'" and "\<not> P now"
  shows "ages P c c'"
proof -
  let ?t = "\<lambda>h x. buf_LastUpdateTime (h ! x)"
  have b: "b < length (cc_heap c)" using assms(1) by (auto simp: DoLru_def go_simps index_at_Ret)
  have "length (filter (\<lambda>x. P (?t (h[b := y]) x)) xs) \<le> length (filter (\<lambda>x. P (?t h x)) xs)"
    if "buf_LastUpdateTime y = now" "h = cc_heap c" for y h xs
    by (rule filter_mono_length) (use that assms(2) b in \<open>auto simp: nth_list_update split: if_splits\<close>)
  then have le: "length (filter (\<lambda>x. P (?t ((cc_heap c)[b := y]) x)) xs) \<le> length (filter (\<lambda>x. P (?t (cc_heap c) x)) xs)"
    if "buf_LastUpdateTime y = now" for y xs using that by simp
  have le1: "length (filter (\<lambda>x. P (?t ((cc_heap c)[b := y]) x)) (remove1 b xs)) \<le> length (filter (\<lambda>x. P (?t (cc_heap c) x)) xs)"
    if "buf_LastUpdateTime y = now" for y xs
    using le [OF that, of "remove1 b xs"] filter_remove1_le [of "\<lambda>x. P (?t (cc_heap c) x)" b xs] by linarith
  show ?thesis
    using assms b le le1 by (auto simp: DoLru_def go_simps index_at_Ret ages_def aged_def split: if_splits)
qed

lemma LruExpire_ages:
  assumes "LruExpire now c = Ret (fe, i, c')"
  shows "ages P c c' \<and> ((\<forall>t. 1000000 * cc_ExpireTime c \<le> now - t \<longrightarrow> P t) \<and> fe \<noteq> None \<longrightarrow> aged P c' < aged P c)"
proof (cases "cc_LruList c = []")
  case False
  let ?b = "last (cc_LruList c)" and ?Q = "\<lambda>x. P (buf_LastUpdateTime (cc_heap c ! x))"
  have "length (filter ?Q (remove1 ?b (cc_LruList c))) < length (filter ?Q (cc_LruList c))" if "?Q ?b"
    using False that by (intro filter_remove1_less) auto
  then show ?thesis
    using assms False filter_remove1_le [of ?Q ?b "cc_LruList c"] by (auto simp: LruExpire_def Let_def go_simps index_at_Ret ages_def aged_def time_same not_less split: if_splits)
qed (use assms in \<open>auto simp: LruExpire_def ages_def\<close>)

lemma ages_FlushBuffer:
  assumes "FlushBuffer post pc now f i c s = Ret (err, c', s')" and "\<not> P now"
  shows "ages P c c'"
proof -
  have body: "ages P c1 c2" if r: "FlushBuffer_body post pc now f i c1 s = Ret (err, c2, s')" for c1 c2
  proof -
    obtain fb where fb: "the_fb f c1 = Ret fb" using r by (auto simp: FlushBuffer_body_def go_simps)
    show ?thesis
    proof (cases "GetBuffer i fb")
      case None
      then show ?thesis using r fb by (simp add: FlushBuffer_body_def ages_refl)
    next
      case (Some b)
      then obtain c3 where c3: "RemoveLru b c1 = Ret c3"
          "(\<exists>c4. on_fb f (\<lambda>fb. Ret (DetachBuffer i fb)) c3 = Ret c4 \<and> c2 = FreeBuffer b c4) \<or> DoLru now b c3 = Ret c2"
        using r fb by (auto simp: FlushBuffer_body_def go_simps split: option.splits if_splits)
      then show ?thesis
        using ages_RemoveLru [OF c3(1)] ages_on_fb ages_FreeBuffer ages_DoLru [where P = P and now = now] assms(2) by (blast intro: ages_trans)
    qed
  qed
  obtain c1 c2 where "on_fb f (LockBuffer i) c = Ret c1" "FlushBuffer_body post pc now f i c1 s = Ret (err, c2, s')"
      "on_fb f (UnLockBuffer i) c2 = Ret c'"
    using assms(1) by (auto simp: FlushBuffer_def go_simps)
  then show ?thesis using body ages_on_fb by (blast intro: ages_trans)
qed

lemma ages_ReleaseBuffer: "ReleaseBuffer f i c = Ret (err, c') \<Longrightarrow> ages P c c'"
proof -
  assume r: "ReleaseBuffer f i c = Ret (err, c')"
  then obtain c1 fb where c1: "on_fb f (LockBuffer i) c = Ret c1" "the_fb f c1 = Ret fb" by (auto simp: ReleaseBuffer_def go_simps)
  have "\<exists>c4. ages P c1 c4 \<and> on_fb f (UnLockBuffer i) c4 = Ret c'"
  proof (cases "GetBuffer i fb")
    case None
    then show ?thesis using r c1 ages_refl by (auto simp: ReleaseBuffer_def go_simps)
  next
    case (Some b)
    then obtain c2 c3 where "RemoveLru b c1 = Ret c2" "on_fb f (\<lambda>fb. Ret (DetachBuffer i fb)) c2 = Ret c3"
        "on_fb f (UnLockBuffer i) (FreeBuffer b c3) = Ret c'"
      using r c1 by (auto simp: ReleaseBuffer_def go_simps)
    then show ?thesis using ages_RemoveLru ages_on_fb ages_FreeBuffer by (blast intro: ages_trans)
  qed
  then show ?thesis using ages_on_fb [OF c1(1)] ages_on_fb by (blast intro: ages_trans)
qed

lemma CheckExpire_ages:
  assumes r: "CheckExpire_round post pc now c s = Ret (again, c', s')"
    and P: "\<not> P now"
  shows "ages P c c' \<and> ((\<forall>t. 1000000 * cc_ExpireTime c \<le> now - t \<longrightarrow> P t) \<and> again \<longrightarrow> aged P c' < aged P c)"
proof -
  obtain fe i c1 where e: "LruExpire now c = Ret (fe, i, c1)" using r by (auto simp: CheckExpire_round_def go_simps)
  note l = LruExpire_ages [OF e, of P]
  show ?thesis
  proof (cases fe)
    case None
    then show ?thesis using r e l by (simp add: CheckExpire_round_def)
  next
    case (Some f)
    have "c' = c1 \<or> (\<exists>err. FlushBuffer post pc now (fe_Id f) i c1 s = Ret (err, c', s'))"
      using r e Some by (auto simp: CheckExpire_round_def GetFileBuffer_def go_simps split: option.splits)
    then have "ages P c1 c'" using P by (auto simp: ages_refl dest: ages_FlushBuffer [where P = P])
    then show ?thesis using l Some by (auto simp: ages_def)
  qed
qed

lemma RCheckExpire_ages:
  assumes r: "RCheckExpire_round now c = Ret (again, c')"
  shows "ages (\<lambda>_. True) c c' \<and> (again \<longrightarrow> aged (\<lambda>_. True) c' < aged (\<lambda>_. True) c)"
proof -
  obtain fe i c1 where e: "LruExpire now c = Ret (fe, i, c1)" using r by (auto simp: RCheckExpire_round_def go_simps)
  note l = LruExpire_ages [OF e, where P = "\<lambda>_. True"]
  show ?thesis
  proof (cases fe)
    case None
    then show ?thesis using r e l by (simp add: RCheckExpire_round_def)
  next
    case (Some f)
    have "c' = c1 \<or> (\<exists>err. ReleaseBuffer (fe_Id f) i c1 = Ret (err, c'))"
      using r e Some by (auto simp: RCheckExpire_round_def GetFileBuffer_def go_simps split: option.splits)
    then have "ages (\<lambda>_. True) c1 c'" by (auto simp: ages_refl dest: ages_ReleaseBuffer)
    then show ?thesis using l Some by (auto simp: ages_def)
  qed
qed

text \<open>Blocks that leave the cache, and what an expiry leaves alone: a file of which nothing is cached.\<close>

definition fewer :: "'a CacheCore_scheme \<Rightarrow> 'a CacheCore_scheme \<Rightarrow> bool" where
  "fewer c c' \<longleftrightarrow> (\<forall>g i. attached c' g i = attached c g i \<or> attached c' g i = None)"

lemma FlushBuffer_uncached:
  assumes "FlushBuffer post pc now f i c s = Ret (err, c', s')" and "attached c f i = None"
  shows "err = None"
proof -
  obtain c1 c2 where c1: "on_fb f (LockBuffer i) c = Ret c1" and r: "FlushBuffer_body post pc now f i c1 s = Ret (err, c2, s')"
    using assms(1) by (auto simp: FlushBuffer_def go_simps)
  have "attached c1 f i = None" using c1 assms(2) by (auto simp: on_fb_def LockBuffer_def attached_def go_simps update_conv' split: option.splits if_splits)
  then show ?thesis using r
    by (auto simp: FlushBuffer_body_def the_fb_def GetBuffer_def attached_def go_simps split: option.splits)
qed

lemma CheckExpire_keeps:
  assumes ok: "server_ok post pc content" and inv: "wc_inv bs {} c"
    and r: "CheckExpire_round post pc now c s = Ret (again, c', s')"
  shows "fewer c c'" and "\<And>f. (\<And>i. attached c f i = None) \<Longrightarrow> wview bs content c' s' f = wview bs content c s f"
proof -
  obtain fe i c1 where e: "LruExpire now c = Ret (fe, i, c1)" "pool_inv bs c1" "same_view c c1"
    by (rule LruExpire_ok [OF wc_invD(1) [OF inv], of now]) blast
  have c1: "wc_inv bs {} c1" by (rule LruExpire_inv [OF inv, of now]) (use e(1) in auto)
  have att: "attached c1 = attached c" and view: "wview bs content c1 s = wview bs content c s"
    using same_viewD [OF e(3)] wview_cong by auto
  have "(c' = c1 \<and> s' = s) \<or> (\<exists>(fe0 :: FileEntry) err. map_of (cc_Cache c1) (fe_Id fe0) \<noteq> None \<and>
      FlushBuffer post pc now (fe_Id fe0) i c1 s = Ret (err, c', s'))"
    using r e(1) by (auto simp: CheckExpire_round_def GetFileBuffer_def go_simps split: option.splits if_splits)
  then consider "c' = c1" "s' = s" | fe0 :: FileEntry and err where "map_of (cc_Cache c1) (fe_Id fe0) \<noteq> None"
      "FlushBuffer post pc now (fe_Id fe0) i c1 s = Ret (err, c', s')" by blast
  then have "fewer c c' \<and> (\<forall>f. (\<forall>i. attached c f i = None) \<longrightarrow> wview bs content c' s' f = wview bs content c s f)"
  proof cases
    case 1
    then show ?thesis using att view by (simp add: fewer_def)
  next
    case 2
    have p: "flush_post {} bs content (fe_Id fe0) i c1 s (err, c', s')" by (rule okG_Ret [OF FlushBuffer_ok [OF ok c1 2(1)] 2(2)])
    have "wview bs content c' s' f = wview bs content c s f" if none: "\<forall>i. attached c f i = None" for f
    proof (cases "f = fe_Id fe0")
      case True
      then have "err = None" using FlushBuffer_uncached [OF 2(2)] none att by simp
      then show ?thesis using p view by simp
    next
      case False
      then show ?thesis using p view by (cases "err = enoent") (auto simp: same_outside_def)
    qed
    then show ?thesis using p att by (auto simp: fewer_def split: if_splits)
  qed
  then show "fewer c c'" "\<And>f. (\<And>i. attached c f i = None) \<Longrightarrow> wview bs content c' s' f = wview bs content c s f" by blast+
qed

text \<open>Both caches meet the contract. For the write cache, time matters: a block that could not be written is put back with the time of the attempt.\<close>

interpretation wexpiry: expiry "CheckExpire_round post pc" cc_Stop "\<lambda>c. wc_inv bs {} c \<and> (\<exists>content. server_ok post pc content)"
    "\<lambda>c. 1000000 * cc_ExpireTime c" "\<lambda>T. aged (\<lambda>t. t < T)" "\<lambda>life T now. T \<le> now \<and> now < T + life" "\<lambda>c. qblocks c \<noteq> {}"
  for post :: "'s poster" and pc bs
proof (unfold_locales, goal_cases)
  case (1 c now s T)
  then obtain content where ok: "server_ok post pc content" and inv: "wc_inv bs {} c" by blast
  note round = CheckExpire_round_ok [OF ok inv, of now s]
  show ?case
  proof (cases "CheckExpire_round post pc now c s")
    case (Ret x)
    obtain again c' s' where x: "x = (again, c', s')" by (metis prod_cases3)
    have p: "wc_inv bs {} c'" "CacheCore.more c' = CacheCore.more c" using okG_Ret [OF round Ret] x by simp_all
    have "cc_Stop c' = cc_Stop c" "cc_ExpireTime c' = cc_ExpireTime c"
      using CheckExpire_ages [of post pc now c s again c' s' "\<lambda>_. False"] Ret x by (simp_all add: ages_def)
    moreover have "aged (\<lambda>t. t < T) c' < aged (\<lambda>t. t < T) c" if "T \<le> now" "now < T + 1000000 * cc_ExpireTime c" again
      using CheckExpire_ages [of post pc now c s again c' s' "\<lambda>t. t < T"] Ret x that by auto
    moreover have "qblocks c' \<subseteq> qblocks c"
      using CheckExpire_keeps(1) [OF ok inv, of now s again c' s'] Ret x by (intro qblocks_mono [OF more_same(4) [OF p(2)]]) (simp add: fewer_def)
    ultimately show ?thesis using Ret x ok p(1) by auto
  qed (use round in simp_all)
qed

interpretation rexpiry: expiry RCheckExpire_work
    cc_Stop "\<lambda>c. rc_inv bs {} c" "\<lambda>_. 0" "\<lambda>_. aged (\<lambda>_. True)" "\<lambda>_ _ _. True" "\<lambda>c. rblocks c \<noteq> {}"
  for bs
proof (unfold_locales, goal_cases)
  case (1 c now s T)
  show ?case
  proof (cases "RCheckExpire_round now c")
    case (Ret x)
    obtain again c' where x: "x = (again, c')" by fastforce
    have "released bs c c'" using okG_Ret [OF RCheckExpire_round_ok [OF 1, of now] Ret] x by simp
    then have r: "rc_inv bs {} c'" "CacheCore.more c' = CacheCore.more c" by (simp_all add: released_def)
    have "rblocks c' = rblocks c" using r(2) by (rule rmore_same(6))
    with r(1) show ?thesis using RCheckExpire_ages [of now c again c'] Ret x by (simp add: RCheckExpire_work_def ages_def)
  qed (use RCheckExpire_round_ok [OF 1, of now] in \<open>simp_all add: RCheckExpire_work_def\<close>)
qed

section \<open>The writer of queued blocks\<close>

text \<open>\<^verbatim>\<open>SyncWrite\<close> ranges over the channel; the flag tells whether it still does.\<close>

definition SyncWrite_step ::
  "'s poster \<Rightarrow> ProxyClient \<Rightarrow> int \<Rightarrow> bool \<times> WCache \<times> 's \<Rightarrow> (bool \<times> WCache \<times> 's) go" where
  "SyncWrite_step post pc now x =
     (case x of (running, cache, s) \<Rightarrow> if running then SyncWrite_round post pc now cache s else Ret x)"

lemma chSync_same:
  "on_fb f g c = Ret (c' :: WCache) \<Longrightarrow> wc_chSync c' = wc_chSync c" "DoLru now b c = Ret c' \<Longrightarrow> wc_chSync c' = wc_chSync c"
  by (auto simp: on_fb_def DoLru_def go_simps split: option.splits if_splits)

lemma SyncWrite_takes:
  assumes "SyncWrite_round post pc now c s = Ret (running, c', s')" and "wc_chSync c = Some (b # q)"
  shows "running \<and> wc_chSync c' = Some q"
  using assms
  by (auto simp: SyncWrite_round_def GetFileBuffer_def FreeBuffer_def Let_def go_simps chSync_same
      split: option.splits if_splits dest!: chSync_same)

lemma SyncWrite_ends:
  assumes ok: "server_ok post pc content"
  shows "wc_inv bs {} c \<Longrightarrow> wc_chClosed c \<Longrightarrow> wc_chSync c = Some q \<Longrightarrow>
    okG False (run_steps (SyncWrite_step post pc) clock (Suc (length q)) (True, c, s))
      (\<lambda>(running, c', s'). \<not> running \<and> wc_inv bs {} c' \<and> queue c' = [] \<and> wview bs content c' s' = wview bs content c s)"
proof (induction q arbitrary: clock c s)
  case Nil
  then show ?case by (simp add: SyncWrite_step_def SyncWrite_round_def queue_def)
next
  case (Cons b q)
  have "queue c \<noteq> []" using Cons.prems(3) by (simp add: queue_def)
  then have r: "okG False (SyncWrite_round post pc (clock 0) c s) (silent_post bs content c s)"
    using okG_mono [OF SyncWrite_round_ok [OF ok Cons.prems(1)]] by blast
  then obtain running c1 s1 where x: "SyncWrite_round post pc (clock 0) c s = Ret (running, c1, s1)"
    by (auto simp: okG_returns)
  have c1: "wc_inv bs {} c1" "wc_chClosed c1" "wview bs content c1 s1 = wview bs content c s"
    using okG_Ret [OF r x] Cons.prems(2) by simp_all
  have take: "running" "wc_chSync c1 = Some q" using SyncWrite_takes [OF x Cons.prems(3)] by simp_all
  have "SyncWrite_step post pc (clock 0) (True, c, s) = Ret (True, c1, s1)" using x take(1) by (simp add: SyncWrite_step_def)
  then have run: "run_steps (SyncWrite_step post pc) clock (Suc (length (b # q))) (True, c, s) =
      run_steps (SyncWrite_step post pc) (clock \<circ> Suc) (Suc (length q)) (True, c1, s1)" by simp
  show ?case unfolding run using Cons.IH [OF c1(1,2) take(2), of "clock \<circ> Suc" s1] unfolding c1(3) .
qed

section \<open>The goroutines end\<close>


lemma wit_stopping:
  "wc_inv 4 {} (stopping (NewWCache 2 1000 1))" "cc_Stop (stopping (NewWCache 2 1000 1))"
  "wc_chSync (stopping (NewWCache 2 1000 1)) = Some []" "wc_chClosed (stopping (NewWCache 2 1000 1))"
  "cc_LruList (stopping (NewWCache 2 1000 1)) = []" "cc_ExpireTime (stopping (NewWCache 2 1000 1)) = 1000"
  "qblocks (stopping (NewWCache 2 1000 1)) = {}"
  "rc_inv 4 {} (rstopping (NewRCache 2 1000 1 1))" "cc_Stop (rstopping (NewRCache 2 1000 1 1))"
  "cc_LruList (rstopping (NewRCache 2 1000 1 1)) = []" "rblocks (rstopping (NewRCache 2 1000 1 1)) = {}"
  using NewWCache_inv [of 4 2 1000 1] NewRCache_inv(1) [of 4 2 1000 1 1]
  by (simp_all add: stopping_same(6) rstopping_same(1))
     (simp_all add: stopping_def rstopping_def NewWCache_def NewRCache_def qblocks_def queue_def rblocks_def rqueue_def)


section \<open>Where the code falls short\<close>

text \<open>
  The inner loop of the expiry does not look at the stop flag. With a server that refuses to write, a
  block that has expired is put back with the time of the attempt; when the next look at it comes a
  life time later, it has expired again. So the goroutine never ends while the server is away, although
  the flag is set, and unmounting waits for it. Here with one block, a life time of a millisecond
  and a clock that moves on by that at every round.
\<close>

definition down_server :: "unit poster" where
  "down_server s url j = (s, Inl (ErrNew ''down''))"

definition stuck_at :: "bool \<Rightarrow> (u64 \<times> CacheLock) list \<Rightarrow> int \<Rightarrow> WCache" where
  "stuck_at el held t =
     \<lparr> cc_BufferMax = 1, cc_FreeList = [],
       cc_Cache = [(7, \<lparr> fb_fe = demo_file, BufferMap = [(1, 0)], LockMap = held, fb_pw = NewPrefetchWindow \<rparr>)],
       cc_LruList = (if el then [0] else []), cc_ExpireTime = 1, cc_Stop = True,
       cc_heap = [\<lparr> buf_Id = 0, buf_fe = Some demo_file, buf_BlkIdx = 1, buf_Offset = 1, buf_Len = 2, buf_dataBuf = [0, 65, 66, 0],
                    buf_LastUpdateTime = t, buf_elm = el \<rparr>],
       wc_SyncRoutine = 0, wc_chSync = None, wc_chClosed = False \<rparr>"

abbreviation stuck_cache :: "int \<Rightarrow> WCache" where
  "stuck_cache \<equiv> stuck_at True []"

text \<open>That is the cache after one write of two bytes into an empty one, with the stop flag set.\<close>

lemma stuck_reached:
  "okG False (locked_WriteOp down_server mem_client 0 demo_file 7 demo_op (snd (GetFileBuffer demo_file True (NewWCache 1 1 0))) ())
     (\<lambda>((n, err), c, _). n = 2 \<and> err = None \<and> stopping c = stuck_cache 0)"
  by code_simp

lemma down_write: "\<exists>n. DirectWrite down_server mem_client () demo_file [65, 66] 5 = ((), n, errno E_UTIL_FAULT)"
proof -
  have "snd (snd (DirectWrite down_server mem_client () demo_file [65, 66] 5)) = errno E_UTIL_FAULT" by code_simp
  then show ?thesis by (cases "DirectWrite down_server mem_client () demo_file [65, 66] 5") auto
qed

lemma stuck_steps:
  "1000000 \<le> now - t \<Longrightarrow> LruExpire now (stuck_at True [] t) = Ret (Some demo_file, 1, stuck_at False [] t)"
  "on_fb 7 (LockBuffer 1) (stuck_at False [] t) = Ret (stuck_at False [(1, \<lparr> lock_tp = WriteLock, lock_refer = 0 \<rparr>)] t)"
  "on_fb 7 (UnLockBuffer 1) (stuck_at True [(1, \<lparr> lock_tp = WriteLock, lock_refer = 0 \<rparr>)] t) = Ret (stuck_at True [] t)"
  "the_fb 7 (stuck_at el held t) = Ret \<lparr> fb_fe = demo_file, BufferMap = [(1, 0)], LockMap = held, fb_pw = NewPrefetchWindow \<rparr>"
  "RemoveLru 0 (stuck_at False held t) = Ret (stuck_at False held t)"
  "DoLru now 0 (stuck_at False held t) = Ret (stuck_at True held now)"
  "buf_fe (cc_heap (stuck_at el held t) ! 0) = Some demo_file" "length (cc_heap (stuck_at el held t)) = 1"
  "flush_data down_server mem_client () demo_file 0 (stuck_at el held t) = Ret (DirectWrite down_server mem_client () demo_file [65, 66] 5)"
  "GetFileBuffer demo_file False (stuck_at el held t) = (Some 7, stuck_at el held t)"
  by (simp_all add: stuck_at_def LruExpire_def on_fb_def LockBuffer_def UnLockBuffer_def the_fb_def RemoveLru_def DoLru_def
      index_at_def flush_data_def GetData_def Buffer_GetFileOffset_def Buffer_GetAlignOffset_def slice_def GetFileBuffer_def)

lemma stuck_round:
  assumes "1000000 \<le> now - t"
  shows "CheckExpire_round down_server mem_client now (stuck_cache t) () = Ret (True, stuck_cache now, ())"
proof -
  obtain n where d: "DirectWrite down_server mem_client () demo_file [65, 66] 5 = ((), n, errno E_UTIL_FAULT)"
    using down_write by blast
  have "E_UTIL_FAULT \<noteq> E_POSIX_ENOENT" by (simp add: E_UTIL_FAULT_def E_UTIL_ERRNO_FLAG_def E_POSIX_ENOENT_def)
  then show ?thesis
    by (simp add: CheckExpire_round_def FlushBuffer_def FlushBuffer_body_def stuck_steps assms GetBuffer_def d)
qed

theorem expiry_can_starve:
  "run_steps (WCache_CheckExpire_step down_server mem_client cfg) (\<lambda>j. 1000000 * (k + 1 + int j)) n (ESweep, t, stuck_cache (1000000 * k), ()) =
     Ret (ESweep, t, stuck_cache (1000000 * (k + int n)), ())"
proof (induction n arbitrary: k)
  case (Suc n)
  have "WCache_CheckExpire_step down_server mem_client cfg (1000000 * (k + 1 + int 0)) (ESweep, t, stuck_cache (1000000 * k), ()) =
      Ret (ESweep, t, stuck_cache (1000000 * (k + 1)), ())"
    using stuck_round [of "1000000 * k + 1000000" "1000000 * k"] by (simp add: WCache_CheckExpire_step_def expire_step_def)
  moreover have "(\<lambda>j. 1000000 * (k + 1 + int j)) \<circ> Suc = (\<lambda>j. 1000000 * (k + 1 + 1 + int j))" by (auto simp: fun_eq_iff)
  ultimately show ?case using Suc.IH [of "k + 1"] by (simp add: algebra_simps)
qed simp

end
