(* ===== verification/Cfa_Waits.thy ===== *)
theory Cfa_Waits
  imports Cfa_Expire
begin

text \<open>
  Waiting for the goroutines of the caches, at the end of \<^verbatim>\<open>CloseAll\<close> of \<^verbatim>\<open>wcache.go\<close> and \<^verbatim>\<open>rcache.go\<close>: what the goroutines
  do while they are waited for, and when they are gone.
\<close>

section \<open>The write cache\<close>

lemma fewer_simps:
  "on_fb f (UnLockBuffer i) c = Ret c' \<Longrightarrow> attached c' = attached c"
  "on_fb f (\<lambda>fb. Ret (DetachBuffer i fb)) c = Ret c' \<Longrightarrow> fewer c c'"
  "DoLru now b c = Ret c' \<Longrightarrow> attached c' = attached c"
  "attached (FreeBuffer b c) = attached c"
  by (auto simp: on_fb_def UnLockBuffer_def DetachBuffer_def DoLru_def FreeBuffer_def fewer_def attached_def fun_eq_iff go_simps update_conv'
      AList.delete_conv split: option.splits if_splits)

lemma SyncWrite_keeps:
  assumes "SyncWrite_round post pc now c s = Ret (running, c', s')"
  shows "fewer c c' \<and> wc_chSync c' = map_option tl (wc_chSync c)"
proof (cases "wc_chSync c = Some []")
  case True
  then show ?thesis using assms by (simp add: SyncWrite_round_def fewer_def split: if_splits)
next
  case False
  then obtain b q where q: "wc_chSync c = Some (b # q)" using assms by (cases "wc_chSync c") (auto simp: SyncWrite_round_def neq_Nil_conv)
  let ?c = "c\<lparr> wc_chSync := Some q \<rparr>"
  have "\<exists>f i c3. on_fb f (UnLockBuffer i) c3 = Ret c' \<and>
      (DoLru now b ?c = Ret c3 \<or> (\<exists>c2. on_fb f (\<lambda>fb. Ret (DetachBuffer i fb)) ?c = Ret c2 \<and> c3 = FreeBuffer b c2))"
  proof -
    obtain buffer where x: "index_at (cc_heap c) b = Ret buffer"
      using assms q by (cases "index_at (cc_heap c) b") (auto simp: SyncWrite_round_def Let_def)
    obtain fe where fe: "buf_fe buffer = Some fe"
      using assms q x by (cases "buf_fe buffer") (auto simp: SyncWrite_round_def Let_def)
    obtain fb where fb: "map_of (cc_Cache c) (fe_Id fe) = Some fb"
      using assms q x fe by (cases "map_of (cc_Cache c) (fe_Id fe)") (auto simp: SyncWrite_round_def GetFileBuffer_def Let_def)
    obtain s1 n err where "flush_data post pc s fe b ?c = Ret (s1, n, err)"
      using assms q x fe fb by (cases "flush_data post pc s fe b ?c") (auto simp: SyncWrite_round_def GetFileBuffer_def Let_def)
    then show ?thesis
      using assms q x fe fb by (cases err) (auto simp: SyncWrite_round_def GetFileBuffer_def Let_def go_simps)
  qed
  then obtain f i c3 where c3: "on_fb f (UnLockBuffer i) c3 = Ret c'"
      "DoLru now b ?c = Ret c3 \<or> (\<exists>c2. on_fb f (\<lambda>fb. Ret (DetachBuffer i fb)) ?c = Ret c2 \<and> c3 = FreeBuffer b c2)" by blast
  have "attached ?c = attached c" by (simp add: attached_def fun_eq_iff)
  moreover have "fewer ?c c3"
  proof (cases "DoLru now b ?c = Ret c3")
    case True
    from fewer_simps(3) [OF this] show ?thesis by (simp add: fewer_def)
  next
    case False
    then obtain c2 where "fewer ?c c2" "c3 = FreeBuffer b c2" using c3(2) fewer_simps(2) by blast
    then show ?thesis by (simp add: fewer_def fewer_simps(4))
  qed
  ultimately have "fewer c c'" using fewer_simps(1) [OF c3(1)] by (simp add: fewer_def)
  then show ?thesis using SyncWrite_takes [OF assms q] q by simp
qed

text \<open>
  The files of \<open>F\<close>, of which nothing is cached, are left alone. A goroutine of expiry that sweeps needs
  two turns more than there are buffers that were used before \<open>T\<close>, the time the waiting begins.
\<close>

definition wait_inv ::
  "'s poster \<Rightarrow> ProxyClient \<Rightarrow> u32 \<Rightarrow> ('s \<Rightarrow> contents) \<Rightarrow> u64 set \<Rightarrow> view \<Rightarrow> WCache \<Rightarrow> 's \<Rightarrow> bool" where
  "wait_inv post pc bs content F v c s \<longleftrightarrow> server_ok post pc content \<and> wc_inv bs {} c \<and>
     (\<forall>f \<in> F. (\<forall>i. attached c f i = None) \<and> wview bs content c s f = v f)"

definition wait_calm :: "int \<Rightarrow> WCache \<Rightarrow> bool" where
  "wait_calm life c \<longleftrightarrow> cc_Stop c \<and> queue c = [] \<and> (wc_chSync c \<noteq> None \<longrightarrow> wc_chClosed c) \<and> cc_ExpireTime c = life"

fun wait_fits :: "WCache \<Rightarrow> goroutine \<Rightarrow> bool" where
  "wait_fits c (Expirer q t) \<longleftrightarrow> True"
| "wait_fits c (Worker running) \<longleftrightarrow> (running \<longrightarrow> wc_chSync c \<noteq> None)"

fun sweep_need :: "nat \<Rightarrow> goroutine \<Rightarrow> nat" where
  "sweep_need n (Expirer q t) = (case q of ETop \<Rightarrow> 1 | ESweep \<Rightarrow> n + 2 | EEnd \<Rightarrow> 0)"
| "sweep_need n (Worker running) = (if running then 1 else 0)"

lemma sweep_need_mono: "m \<le> n \<Longrightarrow> sweep_need m g \<le> sweep_need n g"
  by (cases g) (auto split: expire_pc.split)

lemma sweep_need_le: "sweep_need n g \<le> n + 2"
  by (cases g) (auto split: expire_pc.split)

lemma sweep_need_gone: "sweep_need n g = 0 \<Longrightarrow> gone g"
  by (cases g) (auto split: expire_pc.splits if_splits)

lemma calm_expiry:
  assumes ok: "server_ok post pc content" and inv: "wc_inv bs {} c" and calm: "wait_calm life c"
    and now: "T \<le> now" "now < T + 1000000 * life"
  shows "okG False (CheckExpire_round post pc now c s) (\<lambda>(again, c', s'). wait_calm life c' \<and> wc_chSync c' = wc_chSync c \<and>
     aged (\<lambda>t. t < T) c' \<le> aged (\<lambda>t. t < T) c \<and> (again \<longrightarrow> aged (\<lambda>t. t < T) c' < aged (\<lambda>t. t < T) c))"
proof -
  note round = CheckExpire_round_ok [OF ok inv, of now s]
  have "qblocks c = {}" using calm by (simp add: qblocks_def wait_calm_def)
  then obtain again c' s' where r: "CheckExpire_round post pc now c s = Ret (again, c', s')"
    using round by (auto simp: okG_returns)
  have more: "CacheCore.more c' = CacheCore.more c" using okG_Ret [OF round r] by simp
  have a: "ages (\<lambda>t. t < T) c c' \<and> (again \<longrightarrow> aged (\<lambda>t. t < T) c' < aged (\<lambda>t. t < T) c)"
    using CheckExpire_ages [OF r, of "\<lambda>t. t < T"] now calm by (auto simp: wait_calm_def)
  then show ?thesis using r calm more_same(1,3,4) [OF more] by (simp add: wait_calm_def ages_def)
qed

interpretation wcache_gor: goroutines "WCache_gor post pc cfg" gone "wait_inv post pc bs content F v" "wait_calm life"
    "\<lambda>now. T \<le> now \<and> now < T + 1000000 * life" wait_fits "\<lambda>c. sweep_need (aged (\<lambda>t. t < T) c)"
  for post :: "'s poster" and pc cfg bs content F v life T
proof (unfold_locales, goal_cases)
  case (1 c s now g)
  then have ok: "server_ok post pc content" and inv: "wc_inv bs {} c"
    and F: "\<And>f. f \<in> F \<Longrightarrow> (\<forall>i. attached c f i = None) \<and> wview bs content c s f = v f" by (auto simp: wait_inv_def)
  have keep: "wait_inv post pc bs content F v c' s'"
    if "wc_inv bs {} c'" "fewer c c'" "\<And>f. f \<in> F \<Longrightarrow> wview bs content c' s' f = wview bs content c s f" for c' s'
    using that ok F unfolding wait_inv_def fewer_def by metis
  have e: "okG True (CheckExpire_round post pc now c s) (\<lambda>(again, c', s'). wait_inv post pc bs content F v c' s')"
  proof (cases "CheckExpire_round post pc now c s")
    case (Ret x)
    then obtain again c' s' where r: "CheckExpire_round post pc now c s = Ret (again, c', s')" by (metis prod_cases3)
    have "wc_inv bs {} c'" using okG_Ret [OF CheckExpire_round_ok [OF ok inv] r] by simp
    then show ?thesis using r keep CheckExpire_keeps [OF ok inv r] F by simp
  qed (use CheckExpire_round_ok [OF ok inv, of now s] in simp_all)
  have w: "okG True (SyncWrite_round post pc now c s) (\<lambda>(running, c', s'). wait_inv post pc bs content F v c' s')"
  proof (cases "SyncWrite_round post pc now c s")
    case (Ret x)
    then obtain running c' s' where r: "SyncWrite_round post pc now c s = Ret (running, c', s')" by (metis prod_cases3)
    have "silent_post bs content c s (running, c', s')" using okG_Ret [OF SyncWrite_round_ok [OF ok inv] r] by simp
    then show ?thesis using r keep SyncWrite_keeps [OF r] by simp
  qed (use SyncWrite_round_ok [OF ok inv, of now s] in simp_all)
  show ?case
  proof (cases g)
    case (Expirer q t)
    then show ?thesis
      using 1 e by (cases "CheckExpire_round post pc now c s") (auto simp: WCache_gor_def expire_step_def split: expire_pc.split prod.splits)
  next
    case (Worker running)
    then show ?thesis
      using 1 w by (cases "SyncWrite_round post pc now c s") (auto simp: WCache_gor_def split: prod.splits)
  qed
next
  case (2 c s now g)
  then have ok: "server_ok post pc content" and inv: "wc_inv bs {} c" by (auto simp: wait_inv_def)
  note calm = calm_expiry [OF ok inv 2(2), of T now s]
  show ?case
  proof (cases "\<exists>t. g = Expirer ESweep t")
    case True
    then obtain t where g: "g = Expirer ESweep t" by blast
    obtain again c' s' where r: "CheckExpire_round post pc now c s = Ret (again, c', s')"
        "wait_calm life c'" "wc_chSync c' = wc_chSync c" "aged (\<lambda>t. t < T) c' \<le> aged (\<lambda>t. t < T) c"
        "again \<Longrightarrow> aged (\<lambda>t. t < T) c' < aged (\<lambda>t. t < T) c"
      using calm 2(3) by (auto simp: okG_returns)
    have "wait_fits c' h = wait_fits c h" for h using r(3) by (cases h) simp_all
    then show ?thesis using r g 2(4) sweep_need_mono [OF r(4)] by (auto simp: WCache_gor_def expire_step_def)
  next
    case False
    then show ?thesis using 2
      by (cases g) (auto simp: WCache_gor_def expire_step_def SyncWrite_round_def wait_calm_def queue_def split: expire_pc.splits option.splits)
  qed
qed (rule sweep_need_gone)

section \<open>The read cache\<close>

definition rwait_inv :: "'s poster \<Rightarrow> ProxyClient \<Rightarrow> u32 \<Rightarrow> ('s \<Rightarrow> contents) \<Rightarrow> contents \<Rightarrow> RCache \<Rightarrow> 's \<Rightarrow> bool" where
  "rwait_inv post pc bs content files c s \<longleftrightarrow> server_ok post pc content \<and> rc_inv bs {} c \<and> content s = files"

definition rwait_calm :: "RCache \<Rightarrow> bool" where
  "rwait_calm c \<longleftrightarrow> cc_Stop c \<and> rqueue c = [] \<and> (rc_chPrefetch c \<noteq> None \<longrightarrow> rc_chClosed c)"

fun rwait_fits :: "RCache \<Rightarrow> goroutine \<Rightarrow> bool" where
  "rwait_fits c (Expirer q t) \<longleftrightarrow> True"
| "rwait_fits c (Worker running) \<longleftrightarrow> (running \<longrightarrow> rc_chPrefetch c \<noteq> None)"

lemma PrefetchRead_wait:
  assumes "server_ok post pc content" and "rc_inv bs {} c"
  shows "okG True (PrefetchRead_round post pc now c s) (\<lambda>(running, c', s'). rc_inv bs {} c' \<and> content s' = content s)"
proof (cases "rqueue c = []")
  case True
  then show ?thesis using assms(2) by (auto simp: PrefetchRead_round_def rqueue_def split: option.splits)
next
  case False
  show ?thesis by (rule okG_mono [OF PrefetchRead_round_ok [OF assms False]]) auto
qed

lemma RCheckExpire_wait:
  assumes "rc_inv bs {} c"
  shows "okG (rblocks c \<noteq> {}) (RCheckExpire_round now c) (\<lambda>(again, c'). rc_inv bs {} c' \<and> CacheCore.more c' = CacheCore.more c \<and>
     cc_Stop c' = cc_Stop c \<and> aged (\<lambda>_. True) c' \<le> aged (\<lambda>_. True) c \<and> (again \<longrightarrow> aged (\<lambda>_. True) c' < aged (\<lambda>_. True) c))"
proof (cases "RCheckExpire_round now c")
  case (Ret x)
  then show ?thesis using okG_Ret [OF RCheckExpire_round_ok [OF assms, of now] Ret] RCheckExpire_ages [of now c]
    by (cases x) (simp add: released_def ages_def)
qed (use RCheckExpire_round_ok [OF assms, of now] in simp_all)

interpretation rcache_gor: goroutines "RCache_gor post pc cfg" gone "rwait_inv post pc bs content files" rwait_calm
    "\<lambda>_. True" rwait_fits "\<lambda>c. sweep_need (aged (\<lambda>_. True) c)"
  for post :: "'s poster" and pc cfg bs content files
proof (unfold_locales, goal_cases)
  case (1 c s now g)
  then have ok: "server_ok post pc content" and inv: "rc_inv bs {} c" by (auto simp: rwait_inv_def)
  show ?case
  proof (cases g)
    case (Expirer q t)
    then show ?thesis using 1 RCheckExpire_wait [OF inv, of now]
      by (cases "RCheckExpire_round now c")
         (auto simp: RCache_gor_def RCheckExpire_work_def expire_step_def rwait_inv_def split: expire_pc.split prod.splits)
  next
    case (Worker running)
    then show ?thesis using 1 PrefetchRead_wait [OF ok inv, of now s]
      by (cases "PrefetchRead_round post pc now c s") (auto simp: RCache_gor_def rwait_inv_def split: prod.splits)
  qed
next
  case (2 c s now g)
  then have inv: "rc_inv bs {} c" by (auto simp: rwait_inv_def)
  have "rblocks c = {}" using 2(2) by (simp add: rwait_calm_def rblocks_def)
  then obtain again c' where r: "RCheckExpire_round now c = Ret (again, c')" "CacheCore.more c' = CacheCore.more c" "cc_Stop c' = cc_Stop c"
      "aged (\<lambda>_. True) c' \<le> aged (\<lambda>_. True) c" "again \<Longrightarrow> aged (\<lambda>_. True) c' < aged (\<lambda>_. True) c"
    using RCheckExpire_wait [OF inv, of now] by (auto simp: okG_returns)
  note m = rmore_same(1,3,5) [OF r(2)]
  show ?case
  proof (cases "\<exists>t. g = Expirer ESweep t")
    case True
    then obtain t where g: "g = Expirer ESweep t" by blast
    have "rwait_fits c' h = rwait_fits c h" for h using m by (cases h) simp_all
    moreover have "rwait_calm c'" using 2(2) m r(3) by (simp add: rwait_calm_def)
    ultimately show ?thesis using r(1,4,5) g sweep_need_mono [OF r(4)]
      by (auto simp: RCache_gor_def RCheckExpire_work_def expire_step_def)
  next
    case False
    then show ?thesis using 2
      by (cases g) (auto simp: RCache_gor_def expire_step_def PrefetchRead_round_def rwait_calm_def rqueue_def split: expire_pc.splits option.splits)
  qed
qed (rule sweep_need_gone)

section \<open>When the waiting is over\<close>

text \<open>
  Every goroutine gets two turns more than the cache has buffers, the turns for the write cache within
  the life time of a buffer, and a writer or a prefetcher runs only if the cache has its channel.
\<close>

definition wwaits_end :: "Waits \<Rightarrow> WCache \<Rightarrow> bool" where
  "wwaits_end wt c \<longleftrightarrow>
     (\<exists>T. \<forall>t \<in> set (wt_wturns wt). T \<le> snd t \<and> snd t < T + 1000000 * cc_ExpireTime c) \<and>
     (\<forall>i < length (wt_wgs wt). length (cc_heap c) + 2 \<le> turns_of i (wt_wturns wt) \<and> wait_fits c (wt_wgs wt ! i))"

definition rwaits_end :: "Waits \<Rightarrow> RCache \<Rightarrow> bool" where
  "rwaits_end wt c \<longleftrightarrow>
     (\<forall>i < length (wt_rgs wt). length (cc_heap c) + 2 \<le> turns_of i (wt_rturns wt) \<and> rwait_fits c (wt_rgs wt ! i))"

definition waits_end :: "Waits \<Rightarrow> WCache \<Rightarrow> RCache \<Rightarrow> bool" where
  "waits_end wt wc rc \<longleftrightarrow> wwaits_end wt wc \<and> rwaits_end wt rc \<and> (\<forall>i < length (wt_stats wt). turns_of i (wt_sturns wt) \<noteq> 0)"

lemma aged_le_heap:
  assumes "pool_inv bs c"
  shows "aged P c \<le> length (cc_heap c)"
proof -
  have "distinct (cc_LruList c)" "set (cc_LruList c) \<subseteq> {..<length (cc_heap c)}" using assms by (auto simp: pool_defs)
  then have "length (cc_LruList c) \<le> length (cc_heap c)" by (metis card_lessThan card_mono distinct_card finite_lessThan)
  then show ?thesis unfolding aged_def by (rule le_trans [OF length_filter_le])
qed

lemma WCache_Wait_ok:
  assumes inv: "wait_inv post pc bs content F v c s"
  shows "okG (\<not> (wait_calm (cc_ExpireTime c) c \<and> wwaits_end wt c))
     (wg_Wait (WCache_gor post pc cfg) gone (wt_wturns wt) (wt_wgs wt) c s) (\<lambda>(c', s'). wait_inv post pc bs content F v c' s')"
proof (cases "wait_calm (cc_ExpireTime c) c \<and> wwaits_end wt c")
  case True
  then obtain T where T: "\<forall>t \<in> set (wt_wturns wt). T \<le> snd t \<and> snd t < T + 1000000 * cc_ExpireTime c"
      "\<And>i. i < length (wt_wgs wt) \<Longrightarrow> length (cc_heap c) + 2 \<le> turns_of i (wt_wturns wt) \<and> wait_fits c (wt_wgs wt ! i)"
    by (auto simp: wwaits_end_def)
  have "pool_inv bs c" using inv wc_invD(1) by (auto simp: wait_inv_def)
  then have "sweep_need (aged (\<lambda>t. t < T) c) g \<le> length (cc_heap c) + 2" for g
    using sweep_need_le [of "aged (\<lambda>t. t < T) c" g] aged_le_heap [of bs c "\<lambda>t. t < T"] by linarith
  with T(2) have "wait_fits c (wt_wgs wt ! i) \<and> sweep_need (aged (\<lambda>t. t < T) c) (wt_wgs wt ! i) \<le> turns_of i (wt_wturns wt)"
    if "i < length (wt_wgs wt)" for i using that by (meson le_trans)
  then have "okG False (wg_Wait (WCache_gor post pc cfg) gone (wt_wturns wt) (wt_wgs wt) c s) (\<lambda>(c', s'). wait_inv post pc bs content F v c' s')"
    using True T(1) by - (rule wcache_gor.Wait_ends [OF inv, where life = "cc_ExpireTime c" and T = T]; simp)
  then show ?thesis by (rule okG_mono) auto
next
  case False
  show ?thesis by (rule okG_mono [OF wcache_gor.Wait_inv [OF inv]]) (use False in simp_all)
qed

lemma RCache_Wait_ok:
  assumes inv: "rwait_inv post pc bs content files c s"
  shows "okG (\<not> (rwait_calm c \<and> rwaits_end wt c))
     (wg_Wait (RCache_gor post pc cfg) gone (wt_rturns wt) (wt_rgs wt) c s) (\<lambda>(c', s'). rwait_inv post pc bs content files c' s')"
proof (cases "rwait_calm c \<and> rwaits_end wt c")
  case True
  have "pool_inv bs c" using inv by (auto simp: rwait_inv_def rc_defs)
  then have "sweep_need (aged (\<lambda>_. True) c) g \<le> length (cc_heap c) + 2" for g
    using sweep_need_le [of "aged (\<lambda>_. True) c" g] aged_le_heap [of bs c "\<lambda>_. True"] by linarith
  with True have "rwait_fits c (wt_rgs wt ! i) \<and> sweep_need (aged (\<lambda>_. True) c) (wt_rgs wt ! i) \<le> turns_of i (wt_rturns wt)"
    if "i < length (wt_rgs wt)" for i using that by (meson le_trans rwaits_end_def)
  then have "okG False (wg_Wait (RCache_gor post pc cfg) gone (wt_rturns wt) (wt_rgs wt) c s) (\<lambda>(c', s'). rwait_inv post pc bs content files c' s')"
    using True by - (rule rcache_gor.Wait_ends [OF inv]; simp)
  then show ?thesis by (rule okG_mono) auto
next
  case False
  show ?thesis by (rule okG_mono [OF rcache_gor.Wait_inv [OF inv]]) (use False in simp_all)
qed

end
