(* ===== verification/Cfa_Unmount.thy ===== *)
theory Cfa_Unmount
  imports Cfa_Waits
begin

text \<open>
  Unmounting: \<^verbatim>\<open>CloseAll\<close> of both caches and \<^verbatim>\<open>DelMount\<close>, which close the files and then wait for the goroutines.
  The code does not look at the errors of the files it closes; \<open>Close_errors\<close> is the same loop with the
  errors kept, so that the theorem can say which files are safe.
\<close>

section \<open>Closing every file of the write cache\<close>

fun Close_errors ::
  "(u64 list \<Rightarrow> u64 list) \<Rightarrow> (go_error option list \<Rightarrow> go_error option list) \<Rightarrow>
   's poster \<Rightarrow> ProxyClient \<Rightarrow> int \<Rightarrow> FileEntry list \<Rightarrow> WCache \<Rightarrow> 's \<Rightarrow>
   ((u64 \<times> go_error option) list \<times> WCache \<times> 's) go" where
  "Close_errors sched recv post pc now [] cache s = Ret ([], cache, s)"
| "Close_errors sched recv post pc now (fe # rest) cache s =
     bindG (WCache_Close sched recv post pc now fe cache s) (\<lambda>(err, cache1, s1).
     bindG (Close_errors sched recv post pc now rest cache1 s1) (\<lambda>(errs, cache2, s2).
     Ret ((fe_Id fe, err) # errs, cache2, s2)))"

lemma Close_each_errors:
  "Close_each sched recv post pc now fes c s =
     bindG (Close_errors sched recv post pc now fes c s) (\<lambda>(errs, c', s'). Ret (c', s'))"
proof (induction fes arbitrary: c s)
  case (Cons fe fes)
  show ?case
    by (cases "WCache_Close sched recv post pc now fe c s")
       (auto simp: Cons.IH bindG_assoc split: prod.splits intro!: bindG_cong)
qed simp

text \<open>Files whose closing reported no error: their bytes are on the server and nothing of them is cached.\<close>

definition failed :: "(u64 \<times> go_error option) list \<Rightarrow> u64 set" where
  "failed errs = {f. \<exists>e. (f, Some e) \<in> set errs}"

lemma failed_simps [simp]:
  "failed [] = {}" "failed ((f, None) # errs) = failed errs" "failed ((f, Some e) # errs) = insert f (failed errs)"
  by (auto simp: failed_def)

fun closed_post ::
  "u32 \<Rightarrow> ('s \<Rightarrow> contents) \<Rightarrow> u64 set \<Rightarrow> WCache \<Rightarrow> 's \<Rightarrow> (u64 \<times> go_error option) list \<times> WCache \<times> 's \<Rightarrow> bool" where
  "closed_post bs content F c s (errs, c', s') \<longleftrightarrow>
     wc_inv bs {} c' \<and> CacheCore.more c' = CacheCore.more c \<and> set (map fst errs) = F \<and>
     (\<forall>g i. attached c' g i = attached c g i \<or> attached c' g i = None) \<and>
     (\<forall>f. f \<notin> failed errs \<longrightarrow> wview bs content c' s' f = wview bs content c s f \<and>
        (f \<in> F \<longrightarrow> (\<forall>i. attached c' f i = None)))"

lemma Close_errors_ok:
  assumes ok: "server_ok post pc content"
    and sched: "\<And>xs. set (sched xs) = set xs" and recv: "\<And>es. set (recv es) = set es"
  shows "wc_inv bs {} c \<Longrightarrow> okG (qblocks c \<noteq> {}) (Close_errors sched recv post pc now fes c s)
     (closed_post bs content (fe_Id ` set fes) c s)"
proof (induction fes arbitrary: c s)
  case (Cons fe fes)
  let ?w = "qblocks c \<noteq> {}" and ?f = "fe_Id fe"
  have cl: "okG ?w (WCache_Close sched recv post pc now fe c s) (file_flushed bs content ?f c s)"
    by (rule okG_mono [OF WCache_Close_ok [where sched = sched and recv = recv, OF ok Cons.prems sched recv]]) auto
  show ?case
    unfolding Close_errors.simps
  proof (rule okG_bind [OF cl], goal_cases)
    case (1 x)
    obtain err c1 s1 where x: "x = (err, c1, s1)" by (metis prod.collapse)
    have i1: "wc_inv bs {} c1" and m1: "CacheCore.more c1 = CacheCore.more c"
      and a1: "\<And>g i. attached c1 g i = attached c g i \<or> attached c1 g i = None"
      and v1: "\<And>g. g \<noteq> ?f \<Longrightarrow> wview bs content c1 s1 g = wview bs content c s g"
      and n1: "err = None \<Longrightarrow> wview bs content c1 s1 = wview bs content c s"
        "\<And>i. err = None \<Longrightarrow> attached c1 ?f i = None"
    proof -
      note p = 1 [unfolded x file_flushed.simps]
      show "wc_inv bs {} c1" "CacheCore.more c1 = CacheCore.more c" using p by blast+
      show "attached c1 g i = attached c g i \<or> attached c1 g i = None" for g i
        using p [THEN conjunct2, THEN conjunct2, THEN conjunct1, rule_format, of g i] by auto
      show "wview bs content c1 s1 g = wview bs content c s g" if "g \<noteq> ?f" for g using 1 x that by simp
      show "wview bs content c1 s1 = wview bs content c s" if "err = None" using 1 x that by simp
      show "attached c1 ?f i = None" if "err = None" for i using 1 x that by simp
    qed
    have "qblocks c1 \<subseteq> qblocks c" by (rule qblocks_mono [OF more_same(4) [OF m1]]) (use a1 in blast)
    then have rest: "okG ?w (Close_errors sched recv post pc now fes c1 s1)
        (closed_post bs content (fe_Id ` set fes) c1 s1)"
      by (intro okG_mono [OF Cons.IH [OF i1]]) auto
    show ?case
      unfolding x prod.case
    proof (rule okG_bind [OF rest], goal_cases)
      case (1 y)
      obtain errs c2 s2 where y: "y = (errs, c2, s2)" by (metis prod.collapse)
      have p: "wc_inv bs {} c2" "CacheCore.more c2 = CacheCore.more c" "set (map fst errs) = fe_Id ` set fes"
        and a2: "\<And>g i. attached c2 g i = attached c1 g i \<or> attached c2 g i = None"
        and v2: "\<And>f. f \<notin> failed errs \<Longrightarrow> wview bs content c2 s2 f = wview bs content c1 s1 f"
        and n2: "\<And>f i. f \<notin> failed errs \<Longrightarrow> f \<in> fe_Id ` set fes \<Longrightarrow> attached c2 f i = None"
        using 1 y m1 by simp_all
      have a: "attached c2 g i = attached c g i \<or> attached c2 g i = None" for g i
        using a1 [of g i] a2 [of g i] by metis
      have keep: "wview bs content c2 s2 f = wview bs content c s f"
        if "f \<notin> failed ((?f, err) # errs)" for f
        using that v2 [of f] v1 [of f] n1(1) by (cases err) auto
      have none: "attached c2 f i = None"
        if "f \<notin> failed ((?f, err) # errs)" "f \<in> insert ?f (fe_Id ` set fes)" for f i
        using that n2 [of f i] n1(2) [of i] a2 [of f i] by (cases err) auto
      show ?case using p y a keep none by simp
    qed
  qed
qed simp

text \<open>The flags and the number of buffers stay.\<close>

lemma ages_flush_each: "flush_each post pc now f is c s = Ret (errs, c', s') \<Longrightarrow> ages (\<lambda>_. False) c c'"
proof (induction "is" arbitrary: c s errs c' s')
  case (Cons i "is")
  then obtain err c1 s1 errs1 where x: "FlushBuffer post pc now f i c s = Ret (err, c1, s1)" "flush_each post pc now f is c1 s1 = Ret (errs1, c', s')"
    by (auto simp: go_simps)
  show ?case by (rule ages_trans [OF ages_FlushBuffer [OF x(1)] Cons.IH [OF x(2)]]) simp
qed (simp add: ages_refl)

lemma ages_Close:
  assumes "WCache_Close sched recv post pc now fe c s = Ret (err, c', s')"
  shows "ages (\<lambda>_. False) c c'"
proof -
  obtain err1 c1 where f: "WCache_Flush sched recv post pc now fe c s = Ret (err1, c1, s')" "c' = c1 \<or> c' = DetachFileBuffer fe c1"
    using assms by (auto simp: WCache_Close_def go_simps split: if_splits)
  have "c1 = c \<or> (\<exists>g is errs. flush_each post pc now g is c s = Ret (errs, c1, s'))"
    using f(1) by (auto simp: WCache_Flush_def GetFileBuffer_def Let_def go_simps split: option.splits if_splits)
  then have "ages (\<lambda>_. False) c c1" by (auto simp: ages_refl dest: ages_flush_each)
  then show ?thesis using f(2) by (auto simp: ages_def aged_def DetachFileBuffer_def)
qed

lemma ages_Close_errors: "Close_errors sched recv post pc now fes c s = Ret (errs, c', s') \<Longrightarrow> ages (\<lambda>_. False) c c'"
proof (induction fes arbitrary: c s errs)
  case (Cons fe fes)
  then obtain err c1 s1 errs1 where x: "WCache_Close sched recv post pc now fe c s = Ret (err, c1, s1)"
      "Close_errors sched recv post pc now fes c1 s1 = Ret (errs1, c', s')"
    by (auto simp: go_simps)
  show ?case by (rule ages_trans [OF ages_Close [OF x(1)] Cons.IH [OF x(2)]])
qed (simp add: ages_refl)

lemma uncached_entries:
  assumes "wc_inv bs H c" and "f \<notin> fe_Id ` set (cached_entries c)"
  shows "attached c f i = None"
proof (cases "map_of (cc_Cache c) f")
  case (Some fb)
  then have "fe_ids c f = Some (fe_Id (fb_fe fb))" by (simp add: fe_ids_def)
  then have "fe_Id (fb_fe fb) = f" using assms(1) by (simp add: wc_inv_def wc_files_def)
  then show ?thesis using assms(2) map_of_SomeD [OF Some] by (force simp: cached_entries_def image_iff)
qed (simp add: attached_def)

lemma WCache_CloseAll_run:
  assumes "\<not> wc_chClosed c"
  shows "WCache_CloseAll wt sched recv post pc now c s =
     bindG (Close_errors sched recv post pc now (cached_entries c) (stopping c) s) (\<lambda>(errs, c1, s1).
     wg_Wait (WCache_gor post pc (wt_cfg wt)) gone (wt_wturns wt) (wt_wgs wt) c1 s1)"
proof -
  have "WCache_CloseAll wt sched recv post pc now c s =
     bindG (Close_each sched recv post pc now (cached_entries c) (stopping c) s) (\<lambda>(c1, s1).
     wg_Wait (WCache_gor post pc (wt_cfg wt)) gone (wt_wturns wt) (wt_wgs wt) c1 s1)"
    using assms by (cases "wc_chSync c") (simp_all add: WCache_CloseAll_def stopping_def cached_entries_def)
  then show ?thesis by (simp add: Close_each_errors bindG_assoc case_prod_beta')
qed

text \<open>
  What unmounting leaves in the write cache: for every file whose closing reported no error the view
  is the one before, and no block of it is cached.
\<close>

definition written_back ::
  "u32 \<Rightarrow> ('s \<Rightarrow> contents) \<Rightarrow> (u64 \<times> go_error option) list \<Rightarrow> view \<Rightarrow> WCache \<Rightarrow> 's \<Rightarrow> bool" where
  "written_back bs content errs v c' s' \<longleftrightarrow>
     (\<forall>f. f \<notin> failed errs \<longrightarrow> (\<forall>i. attached c' f i = None) \<and> (\<forall>p. zbyte (content s' f) p = v f p))"

lemma written_back_wait:
  assumes "server_ok post pc content" and "wc_inv bs {} c"
  shows "written_back bs content errs v c s = wait_inv post pc bs content (- failed errs) v c s"
  using assms wview_uncached [of c _ bs content s] by (fastforce simp: written_back_def wait_inv_def fun_eq_iff)

lemma stopped_waits:
  assumes a: "ages (\<lambda>_. False) (stopping c) c1" and more: "CacheCore.more c1 = CacheCore.more (stopping c)"
    and inv: "wc_inv bs {} c" and q: "qblocks c = {}" and w: "wwaits_end wt c"
  shows "wait_calm (cc_ExpireTime c1) c1 \<and> wwaits_end wt c1"
proof -
  note m = more_same(1,3,4) [OF more]
  have "set (queue c) \<subseteq> owned (attached c)" using inv by (simp add: wc_defs)
  then have "queue c = []" using q by (cases "queue c") (auto simp: qblocks_def owned_def)
  then have "queue c1 = []" "wc_chSync c1 \<noteq> None \<longrightarrow> wc_chClosed c1" "wc_chSync c1 = wc_chSync c"
    using m by (simp_all add: stopping_def queue_def)
  moreover have "wait_fits c1 g = wait_fits c g" for g using calculation(3) by (cases g) simp_all
  moreover have "cc_Stop c1" "cc_ExpireTime c1 = cc_ExpireTime c" "length (cc_heap c1) = length (cc_heap c)"
    using a by (simp_all add: ages_def stopping_def)
  ultimately show ?thesis using w by (simp add: wait_calm_def wwaits_end_def)
qed

lemma WCache_CloseAll_ok:
  assumes ok: "server_ok post pc content"
    and sched: "\<And>xs. set (sched xs) = set xs" and recv: "\<And>es. set (recv es) = set es"
    and inv: "wc_inv bs {} c" and open_ch: "\<not> wc_chClosed c"
  shows "okG (qblocks c \<noteq> {} \<or> \<not> wwaits_end wt c) (WCache_CloseAll wt sched recv post pc now c s) (\<lambda>(c', s'). wc_inv bs {} c' \<and>
     (\<exists>errs c1 s1. Close_errors sched recv post pc now (cached_entries c) (stopping c) s = Ret (errs, c1, s1) \<and>
        written_back bs content errs (wview bs content c s) c' s'))" (is "okG ?w _ _")
proof -
  have "wc_inv bs {} (stopping c)" using inv stopping_same by blast
  from Close_errors_ok [where sched = sched and recv = recv, OF ok sched recv this, of now "cached_entries c" s]
  have cl: "okG (qblocks c \<noteq> {}) (Close_errors sched recv post pc now (cached_entries c) (stopping c) s)
      (closed_post bs content (fe_Id ` set (cached_entries c)) (stopping c) s)"
    by (simp add: stopping_same)
  show ?thesis
  proof (cases "Close_errors sched recv post pc now (cached_entries c) (stopping c) s")
    case (Ret x)
    obtain errs c1 s1 where x: "x = (errs, c1, s1)" by (metis prod_cases3)
    have p: "closed_post bs content (fe_Id ` set (cached_entries c)) (stopping c) s (errs, c1, s1)"
      using okG_Ret [OF cl Ret] x by simp
    have none: "attached c1 f i = None" if "f \<notin> failed errs" for f i
    proof (cases "f \<in> fe_Id ` set (cached_entries c)")
      case False
      then have "attached (stopping c) f i = None" using uncached_entries [OF inv] stopping_same by metis
      moreover have "attached c1 f i = attached (stopping c) f i \<or> attached c1 f i = None" using p by simp
      ultimately show ?thesis by auto
    qed (use p that in simp)
    have "wview bs content c1 s1 f = wview bs content c s f" if "f \<notin> failed errs" for f
      using p that by (simp add: stopping_same)
    then have wait: "wait_inv post pc bs content (- failed errs) (wview bs content c s) c1 s1"
      using none ok p by (simp add: wait_inv_def)
    have "ages (\<lambda>_. False) (stopping c) c1" "CacheCore.more c1 = CacheCore.more (stopping c)"
      using ages_Close_errors Ret x p by auto
    from stopped_waits [OF this inv] have "\<not> (wait_calm (cc_ExpireTime c1) c1 \<and> wwaits_end wt c1) \<Longrightarrow> ?w" by blast
    then have "okG ?w (wg_Wait (WCache_gor post pc (wt_cfg wt)) gone (wt_wturns wt) (wt_wgs wt) c1 s1)
        (\<lambda>(c', s'). wait_inv post pc bs content (- failed errs) (wview bs content c s) c' s')"
      by (intro okG_mono [OF WCache_Wait_ok [OF wait]]) auto
    then have "okG ?w (wg_Wait (WCache_gor post pc (wt_cfg wt)) gone (wt_wturns wt) (wt_wgs wt) c1 s1)
        (\<lambda>(c', s'). wc_inv bs {} c' \<and> written_back bs content errs (wview bs content c s) c' s')"
      by (rule okG_mono) (use written_back_wait [OF ok] in \<open>auto simp: wait_inv_def\<close>)
    then show ?thesis using Ret x by (simp add: WCache_CloseAll_run [OF open_ch])
  qed (use cl in \<open>simp_all add: WCache_CloseAll_run [OF open_ch]\<close>)
qed

section \<open>Closing every file of the read cache\<close>

lemma RClose_each_ok:
  "rc_inv bs {} c \<Longrightarrow> okG (rblocks c \<noteq> {}) (RClose_each fes c) (\<lambda>c'. rc_inv bs {} c' \<and> CacheCore.more c' = CacheCore.more c)"
proof (induction fes arbitrary: c)
  case (Cons fe fes)
  have cl: "okG (rblocks c \<noteq> {}) (RCache_Close fe c) (\<lambda>(err, c'). rc_inv bs {} c' \<and> CacheCore.more c' = CacheCore.more c)"
    by (rule okG_mono [OF RCache_Close_ok [OF Cons.prems]]) auto
  show ?case
    unfolding RClose_each.simps
  proof (rule okG_bind [OF cl], goal_cases)
    case (1 x)
    then show ?case using Cons.IH [of "snd x"] rmore_same(6) [of "snd x" c] by (cases x) simp
  qed
qed simp

lemma ages_release_each: "release_each f is c = Ret (err, c') \<Longrightarrow> ages (\<lambda>_. False) c c'"
proof (induction "is" arbitrary: c)
  case (Cons i "is")
  then obtain err1 c1 where "ReleaseBuffer f i c = Ret (err1, c1)" "c' = c1 \<or> release_each f is c1 = Ret (err, c')"
    by (auto simp: go_simps split: if_splits)
  then show ?case by (auto dest: ages_ReleaseBuffer Cons.IH intro: ages_trans)
qed (simp add: ages_refl)

lemma ages_RCache_Close:
  assumes "RCache_Close fe c = Ret (err, c')"
  shows "ages (\<lambda>_. False) c c'"
proof -
  obtain err1 c1 where f: "Release fe c = Ret (err1, c1)" "c' = c1 \<or> c' = DetachFileBuffer fe c1"
    using assms by (auto simp: RCache_Close_def go_simps split: if_splits)
  have "c1 = c \<or> (\<exists>g is c2. on_fb g fb_Wait c = Ret c2 \<and> release_each g is c2 = Ret (err1, c1))"
    using f(1) by (auto simp: Release_def GetFileBuffer_def go_simps split: option.splits)
  then have "ages (\<lambda>_. False) c c1" by (auto simp: ages_refl dest!: ages_on_fb ages_release_each intro: ages_trans)
  then show ?thesis using f(2) by (auto simp: ages_def aged_def DetachFileBuffer_def)
qed

lemma ages_RClose_each: "RClose_each fes c = Ret c' \<Longrightarrow> ages (\<lambda>_. False) c c'"
proof (induction fes arbitrary: c)
  case (Cons fe fes)
  then obtain err c1 where x: "RCache_Close fe c = Ret (err, c1)" "RClose_each fes c1 = Ret c'" by (auto simp: go_simps)
  show ?case by (rule ages_trans [OF ages_RCache_Close [OF x(1)] Cons.IH [OF x(2)]])
qed (simp add: ages_refl)

lemma RCache_CloseAll_ok:
  assumes ok: "server_ok post pc content" and inv: "rc_inv bs {} c" and open_ch: "\<not> rc_chClosed c"
  shows "okG (rblocks c \<noteq> {} \<or> \<not> rwaits_end wt c) (RCache_CloseAll wt post pc c s)
     (\<lambda>(c', s'). rc_inv bs {} c' \<and> content s' = content s)" (is "okG ?w _ _")
proof -
  have run: "RCache_CloseAll wt post pc c s = bindG (RClose_each (cached_entries c) (rstopping c)) (\<lambda>c1.
      wg_Wait (RCache_gor post pc (wt_cfg wt)) gone (wt_rturns wt) (wt_rgs wt) c1 s)"
    using open_ch by (cases "rc_chPrefetch c") (simp_all add: RCache_CloseAll_def rstopping_def cached_entries_def)
  have cl: "okG (rblocks c \<noteq> {}) (RClose_each (cached_entries c) (rstopping c))
      (\<lambda>c'. rc_inv bs {} c' \<and> CacheCore.more c' = CacheCore.more (rstopping c))"
    by (rule okG_mono [OF RClose_each_ok [of bs]]) (use inv in \<open>simp_all add: rstopping_same\<close>)
  show ?thesis
  proof (cases "RClose_each (cached_entries c) (rstopping c)")
    case (Ret c1)
    have c1: "rc_inv bs {} c1" "CacheCore.more c1 = CacheCore.more (rstopping c)" using okG_Ret [OF cl Ret] by simp_all
    note m = rmore_same(1,3,5) [OF c1(2)] and a = ages_RClose_each [OF Ret]
    have wait: "rwait_inv post pc bs content (content s) c1 s" using ok c1(1) by (simp add: rwait_inv_def)
    have "rwait_calm c1 \<and> rwaits_end wt c1" if "\<not> ?w"
    proof -
      have "rqueue c = []" "rqueue (rstopping c) = rqueue c" using that by (simp_all add: rblocks_def) (simp add: rstopping_def rqueue_def)
      then have "rqueue c1 = []" "rc_chPrefetch c1 \<noteq> None \<longrightarrow> rc_chClosed c1" "rc_chPrefetch c1 = rc_chPrefetch c"
        using m by (simp_all add: rstopping_def)
      moreover have "rwait_fits c1 g = rwait_fits c g" for g using calculation(3) by (cases g) simp_all
      moreover have "cc_Stop c1" "length (cc_heap c1) = length (cc_heap c)" using a by (simp_all add: ages_def rstopping_def)
      ultimately show ?thesis using that by (simp add: rwait_calm_def rwaits_end_def)
    qed
    then have "okG ?w (wg_Wait (RCache_gor post pc (wt_cfg wt)) gone (wt_rturns wt) (wt_rgs wt) c1 s)
        (\<lambda>(c', s'). rwait_inv post pc bs content (content s) c' s')"
      by (intro okG_mono [OF RCache_Wait_ok [OF wait]]) auto
    then show ?thesis unfolding run Ret bindG.simps by (rule okG_mono) (auto simp: rwait_inv_def)
  qed (use cl in \<open>simp_all add: run\<close>)
qed

section \<open>Unmounting\<close>

text \<open>
  The run of \<^verbatim>\<open>CloseAll\<close> over the files of the write cache, with the errors it does not look at; the read cache
  is closed before. And when unmounting has nothing to wait for: no block is queued, and the goroutines get turns enough, in time.
\<close>

definition unmount_errors ::
  "'s Env \<Rightarrow> CfaMountInfo \<Rightarrow> RWCache \<Rightarrow> 's \<Rightarrow> ((u64 \<times> go_error option) list \<times> WCache \<times> 's) go" where
  "unmount_errors env m rwc s =
     bindG (RCache_CloseAll (env_wait env) (env_post env) (m_proxyClient m) (rw_rCache rwc) s) (\<lambda>(rc1, s1).
     Close_errors (env_sched env) (env_recv env) (env_post env) (m_proxyClient m) (env_now env)
       (cached_entries (rw_wCache rwc)) (stopping (rw_wCache rwc)) s1)"

definition unmount_waits :: "'s Env \<Rightarrow> RWCache \<Rightarrow> bool" where
  "unmount_waits env rwc \<longleftrightarrow> qblocks (rw_wCache rwc) \<noteq> {} \<or> rblocks (rw_rCache rwc) \<noteq> {} \<or>
     \<not> waits_end (env_wait env) (rw_wCache rwc) (rw_rCache rwc)"

lemma RWCache_CloseAll_ok:
  assumes "server_ok (env_post env) (m_proxyClient m) content" and "rw_ok bs rwc" and "\<not> rc_chClosed (rw_rCache rwc)"
    and "reorders (env_sched env)" and "reorders (env_recv env)"
  shows "okG (unmount_waits env rwc)
     (RWCache_CloseAll (env_wait env) (env_sched env) (env_recv env) (env_post env) (m_proxyClient m) (env_now env) rwc s)
     (\<lambda>(rwc', s'). rc_inv bs {} (rw_rCache rwc') \<and> wc_inv bs {} (rw_wCache rwc') \<and> (\<exists>errs c1 s1.
        unmount_errors env m rwc s = Ret (errs, c1, s1) \<and>
        written_back bs content errs (wview bs content (rw_wCache rwc) s) (rw_wCache rwc') s'))"
    (is "okG ?w _ ?Q")
proof -
  have w: "wc_inv bs {} (rw_wCache rwc)" "\<not> wc_chClosed (rw_wCache rwc)" and r: "rc_inv bs {} (rw_rCache rwc)"
    using assms(2) by (simp_all add: rw_ok_def)
  show ?thesis
  proof (cases "RCache_CloseAll (env_wait env) (env_post env) (m_proxyClient m) (rw_rCache rwc) s")
    case (Ret x)
    obtain rc1 s1 where x: "x = (rc1, s1)" by fastforce
    have rc1: "rc_inv bs {} rc1" "content s1 = content s" using okG_Ret [OF RCache_CloseAll_ok [OF assms(1) r assms(3)] Ret] x by simp_all
    have "okG ?w (WCache_CloseAll (env_wait env) (env_sched env) (env_recv env) (env_post env) (m_proxyClient m) (env_now env) (rw_wCache rwc) s1)
        (\<lambda>(c', s'). wc_inv bs {} c' \<and> (\<exists>errs c1 s2. unmount_errors env m rwc s = Ret (errs, c1, s2) \<and>
          written_back bs content errs (wview bs content (rw_wCache rwc) s) c' s'))"
      unfolding unmount_errors_def Ret x
      by (rule okG_mono [OF WCache_CloseAll_ok [OF assms(1) _ _ w]])
         (use assms(4,5) rc1(2) in \<open>auto simp: reorders_def unmount_waits_def waits_end_def wview_def\<close>)
    then show ?thesis unfolding RWCache_CloseAll_def Ret x bindG.simps prod.case by (rule okG_bind) (use rc1(1) in auto)
  qed (use RCache_CloseAll_ok [OF assms(1) r assms(3), of "env_wait env" s]
        in \<open>auto simp: RWCache_CloseAll_def unmount_waits_def waits_end_def\<close>)
qed

text \<open>What \<^verbatim>\<open>DelMount\<close> leaves of a mount with caches.\<close>

fun unmounted ::
  "u32 \<Rightarrow> ('s \<Rightarrow> contents) \<Rightarrow> 's Env \<Rightarrow> CfaMountInfo \<Rightarrow> RWCache \<Rightarrow> 's \<Rightarrow> CfaMountInfo \<times> 's \<Rightarrow> bool" where
  "unmounted bs content env m rwc s (m', s') \<longleftrightarrow>
     m_MountStu m' = MountStuDel \<and> m_stopped m' \<and> (\<exists>rwc' errs c1 s1. m_rwCache m' = Some rwc' \<and>
       unmount_errors env m rwc s = Ret (errs, c1, s1) \<and>
       written_back bs content errs (wview bs content (rw_wCache rwc) s) (rw_wCache rwc') s')"

lemma DelMount_ok:
  assumes "server_ok (env_post env) (m_proxyClient m) content" and "m_rwCache m = Some rwc" and "rw_ok bs rwc"
    and "\<not> rc_chClosed (rw_rCache rwc)" and "\<not> m_stopped m"
    and "reorders (env_sched env)" and "reorders (env_recv env)"
  shows "okG (unmount_waits env rwc) (DelMount env m s) (unmounted bs content env m rwc s)"
proof -
  have cl: "okG (unmount_waits env rwc)
      (bindG (RWCache_CloseAll (env_wait env) (env_sched env) (env_recv env) (env_post env) (m_proxyClient m) (env_now env) rwc s)
         (\<lambda>(rwc', s'). Ret (m\<lparr> m_rwCache := Some rwc' \<rparr>, s')))
      (\<lambda>(m', s'). \<exists>rwc' errs c1 s1. m' = m\<lparr> m_rwCache := Some rwc' \<rparr> \<and> unmount_errors env m rwc s = Ret (errs, c1, s1) \<and>
         written_back bs content errs (wview bs content (rw_wCache rwc) s) (rw_wCache rwc') s')"
    by (rule okG_bind [OF RWCache_CloseAll_ok [OF assms(1,3,4,6,7)]]) auto
  show ?thesis
    unfolding DelMount_def assms(2) option.case
  proof (rule okG_bind [OF cl], goal_cases)
    case (1 x)
    then obtain m1 s1 where x: "x = (m1, s1)" and m1: "\<not> m_stopped m1" "unmounted bs content env m rwc s (m1\<lparr> m_MountStu := MountStuDel, m_stopped := True \<rparr>, s1)"
      using assms(5) by (cases x) auto
    show ?case unfolding x prod.case if_not_P [OF m1(1)]
      by (rule okG_mono [OF stat_Wait]) (use m1(2) in \<open>auto simp: unmount_waits_def waits_end_def simp del: unmounted.simps\<close>)
  qed
qed


text \<open>A mount with a cached byte that the server does not have yet.\<close>

definition dirty_mount :: "WCache \<Rightarrow> CfaMountInfo" where
  "dirty_mount c = (wit_mount (NewFileCache 2))\<lparr> m_rwCache := Some ((NewRWCache 2 1000 0 0 1)\<lparr> rw_wCache := c \<rparr>) \<rparr>"

lemma dirty_cache:
  "\<exists>c. attached c 7 1 = Some 0 \<and> qblocks c = {} \<and> rw_ok 4 ((NewRWCache 2 1000 0 0 1)\<lparr> rw_wCache := c \<rparr>) \<and>
     waits_end wit_waits c (rw_rCache (NewRWCache 2 1000 0 0 1)) \<and>
     (\<forall>errs c1 s1. unmount_errors (wit_env mem_server) (dirty_mount c) ((NewRWCache 2 1000 0 0 1)\<lparr> rw_wCache := c \<rparr>) (\<lambda>_. []) =
        Ret (errs, c1, s1) \<longrightarrow> errs = [(7, None)])"
proof -
  obtain c s where c: "wc_inv 4 {} c" "attached c 7 1 = Some 0" "qblocks c = {}"
      "locked_WriteOp mem_server mem_client 0 demo_file 7 demo_op demo_cache (\<lambda>_. []) = Ret ((2, None), c, s)"
    using demo_dirty by blast
  have "okG False (locked_WriteOp mem_server mem_client 0 demo_file 7 demo_op demo_cache (\<lambda>_. []))
     (\<lambda>(_, c1, _). \<not> wc_chClosed c1 \<and> cc_ExpireTime c1 = 1000 \<and> length (cc_heap c1) = 2)" by code_simp
  then have c1: "\<not> wc_chClosed c" "cc_ExpireTime c = 1000" "length (cc_heap c) = 2" using okG_Ret [OF _ c(4)] by fastforce+
  then have "rw_ok 4 ((NewRWCache 2 1000 0 0 1)\<lparr> rw_wCache := c \<rparr>)" using wit_rw_ok c(1) by (simp add: rw_ok_def)
  moreover have "waits_end wit_waits c (rw_rCache (NewRWCache 2 1000 0 0 1))"
    using c1 by (auto simp: waits_end_def wwaits_end_def rwaits_end_def wit_waits_def turns_of_def NewRWCache_def NewRCache_def pool_store_def less_Suc_eq)
  moreover have "okG False (bindG (locked_WriteOp mem_server mem_client 0 demo_file 7 demo_op demo_cache (\<lambda>_. [])) (\<lambda>(_, c, _).
      unmount_errors (wit_env mem_server) (dirty_mount c) ((NewRWCache 2 1000 0 0 1)\<lparr> rw_wCache := c \<rparr>) (\<lambda>_. [])))
      (\<lambda>(errs, _). errs = [(7, None)])" by code_simp
  then have "errs = [(7, None)]" if "unmount_errors (wit_env mem_server) (dirty_mount c) ((NewRWCache 2 1000 0 0 1)\<lparr> rw_wCache := c \<rparr>) (\<lambda>_. []) =
        Ret (errs, c1, s1)" for errs c1 s1 using c(4) that by simp
  ultimately show ?thesis using c by blast
qed


end
