(* ===== verification/Cfa_Http.thy ===== *)
theory Cfa_Http
  imports Cfa_Proxy Cfa_Conf
begin

text \<open>
  The HTTP client, \<^verbatim>\<open>lib/libfs/http\<close>: the choice of hosts (\<^verbatim>\<open>selector.go\<close>), the loop around one request
  (\<^verbatim>\<open>http.go\<close>) and the headers every request gets (\<^verbatim>\<open>transport.go\<close>). Hosts are shared by reference: the
  selector and the list of hosts to retry hold pointers into one store, so that a failure noted
  through one of them is seen through all.
\<close>

section \<open>Hosts\<close>

record host =
  h_raw :: string
  h_host :: string
  h_lastFailedTime :: int

type_synonym hostp = nat
type_synonym host_store = "host list"

definition new_host :: "string \<Rightarrow> host" where
  "new_host raw = \<lparr> h_raw = raw, h_host = [], h_lastFailedTime = 0 \<rparr>"

text \<open>\<open>now\<close> is \<^verbatim>\<open>time.Now().Unix()\<close>.\<close>

definition SetFail :: "int \<Rightarrow> hostp \<Rightarrow> host_store \<Rightarrow> host_store" where
  "SetFail now h st = st[h := (st ! h)\<lparr> h_lastFailedTime := now \<rparr>]"

definition IsPunished :: "int \<Rightarrow> int \<Rightarrow> host_store \<Rightarrow> hostp \<Rightarrow> bool" where
  "IsPunished now failRetryInterval st h \<longleftrightarrow>
     h_lastFailedTime (st ! h) \<noteq> 0 \<and> now - h_lastFailedTime (st ! h) < failRetryInterval"

record selector =
  sel_tryTimes :: u32
  sel_failRetryInterval :: int
  sel_hosts :: "hostp list"
  sel_idx :: u32
  sel_defaultHost :: "hostp option"

text \<open>
  \<^verbatim>\<open>SetHosts\<close> panics on an empty list and on an address that \<^verbatim>\<open>url.Parse\<close> refuses; \<open>parse\<close> is the error of
  \<^verbatim>\<open>url.Parse\<close>.
\<close>

definition with_scheme :: "string \<Rightarrow> string" where
  "with_scheme h = (if \<not> prefix ''http'' h then ''http://'' @ h else h)"

fun SetHosts_loop ::
  "(string \<Rightarrow> go_error option) \<Rightarrow> string list \<Rightarrow> hostp list \<Rightarrow> host_store \<Rightarrow> (hostp list \<times> host_store) go" where
  "SetHosts_loop parse [] hs st = Ret (hs, st)"
| "SetHosts_loop parse (h # rest) hs st =
     (if parse (with_scheme h) \<noteq> None then Panic
      else SetHosts_loop parse rest (hs @ [length st]) (st @ [new_host (with_scheme h)]))"

definition SetHosts ::
  "(string \<Rightarrow> go_error option) \<Rightarrow> string list \<Rightarrow> selector \<Rightarrow> host_store \<Rightarrow> (selector \<times> host_store) go" where
  "SetHosts parse hosts sel st =
     (if length hosts = 0 then Panic
      else bindG (SetHosts_loop parse hosts [] st) (\<lambda>(hs, st1). Ret (sel\<lparr> sel_hosts := hs \<rparr>, st1)))"

definition newSelector ::
  "(string \<Rightarrow> go_error option) \<Rightarrow> string list \<Rightarrow> u32 \<Rightarrow> int \<Rightarrow> host_store \<Rightarrow> (selector \<times> host_store) go" where
  "newSelector parse hosts tryTimes0 failRetryInterval0 st =
     (let failRetryInterval = (if failRetryInterval0 = 0 then 1 else failRetryInterval0);
          tryTimes = (if length hosts = 0 \<and> tryTimes0 = 0 then 2 else tryTimes0)
      in bindG (SetHosts parse hosts
                 \<lparr> sel_tryTimes = tryTimes, sel_failRetryInterval = failRetryInterval, sel_hosts = [],
                   sel_idx = 0, sel_defaultHost = None \<rparr> st) (\<lambda>(s, st1).
         case sel_hosts s of
           [] \<Rightarrow> Panic
         | h # _ \<Rightarrow> Ret (s\<lparr> sel_defaultHost := Some h \<rparr>, st1)))"

record retrySelector =
  rs_hosts :: "hostp list"
  rs_retryHosts :: "hostp list"
  rs_failRetryInterval :: int

definition sel_Get :: "selector \<Rightarrow> hostp option \<times> retrySelector" where
  "sel_Get s =
     (sel_defaultHost s,
      \<lparr> rs_hosts = sel_hosts s, rs_retryHosts = [], rs_failRetryInterval = sel_failRetryInterval s \<rparr>)"

definition sel_update :: "hostp option \<Rightarrow> selector \<Rightarrow> selector" where
  "sel_update h s = s\<lparr> sel_defaultHost := h \<rparr>"

definition GetTryTimes :: "selector \<Rightarrow> int" where
  "GetTryTimes s = (if sel_tryTimes s \<noteq> 0 then int (unat (sel_tryTimes s)) else int (length (sel_hosts s)))"

text \<open>
  \<open>intn n\<close> is the number \<^verbatim>\<open>rand.Intn(n)\<close> gives, which is below \<open>n\<close>; \<^verbatim>\<open>rand.Intn(0)\<close> panics. The slice that
  is shrunk belongs to the retry selector alone.
\<close>

definition randomShrink :: "(nat \<Rightarrow> nat) \<Rightarrow> hostp list \<Rightarrow> (hostp list \<times> hostp) go" where
  "randomShrink intn ss =
     (let n = length ss in
      if n = 0 then Panic
      else if n = 1 then Ret ([], ss ! 0)
      else
        let i = intn n in
        if i < n then Ret (tl (ss[i := ss ! 0]), ss ! i) else Panic)"

text \<open>\<^verbatim>\<open>make([]*host, 0, len(s.hosts)-1)\<close> panics when there are no hosts.\<close>

definition retry_Get ::
  "int \<Rightarrow> (nat \<Rightarrow> nat) \<Rightarrow> host_store \<Rightarrow> retrySelector \<Rightarrow> (hostp option \<times> retrySelector) go" where
  "retry_Get now intn st s =
     bindG (if length (rs_retryHosts s) = 0 then
              if length (rs_hosts s) = 0 then Panic
              else Ret (filter (\<lambda>h. \<not> IsPunished now (rs_failRetryInterval s) st h) (rs_hosts s))
            else Ret (rs_retryHosts s)) (\<lambda>retryHosts.
     if length retryHosts = 0 then Ret (None, s\<lparr> rs_retryHosts := retryHosts \<rparr>)
     else bindG (randomShrink intn retryHosts) (\<lambda>(rest, h). Ret (Some h, s\<lparr> rs_retryHosts := rest \<rparr>)))"

section \<open>Headers\<close>

text \<open>
  \<^verbatim>\<open>http.Header\<close> keeps its keys in canonical form: the first letter and every letter behind a hyphen
  upper case, the others lower case. All keys here consist of letters and hyphens.
\<close>

definition upper :: "char \<Rightarrow> char" where
  "upper c = (let n = of_char c :: nat in if 97 \<le> n \<and> n \<le> 122 then char_of (n - 32) else c)"

definition lower :: "char \<Rightarrow> char" where
  "lower c = (let n = of_char c :: nat in if 65 \<le> n \<and> n \<le> 90 then char_of (n + 32) else c)"

fun canonical :: "bool \<Rightarrow> string \<Rightarrow> string" where
  "canonical up [] = []"
| "canonical up (c # cs) = (if up then upper c else lower c) # canonical (c = CHR ''-'') cs"

type_synonym Header = "string \<rightharpoonup> string"

definition header_Set :: "string \<Rightarrow> string \<Rightarrow> Header \<Rightarrow> Header" where
  "header_Set k v h = h(canonical True k \<mapsto> v)"

definition header_Get :: "string \<Rightarrow> Header \<Rightarrow> string" where
  "header_Get k h = (case h (canonical True k) of None \<Rightarrow> [] | Some v \<Rightarrow> v)"

definition ReqidKey :: string where "ReqidKey = ''X-ReqId''"

definition ReqUid :: string where "ReqUid = ''X-UserId''"

definition ReqAppid :: string where "ReqAppid = ''X-AppId''"

definition ReqDevid :: string where "ReqDevid = ''X-DevId''"

definition ReqPkgName :: string where "ReqPkgName = ''X-PkgName''"

definition ReqClientTag :: string where "ReqClientTag = ''X-ClientLabel''"

definition ReqToken :: string where "ReqToken = ''X-Token''"

definition ReqClientId :: string where "ReqClientId = ''X-ClientId''"

definition ReqTime :: string where "ReqTime = ''X-Ts''"

definition ReqAccessKey :: string where "ReqAccessKey = ''X-AccessKey''"

lemmas req_keys =
  ReqidKey_def ReqUid_def ReqAppid_def ReqDevid_def ReqPkgName_def ReqClientTag_def ReqToken_def
  ReqClientId_def ReqTime_def ReqAccessKey_def

section \<open>Requests\<close>

text \<open>The body of a request is the document that was marshalled, if it has one, that of a reply what decoding gives.\<close>

record HttpRequest =
  hq_Method :: string
  hq_URL :: string
  hq_Header :: Header
  hq_Body :: "json option"

record HttpResponse =
  hr_StatusCode :: int
  hr_Location :: string
  hr_Body :: "go_error + json"

text \<open>
  What the client finds around it: the exchange of one request with the network, the clock in
  nanoseconds, random numbers, the error of \<^verbatim>\<open>url.Parse\<close>, and \<^verbatim>\<open>URL.Parse\<close> of a reference, of which scheme
  and host are used. \<open>ne_target\<close> is what Go's own client makes of the \<^verbatim>\<open>Location\<close> of a redirect that it follows: an
  error, or the address with the text for the header \<^verbatim>\<open>Referer\<close>; \<^const>\<open>None\<close> if it hands the reply back, as
  newer releases of Go do when there is no \<^verbatim>\<open>Location\<close>.
\<close>

record 's NetEnv =
  ne_exchange :: "'s \<Rightarrow> HttpRequest \<Rightarrow> 's \<times> HttpResponse option \<times> go_error option"
  ne_now :: "'s \<Rightarrow> int"
  ne_intn :: "'s \<Rightarrow> nat \<Rightarrow> nat"
  ne_parse :: "string \<Rightarrow> go_error option"
  ne_resolve :: "string \<Rightarrow> string \<Rightarrow> go_error + (string \<times> string)"
  ne_target :: "string \<Rightarrow> string \<Rightarrow> (go_error + (string \<times> string)) option"

definition Unix :: "int \<Rightarrow> int" where "Unix now = now div 1000000000"

record Transport =
  tr_user :: UserInfo
  tr_cfg :: Config
  tr_clientID :: string

definition newTransport :: "UserInfo \<Rightarrow> string \<Rightarrow> Config \<Rightarrow> Transport" where
  "newTransport user clientID cfaCfg = \<lparr> tr_user = user, tr_cfg = cfaCfg, tr_clientID = clientID \<rparr>"

definition RoundTrip :: "Transport \<Rightarrow> int \<Rightarrow> HttpRequest \<Rightarrow> HttpRequest" where
  "RoundTrip t now req =
     req\<lparr> hq_Header :=
       header_Set ReqTime (FormatInt (now div 1000000))
      (header_Set ReqClientId (tr_clientID t)
      (header_Set ReqClientTag (cfg_at (tr_cfg t) CfgClientTag)
      (header_Set ReqPkgName (cfg_at (tr_cfg t) CfgPackageName)
      (header_Set ReqDevid (cfg_at (tr_cfg t) CfgDevId)
      (header_Set ReqAppid (cfg_at (tr_cfg t) CfgAppId)
      (header_Set ReqToken (u_Token (tr_user t))
      (header_Set ReqUid (u_Uid (tr_user t))
      (header_Set ''accept'' ''application/json''
      (header_Set ''Content-Type'' ''application/json'' (hq_Header req)))))))))) \<rparr>"

section \<open>The client\<close>

definition MAX_REDIRECT_TIMES :: int where "MAX_REDIRECT_TIMES = 10"

definition ErrIllegalParam :: go_error where "ErrIllegalParam = ErrNew ''param is illegal''"

definition ErrRetryNeeded :: go_error where "ErrRetryNeeded = ErrNew ''req need retry''"

definition ErrAbnormalRespCode :: go_error where "ErrAbnormalRespCode = ErrNew ''abnormal resp code''"

text \<open>The default of the configuration: retry on a timeout and on two errors of the connection.\<close>

definition ShouldRetry :: "int \<Rightarrow> go_error option \<Rightarrow> bool" where
  "ShouldRetry code err =
     (if (case err of Some (UrlError _ _ _ timeout _) \<Rightarrow> timeout | _ \<Rightarrow> False) then True
      else
        case err of
          None \<Rightarrow> False
        | Some e \<Rightarrow>
            if Contains (Error_text e) ''use of closed network connection'' then True
            else if Contains (Error_text e) ''connection reset by peer'' then True
            else False)"

text \<open>
  \<open>hc_ShouldRetry\<close> is the field of the embedded configuration after \<^verbatim>\<open>NewHttpClient\<close> has replaced nil.
\<close>

record HttpClient =
  hc_HttpCfg :: HttpCfg
  hc_ShouldRetry :: "int \<Rightarrow> go_error option \<Rightarrow> bool"
  hc_transport :: Transport
  hc_sel :: selector
  hc_ClientId :: string

definition getRedirectTimes :: "HttpClient \<Rightarrow> int" where
  "getRedirectTimes c = MAX_REDIRECT_TIMES"

definition NewHttpClient ::
  "(string \<Rightarrow> go_error option) \<Rightarrow> HttpCfg \<Rightarrow> (int \<Rightarrow> go_error option \<Rightarrow> bool) option \<Rightarrow> UserInfo \<Rightarrow> string \<Rightarrow> Config \<Rightarrow>
   host_store \<Rightarrow> (HttpClient \<times> host_store) go" where
  "NewHttpClient parse cfg shouldRetry user clientID cfaCfg st =
     (let tr = newTransport user clientID cfaCfg;
          sr = (case shouldRetry of None \<Rightarrow> ShouldRetry | Some f \<Rightarrow> f)
      in bindG (newSelector parse (ht_Hosts cfg) (ht_TryTimes cfg) (ht_MaxFailsPeriodS cfg) st) (\<lambda>(sel, st1).
         Ret (\<lparr> hc_HttpCfg = cfg, hc_ShouldRetry = sr, hc_transport = tr, hc_sel = sel,
                hc_ClientId = clientID \<rparr>, st1)))"

text \<open>The whole text becomes the one host of the client.\<close>

definition UpdateHosts ::
  "(string \<Rightarrow> go_error option) \<Rightarrow> string \<Rightarrow> HttpClient \<Rightarrow> host_store \<Rightarrow> (HttpClient \<times> host_store) go" where
  "UpdateHosts parse Hosts h st =
     bindG (newSelector parse [Hosts] (ht_TryTimes (hc_HttpCfg h)) (- 1) st) (\<lambda>(sel, st1).
     Ret (h\<lparr> hc_HttpCfg := (hc_HttpCfg h)\<lparr> ht_Hosts := [Hosts] \<rparr>, hc_sel := sel \<rparr>, st1))"

text \<open>The network, the hosts and the client together.\<close>

record 's HttpState =
  x_net :: 's
  x_store :: host_store
  x_client :: HttpClient

definition newRequest :: "'s NetEnv \<Rightarrow> string \<Rightarrow> string \<Rightarrow> json \<Rightarrow> go_error + HttpRequest" where
  "newRequest env method urlStr body =
     (case ne_parse env urlStr of
        Some err \<Rightarrow> Inl err
      | None \<Rightarrow> Inr \<lparr> hq_Method = method, hq_URL = urlStr, hq_Header = Map.empty, hq_Body = Some body \<rparr>)"

text \<open>
  \<^verbatim>\<open>Do\<close> of the client of Go's library: it sends the request through the transport and follows the redirects 301, 302
  and 303 itself, and 307 and 308 if it can send the body again, which needs \<^verbatim>\<open>GetBody\<close>; a request made with a
  \<^verbatim>\<open>RetryReader\<close> does not have it. It sends ten requests at most. After 301 to 303 a \<^verbatim>\<open>POST\<close> becomes a \<^verbatim>\<open>GET\<close> without a
  body; the headers are those of the first request, as they were before the transport added its own.
\<close>

definition urlErrorOp :: "string \<Rightarrow> string" where
  "urlErrorOp method = (case method of [] \<Rightarrow> ''Get'' | c # cs \<Rightarrow> c # map lower cs)"

definition redirect_target ::
  "bool \<Rightarrow> 's NetEnv \<Rightarrow> HttpRequest \<Rightarrow> HttpResponse option \<Rightarrow> go_error option \<Rightarrow> (go_error + (string \<times> string)) option" where
  "redirect_target getBody env req resp err =
     (case (resp, err) of
        (Some r, None) \<Rightarrow>
          if hr_StatusCode r \<in> {301, 302, 303} \<or> getBody \<and> hr_StatusCode r \<in> {307, 308}
          then ne_target env (hq_URL req) (hr_Location r) else None
      | _ \<Rightarrow> None)"

definition redirect_request :: "HttpRequest \<Rightarrow> HttpRequest \<Rightarrow> HttpResponse option \<Rightarrow> string \<Rightarrow> string \<Rightarrow> HttpRequest" where
  "redirect_request ireq req resp url referer =
     (let keep = (case resp of None \<Rightarrow> False | Some r \<Rightarrow> hr_StatusCode r \<in> {307, 308})
      in \<lparr> hq_Method = (if keep \<or> hq_Method req = ''HEAD'' then hq_Method req else ''GET''),
           hq_URL = url,
           hq_Header = (if referer = [] then hq_Header ireq else header_Set ''Referer'' referer (hq_Header ireq)),
           hq_Body = (if keep then hq_Body req else None) \<rparr>)"

fun client_follow ::
  "(int \<Rightarrow> HttpRequest \<Rightarrow> HttpRequest) \<Rightarrow> bool \<Rightarrow> 's NetEnv \<Rightarrow> nat \<Rightarrow> HttpRequest \<Rightarrow> HttpRequest \<Rightarrow> 's \<Rightarrow>
   's \<times> HttpResponse option \<times> go_error option" where
  "client_follow trip getBody env k ireq req n =
     (case ne_exchange env n (trip (ne_now env n) req) of (n1, resp, err) \<Rightarrow>
      case redirect_target getBody env req resp err of
        None \<Rightarrow> (n1, resp, err)
      | Some (Inl e) \<Rightarrow> (n1, None, Some (UrlError (urlErrorOp (hq_Method ireq)) (hq_URL req) e False False))
      | Some (Inr (url, referer)) \<Rightarrow>
          (case k of
             0 \<Rightarrow> (n1, resp, Some (UrlError (urlErrorOp (hq_Method ireq)) (hq_URL req)
                       (ErrNew ''stopped after 10 redirects'') False False))
           | Suc k' \<Rightarrow> client_follow trip getBody env k' ireq (redirect_request ireq req resp url referer) n1))"

declare client_follow.simps [simp del]

lemma client_follow_final:
  assumes "ne_exchange env n (trip (ne_now env n) req) = (n1, resp, err)" and "redirect_target getBody env req resp err = None"
  shows "client_follow trip getBody env k ireq req n = (n1, resp, err)"
  using assms by (simp add: client_follow.simps [of trip getBody env k])

text \<open>\<^verbatim>\<open>p.client.Do\<close>: the transport adds its headers to every request that goes out.\<close>

definition client_Do ::
  "'s NetEnv \<Rightarrow> HttpRequest \<Rightarrow> 's HttpState \<Rightarrow> 's HttpState \<times> HttpResponse option \<times> go_error option" where
  "client_Do env req x =
     (case client_follow (RoundTrip (hc_transport (x_client x))) False env 9 req req (x_net x) of
        (n, resp, err) \<Rightarrow> (x\<lparr> x_net := n \<rparr>, resp, err))"

type_synonym 's do_result = "((HttpResponse option \<times> go_error option) \<times> 's HttpState) go"

text \<open>The deferred function: the last host becomes the default one.\<close>

definition do_return ::
  "bool \<Rightarrow> hostp option \<Rightarrow> HttpResponse option \<Rightarrow> go_error option \<Rightarrow> 's HttpState \<Rightarrow> 's do_result" where
  "do_return replaceHost h resp err x =
     (if replaceHost then
        (case h of
           None \<Rightarrow> Panic
         | Some _ \<Rightarrow>
             Ret ((resp, err), x\<lparr> x_client := (x_client x)\<lparr> hc_sel := sel_update h (hc_sel (x_client x)) \<rparr> \<rparr>))
      else Ret ((resp, err), x))"

definition redirect_error :: "int \<Rightarrow> go_error" where
  "redirect_error redirectTime = ErrNew (''stopped after  '' @ FormatInt redirectTime @ '' redirects'')"

text \<open>
  The loop. \<open>retryIdx\<close> never changes; a client whose \<open>hc_ShouldRetry\<close> asks for a retry without an error
  may go on for ever, which is the value \<^const>\<open>None\<close>.
\<close>

partial_function (option) doCtx_loop ::
  "'s NetEnv \<Rightarrow> HttpRequest \<Rightarrow> int \<Rightarrow> int \<Rightarrow> hostp option \<Rightarrow> retrySelector \<Rightarrow> int \<Rightarrow> int \<Rightarrow> bool \<Rightarrow> go_error option \<Rightarrow>
   's HttpState \<Rightarrow> 's do_result option" where
  "doCtx_loop env req retryTimes redirectTime h sel retryIdx redirectIdx replaceHost err0 x =
     (case h of
        None \<Rightarrow> Some Panic
      | Some hp \<Rightarrow>
          if err0 \<noteq> None then Some (do_return replaceHost h None (Some ErrIllegalParam) x)
          else
            case client_Do env req x of (x1, resp, err) \<Rightarrow>
            if resp = None \<and> err = None
            then Some (do_return replaceHost h None (Some (ErrNew ''http resp is nil, please check proto'')) x1)
            else if err \<noteq> None then Some (do_return replaceHost h resp err x1)
            else
              let code = (case resp of None \<Rightarrow> 0 | Some r \<Rightarrow> hr_StatusCode r) in
              if code \<ge> 400 then Some (do_return replaceHost h None (Some ErrAbnormalRespCode) x1)
              else if code = 308 then
                (case ne_resolve env (hq_URL req) (case resp of None \<Rightarrow> [] | Some r \<Rightarrow> hr_Location r) of
                   Inl e \<Rightarrow> Some (do_return replaceHost h None (Some e) x1)
                 | Inr (scheme, hst) \<Rightarrow>
                     let h' = Some (length (x_store x1));
                         x2 = x1\<lparr> x_store := x_store x1 @ [new_host (scheme @ ''://'' @ hst)] \<rparr>
                     in if redirectIdx + 1 \<ge> redirectTime
                        then Some (do_return replaceHost h' None (Some (redirect_error redirectTime)) x2)
                        else doCtx_loop env req retryTimes redirectTime h' sel retryIdx (redirectIdx + 1) True err x2)
              else if hc_ShouldRetry (x_client x1) code err then
                let now = Unix (ne_now env (x_net x1));
                    x2 = x1\<lparr> x_store := SetFail now hp (x_store x1) \<rparr>
                in case retry_Get now (ne_intn env (x_net x2)) (x_store x2) sel of
                     Panic \<Rightarrow> Some Panic
                   | Block \<Rightarrow> Some Block
                   | Ret (h', sel') \<Rightarrow>
                       if h' = None \<or> retryIdx = retryTimes - 1 then Some (do_return replaceHost h' None err x2)
                       else doCtx_loop env req retryTimes redirectTime h' sel' retryIdx redirectIdx True err x2
              else Some (do_return replaceHost h resp err x1))"

definition doCtxWithHostRet :: "'s NetEnv \<Rightarrow> HttpRequest \<Rightarrow> 's HttpState \<Rightarrow> 's do_result option" where
  "doCtxWithHostRet env req x =
     (case sel_Get (hc_sel (x_client x)) of
        (None, _) \<Rightarrow> Some (Ret ((None, Some ErrRetryNeeded), x))
      | (Some h, sel) \<Rightarrow>
          doCtx_loop env req (GetTryTimes (hc_sel (x_client x))) (getRedirectTimes (x_client x))
            (Some h) sel 0 0 False None x)"

text \<open>
  \<^verbatim>\<open>DoPostWithJson\<close> of the client; \<open>reqId\<close> is the identifier of the request in the log. A reply without
  error that is nil cannot be closed.
\<close>

definition Http_DoPostWithJson ::
  "'s NetEnv \<Rightarrow> string \<Rightarrow> 'r jdec \<Rightarrow> 's HttpState \<Rightarrow> string \<Rightarrow> json \<Rightarrow> 'r \<Rightarrow> ('s HttpState \<times> 'r \<times> go_error option) go option" where
  "Http_DoPostWithJson env reqId dec x api_uri params result =
     (case newRequest env ''POST'' api_uri params of
        Inl err \<Rightarrow> Some (Ret (x, result, Some err))
      | Inr req \<Rightarrow>
          (case doCtxWithHostRet env (req\<lparr> hq_Header := header_Set ReqidKey reqId (hq_Header req) \<rparr>) x of
             None \<Rightarrow> None
           | Some m \<Rightarrow>
               Some (bindG m (\<lambda>((resp, err), x1).
                 if err \<noteq> None then Ret (x1, result, err)
                 else
                   case resp of
                     None \<Rightarrow> Panic
                   | Some r \<Rightarrow>
                       (case hr_Body r of
                          Inl e \<Rightarrow> Ret (x1, result, Some e)
                        | Inr body \<Rightarrow>
                            (case dec body result of (result', ok) \<Rightarrow>
                               Ret (x1, result', if ok then None else Some (ErrNew ''json: cannot unmarshal''))))))))"

section \<open>Bodies\<close>

text \<open>
  The body is read through a \<^verbatim>\<open>RetryReader\<close>, which every attempt starts anew at offset 0. \<^verbatim>\<open>ReadAt\<close> of a
  \<^verbatim>\<open>bytes.Reader\<close> copies what is left from the offset on and reports the end of the file when that is
  less than the buffer.
\<close>

record RetryReader =
  rr_Reader :: "byte list"
  rr_Offset :: int

definition ReadAt :: "byte list \<Rightarrow> byte list \<Rightarrow> int \<Rightarrow> byte list \<times> int \<times> go_error option" where
  "ReadAt body val off =
     (if off < 0 then (val, 0, Some (ErrNew ''bytes.Reader.ReadAt: negative offset''))
      else if off \<ge> int (length body) then (val, 0, Some (ErrNew ''EOF''))
      else
        let d = take (length val) (drop (nat off) body)
        in (copy_at 0 d val, int (length d), if length d < length val then Some (ErrNew ''EOF'') else None))"

definition RetryReader_Read :: "byte list \<Rightarrow> RetryReader \<Rightarrow> (byte list \<times> int \<times> go_error option) \<times> RetryReader" where
  "RetryReader_Read val p =
     (case ReadAt (rr_Reader p) val (rr_Offset p) of (val', n, err) \<Rightarrow>
        ((val', n, err), p\<lparr> rr_Offset := rr_Offset p + n \<rparr>))"


end
