(* ===== verification/Cfa_Log.thy ===== *)
theory Cfa_Log
  imports Cfa_Http
begin

text \<open>
  Loggers and request identifiers (\<^verbatim>\<open>lib/log/logger.go\<close>, \<^verbatim>\<open>libfs/util/logger.go\<close>, \<^verbatim>\<open>client/log/fuselog.go\<close>). A logger writes
  through a core whose level is a cell that all loggers made from it share; only the logger made
  first has the pointer to change it. The identifier of a request, which every exchange with the
  proxy carries, is the process number and the time in base64. The constructors of log fields only
  pass their arguments on to the logging package and are left out, and so are the texts logged.
\<close>

section \<open>Levels\<close>

text \<open>The levels of the logging package, and \<^verbatim>\<open>strings.ToLower\<close> for ASCII.\<close>

definition DebugLevel :: int where "DebugLevel = - 1"
definition InfoLevel :: int where "InfoLevel = 0"
definition WarnLevel :: int where "WarnLevel = 1"
definition ErrorLevel :: int where "ErrorLevel = 2"
definition DPanicLevel :: int where "DPanicLevel = 3"
definition PanicLevel :: int where "PanicLevel = 4"
definition FatalLevel :: int where "FatalLevel = 5"

lemmas level_defs = DebugLevel_def InfoLevel_def WarnLevel_def ErrorLevel_def DPanicLevel_def PanicLevel_def FatalLevel_def

definition lower_char :: "char \<Rightarrow> char" where
  "lower_char c = (if 65 \<le> (of_char c :: nat) \<and> (of_char c :: nat) \<le> 90 then char_of ((of_char c :: nat) + 32) else c)"

definition ToLower :: "string \<Rightarrow> string" where
  "ToLower s = map lower_char s"

definition strToLevel :: "string \<Rightarrow> int" where
  "strToLevel s =
     (let l = ToLower s in
      if l = ''debug'' then DebugLevel
      else if l = ''info'' then InfoLevel
      else if l = ''warn'' then WarnLevel
      else if l = ''error'' then ErrorLevel
      else if l = ''dpanic'' then DPanicLevel
      else if l = ''panic'' then PanicLevel
      else if l = ''fatal'' then FatalLevel
      else InfoLevel)"

section \<open>Loggers\<close>

text \<open>The rotating file behind a logger.\<close>

record Hook =
  hk_Filename :: string
  hk_MaxSize :: int
  hk_MaxBackups :: int
  hk_MaxAge :: int
  hk_LocalTime :: bool
  hk_Compress :: bool

text \<open>
  A logger: the cell of the level of its core, its fields, the pointer of its own \<^verbatim>\<open>AtomicLevel\<close> (nil in
  the zero value) and its file. The cells are a store, as the level is shared between loggers.
\<close>

type_synonym levels = "int list"

record Logger =
  log_core :: nat
  log_fields :: "(string \<times> string) list"
  log_AtomicLevel :: "nat option"
  log_hook :: "Hook option"

text \<open>A new core with its level.\<close>

definition new_core :: "int \<Rightarrow> levels \<Rightarrow> nat \<times> levels" where
  "new_core l st = (length st, st @ [l])"

definition cfg_hook :: "LogConfig \<Rightarrow> Hook" where
  "cfg_hook cfg =
     \<lparr> hk_Filename = lg_LogFile cfg, hk_MaxSize = lg_MaxSize cfg, hk_MaxBackups = lg_MaxBackups cfg,
       hk_MaxAge = lg_MaxAge cfg, hk_LocalTime = True, hk_Compress = lg_Compress cfg \<rparr>"

definition NewStdLogger :: "LogConfig \<Rightarrow> levels \<Rightarrow> Logger \<times> levels" where
  "NewStdLogger cfg st =
     (let (a, st1) = new_core (strToLevel (lg_LogLevel cfg)) st
      in (\<lparr> log_core = a, log_fields = [], log_AtomicLevel = Some a, log_hook = None \<rparr>, st1))"

definition NewLogger :: "LogConfig \<Rightarrow> levels \<Rightarrow> Logger \<times> levels" where
  "NewLogger cfg st =
     (let (a, st1) = new_core (strToLevel (lg_LogLevel cfg)) st
      in (\<lparr> log_core = a, log_fields = [], log_AtomicLevel = Some a, log_hook = Some (cfg_hook cfg) \<rparr>, st1))"

definition NewAuditLogger :: "LogConfig \<Rightarrow> levels \<Rightarrow> Logger \<times> levels" where
  "NewAuditLogger cfg st =
     (let (a, st1) = new_core InfoLevel st
      in (\<lparr> log_core = a, log_fields = [], log_AtomicLevel = Some a, log_hook = Some (cfg_hook cfg) \<rparr>, st1))"

text \<open>\<^verbatim>\<open>Level\<close> and \<^verbatim>\<open>SetLevel\<close> of an \<^verbatim>\<open>AtomicLevel\<close>: the zero value holds a nil pointer.\<close>

definition Logger_Level :: "Logger \<Rightarrow> levels \<Rightarrow> int go" where
  "Logger_Level log st = (case log_AtomicLevel log of None \<Rightarrow> Panic | Some a \<Rightarrow> if a < length st then Ret (st ! a) else Panic)"

definition Logger_SetLevel :: "Logger \<Rightarrow> int \<Rightarrow> levels \<Rightarrow> levels go" where
  "Logger_SetLevel log l st =
     (case log_AtomicLevel log of None \<Rightarrow> Panic | Some a \<Rightarrow> if a < length st then Ret (st[a := l]) else Panic)"

definition SetStrLevel :: "Logger \<Rightarrow> string \<Rightarrow> levels \<Rightarrow> levels go" where
  "SetStrLevel log strLevel st = Logger_SetLevel log (strToLevel strLevel) st"

definition Logger_With :: "(string \<times> string) list \<Rightarrow> Logger \<Rightarrow> Logger" where
  "Logger_With fs log =
     \<lparr> log_core = log_core log, log_fields = log_fields log @ fs, log_AtomicLevel = None, log_hook = None \<rparr>"

text \<open>\<^verbatim>\<open>Close\<close>: what it does, in order. The deferred closing of the file comes after \<^verbatim>\<open>Sync\<close>.\<close>

datatype LogCall = Sync | CloseHook Hook

definition Logger_Close :: "Logger \<Rightarrow> LogCall list" where
  "Logger_Close log = Sync # (case log_hook log of None \<Rightarrow> [] | Some h \<Rightarrow> [CloseHook h])"

text \<open>An entry is written when its level reaches that of the core.\<close>

definition log_enabled :: "Logger \<Rightarrow> levels \<Rightarrow> int \<Rightarrow> bool" where
  "log_enabled log st l \<longleftrightarrow> st ! log_core log \<le> l"

definition DefaultLogger :: "levels \<Rightarrow> Logger \<times> levels" where
  "DefaultLogger st =
     NewLogger \<lparr> lg_LogFile = ''./cfa-fuse.log'', lg_LogLevel = ''debug'', lg_MaxSize = 256, lg_MaxBackups = 10,
       lg_MaxAge = 10, lg_Compress = False \<rparr> st"

section \<open>Request identifiers\<close>

definition PutUint32 :: "u32 \<Rightarrow> byte list" where
  "PutUint32 v = map (\<lambda>k. ucast (drop_bit (8 * k) v)) [0..<4]"

definition PutUint64 :: "u64 \<Rightarrow> byte list" where
  "PutUint64 v = map (\<lambda>k. ucast (drop_bit (8 * k) v)) [0..<8]"

text \<open>
  \<^verbatim>\<open>base64.URLEncoding\<close>: three bytes are four characters of the alphabet, the rest is padded. The
  decoding is the reference that the encoding is compared with.
\<close>

definition encodeURL :: string where
  "encodeURL = ''ABCDEFGHIJKLMNOPQRSTUVWXYZabcdefghijklmnopqrstuvwxyz0123456789-_''"

definition b64_chars :: "nat \<Rightarrow> nat \<Rightarrow> string" where
  "b64_chars n v =
     take n (map (\<lambda>d. encodeURL ! (d mod 64)) [v div 262144, v div 4096, v div 64, v])"

fun EncodeToString :: "byte list \<Rightarrow> string" where
  "EncodeToString (a # b # c # rest) =
     b64_chars 4 (unat a * 65536 + unat b * 256 + unat c) @ EncodeToString rest"
| "EncodeToString [a, b] = b64_chars 3 (unat a * 65536 + unat b * 256) @ ''=''"
| "EncodeToString [a] = b64_chars 2 (unat a * 65536) @ ''==''"
| "EncodeToString [] = []"

definition defaultGenReqId :: "u32 \<Rightarrow> u64 \<Rightarrow> string" where
  "defaultGenReqId pid unixNano = EncodeToString (PutUint32 pid @ PutUint64 unixNano)"

section \<open>Loggers of requests\<close>

record ClientLogger =
  cl_Logger :: Logger
  cl_ReqId :: string
  cl_subId :: string

definition SUB_REQ_ID :: string where "SUB_REQ_ID = ''sub-id''"

definition NewClientLogger :: "u32 \<Rightarrow> u64 \<Rightarrow> LogConfig \<Rightarrow> levels \<Rightarrow> ClientLogger \<times> levels" where
  "NewClientLogger pid now logCfg st =
     (let (logger, st1) = NewLogger logCfg st
      in (\<lparr> cl_Logger = logger, cl_ReqId = defaultGenReqId pid now, cl_subId = [] \<rparr>, st1))"

definition CloneLoggerAssignReqId :: "ClientLogger \<Rightarrow> string \<Rightarrow> ClientLogger" where
  "CloneLoggerAssignReqId log reqId =
     \<lparr> cl_Logger = Logger_With [(ReqidKey, reqId)] (cl_Logger log), cl_ReqId = reqId, cl_subId = [] \<rparr>"

definition CloneLogger :: "u32 \<Rightarrow> u64 \<Rightarrow> ClientLogger \<Rightarrow> ClientLogger" where
  "CloneLogger pid now log =
     (let reqId = defaultGenReqId pid now
      in \<lparr> cl_Logger = Logger_With [(ReqidKey, reqId)] (cl_Logger log), cl_ReqId = reqId, cl_subId = [] \<rparr>)"

definition GenSubLogger :: "u32 \<Rightarrow> u64 \<Rightarrow> ClientLogger \<Rightarrow> ClientLogger" where
  "GenSubLogger pid now log =
     (let reqId = defaultGenReqId pid now
      in \<lparr> cl_Logger = Logger_With [(SUB_REQ_ID, reqId)] (cl_Logger log), cl_ReqId = cl_ReqId log, cl_subId = reqId \<rparr>)"

definition GetReqId :: "ClientLogger \<Rightarrow> string" where
  "GetReqId c = (if cl_subId c \<noteq> [] then cl_subId c else cl_ReqId c)"

section \<open>Identifiers are recovered\<close>

fun b64_val :: "string \<Rightarrow> char \<Rightarrow> nat option" where
  "b64_val [] c = None"
| "b64_val (x # xs) c = (if x = c then Some 0 else map_option Suc (b64_val xs c))"

fun b64_number :: "nat \<Rightarrow> string \<Rightarrow> nat option" where
  "b64_number v [] = Some v"
| "b64_number v (c # cs) =
     (if c = CHR ''='' then b64_number (v * 64) cs
      else case b64_val encodeURL c of None \<Rightarrow> None | Some d \<Rightarrow> b64_number (v * 64 + d) cs)"

definition b64_bytes :: "nat \<Rightarrow> nat \<Rightarrow> byte list" where
  "b64_bytes n v = take n (map of_nat [v div 65536, v div 256, v])"

fun b64_pads :: "string \<Rightarrow> nat" where
  "b64_pads [] = 0"
| "b64_pads (c # cs) = (if c = CHR ''='' then 1 else 0) + b64_pads cs"

fun DecodeString :: "string \<Rightarrow> byte list option" where
  "DecodeString [] = Some []"
| "DecodeString (a # b # c # d # rest) =
     (case (b64_number 0 [a, b, c, d], DecodeString rest) of
        (Some v, Some bs) \<Rightarrow> Some (b64_bytes (3 - b64_pads [a, b, c, d]) v @ bs)
      | _ \<Rightarrow> None)"
| "DecodeString _ = None"

lemma encodeURL_char:
  assumes "i < 64"
  shows "b64_val encodeURL (encodeURL ! i) = Some i" "encodeURL ! i \<noteq> CHR ''=''" "encodeURL ! i \<in> set encodeURL"
proof -
  have "list_all (\<lambda>i. b64_val encodeURL (encodeURL ! i) = Some i \<and> encodeURL ! i \<noteq> CHR ''='' \<and>
    encodeURL ! i \<in> set encodeURL) [0..<64]" by code_simp
  then show "b64_val encodeURL (encodeURL ! i) = Some i" "encodeURL ! i \<noteq> CHR ''=''" "encodeURL ! i \<in> set encodeURL"
    using assms by (simp_all add: list_all_iff)
qed

lemma b64_digits:
  assumes "v < 16777216"
  shows "((v div 262144 mod 64 * 64 + v div 4096 mod 64) * 64 + v div 64 mod 64) * 64 + v mod 64 = (v :: nat)"
proof -
  have "v div 262144 < 64" using assms by (simp add: less_mult_imp_div_less)
  moreover have "v div 262144 = v div 4096 div 64" "v div 4096 = v div 64 div 64"
    by (simp_all add: div_mult2_eq [symmetric])
  ultimately show ?thesis by (simp only: mod_less div_mult_mod_eq)
qed

lemma byte_bound: "unat (a :: byte) < 256"
  using unsigned_less [of a] by simp

lemma b64_group:
  assumes "v < 16777216"
  shows "b64_number 0 (b64_chars 4 v) = Some v"
    "v mod 64 = 0 \<Longrightarrow> b64_number 0 (b64_chars 3 v @ ''='') = Some v"
    "v mod 4096 = 0 \<Longrightarrow> b64_number 0 (b64_chars 2 v @ ''=='') = Some v"
proof -
  have "v div 262144 < 64" using assms by (simp add: less_mult_imp_div_less)
  note d = this b64_digits [OF assms]
  show "b64_number 0 (b64_chars 4 v) = Some v"
    "v mod 64 = 0 \<Longrightarrow> b64_number 0 (b64_chars 3 v @ ''='') = Some v"
    using d by (simp_all add: b64_chars_def encodeURL_char)
  have "v div 64 mod 64 = 0" "v mod 64 = 0" if "v mod 4096 = 0"
    using that mod_mult2_eq [of v 64 64] by simp_all
  then show "v mod 4096 = 0 \<Longrightarrow> b64_number 0 (b64_chars 2 v @ ''=='') = Some v"
    using d by (simp add: b64_chars_def encodeURL_char)
qed

lemma b64_pads_chars [simp]:
  "b64_pads (b64_chars 4 v) = 0" "b64_pads (b64_chars 3 v @ ''='') = 1" "b64_pads (b64_chars 2 v @ ''=='') = 2"
  by (simp_all add: b64_chars_def encodeURL_char)

lemma b64_four:
  "\<exists>a b c d. b64_chars 4 v = [a, b, c, d]" "\<exists>a b c d. b64_chars 3 v @ ''='' = [a, b, c, d]"
  "\<exists>a b c d. b64_chars 2 v @ ''=='' = [a, b, c, d]"
  by (simp_all add: b64_chars_def)

lemma DecodeString_group:
  assumes "\<exists>a b c d. cs = [a, b, c, d]" and "b64_number 0 cs = Some v" and "DecodeString rest = Some bs"
  shows "DecodeString (cs @ rest) = Some (b64_bytes (3 - b64_pads cs) v @ bs)"
  using assms by (auto simp del: b64_number.simps b64_pads.simps)

lemma three_bytes:
  fixes a b c :: byte
  defines "v \<equiv> unat a * 65536 + unat b * 256 + unat c"
  shows "v < 16777216" "of_nat (v div 65536) = a" "of_nat (v div 256) = b" "of_nat v = c"
proof -
  note bd = byte_bound [of a] byte_bound [of b] byte_bound [of c]
  show "v < 16777216" using bd by (simp add: v_def)
  have "v div 65536 = unat a" "v div 256 = unat a * 256 + unat b" using bd by (simp_all add: v_def)
  moreover have z: "(256 :: byte) = 0" "(65536 :: byte) = 0" by simp_all
  ultimately show "of_nat (v div 65536) = a" "of_nat (v div 256) = b" "of_nat v = c"
    by (simp_all add: v_def z)
qed

text \<open>Decoding gives back what was encoded, whatever the length is.\<close>

lemma Decode_Encode: "DecodeString (EncodeToString bs) = Some bs"
proof (induction bs rule: EncodeToString.induct)
  case (1 a b c rest)
  note v = three_bytes [of a b c]
  show ?case
    using DecodeString_group [OF b64_four(1) b64_group(1) [OF v(1)] 1] v(2-4) by (simp add: b64_bytes_def)
next
  case (2 a b)
  have v: "unat a * 65536 + unat b * 256 < 16777216" "of_nat ((unat a * 65536 + unat b * 256) div 65536) = a"
      "of_nat ((unat a * 65536 + unat b * 256) div 256) = b"
    using three_bytes [of a b 0] by (simp_all only: unat_0 add_0_right)
  have "(unat a * 65536 + unat b * 256) mod 64 = 0" by simp
  from DecodeString_group [OF b64_four(2) b64_group(2) [OF v(1) this] DecodeString.simps(1)] v(2,3)
  show ?case by (simp add: b64_bytes_def)
next
  case (3 a)
  have v: "unat a * 65536 < 16777216" "of_nat (unat a * 65536 div 65536) = a"
    using three_bytes [of a 0 0] by (simp_all only: unat_0 add_0_right mult_0)
  have "(unat a * 65536) mod 4096 = 0" by simp
  from DecodeString_group [OF b64_four(3) b64_group(3) [OF v(1) this] DecodeString.simps(1)] v(2)
  show ?case by (simp add: b64_bytes_def)
qed simp

lemma bytes_inj:
  fixes v w :: "'a :: len word"
  assumes eq: "\<And>k. k < n \<Longrightarrow> (ucast (drop_bit (8 * k) v) :: byte) = ucast (drop_bit (8 * k) w)"
    and len: "LENGTH('a) \<le> 8 * n"
  shows "v = w"
proof (rule bit_word_eqI)
  fix j assume j: "j < LENGTH('a)"
  have bits: "bit (ucast (drop_bit (8 * (j div 8)) x) :: byte) (j mod 8) = bit x j" for x :: "'a word"
    by (simp add: bit_unsigned_iff bit_drop_bit_eq)
  have "j div 8 < n" using j len by (simp add: less_mult_imp_div_less)
  from eq [OF this] show "bit v j = bit w j" using bits [of v] bits [of w] by simp
qed

lemma Put_inj: "PutUint32 v = PutUint32 w \<longleftrightarrow> v = w" "PutUint64 x = PutUint64 y \<longleftrightarrow> x = y"
  using bytes_inj [of 4 v w] bytes_inj [of 8 x y] by (auto simp: PutUint32_def PutUint64_def)

lemma Put_length [simp]: "length (PutUint32 v) = 4" "length (PutUint64 x) = 8"
  by (simp_all add: PutUint32_def PutUint64_def)

lemma Encode_alphabet: "3 dvd length bs \<Longrightarrow> set (EncodeToString bs) \<subseteq> set encodeURL \<and> 3 * length (EncodeToString bs) = 4 * length bs"
proof (induction bs rule: EncodeToString.induct)
  case (1 a b c rest)
  have "3 dvd length rest" using 1(2) by (simp, presburger)
  then show ?case using 1 encodeURL_char(3) by (auto simp: b64_chars_def)
next
  case (2 a b)
  then have False by (simp, presburger)
  then show ?case ..
qed auto


text \<open>
  The level of a logger made with \<^verbatim>\<open>With\<close> is the level of the logger it was made from, now and after every
  change; asking such a logger for the level or setting it panics.
\<close>

theorem clones_share_level:
  assumes "NewLogger cfg st = (log, st1)" and "SetStrLevel log lv (st1 @ more_levels) = Ret st2"
  shows "log_enabled (Logger_With fs log) st2 l \<longleftrightarrow> strToLevel lv \<le> l"
    and "Logger_Level (Logger_With fs log) st2 = Panic" and "SetStrLevel (Logger_With fs log) lv st2 = Panic"
  using assms
  by (auto simp: NewLogger_def new_core_def Let_def SetStrLevel_def Logger_SetLevel_def Logger_With_def log_enabled_def
      Logger_Level_def split: if_splits)

end
