(* ===== verification/Cfa_NewMount.thy ===== *)
theory Cfa_NewMount
  imports Cfa_Http Cfa_Mount
begin

text \<open>
  How a mount comes to be, the first half of \<^verbatim>\<open>lib/libfs/mount.go\<close>: the user, from the configuration or
  from the account server (with the example of such a server in
  \<^verbatim>\<open>thirdparty-account-example/accountserver.go\<close> and the protocol in \<^verbatim>\<open>lib/proto/thirdparty_proto.go\<close>), the
  identifier of the client (\<^verbatim>\<open>lib/libfs/util/util.go\<close>), and \<^verbatim>\<open>NewMount\<close>, which builds the caches and the
  clients.
\<close>

section \<open>The account server\<close>

record FetchRespData =
  fd_Uid :: string
  fd_Token :: string

record FetchResponse =
  fr_Code :: int
  fr_Msg :: string
  fr_Data :: "FetchRespData option"

definition zero_FetchResponse :: FetchResponse where
  "zero_FetchResponse = \<lparr> fr_Code = 0, fr_Msg = [], fr_Data = None \<rparr>"

definition enc_FetchRequest :: json where "enc_FetchRequest = JObj []"

definition enc_FetchResponse :: "FetchResponse \<Rightarrow> json" where
  "enc_FetchResponse r =
     JObj [(''code'', JNum (fr_Code r)), (''msg'', JStr (fr_Msg r)),
           (''data'', case fr_Data r of
              None \<Rightarrow> JNull
            | Some d \<Rightarrow> JObj [(''uid'', JStr (fd_Uid d)), (''token'', JStr (fd_Token d))])]"

definition dec_FetchRespData :: "FetchRespData jdec" where
  "dec_FetchRespData =
     dec_struct (\<lambda>ms old.
       case jfield ''uid'' dec_str ms (fd_Uid old) of (uid, ok1) \<Rightarrow>
       case jfield ''token'' dec_str ms (fd_Token old) of (token, ok2) \<Rightarrow>
         (\<lparr> fd_Uid = uid, fd_Token = token \<rparr>, ok1 \<and> ok2))"

text \<open>A pointer: \<^verbatim>\<open>null\<close> makes it nil, any other value is decoded into what it points to.\<close>

definition dec_data :: "FetchRespData option jdec" where
  "dec_data j old =
     (if j = JNull then (None, True)
      else case dec_FetchRespData j (case old of None \<Rightarrow> \<lparr> fd_Uid = [], fd_Token = [] \<rparr> | Some d \<Rightarrow> d) of
             (d, ok) \<Rightarrow> (Some d, ok))"

definition dec_FetchResponse :: "FetchResponse jdec" where
  "dec_FetchResponse =
     dec_struct (\<lambda>ms old.
       case jfield ''code'' dec_int ms (fr_Code old) of (code, ok1) \<Rightarrow>
       case jfield ''msg'' dec_str ms (fr_Msg old) of (msg, ok2) \<Rightarrow>
       case jfield ''data'' dec_data ms (fr_Data old) of (d, ok3) \<Rightarrow>
         (\<lparr> fr_Code = code, fr_Msg = msg, fr_Data = d \<rparr>, ok1 \<and> ok2 \<and> ok3))"

definition FixedAccessKey :: string where "FixedAccessKey = ''testAccessKey''"

definition FixedUser :: string where "FixedUser = ''1234567''"

definition FixedToken :: string where "FixedToken = ''testToken''"

text \<open>The handler of the example server: the document it answers to a request with these headers.\<close>

definition account_handler :: "Header \<Rightarrow> json" where
  "account_handler hdr =
     (let accessKey = header_Get ReqAccessKey hdr;
          respData = \<lparr> fd_Uid = FixedUser, fd_Token = FixedToken \<rparr>
      in enc_FetchResponse
           (if accessKey \<noteq> FixedAccessKey
            then \<lparr> fr_Code = 1, fr_Msg = ''invalid access key'', fr_Data = None \<rparr>
            else \<lparr> fr_Code = 0, fr_Msg = ''success'', fr_Data = Some respData \<rparr>))"

section \<open>The user\<close>

text \<open>
  \<^verbatim>\<open>PullThirdPartyUser\<close>; \<open>uuid\<close> is the identifier the library generates. The client of the Go library
  gives a reply or an error, after the redirects that it follows, with the body for 307 and 308, since the
  library can read it again; a reply that is nil cannot be closed.
\<close>

definition PullThirdPartyUser :: "'s NetEnv \<Rightarrow> string \<Rightarrow> Config \<Rightarrow> 's \<Rightarrow> ('s \<times> (go_error + UserInfo)) go" where
  "PullThirdPartyUser env uuid cfg n =
     (case newRequest env ''POST'' (cfg_at cfg CfgThirdPartyUidPullUrl) enc_FetchRequest of
        Inl err \<Rightarrow> Ret (n, Inl err)
      | Inr req \<Rightarrow>
          let hdr = header_Set ReqAccessKey (cfg_at cfg CfgThirdPartyUidPullAccessKey)
                   (header_Set ReqClientTag (cfg_at cfg CfgClientTag)
                   (header_Set ReqidKey uuid
                   (header_Set ''Content-Type'' ''application/json'' (hq_Header req))))
          in case client_follow (\<lambda>_ rq. rq) True env 9 (req\<lparr> hq_Header := hdr \<rparr>) (req\<lparr> hq_Header := hdr \<rparr>) n of
               (n', _, Some err) \<Rightarrow> Ret (n', Inl err)
             | (n', None, None) \<Rightarrow> Panic
             | (n', Some resp, None) \<Rightarrow>
                 (case hr_Body resp of
                    Inl err \<Rightarrow> Ret (n', Inl err)
                  | Inr j \<Rightarrow>
                      (case dec_FetchResponse j zero_FetchResponse of (respBody, ok) \<Rightarrow>
                         Ret (n',
                           if \<not> ok then Inl (ErrNew ''json: cannot unmarshal'')
                           else if fr_Code respBody \<noteq> 0 then Inl (ErrNew ''account server return failed code'')
                           else case fr_Data respBody of
                                  None \<Rightarrow> Inl (ErrNew ''account server return data is nil'')
                                | Some d \<Rightarrow> Inr \<lparr> u_Uid = fd_Uid d, u_Token = fd_Token d \<rparr>))))"

definition getUserInfo :: "'s NetEnv \<Rightarrow> string \<Rightarrow> Config \<Rightarrow> 's \<Rightarrow> ('s \<times> (go_error + UserInfo)) go" where
  "getUserInfo env uuid cfg n =
     (let pullType = cfg_at cfg CfgThirdPartyUidPullType in
      if pullType = UidPullTypeByUrl then PullThirdPartyUser env uuid cfg n
      else if pullType = UidPullTypeByConf then
        (case (cfg CfgUserId, cfg CfgUserToken) of
           (Some uid, Some token) \<Rightarrow> Ret (n, Inr (BuildUserInfo uid token))
         | _ \<Rightarrow> Ret (n, Inl (ErrNew (''configured to get user info by conf, but not '' @ CfgUserId @ '' or '' @
                    CfgUserToken @ '' in conf file''))))
      else Ret (n, Inr (BuildUserInfo ''UidNotSet'' ''TokenNotSet'')))"

section \<open>The identifier of the client\<close>

text \<open>An address of a network interface: an IP network (loopback or not, version 4 or not, its text).\<close>

datatype NetAddr = IPNet bool bool string | OtherAddr

fun usable_ip :: "NetAddr \<Rightarrow> string option" where
  "usable_ip (IPNet loopback v4 ip) = (if \<not> loopback \<and> v4 then Some ip else None)"
| "usable_ip OtherAddr = None"

definition GetIp :: "go_error + NetAddr list \<Rightarrow> string go" where
  "GetIp addrs =
     (case addrs of
        Inl err \<Rightarrow> Panic
      | Inr netAddr \<Rightarrow>
          let ips = List.map_filter usable_ip netAddr in
          if length ips \<le> 0 then Panic else Ret (ips ! 0))"

definition getExportPath :: "Config \<Rightarrow> string" where
  "getExportPath cfg = (if cfg_at cfg ExportPath \<noteq> [] then cfg_at cfg ExportPath else cfg_at cfg CfgPath)"

definition genClientId :: "go_error + NetAddr list \<Rightarrow> string \<Rightarrow> string go" where
  "genClientId addrs mntPath = bindG (GetIp addrs) (\<lambda>ip. Ret (ip @ ''_'' @ mntPath))"

section \<open>NewMount\<close>

text \<open>The mount with what only its construction and its clients use.\<close>

record NewMountInfo = CfaMountInfo +
  m_Volume :: string
  m_ClientId :: string
  m_User :: UserInfo
  m_Cfg :: Config
  m_OpenFileMax :: int
  m_ioCli :: HttpClient

definition NewProxyClient :: "HttpClient \<Rightarrow> RetryCfg \<Rightarrow> ProxyClient" where
  "NewProxyClient io retryCfg =
     \<lparr> pc_Host = ht_Hosts (hc_HttpCfg io) ! 0, pc_RetryTimes = rt_RetryTimes retryCfg,
       pc_RetryGap = rt_RetryGap retryCfg, pc_RetryFactor = rt_RetryFactor retryCfg \<rparr>"

text \<open>
  \<^verbatim>\<open>setProxyCli\<close>, and the \<^verbatim>\<open>UpdateHosts\<close> that follows it: the proxy client asks for the first host at every
  request, so it is built from the client as \<^verbatim>\<open>UpdateHosts\<close> leaves it.
\<close>

definition setProxyCli ::
  "'s NetEnv \<Rightarrow> Config \<Rightarrow> UserInfo \<Rightarrow> string \<Rightarrow> host_store \<Rightarrow> (HttpClient \<times> host_store) go" where
  "setProxyCli env cfg user clientId st =
     bindG (BuildHttpCfg cfg) (\<lambda>httpCfg.
     NewHttpClient (ne_parse env) httpCfg None user clientId cfg st)"

definition new_rwCache :: "Config \<Rightarrow> RWCache option" where
  "new_rwCache cfg =
     (let rwCacheSize = GetIntValue cfg CfgRwCacheCacheSize 0 in
      if rwCacheSize > 0 then
        let ExpireTime = GetIntValue cfg CfgRwCacheExpireMs 500;
            SyncRoutine = GetIntValue cfg CfgRwCacheSyncRoutine 64;
            PrefetchRoutine = GetIntValue cfg CfgRwCachePrefetchRoutine 64;
            PrefetchTimes = GetIntValue cfg CfgRwCachePrefetchTimes 8
        in Some (NewRWCache (nat rwCacheSize) ExpireTime (nat SyncRoutine) (nat PrefetchRoutine) PrefetchTimes)
      else None)"

definition NewMount ::
  "'s NetEnv \<Rightarrow> (go_error + NetAddr list) \<Rightarrow> string \<Rightarrow> Config \<Rightarrow> 's \<Rightarrow>
   ('s \<times> (go_error + NewMountInfo \<times> host_store)) go" where
  "NewMount env addrs uuid cfg n =
     (let path = cfg_at cfg CfgPath in
      if bad_path path then Ret (n, Inl (Errno E_POSIX_EPERM))
      else
        bindG (getUserInfo env uuid cfg n) (\<lambda>(n1, ui).
        case ui of
          Inl err \<Rightarrow> Ret (n1, Inl (Errno E_POSIX_EINVAL))
        | Inr user \<Rightarrow>
            let openFileMax = GetIntValue cfg CfgOpenFileMax 100000;
                dentryCacheSize = GetIntValue cfg CfgDentryCacheSize 0;
                dentryCacheExpireMs = GetIntValue cfg CfgDentryCacheExpireMs 500
            in
            bindG (genClientId addrs (getExportPath cfg)) (\<lambda>clientId.
            if openFileMax < 0 then Panic
            else
            bindG (setProxyCli env cfg user clientId []) (\<lambda>(io1, st1).
            bindG (UpdateHosts (ne_parse env) (cfg_at cfg CfgProxyHosts) io1 st1) (\<lambda>(ioCli, st2).
            Ret (n1, Inr
              (\<lparr> m_Path = cfg_at cfg CfgPath, m_MountStu = MountStuNew, m_MountMode = 0,
                 m_LsSize = word_of_int (GetIntValue cfg CfgLsSize 2000),
                 m_fileCache = NewFileCache (nat openFileMax),
                 m_dentryCache = NewDentryCache dentryCacheSize dentryCacheExpireMs,
                 m_rwCache = new_rwCache cfg,
                 m_proxyClient = NewProxyClient ioCli (BuildRetryCfg cfg), m_stopped = False,
                 m_Volume = ''CFA'', m_ClientId = clientId, m_User = user, m_Cfg = cfg,
                 m_OpenFileMax = openFileMax, m_ioCli = ioCli \<rparr>, st2)))))))"

end
