(* ===== verification/Cfa_HProps.thy ===== *)
theory Cfa_HProps
  imports Cfa_Http Cfa_IO "HOL-Library.Multiset"
begin

text \<open>
  What the HTTP client does: the loop around a request equals a reference definition that sends the
  same request until the answer is not a redirect, at most ten times; the client keeps the contract
  that the rest of the development asks of the server; the selector hands out every host that is
  not punished once per round; every attempt sends the whole body.
\<close>

section \<open>The loop around a request\<close>

text \<open>A call of Go's client, which may follow redirects of its own.\<close>

definition send ::
  "'s NetEnv \<Rightarrow> Transport \<Rightarrow> HttpRequest \<Rightarrow> 's \<Rightarrow> 's \<times> HttpResponse option \<times> go_error option" where
  "send env t req n = client_follow (RoundTrip t) False env 9 req req n"

text \<open>The network after a number of such calls for the same request.\<close>

primrec sends :: "'s NetEnv \<Rightarrow> Transport \<Rightarrow> HttpRequest \<Rightarrow> nat \<Rightarrow> 's \<Rightarrow> 's" where
  "sends env t req 0 n = n"
| "sends env t req (Suc k) n = sends env t req k (fst (send env t req n))"

text \<open>
  The result of a request for an answer: only a reply with a code below 400 other than 308 is a
  success. A redirect whose target can be read is followed by another attempt.
\<close>

definition verdict ::
  "'s NetEnv \<Rightarrow> HttpRequest \<Rightarrow> HttpResponse option \<Rightarrow> go_error option \<Rightarrow> HttpResponse option \<times> go_error option" where
  "verdict env req resp err =
     (case err of
        Some e \<Rightarrow> (resp, Some e)
      | None \<Rightarrow>
          (case resp of
             None \<Rightarrow> (None, Some (ErrNew ''http resp is nil, please check proto''))
           | Some r \<Rightarrow>
               if hr_StatusCode r \<ge> 400 then (None, Some ErrAbnormalRespCode)
               else if hr_StatusCode r = 308 then
                 (case ne_resolve env (hq_URL req) (hr_Location r) of
                    Inl e \<Rightarrow> (None, Some e)
                  | Inr _ \<Rightarrow> (None, Some (redirect_error MAX_REDIRECT_TIMES)))
               else (Some r, None)))"

definition redirects :: "'s NetEnv \<Rightarrow> HttpRequest \<Rightarrow> HttpResponse option \<Rightarrow> go_error option \<Rightarrow> bool" where
  "redirects env req resp err \<longleftrightarrow>
     err = None \<and>
     (case resp of
        None \<Rightarrow> False
      | Some r \<Rightarrow> hr_StatusCode r = 308 \<and> (\<exists>u. ne_resolve env (hq_URL req) (hr_Location r) = Inr u))"

primrec attempts ::
  "'s NetEnv \<Rightarrow> Transport \<Rightarrow> HttpRequest \<Rightarrow> nat \<Rightarrow> 's \<Rightarrow> 's \<times> HttpResponse option \<times> go_error option" where
  "attempts env t req 0 n = (n, None, Some (redirect_error MAX_REDIRECT_TIMES))"
| "attempts env t req (Suc k) n =
     (case send env t req n of (n', resp, err) \<Rightarrow>
        if redirects env req resp err then attempts env t req k n' else (n', verdict env req resp err))"

lemma client_Do_send:
  "client_Do env req x =
     (x\<lparr> x_net := fst (send env (hc_transport (x_client x)) req (x_net x)) \<rparr>,
      snd (send env (hc_transport (x_client x)) req (x_net x)))"
  by (simp add: client_Do_def send_def split: prod.split)

lemma ShouldRetry_no_error [simp]: "\<not> ShouldRetry code None"
  by (simp add: ShouldRetry_def)

text \<open>What a state keeps: the client but for its selector.\<close>

definition same_client :: "'s HttpState \<Rightarrow> 's HttpState \<Rightarrow> bool" where
  "same_client x x' \<longleftrightarrow> (\<exists>sel. x_client x' = (x_client x)\<lparr> hc_sel := sel \<rparr>)"

lemma same_clientI [simp]:
  "same_client x (x\<lparr> x_net := n \<rparr>)" "same_client x (x\<lparr> x_net := n, x_store := st \<rparr>)"
  by (simp_all add: same_client_def, (rule exI [of _ "hc_sel (x_client x)"], simp)+)

lemma same_client_trans: "same_client x y \<Longrightarrow> same_client y z \<Longrightarrow> same_client x z"
  by (auto simp: same_client_def)

lemma do_return_Ret:
  "\<exists>x'. do_return b (Some h) resp err x = Ret ((resp, err), x') \<and> x_net x' = x_net x \<and> same_client x x'"
  by (cases b) (auto simp: do_return_def same_client_def, metis HttpClient.surjective HttpClient.update_convs(4))

lemma doCtx_loop_attempts:
  assumes "hc_ShouldRetry (x_client x) = ShouldRetry" and "int k = MAX_REDIRECT_TIMES - redirectIdx" and "0 < k"
  shows "\<exists>x'. doCtx_loop env req retryTimes MAX_REDIRECT_TIMES (Some h) sel retryIdx redirectIdx replaceHost None x =
       Some (Ret (snd (attempts env (hc_transport (x_client x)) req k (x_net x)), x')) \<and>
     x_net x' = fst (attempts env (hc_transport (x_client x)) req k (x_net x)) \<and> same_client x x'"
  using assms
proof (induction k arbitrary: x h redirectIdx replaceHost)
  case (Suc k)
  let ?t = "hc_transport (x_client x)"
  obtain n' resp err where s: "send env ?t req (x_net x) = (n', resp, err)" by (metis prod.exhaust)
  have ret: "\<exists>x'. Some (do_return replaceHost (Some h) r e (x\<lparr> x_net := n' \<rparr>)) = Some (Ret ((r, e), x')) \<and>
      x_net x' = n' \<and> same_client x x'" for r e
    using do_return_Ret [of replaceHost h r e "x\<lparr> x_net := n' \<rparr>"] same_client_trans [OF same_clientI(1)] by fastforce
  show ?case
  proof (cases "redirects env req resp err")
    case False
    then show ?thesis
      using ret Suc.prems(1)
      by (subst doCtx_loop.simps)
         (cases err; cases resp; auto simp: client_Do_send s verdict_def redirects_def Let_def split: sum.split)
  next
    case True
    then obtain r scheme hst where r: "err = None" "resp = Some r" "hr_StatusCode r = 308"
      "ne_resolve env (hq_URL req) (hr_Location r) = Inr (scheme, hst)"
      by (auto simp: redirects_def split: option.splits)
    let ?x2 = "x\<lparr> x_net := n', x_store := x_store x @ [new_host (scheme @ ''://'' @ hst)] \<rparr>"
    show ?thesis
    proof (cases k)
      case 0
      then have "redirectIdx + 1 \<ge> MAX_REDIRECT_TIMES" using Suc.prems(2) by simp
      then show ?thesis
        using do_return_Ret [of replaceHost "length (x_store x)" None "Some (redirect_error MAX_REDIRECT_TIMES)" ?x2]
          same_client_trans [OF same_clientI(2)] r True 0
        by (subst doCtx_loop.simps) (fastforce simp: client_Do_send s Let_def)
    next
      case (Suc j)
      then have "redirectIdx + 1 < MAX_REDIRECT_TIMES" using Suc.prems(2) by simp
      moreover obtain x' where
        "doCtx_loop env req retryTimes MAX_REDIRECT_TIMES (Some (length (x_store x))) sel retryIdx (redirectIdx + 1)
           True None ?x2 = Some (Ret (snd (attempts env ?t req k n'), x'))"
        "x_net x' = fst (attempts env ?t req k n')" "same_client ?x2 x'"
        using Suc.IH [of ?x2 "redirectIdx + 1" "length (x_store x)" True] Suc.prems Suc by auto
      ultimately show ?thesis
        using r True same_client_trans [OF same_clientI(2)]
        by (subst doCtx_loop.simps) (auto simp: client_Do_send s Let_def)
    qed
  qed
qed simp

lemma attempts_sends:
  assumes "attempts env t req k n = (n', resp, err)" and "0 < k"
  shows "\<exists>j < k. n' = sends env t req (Suc j) n \<and>
     (err = None \<longrightarrow>
        (\<exists>r. resp = Some r \<and> snd (send env t req (sends env t req j n)) = (Some r, None) \<and>
           hr_StatusCode r < 400 \<and> hr_StatusCode r \<noteq> 308))"
  using assms
proof (induction k arbitrary: n)
  case (Suc k)
  obtain n1 resp1 err1 where s: "send env t req n = (n1, resp1, err1)" by (metis prod.exhaust)
  show ?case
  proof (cases "redirects env req resp1 err1 \<and> 0 < k")
    case True
    then obtain j where "j < k" "n' = sends env t req (Suc j) n1"
      "err = None \<longrightarrow> (\<exists>r. resp = Some r \<and> snd (send env t req (sends env t req j n1)) = (Some r, None) \<and>
           hr_StatusCode r < 400 \<and> hr_StatusCode r \<noteq> 308)"
      using Suc.IH [of n1] Suc.prems s by auto
    then show ?thesis using s by (intro exI [of _ "Suc j"]) auto
  next
    case False
    then show ?thesis using Suc.prems s
      by (intro exI [of _ 0])
         (auto simp: verdict_def redirects_def split: if_splits option.splits sum.splits)
  qed
qed simp

lemma doCtx_attempts:
  assumes "hc_ShouldRetry (x_client x) = ShouldRetry" and "sel_defaultHost (hc_sel (x_client x)) = Some h"
  shows "\<exists>x'. doCtxWithHostRet env req x =
       Some (Ret (snd (attempts env (hc_transport (x_client x)) req 10 (x_net x)), x')) \<and>
     x_net x' = fst (attempts env (hc_transport (x_client x)) req 10 (x_net x)) \<and> same_client x x'"
  using doCtx_loop_attempts [where k = 10 and redirectIdx = 0 and x = x, OF assms(1)] assms(2)
  by (simp add: doCtxWithHostRet_def sel_Get_def getRedirectTimes_def MAX_REDIRECT_TIMES_def)


section \<open>The client as the exchange of the proxy client\<close>

text \<open>
  The exchange that the proxy client is given: a state of the network with the hosts and the
  selector. The last case does not occur (\<open>http_post_total\<close>).
\<close>

type_synonym 's web = "'s \<times> host_store \<times> selector"

definition http_post :: "'s NetEnv \<Rightarrow> string \<Rightarrow> HttpClient \<Rightarrow> 's web poster" where
  "http_post env reqId c w url params =
     (case w of (n, st, sel) \<Rightarrow>
      case newRequest env ''POST'' url params of
        Inl err \<Rightarrow> (w, Inl err)
      | Inr req \<Rightarrow>
          (case doCtxWithHostRet env (req\<lparr> hq_Header := header_Set ReqidKey reqId (hq_Header req) \<rparr>)
                  \<lparr> x_net = n, x_store = st, x_client = c\<lparr> hc_sel := sel \<rparr> \<rparr> of
             Some (Ret ((_, Some e), x)) \<Rightarrow> ((x_net x, x_store x, hc_sel (x_client x)), Inl e)
           | Some (Ret ((Some r, None), x)) \<Rightarrow> ((x_net x, x_store x, hc_sel (x_client x)), hr_Body r)
           | _ \<Rightarrow> (w, Inl ErrRetryNeeded)))"

definition post_request :: "string \<Rightarrow> string \<Rightarrow> json \<Rightarrow> HttpRequest" where
  "post_request reqId url params =
     \<lparr> hq_Method = ''POST'', hq_URL = url, hq_Header = header_Set ReqidKey reqId Map.empty, hq_Body = Some params \<rparr>"

definition reply_of :: "HttpResponse option \<Rightarrow> go_error option \<Rightarrow> go_error + json" where
  "reply_of resp err =
     (case err of Some e \<Rightarrow> Inl e | None \<Rightarrow> (case resp of Some r \<Rightarrow> hr_Body r | None \<Rightarrow> Inl ErrRetryNeeded))"

definition web_of :: "'s HttpState \<Rightarrow> 's web" where
  "web_of x = (x_net x, x_store x, hc_sel (x_client x))"

lemma http_post_run:
  assumes "doCtxWithHostRet env (post_request reqId url params) \<lparr> x_net = n, x_store = st, x_client = c\<lparr> hc_sel := sel \<rparr> \<rparr> =
      Some (Ret ((resp, err), x'))"
    and "ne_parse env url = None" and "err = None \<Longrightarrow> resp \<noteq> None"
  shows "http_post env reqId c (n, st, sel) url params = (web_of x', reply_of resp err)"
  using assms
  by (cases err; cases resp)
     (auto simp: http_post_def newRequest_def post_request_def reply_of_def web_of_def)

lemma http_post_attempts:
  assumes "hc_ShouldRetry c = ShouldRetry"
  shows "(\<exists>w' e. http_post env reqId c (n, st, sel) url params = (w', Inl e) \<and> fst w' = n) \<or>
    (\<exists>w' n' resp err. http_post env reqId c (n, st, sel) url params = (w', reply_of resp err) \<and> fst w' = n' \<and>
       attempts env (hc_transport c) (post_request reqId url params) 10 n = (n', resp, err))"
proof (cases "ne_parse env url = None \<and> sel_defaultHost sel \<noteq> None")
  case False
  then show ?thesis
    by (cases "ne_parse env url")
       (auto simp: http_post_def newRequest_def doCtxWithHostRet_def sel_Get_def split: option.splits)
next
  case True
  let ?x = "\<lparr> x_net = n, x_store = st, x_client = c\<lparr> hc_sel := sel \<rparr> \<rparr>"
  let ?rq = "post_request reqId url params"
  obtain h where h: "sel_defaultHost sel = Some h" using True by auto
  obtain n' resp err where a: "attempts env (hc_transport c) ?rq 10 n = (n', resp, err)" by (metis prod.exhaust)
  obtain x' where x': "doCtxWithHostRet env ?rq ?x = Some (Ret ((resp, err), x'))" "x_net x' = n'"
    using doCtx_attempts [of ?x h env ?rq] assms h a by auto
  have "resp \<noteq> None" if "err = None" using attempts_sends [OF a] that by auto
  then have "http_post env reqId c (n, st, sel) url params = (web_of x', reply_of resp err)"
    using http_post_run [OF x'(1)] True by simp
  then show ?thesis using a x'(2) by (auto simp: web_of_def)
qed


text \<open>The method of the client is the call the proxy client is modelled with.\<close>

lemma Http_DoPost_refines:
  assumes "hc_ShouldRetry (x_client x) = ShouldRetry"
  shows "\<exists>x'. Http_DoPostWithJson env reqId dec x url params result =
       Some (Ret (x', snd (DoPostWithJson (http_post env reqId (x_client x)) dec (web_of x) url params result))) \<and>
     web_of x' = fst (DoPostWithJson (http_post env reqId (x_client x)) dec (web_of x) url params result) \<and>
     same_client x x'"
proof (cases "ne_parse env url = None")
  case False
  then show ?thesis
    by (auto simp: Http_DoPostWithJson_def DoPostWithJson_def http_post_def newRequest_def web_of_def
        same_client_def intro: exI [of _ x])
       (metis HttpClient.surjective HttpClient.update_convs(4))
next
  case True
  let ?rq = "post_request reqId url params"
  have x: "\<lparr> x_net = x_net x, x_store = x_store x, x_client = (x_client x)\<lparr> hc_sel := hc_sel (x_client x) \<rparr> \<rparr> = x"
    by simp
  show ?thesis
  proof (cases "sel_defaultHost (hc_sel (x_client x))")
    case None
    have "same_client x x" by (simp add: same_client_def) (rule exI [of _ "hc_sel (x_client x)"], simp)
    with None True show ?thesis
      by (auto simp: Http_DoPostWithJson_def DoPostWithJson_def http_post_def newRequest_def web_of_def
        doCtxWithHostRet_def sel_Get_def)
  next
    case (Some h)
    obtain n' resp err where a: "attempts env (hc_transport (x_client x)) ?rq 10 (x_net x) = (n', resp, err)"
      by (metis prod.exhaust)
    obtain x' where x': "doCtxWithHostRet env ?rq x = Some (Ret ((resp, err), x'))" "same_client x x'"
      using doCtx_attempts [OF assms Some, of env ?rq] a by auto
    have ne: "resp \<noteq> None" if "err = None" using attempts_sends [OF a] that by auto
    have "doCtxWithHostRet env ?rq \<lparr> x_net = x_net x, x_store = x_store x,
        x_client = (x_client x)\<lparr> hc_sel := hc_sel (x_client x) \<rparr> \<rparr> = Some (Ret ((resp, err), x'))"
      unfolding x by (rule x'(1))
    from http_post_run [OF this True ne]
    have post: "http_post env reqId (x_client x) (web_of x) url params = (web_of x', reply_of resp err)"
      by (simp add: web_of_def)
    have "newRequest env ''POST'' url params = Inr \<lparr> hq_Method = ''POST'', hq_URL = url, hq_Header = Map.empty, hq_Body = Some params \<rparr>"
      using True by (simp add: newRequest_def)
    with x' ne post show ?thesis
      by (cases err; cases resp)
         (auto simp: Http_DoPostWithJson_def DoPostWithJson_def reply_of_def post_request_def
          split: sum.splits prod.splits)
  qed
qed

text \<open>
  The contract of the network: for all headers a single request to read or to write, with the redirects
  that Go's client follows, is one of a server that keeps its files (\<^const>\<open>write_ok\<close>, \<^const>\<open>read_ok\<close>); only an
  answer that is neither an error nor a redirect has to carry a result.
\<close>

definition plain_post :: "'s NetEnv \<Rightarrow> Transport \<Rightarrow> string \<Rightarrow> 's poster" where
  "plain_post env t reqId n url params =
     (case send env t (post_request reqId url params) n of
        (n', Some r, None) \<Rightarrow>
          (n', if hr_StatusCode r < 400 \<and> hr_StatusCode r \<noteq> 308 then hr_Body r else Inl ErrAbnormalRespCode)
      | (n', _, _) \<Rightarrow> (n', Inl ErrAbnormalRespCode))"

definition network_ok :: "'s NetEnv \<Rightarrow> string \<Rightarrow> ('s \<Rightarrow> u64 \<Rightarrow> byte list) \<Rightarrow> bool" where
  "network_ok env host content \<longleftrightarrow>
     (\<forall>t reqId. write_ok (plain_post env t reqId) host content \<and> read_ok (plain_post env t reqId) host content)"

text \<open>One call for a request as \<^const>\<open>plain_post\<close> sees it.\<close>

lemma send_plain:
  "\<exists>res. plain_post env t reqId n url params = (fst (send env t (post_request reqId url params) n), res) \<and>
     (\<forall>r. snd (send env t (post_request reqId url params) n) = (Some r, None) \<longrightarrow>
        hr_StatusCode r < 400 \<longrightarrow> hr_StatusCode r \<noteq> 308 \<longrightarrow> res = hr_Body r)"
  by (auto simp: plain_post_def split: prod.splits option.splits)

lemma sends_Suc: "sends env t req (Suc j) n = fst (send env t req (sends env t req j n))"
  by (induction j arbitrary: n) auto

lemma sends_invariant:
  assumes "P n" and "\<And>m. P m \<Longrightarrow> P (fst (send env t req m))"
  shows "P (sends env t req j n)"
  using assms(1) by (induction j arbitrary: n) (auto intro: assms(2))

lemma send_write:
  fixes content :: "'s \<Rightarrow> u64 \<Rightarrow> byte list" and t :: Transport and reqId :: string
  assumes "network_ok env host content"
  defines "sent \<equiv> \<lambda>r n. send env t (post_request reqId (host @ UrlWrite) (enc_WriteRequest r)) n"
  shows "only_touched content (writerq_Id r) (unat (writerq_Offset r)) (length (writerq_Data r)) n (fst (sent r n))"
    and "snd (sent r n) = (Some a, None) \<Longrightarrow> hr_StatusCode a < 400 \<Longrightarrow> hr_StatusCode a \<noteq> 308 \<Longrightarrow> hr_Body a = Inr j \<Longrightarrow>
      reply_code j \<noteq> None \<and> (reply_code j = Some 0 \<longrightarrow> content (fst (sent r n)) (writerq_Id r) =
         fwrite (content n (writerq_Id r)) (unat (writerq_Offset r)) (writerq_Data r))"
proof -
  obtain res where p: "plain_post env t reqId n (host @ UrlWrite) (enc_WriteRequest r) = (fst (sent r n), res)"
    and b: "\<And>a. snd (sent r n) = (Some a, None) \<Longrightarrow> hr_StatusCode a < 400 \<Longrightarrow> hr_StatusCode a \<noteq> 308 \<Longrightarrow> res = hr_Body a"
    using send_plain [of env t reqId n "host @ UrlWrite" "enc_WriteRequest r"] by (auto simp: sent_def)
  have "write_ok (plain_post env t reqId) host content" using assms(1) by (simp add: network_ok_def)
  note w = this [unfolded write_ok_def, rule_format, OF p]
  show "only_touched content (writerq_Id r) (unat (writerq_Offset r)) (length (writerq_Data r)) n (fst (sent r n))"
    using w by (simp add: only_touched_def)
  show "reply_code j \<noteq> None \<and> (reply_code j = Some 0 \<longrightarrow> content (fst (sent r n)) (writerq_Id r) =
      fwrite (content n (writerq_Id r)) (unat (writerq_Offset r)) (writerq_Data r))"
    if "snd (sent r n) = (Some a, None)" "hr_StatusCode a < 400" "hr_StatusCode a \<noteq> 308" "hr_Body a = Inr j"
    using w b [OF that(1-3)] that(4) by auto
qed

lemma send_read:
  fixes content :: "'s \<Rightarrow> u64 \<Rightarrow> byte list" and t :: Transport and reqId :: string
  assumes "network_ok env host content"
  defines "sent \<equiv> \<lambda>r n. send env t (post_request reqId (host @ UrlRead) (enc_ReadRequest r)) n"
  shows "content (fst (sent r n)) = content n"
    and "snd (sent r n) = (Some a, None) \<Longrightarrow> hr_StatusCode a < 400 \<Longrightarrow> hr_StatusCode a \<noteq> 308 \<Longrightarrow> hr_Body a = Inr j \<Longrightarrow>
      reply_code j \<noteq> None \<and> (reply_code j = Some 0 \<longrightarrow> reply_data j =
         Some (take (unat (readrq_Length r)) (drop (unat (readrq_Offset r)) (content n (readrq_Id r)))))"
proof -
  obtain res where p: "plain_post env t reqId n (host @ UrlRead) (enc_ReadRequest r) = (fst (sent r n), res)"
    and b: "\<And>a. snd (sent r n) = (Some a, None) \<Longrightarrow> hr_StatusCode a < 400 \<Longrightarrow> hr_StatusCode a \<noteq> 308 \<Longrightarrow> res = hr_Body a"
    using send_plain [of env t reqId n "host @ UrlRead" "enc_ReadRequest r"] by (auto simp: sent_def)
  have "read_ok (plain_post env t reqId) host content" using assms(1) by (simp add: network_ok_def)
  note w = this [unfolded read_ok_def, rule_format, OF p]
  show "content (fst (sent r n)) = content n" using w by simp
  show "reply_code j \<noteq> None \<and> (reply_code j = Some 0 \<longrightarrow> reply_data j =
      Some (take (unat (readrq_Length r)) (drop (unat (readrq_Offset r)) (content n (readrq_Id r)))))"
    if "snd (sent r n) = (Some a, None)" "hr_StatusCode a < 400" "hr_StatusCode a \<noteq> 308" "hr_Body a = Inr j"
    using w b [OF that(1-3)] that(4) by auto
qed


lemma network_write_ok:
  assumes ok: "network_ok env host content" and c: "hc_ShouldRetry c = ShouldRetry"
  shows "write_ok (http_post env reqId c) host (content \<circ> fst)"
  unfolding write_ok_def
proof (intro allI impI)
  fix s r s' res
  assume p: "http_post env reqId c s (host @ UrlWrite) (enc_WriteRequest r) = (s', res)"
  let ?rq = "post_request reqId (host @ UrlWrite) (enc_WriteRequest r)"
  let ?P = "only_touched content (writerq_Id r) (unat (writerq_Offset r)) (length (writerq_Data r)) (fst s)"
  note sw = send_write [OF ok]
  have keep: "?P m \<Longrightarrow> ?P (fst (send env (hc_transport c) ?rq m))" for m
    by (rule only_touched_trans [OF _ sw(1)])
  obtain n st sel where s: "s = (n, st, sel)" by (metis prod.exhaust)
  consider (fail) e where "res = Inl e" "fst s' = n"
    | (run) n' resp err where "res = reply_of resp err" "fst s' = n'"
      "attempts env (hc_transport c) ?rq 10 n = (n', resp, err)"
    using http_post_attempts [OF c, of env reqId n st sel "host @ UrlWrite" "enc_WriteRequest r"] p s by auto
  then show "(\<forall>f. f \<noteq> writerq_Id r \<longrightarrow> (content \<circ> fst) s' f = (content \<circ> fst) s f) \<and>
      touched (unat (writerq_Offset r)) (length (writerq_Data r))
        ((content \<circ> fst) s (writerq_Id r)) ((content \<circ> fst) s' (writerq_Id r)) \<and>
      (\<forall>j. res = Inr j \<longrightarrow> reply_code j \<noteq> None \<and> (reply_code j = Some 0 \<longrightarrow>
        (content \<circ> fst) s' (writerq_Id r) =
          fwrite ((content \<circ> fst) s (writerq_Id r)) (unat (writerq_Offset r)) (writerq_Data r)))"
  proof cases
    case fail
    then show ?thesis by (simp add: s)
  next
    case run
    obtain k where n': "n' = fst (send env (hc_transport c) ?rq (sends env (hc_transport c) ?rq k n))"
      and ans: "err = None \<longrightarrow> (\<exists>a. resp = Some a \<and>
         snd (send env (hc_transport c) ?rq (sends env (hc_transport c) ?rq k n)) = (Some a, None) \<and>
         hr_StatusCode a < 400 \<and> hr_StatusCode a \<noteq> 308)"
      using attempts_sends [OF run(3)] sends_Suc by fastforce
    let ?m = "sends env (hc_transport c) ?rq k n"
    have m: "?P ?m" by (rule sends_invariant [where P = ?P, OF _ keep]) (simp add: s)
    have "?P n'" unfolding n' by (rule keep [OF m])
    moreover have "reply_code j \<noteq> None \<and> (reply_code j = Some 0 \<longrightarrow> content n' (writerq_Id r) =
          fwrite (content n (writerq_Id r)) (unat (writerq_Offset r)) (writerq_Data r))" if j: "res = Inr j" for j
    proof -
      obtain a where a: "snd (send env (hc_transport c) ?rq ?m) = (Some a, None)"
          "hr_StatusCode a < 400" "hr_StatusCode a \<noteq> 308" "hr_Body a = Inr j"
        using j run(1) ans by (auto simp: reply_of_def split: option.splits)
      have "fwrite (content ?m (writerq_Id r)) (unat (writerq_Offset r)) (writerq_Data r) =
          fwrite (content n (writerq_Id r)) (unat (writerq_Offset r)) (writerq_Data r)"
        using m s by (intro fwrite_touched) (simp add: only_touched_def)
      with sw(2) [OF a] n' show ?thesis by simp
    qed
    ultimately show ?thesis using run(2) s by (simp add: only_touched_def)
  qed
qed

lemma network_read_ok:
  assumes ok: "network_ok env host content" and c: "hc_ShouldRetry c = ShouldRetry"
  shows "read_ok (http_post env reqId c) host (content \<circ> fst)"
  unfolding read_ok_def
proof (intro allI impI)
  fix s r s' res
  assume p: "http_post env reqId c s (host @ UrlRead) (enc_ReadRequest r) = (s', res)"
  let ?rq = "post_request reqId (host @ UrlRead) (enc_ReadRequest r)"
  note sr = send_read [OF ok]
  obtain n st sel where s: "s = (n, st, sel)" by (metis prod.exhaust)
  consider (fail) e where "res = Inl e" "fst s' = n"
    | (run) n' resp err where "res = reply_of resp err" "fst s' = n'"
      "attempts env (hc_transport c) ?rq 10 n = (n', resp, err)"
    using http_post_attempts [OF c, of env reqId n st sel "host @ UrlRead" "enc_ReadRequest r"] p s by auto
  then show "(content \<circ> fst) s' = (content \<circ> fst) s \<and>
      (\<forall>j. res = Inr j \<longrightarrow> reply_code j \<noteq> None \<and> (reply_code j = Some 0 \<longrightarrow> reply_data j =
        Some (take (unat (readrq_Length r)) (drop (unat (readrq_Offset r)) ((content \<circ> fst) s (readrq_Id r))))))"
  proof cases
    case fail
    then show ?thesis by (simp add: s)
  next
    case run
    obtain k where n': "n' = fst (send env (hc_transport c) ?rq (sends env (hc_transport c) ?rq k n))"
      and ans: "err = None \<longrightarrow> (\<exists>a. resp = Some a \<and>
         snd (send env (hc_transport c) ?rq (sends env (hc_transport c) ?rq k n)) = (Some a, None) \<and>
         hr_StatusCode a < 400 \<and> hr_StatusCode a \<noteq> 308)"
      using attempts_sends [OF run(3)] sends_Suc by fastforce
    have m: "content (sends env (hc_transport c) ?rq k n) = content n"
      by (rule sends_invariant [where P = "\<lambda>m. content m = content n"]) (auto simp: sr(1))
    have "reply_code j \<noteq> None \<and> (reply_code j = Some 0 \<longrightarrow> reply_data j =
        Some (take (unat (readrq_Length r)) (drop (unat (readrq_Offset r)) (content n (readrq_Id r)))))"
      if j: "res = Inr j" for j
    proof -
      obtain a where a: "snd (send env (hc_transport c) ?rq (sends env (hc_transport c) ?rq k n)) = (Some a, None)"
          "hr_StatusCode a < 400" "hr_StatusCode a \<noteq> 308" "hr_Body a = Inr j"
        using j run(1) ans by (auto simp: reply_of_def split: option.splits)
      show ?thesis using sr(2) [OF a] m by simp
    qed
    moreover have "content n' = content n" using sr(1) m n' by simp
    ultimately show ?thesis using run(2) s by simp
  qed
qed

lemma http_client_keeps_contract_parts:
  assumes "network_ok env (pc_Host pc) content" and "0 \<le> pc_RetryTimes pc"
    and "hc_ShouldRetry (x_client x) = ShouldRetry"
  shows "server_ok (http_post env reqId (x_client x)) pc (content \<circ> fst)"
    and "\<exists>x' result' err. Http_DoPostWithJson env reqId dec x url params result = Some (Ret (x', result', err)) \<and>
       DoPostWithJson (http_post env reqId (x_client x)) dec (web_of x) url params result = (web_of x', result', err)"
proof -
  show "server_ok (http_post env reqId (x_client x)) pc (content \<circ> fst)"
    using network_write_ok [OF assms(1,3)] network_read_ok [OF assms(1,3)] assms(2)
    by (simp add: server_ok_def)
  obtain w result' err where d:
    "DoPostWithJson (http_post env reqId (x_client x)) dec (web_of x) url params result = (w, result', err)"
    by (metis prod.exhaust)
  show "\<exists>x' result' err. Http_DoPostWithJson env reqId dec x url params result = Some (Ret (x', result', err)) \<and>
       DoPostWithJson (http_post env reqId (x_client x)) dec (web_of x) url params result = (web_of x', result', err)"
    using Http_DoPost_refines [OF assms(3), of env reqId dec url params result] unfolding d by auto
qed



section \<open>A network in memory\<close>

text \<open>
  A network that answers a number of requests with redirects and then serves files from memory; for
  the witnesses.
\<close>

definition demo_env :: "(nat \<times> (u64 \<Rightarrow> byte list)) NetEnv" where
  "demo_env =
     \<lparr> ne_exchange = (\<lambda>(k, f) req.
         if k > 0 then ((k - 1, f), Some \<lparr> hr_StatusCode = 308, hr_Location = ''/'', hr_Body = Inl ErrRetryNeeded \<rparr>, None)
         else case mem_server f (hq_URL req) (case hq_Body req of None \<Rightarrow> JNull | Some j \<Rightarrow> j) of
                (f', Inl e) \<Rightarrow> ((0, f'), Some \<lparr> hr_StatusCode = 500, hr_Location = [], hr_Body = Inl e \<rparr>, None)
              | (f', Inr j) \<Rightarrow> ((0, f'), Some \<lparr> hr_StatusCode = 200, hr_Location = [], hr_Body = Inr j \<rparr>, None)),
       ne_now = (\<lambda>_. 1000000000), ne_intn = (\<lambda>_ _. 0), ne_parse = (\<lambda>_. None),
       ne_resolve = (\<lambda>u r. Inr (''http'', u)), ne_target = (\<lambda>u r. Some (Inr (r, u))) \<rparr>"

definition demo_client :: HttpClient where
  "demo_client =
     \<lparr> hc_HttpCfg = \<lparr> ht_Hosts = [''http://h''], ht_TryTimes = 0, ht_ClientTimeoutMS = 0, ht_MaxFailsPeriodS = 0 \<rparr>,
       hc_ShouldRetry = ShouldRetry,
       hc_transport = \<lparr> tr_user = BuildUserInfo ''u'' ''t'', tr_cfg = Map.empty, tr_clientID = ''c'' \<rparr>,
       hc_sel = \<lparr> sel_tryTimes = 0, sel_failRetryInterval = 1, sel_hosts = [0], sel_idx = 0, sel_defaultHost = Some 0 \<rparr>,
       hc_ClientId = ''c'' \<rparr>"

definition demo_http :: "nat \<Rightarrow> (nat \<times> (u64 \<Rightarrow> byte list)) HttpState" where
  "demo_http k = \<lparr> x_net = (k, \<lambda>_. []), x_store = [new_host ''http://h''], x_client = demo_client \<rparr>"

lemma plain_post_demo:
  "plain_post demo_env t reqId (k, f) url j =
     (if k > 0 then ((k - 1, f), Inl ErrAbnormalRespCode)
      else ((0, fst (mem_server f url j)),
        case snd (mem_server f url j) of Inl _ \<Rightarrow> Inl ErrAbnormalRespCode | Inr d \<Rightarrow> Inr d))"
proof -
  let ?rq = "post_request reqId url j"
  obtain n resp err where x: "ne_exchange demo_env (k, f) (RoundTrip t (ne_now demo_env (k, f)) ?rq) = (n, resp, err)" by (metis prod_cases3)
  have "redirect_target False demo_env ?rq resp err = None"
    using x by (auto simp: demo_env_def redirect_target_def split: if_splits prod.splits sum.splits)
  from client_follow_final [where trip = "RoundTrip t" and req = ?rq, OF x this] show ?thesis
    using x by (auto simp: plain_post_def send_def demo_env_def RoundTrip_def post_request_def split: prod.splits sum.splits if_splits)
qed

lemma demo_network_ok: "network_ok demo_env [] snd"
proof -
  have "write_ok (plain_post demo_env t reqId) [] snd" for t reqId
    by (auto simp: write_ok_def plain_post_demo mem_server_def dec_enc_WriteRequest touched_fwrite
        reply_code_def json_simps split: if_splits)
  moreover have "read_ok (plain_post demo_env t reqId) [] snd" for t reqId
    by (auto simp: read_ok_def plain_post_demo mem_server_def dec_enc_ReadRequest reply_code_def
        reply_data_def json_simps UrlRead_def UrlWrite_def split: if_splits)
  ultimately show ?thesis by (simp add: network_ok_def)
qed

lemma demo_http_simps [simp]:
  "hc_ShouldRetry (x_client (demo_http k)) = ShouldRetry"
  "sel_defaultHost (hc_sel (x_client (demo_http k))) = Some 0"
  by (simp_all add: demo_http_def demo_client_def)

lemma attempts_demo:
  "attempts demo_env t req (Suc i) (Suc k, f) = attempts demo_env t req i (k, f)"
  "hq_Body req = Some j \<Longrightarrow> mem_server f (hq_URL req) j = (f', Inr d) \<Longrightarrow>
   attempts demo_env t req (Suc i) (0, f) =
     ((0, f'), Some \<lparr> hr_StatusCode = 200, hr_Location = [], hr_Body = Inr d \<rparr>, None)"
proof -
  have "send demo_env t req (Suc k, f) = ((k, f), Some \<lparr> hr_StatusCode = 308, hr_Location = ''/'', hr_Body = Inl ErrRetryNeeded \<rparr>, None)"
    unfolding send_def by (rule client_follow_final) (simp_all add: demo_env_def redirect_target_def)
  then show "attempts demo_env t req (Suc i) (Suc k, f) = attempts demo_env t req i (k, f)"
    by (simp add: redirects_def demo_env_def)
  assume "hq_Body req = Some j" "mem_server f (hq_URL req) j = (f', Inr d)"
  then have "send demo_env t req (0, f) = ((0, f'), Some \<lparr> hr_StatusCode = 200, hr_Location = [], hr_Body = Inr d \<rparr>, None)"
    unfolding send_def by (intro client_follow_final) (simp_all add: demo_env_def redirect_target_def RoundTrip_def)
  then show "attempts demo_env t req (Suc i) (0, f) = ((0, f'), Some \<lparr> hr_StatusCode = 200, hr_Location = [], hr_Body = Inr d \<rparr>, None)"
    by (simp add: redirects_def verdict_def)
qed




section \<open>The choice of hosts\<close>

text \<open>Successive calls of \<^verbatim>\<open>Get\<close> of one retry selector at one time, each with its random numbers.\<close>

fun retry_gets ::
  "int \<Rightarrow> (nat \<Rightarrow> nat) list \<Rightarrow> host_store \<Rightarrow> retrySelector \<Rightarrow> (hostp option list \<times> retrySelector) go" where
  "retry_gets now [] st s = Ret ([], s)"
| "retry_gets now (intn # rest) st s =
     bindG (retry_Get now intn st s) (\<lambda>(h, s1).
     bindG (retry_gets now rest st s1) (\<lambda>(hs, s2). Ret (h # hs, s2)))"

definition intn_ok :: "(nat \<Rightarrow> nat) \<Rightarrow> bool" where
  "intn_ok intn \<longleftrightarrow> (\<forall>n > 0. intn n < n)"

lemma randomShrink_ok:
  assumes "ss \<noteq> []" and "intn_ok intn"
  shows "\<exists>rest h. randomShrink intn ss = Ret (rest, h) \<and> mset ss = add_mset h (mset rest)"
proof (cases "length ss = 1")
  case True
  then obtain h where "ss = [h]" by (auto simp: length_Suc_conv)
  then show ?thesis by (simp add: randomShrink_def)
next
  case False
  define i where "i = intn (length ss)"
  have i: "i < length ss" using assms by (simp add: i_def intn_ok_def)
  obtain x xs where ss: "ss = x # xs" using assms(1) by (cases ss) auto
  have "mset ss = add_mset (ss ! i) (mset (tl (ss[i := ss ! 0])))"
  proof (cases i)
    case (Suc j)
    then have "xs ! j \<in># mset xs" "j < length xs" using i ss by auto
    then show ?thesis using Suc by (simp add: ss mset_update)
  qed (simp add: ss)
  then show ?thesis using False assms(1) i by (simp add: randomShrink_def Let_def flip: i_def)
qed

lemma retry_gets_rest:
  assumes "\<forall>f \<in> set cs. intn_ok f" and "length cs = length (rs_retryHosts s)"
  shows "\<exists>hs s'. retry_gets now cs st s = Ret (map Some hs, s') \<and>
     mset hs = mset (rs_retryHosts s) \<and> rs_retryHosts s' = [] \<and> rs_hosts s' = rs_hosts s"
  using assms
proof (induction cs arbitrary: s)
  case (Cons f cs)
  have ne: "rs_retryHosts s \<noteq> []" using Cons.prems(2) by auto
  obtain rest h where r: "randomShrink f (rs_retryHosts s) = Ret (rest, h)"
    "mset (rs_retryHosts s) = add_mset h (mset rest)"
    using randomShrink_ok [OF ne, of f] Cons.prems(1) by auto
  then have "length cs = length rest" using Cons.prems(2) by (metis length_Cons mset.simps(2) nat.inject size_mset)
  then obtain hs s' where "retry_gets now cs st (s\<lparr> rs_retryHosts := rest \<rparr>) = Ret (map Some hs, s')"
    "mset hs = mset rest" "rs_retryHosts s' = []" "rs_hosts s' = rs_hosts s"
    using Cons.IH [of "s\<lparr> rs_retryHosts := rest \<rparr>"] Cons.prems(1) by auto
  then show ?case using r ne by (intro exI [of _ "h # hs"] exI [of _ s']) (simp add: retry_Get_def)
qed simp

lemma retry_gets_fresh:
  assumes "\<forall>f \<in> set cs. intn_ok f" and "rs_retryHosts s = []" and "rs_hosts s \<noteq> []"
    and "free = filter (\<lambda>h. \<not> IsPunished now (rs_failRetryInterval s) st h) (rs_hosts s)"
    and "length cs = length free" and "free \<noteq> []"
  shows "\<exists>hs s'. retry_gets now cs st s = Ret (map Some hs, s') \<and> mset hs = mset free \<and> rs_retryHosts s' = []"
proof -
  obtain f cs' where cs: "cs = f # cs'" using assms(5,6) by (cases cs) auto
  have "retry_Get now f st s = retry_Get now f st (s\<lparr> rs_retryHosts := free \<rparr>)"
    using assms by (simp add: retry_Get_def)
  then have "retry_gets now cs st s = retry_gets now cs st (s\<lparr> rs_retryHosts := free \<rparr>)" by (simp add: cs)
  then show ?thesis using retry_gets_rest [OF assms(1), of "s\<lparr> rs_retryHosts := free \<rparr>" now st] assms(5) by auto
qed

lemma SetHosts_loop_ok:
  assumes "SetHosts_loop parse hosts hs st = Ret (hs', st')"
  shows "hs' = hs @ [length st..<length st + length hosts] \<and> st' = st @ map (new_host \<circ> with_scheme) hosts"
  using assms
proof (induction hosts arbitrary: hs st)
  case (Cons h hosts)
  then have "hs' = (hs @ [length st]) @ [length (st @ [new_host (with_scheme h)])..<length (st @ [new_host (with_scheme h)]) + length hosts] \<and>
      st' = (st @ [new_host (with_scheme h)]) @ map (new_host \<circ> with_scheme) hosts"
    by (intro Cons.IH) (auto split: if_splits)
  then show ?case using upt_conv_Cons [of "length st" "length st + Suc (length hosts)"] by (simp del: upt_Suc)
qed simp

lemma newSelector_ok:
  assumes "newSelector parse hosts tt iv st = Ret (sel, st')"
  shows "hosts \<noteq> [] \<and> sel_hosts sel = [length st..<length st + length hosts] \<and>
    st' = st @ map (new_host \<circ> with_scheme) hosts \<and> sel_defaultHost sel = Some (length st)"
proof -
  obtain hs st1 where l: "SetHosts_loop parse hosts [] st = Ret (hs, st1)" and ne: "hosts \<noteq> []"
    using assms
    by (cases "SetHosts_loop parse hosts [] st") (auto simp: newSelector_def SetHosts_def Let_def split: if_splits)
  obtain t where hs: "hs = length st # t" "hs = [length st..<length st + length hosts]"
    using SetHosts_loop_ok [OF l] ne by (cases hs) (auto simp: upt_eq_Cons_conv)
  from assms l ne have "sel_hosts sel = hs" "sel_defaultHost sel = Some (length st)" "st' = st1"
    by (auto simp: newSelector_def SetHosts_def Let_def hs(1))
  then show ?thesis using ne hs(2) SetHosts_loop_ok [OF l] by simp
qed

lemma hosts_tried_once_per_round_parts:
  assumes "\<forall>f \<in> set cs. intn_ok f"
  shows "newSelector parse hosts tt iv st = Ret (sel, st') \<Longrightarrow> length cs = length hosts \<Longrightarrow>
      h_raw (st' ! the (fst (sel_Get sel))) = with_scheme (hd hosts) \<and>
      (\<exists>hs s'. retry_gets now cs st' (snd (sel_Get sel)) = Ret (map Some hs, s') \<and>
         mset (map (\<lambda>h. h_raw (st' ! h)) hs) = mset (map with_scheme hosts))"
    and "rs_retryHosts s = [] \<Longrightarrow> rs_hosts s \<noteq> [] \<Longrightarrow>
      length cs = length (filter (\<lambda>h. \<not> IsPunished now (rs_failRetryInterval s) st h) (rs_hosts s)) \<Longrightarrow>
      \<exists>hs s'. retry_gets now cs st s = Ret (map Some hs, s') \<and> rs_retryHosts s' = [] \<and>
         mset hs = mset (filter (\<lambda>h. \<not> IsPunished now (rs_failRetryInterval s) st h) (rs_hosts s))"
    and "rs_retryHosts s = [] \<Longrightarrow> rs_hosts s \<noteq> [] \<Longrightarrow>
      \<forall>h \<in> set (rs_hosts s). IsPunished now (rs_failRetryInterval s) st h \<Longrightarrow>
      retry_Get now f st s = Ret (None, s)"
proof -
  assume new: "newSelector parse hosts tt iv st = Ret (sel, st')" and len: "length cs = length hosts"
  note n = newSelector_ok [OF new]
  let ?hs = "[length st..<length st + length hosts]"
  have raw: "map (\<lambda>h. h_raw (st' ! h)) ?hs = map with_scheme hosts"
    by (rule nth_equalityI) (auto simp: n nth_append new_host_def)
  have "filter (\<lambda>h. \<not> IsPunished now (sel_failRetryInterval sel) st' h) ?hs = ?hs"
    by (auto simp: n filter_id_conv IsPunished_def nth_append new_host_def)
  then have f: "rs_retryHosts (snd (sel_Get sel)) = []" "rs_hosts (snd (sel_Get sel)) \<noteq> []"
      "?hs = filter (\<lambda>h. \<not> IsPunished now (rs_failRetryInterval (snd (sel_Get sel))) st' h) (rs_hosts (snd (sel_Get sel)))"
      "length cs = length ?hs" "?hs \<noteq> []"
    using n len by (simp_all add: sel_Get_def del: upt_eq_Nil_conv) auto
  obtain hs s' where "retry_gets now cs st' (snd (sel_Get sel)) = Ret (map Some hs, s')" "mset hs = mset ?hs"
    using retry_gets_fresh [OF assms f] by blast
  moreover from this(2) have "mset (map (\<lambda>h. h_raw (st' ! h)) hs) = mset (map with_scheme hosts)"
    by (metis mset_map raw)
  moreover have "h_raw (st' ! the (fst (sel_Get sel))) = with_scheme (hd hosts)"
    using n by (simp add: sel_Get_def nth_append new_host_def hd_conv_nth)
  ultimately show "h_raw (st' ! the (fst (sel_Get sel))) = with_scheme (hd hosts) \<and>
      (\<exists>hs s'. retry_gets now cs st' (snd (sel_Get sel)) = Ret (map Some hs, s') \<and>
         mset (map (\<lambda>h. h_raw (st' ! h)) hs) = mset (map with_scheme hosts))" by blast
next
  assume s: "rs_retryHosts s = []" "rs_hosts s \<noteq> []"
    "length cs = length (filter (\<lambda>h. \<not> IsPunished now (rs_failRetryInterval s) st h) (rs_hosts s))"
  show "\<exists>hs s'. retry_gets now cs st s = Ret (map Some hs, s') \<and> rs_retryHosts s' = [] \<and>
      mset hs = mset (filter (\<lambda>h. \<not> IsPunished now (rs_failRetryInterval s) st h) (rs_hosts s))"
  proof (cases "cs = []")
    case True
    then show ?thesis using s by (auto intro: exI [of _ "[]"])
  next
    case False
    then show ?thesis using retry_gets_fresh [OF assms s(1,2) refl s(3)] s(3) by fastforce
  qed
next
  assume "rs_retryHosts s = []" "rs_hosts s \<noteq> []" "\<forall>h \<in> set (rs_hosts s). IsPunished now (rs_failRetryInterval s) st h"
  then show "retry_Get now f st s = Ret (None, s)" by (simp add: retry_Get_def filter_empty_conv)
qed


text \<open>
  The choice of hosts. A selector starts with the first configured host as its default, and as
  many calls of \<^verbatim>\<open>Get\<close> as there are hosts hand out every configured host exactly once, in some order,
  whatever the random numbers are. In any state a round of a retry selector hands out exactly the
  hosts that are not being punished for a failure, each once, and nothing when all are.
\<close>

theorem hosts_tried_once_per_round:
  assumes "\<forall>f \<in> set cs. intn_ok f"
  shows "(newSelector parse hosts tt iv st = Ret (sel, st') \<and> length cs = length hosts \<longrightarrow>
      h_raw (st' ! the (fst (sel_Get sel))) = with_scheme (hd hosts) \<and>
      (\<exists>hs s'. retry_gets now cs st' (snd (sel_Get sel)) = Ret (map Some hs, s') \<and>
         mset (map (\<lambda>h. h_raw (st' ! h)) hs) = mset (map with_scheme hosts))) \<and>
    (rs_retryHosts s = [] \<and> rs_hosts s \<noteq> [] \<and>
      length cs = length (filter (\<lambda>h. \<not> IsPunished now (rs_failRetryInterval s) st h) (rs_hosts s)) \<longrightarrow>
      (\<exists>hs s'. retry_gets now cs st s = Ret (map Some hs, s') \<and> rs_retryHosts s' = [] \<and>
         mset hs = mset (filter (\<lambda>h. \<not> IsPunished now (rs_failRetryInterval s) st h) (rs_hosts s)))) \<and>
    (rs_retryHosts s = [] \<and> rs_hosts s \<noteq> [] \<and>
      (\<forall>h \<in> set (rs_hosts s). IsPunished now (rs_failRetryInterval s) st h) \<longrightarrow>
      retry_Get now f st s = Ret (None, s))"
  using hosts_tried_once_per_round_parts [OF assms] by blast

theorem hosts_tried_once_per_round_witness:
  "\<exists>sel st'. newSelector (\<lambda>_. None) [''a'', ''http://b''] 0 0 [] = Ret (sel, st') \<and>
     (\<exists>hs s'. retry_gets 5 [\<lambda>n. n - 1, \<lambda>n. 0] st' (snd (sel_Get sel)) = Ret (map Some hs, s') \<and>
        mset (map (\<lambda>h. h_raw (st' ! h)) hs) = mset [''http://a'', ''http://b''])"
proof -
  obtain sel st' where n: "newSelector (\<lambda>_. None) [''a'', ''http://b''] 0 0 [] = Ret (sel, st')"
    by (simp add: newSelector_def SetHosts_def)
  have "\<forall>f \<in> set [\<lambda>n. n - 1, \<lambda>n. 0]. intn_ok f" by (simp add: intn_ok_def)
  from hosts_tried_once_per_round [OF this, of "\<lambda>_. None" "[''a'', ''http://b'']" 0 0 "[]" sel st' 5]
  show ?thesis using n by (simp add: with_scheme_def)
qed

section \<open>Headers and bodies\<close>

lemma canonical_keys [simp]:
  "canonical True ReqidKey = ''X-Reqid''" "canonical True ReqUid = ''X-Userid''"
  "canonical True ReqAppid = ''X-Appid''" "canonical True ReqDevid = ''X-Devid''"
  "canonical True ReqPkgName = ''X-Pkgname''" "canonical True ReqClientTag = ''X-Clientlabel''"
  "canonical True ReqToken = ''X-Token''" "canonical True ReqClientId = ''X-Clientid''"
  "canonical True ReqTime = ''X-Ts''" "canonical True ReqAccessKey = ''X-Accesskey''"
  "canonical True ''accept'' = ''Accept''" "canonical True ''Content-Type'' = ''Content-Type''"
  by code_simp+

text \<open>
  What the server is told about the client: every request that goes out carries the user, the
  token, the identifiers of the configuration and of the client and the time in milliseconds, beside
  the identifier of the request; method, address and body are as they were.
\<close>

lemma RoundTrip_headers:
  "header_Get ReqUid (hq_Header (RoundTrip t now req)) = u_Uid (tr_user t)"
  "header_Get ReqToken (hq_Header (RoundTrip t now req)) = u_Token (tr_user t)"
  "header_Get ReqAppid (hq_Header (RoundTrip t now req)) = cfg_at (tr_cfg t) CfgAppId"
  "header_Get ReqDevid (hq_Header (RoundTrip t now req)) = cfg_at (tr_cfg t) CfgDevId"
  "header_Get ReqPkgName (hq_Header (RoundTrip t now req)) = cfg_at (tr_cfg t) CfgPackageName"
  "header_Get ReqClientTag (hq_Header (RoundTrip t now req)) = cfg_at (tr_cfg t) CfgClientTag"
  "header_Get ReqClientId (hq_Header (RoundTrip t now req)) = tr_clientID t"
  "header_Get ReqTime (hq_Header (RoundTrip t now req)) = FormatInt (now div 1000000)"
  "header_Get ReqidKey (hq_Header (RoundTrip t now req)) = header_Get ReqidKey (hq_Header req)"
  "hq_Method (RoundTrip t now req) = hq_Method req" "hq_URL (RoundTrip t now req) = hq_URL req"
  "hq_Body (RoundTrip t now req) = hq_Body req"
  by (simp_all add: RoundTrip_def header_Get_def header_Set_def)

text \<open>Reading a body in pieces, into buffers of any lengths.\<close>

fun reads :: "byte list list \<Rightarrow> RetryReader \<Rightarrow> byte list \<times> RetryReader" where
  "reads [] p = ([], p)"
| "reads (val # vals) p =
     (case RetryReader_Read val p of ((val', n, err), p1) \<Rightarrow>
      case reads vals p1 of (d, p2) \<Rightarrow> (take (nat n) val' @ d, p2))"

lemma reads_at:
  assumes "rr_Reader p = body" and "rr_Offset p = int k" and "k \<le> length body"
  shows "reads vals p =
     (take (sum_list (map length vals)) (drop k body),
      p\<lparr> rr_Offset := int (min (length body) (k + sum_list (map length vals))) \<rparr>)"
  using assms
proof (induction vals arbitrary: p k)
  case (Cons val vals)
  define d where "d = take (length val) (drop k body)"
  define p1 where "p1 = p\<lparr> rr_Offset := int (k + length d) \<rparr>"
  have r: "\<exists>val' err. RetryReader_Read val p = ((val', int (length d), err), p1) \<and> take (length d) val' = d"
    using Cons.prems by (auto simp: RetryReader_Read_def ReadAt_def d_def p1_def Let_def copy_at_def min_def)
  have kd: "k + length d = min (length body) (k + length val)" using Cons.prems(3) by (simp add: d_def)
  have "reads vals p1 = (take (sum_list (map length vals)) (drop (k + length d) body),
      p1\<lparr> rr_Offset := int (min (length body) (k + length d + sum_list (map length vals))) \<rparr>)"
    using Cons.prems kd by (intro Cons.IH) (auto simp: p1_def)
  moreover have "d @ take (sum_list (map length vals)) (drop (k + length d) body) =
      take (length val + sum_list (map length vals)) (drop k body)"
    by (simp add: d_def take_add min_def) (auto simp: take_add add.commute)
  moreover have "min (length body) (k + length d + sum_list (map length vals)) =
      min (length body) (k + (length val + sum_list (map length vals)))"
    using kd by auto
  ultimately show ?case using r by (auto simp: p1_def)
qed simp


lemma body_sent_whole_parts:
  assumes "length body \<le> sum_list (map length vals)"
  shows "fst (reads pieces \<lparr> rr_Reader = body, rr_Offset = 0 \<rparr>) = take (sum_list (map length pieces)) body"
    and "fst (reads vals \<lparr> rr_Reader = body, rr_Offset = 0 \<rparr>) = body"
    and "fst (RetryReader_Read val (snd (reads vals \<lparr> rr_Reader = body, rr_Offset = 0 \<rparr>))) = (val, 0, Some (ErrNew ''EOF''))"
  using assms reads_at [of "\<lparr> rr_Reader = body, rr_Offset = 0 \<rparr>" body 0]
  by (auto simp: RetryReader_Read_def ReadAt_def min_def)

text \<open>
  Every attempt at a request sends the whole body. Read in pieces of any lengths, the fresh
  reader an attempt starts with gives the bytes of the body in order, each once, as many as the
  buffers hold; when they hold as many as the body has, they hold the body, and the next read into a
  buffer reports the end.
\<close>

theorem body_sent_whole:
  assumes "length body \<le> sum_list (map length vals)"
  shows "fst (reads pieces \<lparr> rr_Reader = body, rr_Offset = 0 \<rparr>) = take (sum_list (map length pieces)) body \<and>
    fst (reads vals \<lparr> rr_Reader = body, rr_Offset = 0 \<rparr>) = body \<and>
    fst (RetryReader_Read val (snd (reads vals \<lparr> rr_Reader = body, rr_Offset = 0 \<rparr>))) = (val, 0, Some (ErrNew ''EOF''))"
  using body_sent_whole_parts [OF assms] by blast

theorem body_sent_whole_witness:
  "fst (reads [[0, 0], [0], [0, 0]] \<lparr> rr_Reader = [1, 2, 3, 4], rr_Offset = 0 \<rparr>) = [1, 2, 3, 4]"
  using body_sent_whole [of "[1, 2, 3, 4]" "[[0, 0], [0], [0, 0]]"] by simp


end
