(* ===== verification/Cfa_NProps.thy ===== *)
theory Cfa_NProps
  imports Cfa_NewMount Cfa_HProps Cfa_MProps
begin

text \<open>
  A new mount is ready: what \<^verbatim>\<open>NewMount\<close> builds from a configuration satisfies what the other theories
  assume of a mount, its caches and its clients; and the user it takes from the account server is
  the one the server names.
\<close>

section \<open>The user from the account server\<close>

lemma dec_enc_FetchResponse:
  assumes "- (2 ^ 63) \<le> fr_Code r" and "fr_Code r < 2 ^ 63"
  shows "dec_FetchResponse (enc_FetchResponse r) zero_FetchResponse = (r, True)"
  using assms
  by (cases r; cases "fr_Data r")
     (auto simp: dec_FetchResponse_def enc_FetchResponse_def dec_struct_def zero_FetchResponse_def
      dec_data_def dec_FetchRespData_def jfield_def json_simps)

lemma account_server_gives_user_parts:
  assumes "ne_parse env (cfg_at cfg CfgThirdPartyUidPullUrl) = None"
    and "\<And>rq. hq_URL rq = cfg_at cfg CfgThirdPartyUidPullUrl \<Longrightarrow>
      ne_exchange env n rq =
        (n, Some \<lparr> hr_StatusCode = 200, hr_Location = [], hr_Body = Inr (account_handler (hq_Header rq)) \<rparr>, None)"
    and "cfg_at cfg CfgThirdPartyUidPullType = UidPullTypeByUrl"
  shows "cfg_at cfg CfgThirdPartyUidPullAccessKey = FixedAccessKey \<Longrightarrow>
      getUserInfo env uuid cfg n = Ret (n, Inr (BuildUserInfo FixedUser FixedToken))"
    and "cfg_at cfg CfgThirdPartyUidPullAccessKey \<noteq> FixedAccessKey \<Longrightarrow>
      getUserInfo env uuid cfg n = Ret (n, Inl (ErrNew ''account server return failed code'')) \<and>
      (\<exists>e. NewMount env addrs uuid cfg n = Ret (n, Inl e))"
proof -
  define hdr where "hdr = header_Set ReqAccessKey (cfg_at cfg CfgThirdPartyUidPullAccessKey)
     (header_Set ReqClientTag (cfg_at cfg CfgClientTag)
     (header_Set ReqidKey uuid (header_Set ''Content-Type'' ''application/json'' Map.empty)))"
  have key: "header_Get ReqAccessKey hdr = cfg_at cfg CfgThirdPartyUidPullAccessKey"
    by (simp add: hdr_def header_Get_def header_Set_def)
  have "client_follow (\<lambda>_ rq. rq) True env 9 rq rq n =
      (n, Some \<lparr> hr_StatusCode = 200, hr_Location = [], hr_Body = Inr (account_handler (hq_Header rq)) \<rparr>, None)"
    if "hq_URL rq = cfg_at cfg CfgThirdPartyUidPullUrl" for rq
    by (rule client_follow_final) (use assms(2) [OF that] in \<open>simp_all add: redirect_target_def\<close>)
  note follow = this
  have "getUserInfo env uuid cfg n = PullThirdPartyUser env uuid cfg n"
    using assms(3) by (simp add: getUserInfo_def)
  also have "\<dots> = Ret (n, case dec_FetchResponse (account_handler hdr) zero_FetchResponse of (respBody, ok) \<Rightarrow>
      if \<not> ok then Inl (ErrNew ''json: cannot unmarshal'')
      else if fr_Code respBody \<noteq> 0 then Inl (ErrNew ''account server return failed code'')
      else case fr_Data respBody of None \<Rightarrow> Inl (ErrNew ''account server return data is nil'')
           | Some d \<Rightarrow> Inr \<lparr> u_Uid = fd_Uid d, u_Token = fd_Token d \<rparr>)"
    using assms(1) follow by (simp add: PullThirdPartyUser_def newRequest_def Let_def hdr_def split: prod.split)
  finally have run: "getUserInfo env uuid cfg n = Ret (n, case dec_FetchResponse (account_handler hdr) zero_FetchResponse of (respBody, ok) \<Rightarrow>
      if \<not> ok then Inl (ErrNew ''json: cannot unmarshal'')
      else if fr_Code respBody \<noteq> 0 then Inl (ErrNew ''account server return failed code'')
      else case fr_Data respBody of None \<Rightarrow> Inl (ErrNew ''account server return data is nil'')
           | Some d \<Rightarrow> Inr \<lparr> u_Uid = fd_Uid d, u_Token = fd_Token d \<rparr>)" .
  show "getUserInfo env uuid cfg n = Ret (n, Inr (BuildUserInfo FixedUser FixedToken))"
    if "cfg_at cfg CfgThirdPartyUidPullAccessKey = FixedAccessKey"
    unfolding run using key that by (simp add: account_handler_def Let_def dec_enc_FetchResponse BuildUserInfo_def)
  show "getUserInfo env uuid cfg n = Ret (n, Inl (ErrNew ''account server return failed code'')) \<and>
      (\<exists>e. NewMount env addrs uuid cfg n = Ret (n, Inl e))"
    if "cfg_at cfg CfgThirdPartyUidPullAccessKey \<noteq> FixedAccessKey"
  proof -
    have "getUserInfo env uuid cfg n = Ret (n, Inl (ErrNew ''account server return failed code''))"
      unfolding run using key that by (simp add: account_handler_def Let_def dec_enc_FetchResponse)
    then show ?thesis by (simp add: NewMount_def Let_def)
  qed
qed


definition account_env :: "unit NetEnv" where
  "account_env =
     \<lparr> ne_exchange = (\<lambda>n rq. (n, Some \<lparr> hr_StatusCode = 200, hr_Location = [],
         hr_Body = Inr (account_handler (hq_Header rq)) \<rparr>, None)),
       ne_now = (\<lambda>_. 0), ne_intn = (\<lambda>_ _. 0), ne_parse = (\<lambda>_. None), ne_resolve = (\<lambda>u r. Inr (''http'', u)),
       ne_target = (\<lambda>u r. Some (Inr (r, u))) \<rparr>"


section \<open>A new mount\<close>

lemma SetHosts_loop_total:
  "\<forall>h \<in> set hosts. parse (with_scheme h) = None \<Longrightarrow> \<exists>hs' st'. SetHosts_loop parse hosts hs st = Ret (hs', st')"
  by (induction hosts arbitrary: hs st) auto

lemma newSelector_total:
  assumes "hosts \<noteq> []" and "\<forall>h \<in> set hosts. parse (with_scheme h) = None"
  shows "\<exists>sel st'. newSelector parse hosts tt iv st = Ret (sel, st')"
proof -
  obtain hs' st' where l: "SetHosts_loop parse hosts [] st = Ret (hs', st')"
    using SetHosts_loop_total [OF assms(2)] by blast
  then have "hs' \<noteq> []" using SetHosts_loop_ok [OF l] assms(1) by simp
  then show ?thesis using l assms(1) by (cases hs') (auto simp: newSelector_def SetHosts_def Let_def)
qed

text \<open>What the other theories assume of a mount that has just been made.\<close>

definition fresh_caches :: "CfaMountInfo \<Rightarrow> bool" where
  "fresh_caches m \<longleftrightarrow>
     fc_inv (m_fileCache m) \<and> handles (m_fileCache m) = Map.empty \<and>
     dc_inv (m_dentryCache m) \<and> dc_view (m_dentryCache m) = Map.empty \<and>
     (\<forall>rwc bs. m_rwCache m = Some rwc \<longrightarrow> 0 < unat bs \<longrightarrow>
        rw_ok bs rwc \<and> (\<forall>f i. attached (rw_wCache rwc) f i = None))"

lemma new_rwCache_ok:
  assumes "new_rwCache cfg = Some rwc" and "0 < unat bs"
  shows "rw_ok bs rwc \<and> (\<forall>f i. attached (rw_wCache rwc) f i = None)"
proof -
  obtain n e r p t where "rwc = NewRWCache n e r p t"
    using assms(1) by (auto simp: new_rwCache_def Let_def split: if_splits)
  then show ?thesis using NewWCache_inv [OF assms(2)] NewRCache_inv(1) [OF assms(2)]
    by (simp add: rw_ok_def NewRWCache_def) (simp add: NewWCache_def)
qed

lemma handles_new: "handles (NewFileCache k) = Map.empty"
  by (auto simp: handles_def NewFileCache_def fun_eq_iff)

lemma open_max_bound: "nat (GetIntValue cfg CfgOpenFileMax 100000) < 2 ^ 32"
  using ParseInt_range [of "cfg_at cfg CfgOpenFileMax" 32]
  by (auto simp: GetIntValue_def nat_less_iff split: option.split)

lemma NewMount_ok:
  assumes "NewMount env addrs uuid cfg n = Ret (n', Inr (m, st))"
  shows "fresh_caches (CfaMountInfo.truncate m)"
    and "m_MountStu m = MountStuNew \<and> \<not> m_stopped m \<and> m_Path m = cfg_at cfg CfgPath \<and> \<not> bad_path (m_Path m)"
    and "pc_Host (m_proxyClient m) = cfg_at cfg CfgProxyHosts \<and>
      pc_RetryTimes (m_proxyClient m) = GetIntValue cfg CfgRetryTimes 3"
    and "hc_ShouldRetry (m_ioCli m) = ShouldRetry \<and> sel_defaultHost (hc_sel (m_ioCli m)) \<noteq> None \<and>
      hc_transport (m_ioCli m) = newTransport (m_User m) (m_ClientId m) cfg"
    and "m_rwCache m = new_rwCache cfg"
proof -
  obtain n1 ui where g: "getUserInfo env uuid cfg n = Ret (n1, ui)"
    using assms by (cases "getUserInfo env uuid cfg n") (auto simp: NewMount_def Let_def split: if_splits)
  obtain user where user: "ui = Inr user"
    using assms g by (cases ui) (auto simp: NewMount_def Let_def split: if_splits)
  obtain io1 st1 io where u: 
    "UpdateHosts (ne_parse env) (cfg_at cfg CfgProxyHosts) io1 st1 = Ret (io, st)"
    and io1: "setProxyCli env cfg (m_User m) (m_ClientId m) [] = Ret (io1, st1)"
    and m: "m_fileCache m = NewFileCache (nat (GetIntValue cfg CfgOpenFileMax 100000))"
      "m_dentryCache m = NewDentryCache (GetIntValue cfg CfgDentryCacheSize 0) (GetIntValue cfg CfgDentryCacheExpireMs 500)"
      "m_rwCache m = new_rwCache cfg" "m_proxyClient m = NewProxyClient io (BuildRetryCfg cfg)" "m_ioCli m = io"
      "m_MountStu m = MountStuNew" "\<not> m_stopped m" "m_Path m = cfg_at cfg CfgPath" "\<not> bad_path (cfg_at cfg CfgPath)"
    using assms by (auto simp: NewMount_def Let_def g user go_simps split: if_splits)
  obtain sel where s: "newSelector (ne_parse env) [cfg_at cfg CfgProxyHosts] (ht_TryTimes (hc_HttpCfg io1)) (- 1) st1 = Ret (sel, st)"
    and io: "io = io1\<lparr> hc_HttpCfg := (hc_HttpCfg io1)\<lparr> ht_Hosts := [cfg_at cfg CfgProxyHosts] \<rparr>, hc_sel := sel \<rparr>"
    using u by (auto simp: UpdateHosts_def go_simps)
  have c1: "hc_ShouldRetry io1 = ShouldRetry" "hc_transport io1 = newTransport (m_User m) (m_ClientId m) cfg"
    using io1 by (auto simp: setProxyCli_def NewHttpClient_def go_simps Let_def)
  show "fresh_caches (CfaMountInfo.truncate m)"
    using m(1-3) NewFileCache_inv [OF open_max_bound] NewDentryCache_ok [OF m(2)] new_rwCache_ok [of cfg]
    by (simp add: fresh_caches_def CfaMountInfo.truncate_def handles_new)
  show "m_MountStu m = MountStuNew \<and> \<not> m_stopped m \<and> m_Path m = cfg_at cfg CfgPath \<and> \<not> bad_path (m_Path m)"
    using m by simp
  show "pc_Host (m_proxyClient m) = cfg_at cfg CfgProxyHosts \<and>
      pc_RetryTimes (m_proxyClient m) = GetIntValue cfg CfgRetryTimes 3"
    by (simp add: m io NewProxyClient_def BuildRetryCfg_def)
  show "hc_ShouldRetry (m_ioCli m) = ShouldRetry \<and> sel_defaultHost (hc_sel (m_ioCli m)) \<noteq> None \<and>
      hc_transport (m_ioCli m) = newTransport (m_User m) (m_ClientId m) cfg"
    using c1 newSelector_ok [OF s] by (simp add: m io)
  show "m_rwCache m = new_rwCache cfg" by (rule m(3))
qed


lemma new_mount_ready_parts:
  shows "\<not> bad_path (cfg_at cfg CfgPath) \<Longrightarrow> getUserInfo env uuid cfg n = Ret (n1, Inr user) \<Longrightarrow>
      GetIp addrs = Ret ip \<Longrightarrow> 0 \<le> GetIntValue cfg CfgOpenFileMax 100000 \<Longrightarrow>
      cfg_at cfg CfgProxyHosts \<noteq> [] \<Longrightarrow> ne_parse env (with_scheme (cfg_at cfg CfgProxyHosts)) = None \<Longrightarrow>
      \<forall>h \<in> set (Split (CHR '','') (cfg_at cfg CfgProxyHosts)). ne_parse env (with_scheme h) = None \<Longrightarrow>
      \<exists>m st. NewMount env addrs uuid cfg n = Ret (n1, Inr (m, st)) \<and> m_User m = user \<and>
      m_ClientId m = ip @ ''_'' @ getExportPath cfg"
    and "NewMount env addrs uuid cfg n = Ret (n', Inr (m, st)) \<Longrightarrow>
      m_MountStu m = MountStuNew \<and> m_Path m = cfg_at cfg CfgPath \<and> \<not> bad_path (m_Path m) \<and>
      fresh_caches (CfaMountInfo.truncate m) \<and> sel_defaultHost (hc_sel (m_ioCli m)) \<noteq> None \<and>
      (network_ok env (cfg_at cfg CfgProxyHosts) content \<and> 0 \<le> GetIntValue cfg CfgRetryTimes 3 \<longrightarrow>
         server_ok (http_post env reqId (m_ioCli m)) (m_proxyClient m) (content \<circ> fst))"
    and "bad_path (cfg_at cfg CfgPath) \<Longrightarrow> NewMount env addrs uuid cfg n = Ret (n, Inl (Errno E_POSIX_EPERM))"
proof -
  assume a: "\<not> bad_path (cfg_at cfg CfgPath)" "getUserInfo env uuid cfg n = Ret (n1, Inr user)"
    "GetIp addrs = Ret ip" "0 \<le> GetIntValue cfg CfgOpenFileMax 100000" "cfg_at cfg CfgProxyHosts \<noteq> []"
    "ne_parse env (with_scheme (cfg_at cfg CfgProxyHosts)) = None"
    "\<forall>h \<in> set (Split (CHR '','') (cfg_at cfg CfgProxyHosts)). ne_parse env (with_scheme h) = None"
  let ?hs = "Split (CHR '','') (cfg_at cfg CfgProxyHosts)" and ?id = "ip @ ''_'' @ getExportPath cfg"
  obtain h where h: "BuildHttpCfg cfg = Ret h" "ht_Hosts h = ?hs"
    using a(5) by (simp add: BuildHttpCfg_def Let_def)
  obtain sel1 st1 where s1: "newSelector (ne_parse env) (ht_Hosts h) (ht_TryTimes h) (ht_MaxFailsPeriodS h) [] = Ret (sel1, st1)"
    using newSelector_total [of ?hs "ne_parse env"] a(7) h(2) by fastforce
  then obtain io1 where io1: "setProxyCli env cfg user ?id [] = Ret (io1, st1)"
    by (simp add: setProxyCli_def h NewHttpClient_def Let_def)
  obtain sel2 st2 where "newSelector (ne_parse env) [cfg_at cfg CfgProxyHosts] (ht_TryTimes (hc_HttpCfg io1)) (- 1) st1 = Ret (sel2, st2)"
    using newSelector_total [of "[cfg_at cfg CfgProxyHosts]" "ne_parse env"] a(6) by fastforce
  then show "\<exists>m st. NewMount env addrs uuid cfg n = Ret (n1, Inr (m, st)) \<and> m_User m = user \<and> m_ClientId m = ?id"
    using a(1-4) io1 by (simp add: NewMount_def Let_def genClientId_def UpdateHosts_def)
next
  assume "NewMount env addrs uuid cfg n = Ret (n', Inr (m, st))"
  note ok = NewMount_ok [OF this]
  show "m_MountStu m = MountStuNew \<and> m_Path m = cfg_at cfg CfgPath \<and> \<not> bad_path (m_Path m) \<and>
      fresh_caches (CfaMountInfo.truncate m) \<and> sel_defaultHost (hc_sel (m_ioCli m)) \<noteq> None \<and>
      (network_ok env (cfg_at cfg CfgProxyHosts) content \<and> 0 \<le> GetIntValue cfg CfgRetryTimes 3 \<longrightarrow>
         server_ok (http_post env reqId (m_ioCli m)) (m_proxyClient m) (content \<circ> fst))"
    using ok network_write_ok [of env _ content "m_ioCli m"] network_read_ok [of env _ content "m_ioCli m"]
    by (auto simp: server_ok_def)
next
  assume "bad_path (cfg_at cfg CfgPath)"
  then show "NewMount env addrs uuid cfg n = Ret (n, Inl (Errno E_POSIX_EPERM))" by (simp add: NewMount_def Let_def)
qed

text \<open>
  C11: A new mount is ready. From a configuration with a legal path, a user, an address of the
  proxy that parses and a table size that is not negative, on a machine with an address, \<^verbatim>\<open>NewMount\<close>
  makes a mount. Whatever mount it makes is new and has the configured path; its caches are empty
  and satisfy their invariants, for every block size; its HTTP client has a host and retries as
  by default, and with a network that keeps its files and a number of retries that is not negative
  its two clients together keep the contract of the server, on which the other properties rest. A
  path that is not legal is refused before anything is asked of the network.
\<close>

theorem new_mount_ready:
  "(\<not> bad_path (cfg_at cfg CfgPath) \<and> getUserInfo env uuid cfg n = Ret (n1, Inr user) \<and>
      GetIp addrs = Ret ip \<and> 0 \<le> GetIntValue cfg CfgOpenFileMax 100000 \<and>
      cfg_at cfg CfgProxyHosts \<noteq> [] \<and> ne_parse env (with_scheme (cfg_at cfg CfgProxyHosts)) = None \<and>
      (\<forall>h \<in> set (Split (CHR '','') (cfg_at cfg CfgProxyHosts)). ne_parse env (with_scheme h) = None) \<longrightarrow>
      (\<exists>m st. NewMount env addrs uuid cfg n = Ret (n1, Inr (m, st)) \<and> m_User m = user \<and>
         m_ClientId m = ip @ ''_'' @ getExportPath cfg)) \<and>
   (\<forall>n' m st. NewMount env addrs uuid cfg n = Ret (n', Inr (m, st)) \<longrightarrow>
      m_MountStu m = MountStuNew \<and> m_Path m = cfg_at cfg CfgPath \<and> \<not> bad_path (m_Path m) \<and>
      fresh_caches (CfaMountInfo.truncate m) \<and> sel_defaultHost (hc_sel (m_ioCli m)) \<noteq> None \<and>
      (network_ok env (cfg_at cfg CfgProxyHosts) content \<and> 0 \<le> GetIntValue cfg CfgRetryTimes 3 \<longrightarrow>
         server_ok (http_post env reqId (m_ioCli m)) (m_proxyClient m) (content \<circ> fst))) \<and>
   (bad_path (cfg_at cfg CfgPath) \<longrightarrow> NewMount env addrs uuid cfg n = Ret (n, Inl (Errno E_POSIX_EPERM)))"
proof (rule conjI [OF impI conjI [OF allI impI]], goal_cases)
  case 1
  then show ?case by (elim conjE) (rule new_mount_ready_parts(1))
next
  case (2 n')
  show ?case by (intro allI impI) (rule new_mount_ready_parts(2))
next
  case 3
  then show ?case by (rule new_mount_ready_parts(3))
qed

theorem new_mount_ready_witness:
  "\<exists>m st. NewMount demo_env (Inr [OtherAddr, IPNet False True ''10.0.0.2'']) ''id''
       [CfgPath \<mapsto> ''/'', CfgProxyHosts \<mapsto> ''h:1''] (0, \<lambda>_. []) = Ret ((0, \<lambda>_. []), Inr (m, st)) \<and>
     m_ClientId m = ''10.0.0.2_/'' \<and> fresh_caches (CfaMountInfo.truncate m)"
proof -
  let ?cfg = "[CfgPath \<mapsto> ''/'', CfgProxyHosts \<mapsto> ''h:1'']" and ?ips = "Inr [OtherAddr, IPNet False True ''10.0.0.2'']"
  have "\<not> bad_path (cfg_at ?cfg CfgPath)" "GetIp ?ips = Ret ''10.0.0.2''" "cfg_at ?cfg CfgProxyHosts \<noteq> []"
    "0 \<le> GetIntValue ?cfg CfgOpenFileMax 100000" "ne_parse demo_env u = None" "getExportPath ?cfg = ''/''"
    "getUserInfo demo_env ''id'' ?cfg (0, \<lambda>_. []) = Ret ((0, \<lambda>_. []), Inr (BuildUserInfo ''UidNotSet'' ''TokenNotSet''))" for u
    by (simp_all add: bad_path_def cfg_at_def cfg_keys GetIp_def List.map_filter_def GetIntValue_def ParseInt_def
        demo_env_def getExportPath_def getUserInfo_def)
  note h = this
  obtain m st where m: "NewMount demo_env ?ips ''id'' ?cfg (0, \<lambda>_. []) = Ret ((0, \<lambda>_. []), Inr (m, st))"
      "m_ClientId m = ''10.0.0.2_/''"
      "fresh_caches (CfaMountInfo.truncate m)"
    using new_mount_ready [of ?cfg demo_env "''id''" "(0, \<lambda>_. [])" "(0, \<lambda>_. [])"
        "BuildUserInfo ''UidNotSet'' ''TokenNotSet''" ?ips "''10.0.0.2''"] h
    by (simp only: simp_thms append.simps list.simps ball_simps ball_triv) blast
  then show ?thesis by auto
qed


end
