(* ===== verification/Cfa_Main.thy ===== *)
theory Cfa_Main
  imports Cfa_Unmount Cfa_Log Cfa_NProps
begin

text \<open>
  The program of the client (\<^verbatim>\<open>client/main.go\<close>): building the mount, serving it, and the goroutine that
  waits for signals. The FUSE server is code of another package: whether it can be made, whether
  \<^verbatim>\<open>Unmount\<close> succeeds and when \<^verbatim>\<open>Serve\<close> returns are parameters and steps of the environment.
\<close>

section \<open>Log levels\<close>

definition SetLogLevel :: "Logger \<Rightarrow> int \<Rightarrow> levels \<Rightarrow> levels go" where
  "SetLogLevel log flag st =
     bindG (Logger_Level log st) (\<lambda>level.
     if flag < 0 then
       if level > DebugLevel then Logger_SetLevel log (level - 1) st else Ret st
     else if level < PanicLevel then Logger_SetLevel log (level + 1) st
     else Ret st)"

section \<open>Signals\<close>

datatype Signal = SIGTERM | SIGKILL | SIGABRT | SIGSEGV | SIGUSR1 | SIGUSR2 | OtherSignal

definition exit_signal :: "Signal \<Rightarrow> bool" where
  "exit_signal sig \<longleftrightarrow> sig \<in> {SIGTERM, SIGKILL, SIGABRT, SIGSEGV}"

text \<open>
  What the goroutines of the program share: the loggers with their levels, the debug flag of the FUSE
  server and whether it is still serving, the mount, and whether \<^verbatim>\<open>closeChan\<close> is closed.
\<close>

record Process =
  pr_FuseLog :: Logger
  pr_mountLog :: Logger
  pr_levels :: levels
  pr_debug :: bool
  pr_serving :: bool
  pr_mount :: CfaMountInfo
  pr_closed :: bool

text \<open>One round of \<^verbatim>\<open>exitSign\<close>; the first result says whether the loop goes on.\<close>

definition exitSign_round ::
  "'s Env \<Rightarrow> bool \<Rightarrow> Signal \<Rightarrow> Process \<Rightarrow> 's \<Rightarrow> (bool \<times> Process \<times> 's) go" where
  "exitSign_round env unmounts sig p s =
     (case sig of
        SIGUSR1 \<Rightarrow>
          bindG (Logger_Level (pr_FuseLog p) (pr_levels p)) (\<lambda>level.
          bindG (if level > DebugLevel then Logger_SetLevel (pr_FuseLog p) (level - 1) (pr_levels p)
                 else Ret (pr_levels p)) (\<lambda>st1.
          bindG (SetLogLevel (pr_mountLog p) (- 1) st1) (\<lambda>st2.
          Ret (True, p\<lparr> pr_levels := st2, pr_debug := True \<rparr>, s))))
      | SIGUSR2 \<Rightarrow>
          bindG (Logger_Level (pr_FuseLog p) (pr_levels p)) (\<lambda>level.
          bindG (if level < PanicLevel then Logger_SetLevel (pr_FuseLog p) (level + 1) (pr_levels p)
                 else Ret (pr_levels p)) (\<lambda>st1.
          bindG (SetLogLevel (pr_mountLog p) 1 st1) (\<lambda>st2.
          Ret (True, p\<lparr> pr_levels := st2, pr_debug := False \<rparr>, s))))
      | OtherSignal \<Rightarrow> Ret (True, p, s)
      | _ \<Rightarrow>
          bindG (DelMount env (pr_mount p) s) (\<lambda>(m1, s1).
          if pr_closed p then Panic
          else Ret (False, p\<lparr> pr_serving := pr_serving p \<and> \<not> unmounts, pr_mount := m1, pr_closed := True \<rparr>, s1)))"

fun exitSign :: "'s Env \<Rightarrow> bool \<Rightarrow> Signal list \<Rightarrow> Process \<Rightarrow> 's \<Rightarrow> (bool \<times> Process \<times> 's) go" where
  "exitSign env unmounts [] p s = Ret (True, p, s)"
| "exitSign env unmounts (sig # sigs) p s =
     bindG (exitSign_round env unmounts sig p s) (\<lambda>(goon, p1, s1).
     if goon then exitSign env unmounts sigs p1 s1 else Ret (False, p1, s1))"

section \<open>Building the mount\<close>

text \<open>
  \<^verbatim>\<open>mount\<close>: the server is given with the mount, or an error is; \<^verbatim>\<open>log.Fatalf\<close> ends the process. The mount talks
  to the proxy through the HTTP client it was built with. The last parameter is the error of the FUSE
  server, if it cannot be made.
\<close>

datatype MountEnd = MountFatal go_error | MountFailed go_error | MountServed NewMountInfo

definition fuse_mount ::
  "'s NetEnv \<Rightarrow> 's web Env \<Rightarrow> (go_error + NetAddr list) \<Rightarrow> string \<Rightarrow> string \<Rightarrow> go_error option \<Rightarrow> FuseConf \<Rightarrow> 's \<Rightarrow>
   MountEnd go" where
  "fuse_mount nenv env addrs uuid reqId server fuseCfg n =
     bindG (NewMount nenv addrs uuid (case fz_Cfg fuseCfg of None \<Rightarrow> Map.empty | Some cfg \<Rightarrow> cfg) n) (\<lambda>(n1, r).
     case r of
       Inl err \<Rightarrow> Ret (MountFatal err)
     | Inr (mi, st) \<Rightarrow>
         bindG (Mount (env\<lparr> env_post := http_post nenv reqId (m_ioCli mi) \<rparr>) (CfaMountInfo.truncate mi)
                  (n1, st, hc_sel (m_ioCli mi))) (\<lambda>(err, m1, _).
         case (err, server) of
           (Some e, _) \<Rightarrow> Ret (MountFailed e)
         | (None, Some e) \<Rightarrow> Ret (MountFailed e)
         | (None, None) \<Rightarrow> Ret (MountServed (CfaMountInfo.extend m1 (CfaMountInfo.more mi)))))"

text \<open>The start of \<^verbatim>\<open>main\<close>: no mount means that the process has ended with a message.\<close>

definition main_start ::
  "'s NetEnv \<Rightarrow> 's web Env \<Rightarrow> (go_error + NetAddr list) \<Rightarrow> string \<Rightarrow> string \<Rightarrow> go_error option \<Rightarrow>
   (string \<Rightarrow> go_error + string) \<Rightarrow> (string \<Rightarrow> FuseConf \<Rightarrow> FuseConf \<times> go_error option) \<Rightarrow> string \<Rightarrow> 's \<Rightarrow>
   (FuseConf \<times> NewMountInfo) option go" where
  "main_start nenv env addrs uuid reqId server readFile unmarshal configFile n =
     bindG (LoadFuseCfg readFile unmarshal configFile) (\<lambda>fuseCfg.
     bindG (fuse_mount nenv env addrs uuid reqId server fuseCfg n) (\<lambda>r.
     Ret (case r of MountServed mountInfo \<Rightarrow> Some (fuseCfg, mountInfo) | _ \<Rightarrow> None)))"

text \<open>
  What the process serves: a mount of the path in the configuration, which is a legal one, with all permissions.
  So the file system's root passes the check of the mount.
\<close>

lemma Mount_mounted:
  assumes "Mount env m s = Ret (None, m', s')"
  shows "m_MountStu m' = MountStuMounted \<and> m_MountMode m' = MountModeRead OR MountModeWrite OR MountModeDel \<and> m_Path m' = m_Path m"
  using assms Stat_keeps_mount by (fastforce simp: Mount_def Let_def go_simps split: if_splits)

theorem main_serves_mounted:
  assumes "main_start nenv env addrs uuid reqId server readFile unmarshal configFile n = Ret (Some (fuseCfg, mi))"
  shows "LoadFuseCfg readFile unmarshal configFile = Ret fuseCfg \<and> server = None \<and> m_Path mi = GetPath fuseCfg \<and>
    \<not> bad_path (m_Path mi) \<and> checkMount (GetPath fuseCfg) MountModeWrite (CfaMountInfo.truncate mi) = None"
proof -
  obtain f r where "LoadFuseCfg readFile unmarshal configFile = Ret f" "fuse_mount nenv env addrs uuid reqId server f n = Ret r"
      "(case r of MountServed mountInfo \<Rightarrow> Some (f, mountInfo) | _ \<Rightarrow> None) = Some (fuseCfg, mi)"
    using assms unfolding main_start_def bindG_Ret_iff by blast
  then have load: "LoadFuseCfg readFile unmarshal configFile = Ret fuseCfg"
    and served: "fuse_mount nenv env addrs uuid reqId server fuseCfg n = Ret (MountServed mi)"
    by (cases r; simp)+
  let ?cfg = "case fz_Cfg fuseCfg of None \<Rightarrow> Map.empty | Some cfg \<Rightarrow> cfg"
  obtain n1 mi0 st where new: "NewMount nenv addrs uuid ?cfg n = Ret (n1, Inr (mi0, st))"
    and rest: "bindG (Mount (env\<lparr> env_post := http_post nenv reqId (m_ioCli mi0) \<rparr>) (CfaMountInfo.truncate mi0)
        (n1, st, hc_sel (m_ioCli mi0))) (\<lambda>(err, m1, _).
         case (err, server) of
           (Some e, _) \<Rightarrow> Ret (MountFailed e)
         | (None, Some e) \<Rightarrow> Ret (MountFailed e)
         | (None, None) \<Rightarrow> Ret (MountServed (CfaMountInfo.extend m1 (CfaMountInfo.more mi0)))) = Ret (MountServed mi)"
  proof -
    obtain n1 r where r: "NewMount nenv addrs uuid ?cfg n = Ret (n1, r)" using served unfolding fuse_mount_def bindG_Ret_iff by auto
    obtain mi0 st where "r = Inr (mi0, st)" using served r by (cases r) (auto simp: fuse_mount_def)
    then show thesis using that r served by (simp add: fuse_mount_def)
  qed
  then obtain m1 s1 where mnt: "Mount (env\<lparr> env_post := http_post nenv reqId (m_ioCli mi0) \<rparr>) (CfaMountInfo.truncate mi0)
       (n1, st, hc_sel (m_ioCli mi0)) = Ret (None, m1, s1)"
    and mi: "mi = CfaMountInfo.extend m1 (CfaMountInfo.more mi0)" and srv: "server = None"
    by (auto simp: go_simps split: option.split_asm)
  have path: "m_Path mi0 = GetPath fuseCfg" "\<not> bad_path (m_Path mi0)"
    using NewMount_ok(2) [OF new] by (auto simp: GetPath_def cfg_at_def split: option.split)
  have "m_MountStu mi = MountStuMounted" "m_MountMode mi = MountModeRead OR MountModeWrite OR MountModeDel" "m_Path mi = m_Path mi0"
    using Mount_mounted [OF mnt] mi by (simp_all add: CfaMountInfo.extend_def CfaMountInfo.truncate_def)
  moreover from this have "checkMount (m_Path mi) MountModeWrite (CfaMountInfo.truncate mi) = None"
    using path by (simp add: checkMount_def CfaMountInfo.truncate_def MountModeRead_def MountModeWrite_def MountModeDel_def)
  ultimately show ?thesis using load srv path by simp
qed

section \<open>The goroutine that waits for signals\<close>

definition logger_ok :: "levels \<Rightarrow> Logger \<Rightarrow> bool" where
  "logger_ok st log \<longleftrightarrow> (\<exists>a. log_AtomicLevel log = Some a \<and> a < length st)"

definition levels_ok :: "levels \<Rightarrow> bool" where
  "levels_ok st \<longleftrightarrow> (\<forall>l \<in> set st. DebugLevel \<le> l \<and> l \<le> FatalLevel)"

definition process_ok :: "Process \<Rightarrow> bool" where
  "process_ok p \<longleftrightarrow> levels_ok (pr_levels p) \<and> logger_ok (pr_levels p) (pr_FuseLog p) \<and> logger_ok (pr_levels p) (pr_mountLog p)"

lemma levels_upd: "levels_ok st \<Longrightarrow> DebugLevel \<le> l \<Longrightarrow> l \<le> FatalLevel \<Longrightarrow> levels_ok (st[a := l])"
  using set_update_subset_insert [of st a l] by (auto simp: levels_ok_def)

text \<open>Lowering and raising a level by one, inside of the bounds that the code checks.\<close>

lemma level_steps:
  assumes "levels_ok st" and "logger_ok st log"
  obtains level down up where "Logger_Level log st = Ret level"
    and "(if level > DebugLevel then Logger_SetLevel log (level - 1) st else Ret st) = Ret down"
    and "(if level < PanicLevel then Logger_SetLevel log (level + 1) st else Ret st) = Ret up"
    and "levels_ok down" and "length down = length st" and "levels_ok up" and "length up = length st"
proof -
  obtain a where a: "log_AtomicLevel log = Some a" "a < length st" using assms(2) by (auto simp: logger_ok_def)
  then have l: "Logger_Level log st = Ret (st ! a)" and s: "\<And>l. Logger_SetLevel log l st = Ret (st[a := l])"
    by (simp_all add: Logger_Level_def Logger_SetLevel_def)
  have b: "DebugLevel \<le> st ! a" "st ! a \<le> FatalLevel" using assms(1) a(2) by (simp_all add: levels_ok_def)
  let ?down = "if st ! a > DebugLevel then st[a := st ! a - 1] else st"
    and ?up = "if st ! a < PanicLevel then st[a := st ! a + 1] else st"
  have "levels_ok ?down" "levels_ok ?up" using b levels_upd [OF assms(1)] assms(1) by (simp_all add: level_defs)
  then show thesis using that [OF l, of ?down ?up] s by simp
qed

lemma logger_ok_cong: "length st' = length st \<Longrightarrow> logger_ok st' log = logger_ok st log"
  by (simp add: logger_ok_def)

lemma SetLogLevel_ok:
  assumes "levels_ok st" and "logger_ok st log"
  shows "\<exists>st'. SetLogLevel log flag st = Ret st' \<and> levels_ok st' \<and> length st' = length st"
proof -
  obtain level down up where "Logger_Level log st = Ret level"
      "(if level > DebugLevel then Logger_SetLevel log (level - 1) st else Ret st) = Ret down"
      "(if level < PanicLevel then Logger_SetLevel log (level + 1) st else Ret st) = Ret up"
      "levels_ok down" "length down = length st" "levels_ok up" "length up = length st"
    by (rule level_steps [OF assms]) blast
  then show ?thesis by (cases "flag < 0") (simp_all add: SetLogLevel_def)
qed

lemma exitSign_goes_on:
  assumes ok: "process_ok p" and sig: "\<not> exit_signal sig"
  shows "\<exists>st d. exitSign_round env unmounts sig p s = Ret (True, p\<lparr> pr_levels := st, pr_debug := d \<rparr>, s) \<and>
     process_ok (p\<lparr> pr_levels := st, pr_debug := d \<rparr>)"
proof -
  have p: "levels_ok (pr_levels p)" "logger_ok (pr_levels p) (pr_FuseLog p)" "logger_ok (pr_levels p) (pr_mountLog p)"
    using ok by (simp_all add: process_ok_def)
  obtain level down up where l: "Logger_Level (pr_FuseLog p) (pr_levels p) = Ret level"
      "(if level > DebugLevel then Logger_SetLevel (pr_FuseLog p) (level - 1) (pr_levels p) else Ret (pr_levels p)) = Ret down"
      "(if level < PanicLevel then Logger_SetLevel (pr_FuseLog p) (level + 1) (pr_levels p) else Ret (pr_levels p)) = Ret up"
      "levels_ok down" "length down = length (pr_levels p)" "levels_ok up" "length up = length (pr_levels p)"
    by (rule level_steps [OF p(1,2)]) blast
  note m = logger_ok_cong [OF l(5)] logger_ok_cong [OF l(7)]
  obtain st1 where st1: "SetLogLevel (pr_mountLog p) (- 1) down = Ret st1" "levels_ok st1" "length st1 = length down"
    using SetLogLevel_ok [OF l(4)] p(3) m by blast
  obtain st2 where st2: "SetLogLevel (pr_mountLog p) 1 up = Ret st2" "levels_ok st2" "length st2 = length up"
    using SetLogLevel_ok [OF l(6)] p(3) m by blast
  have k: "process_ok (p\<lparr> pr_levels := st, pr_debug := d \<rparr>)" if "levels_ok st" "length st = length (pr_levels p)" for st d
    using that p logger_ok_cong [OF that(2)] by (simp add: process_ok_def)
  have same: "p = p\<lparr> pr_levels := pr_levels p, pr_debug := pr_debug p \<rparr>" by simp
  show ?thesis
  proof (cases sig)
    case SIGUSR1
    then show ?thesis
      using l(1,2) st1 k [OF st1(2), of True] l(5) by (intro exI [of _ st1] exI [of _ True]) (simp add: exitSign_round_def)
  next
    case SIGUSR2
    then show ?thesis
      using l(1,3) st2 k [OF st2(2), of False] l(7) by (intro exI [of _ st2] exI [of _ False]) (simp add: exitSign_round_def)
  next
    case OtherSignal
    then show ?thesis
      using ok same by (intro exI [of _ "pr_levels p"] exI [of _ "pr_debug p"]) (simp add: exitSign_round_def)
  qed (use sig in \<open>simp_all add: exit_signal_def\<close>)
qed

lemma exitSign_unmounts:
  assumes "exit_signal sig" and "\<not> pr_closed p"
  shows "exitSign_round env unmounts sig p s = bindG (DelMount env (pr_mount p) s) (\<lambda>(m1, s1).
     Ret (False, p\<lparr> pr_serving := pr_serving p \<and> \<not> unmounts, pr_mount := m1, pr_closed := True \<rparr>, s1))"
  using assms by (auto simp: exit_signal_def exitSign_round_def)


section \<open>The main goroutine\<close>

text \<open>
  The main goroutine serves, waits for the channel, and ends. The steps: a signal is received and
  handled, the kernel takes the file system away (for instance \<^verbatim>\<open>fusermount -u\<close>), a client uses the mount, \<^verbatim>\<open>Serve\<close>
  returns, and the main goroutine gets past the channel.
\<close>

datatype MainState = Serving | Waiting | Exited

inductive main_step :: "'s Env \<Rightarrow> MainState \<times> bool \<times> Process \<times> 's \<Rightarrow> MainState \<times> bool \<times> Process \<times> 's \<Rightarrow> bool" for env where
  ms_signal: "exitSign_round env unmounts sig p s = Ret (goon, p', s') \<Longrightarrow> main_step env (pc, True, p, s) (pc, goon, p', s')"
| ms_unmounted: "main_step env (pc, g, p, s) (pc, g, p\<lparr> pr_serving := False \<rparr>, s)"
| ms_client: "m_MountStu m' = m_MountStu (pr_mount p) \<Longrightarrow> m_stopped m' = m_stopped (pr_mount p) \<Longrightarrow>
    main_step env (pc, g, p, s) (pc, g, p\<lparr> pr_mount := m' \<rparr>, s')"
| ms_serve: "\<not> pr_serving p \<Longrightarrow> main_step env (Serving, g, p, s) (Waiting, g, p, s)"
| ms_exit: "pr_closed p \<Longrightarrow> main_step env (Waiting, g, p, s) (Exited, g, p, s)"

definition main_init :: "MainState \<times> bool \<times> Process \<times> 's \<Rightarrow> bool" where
  "main_init x \<longleftrightarrow> (case x of (pc, g, p, s) \<Rightarrow> pc = Serving \<and> g \<and> process_ok p \<and> \<not> pr_closed p \<and> pr_serving p)"

definition main_inv :: "MainState \<times> bool \<times> Process \<times> 's \<Rightarrow> bool" where
  "main_inv x \<longleftrightarrow> (case x of (pc, g, p, s) \<Rightarrow> process_ok p \<and> (pr_closed p \<longleftrightarrow> \<not> g) \<and>
     (pr_closed p \<longrightarrow> m_MountStu (pr_mount p) = MountStuDel) \<and> (pc = Exited \<longrightarrow> pr_closed p) \<and> (pc = Serving \<or> \<not> pr_serving p))"

lemma main_step_inv: "main_step env x y \<Longrightarrow> main_inv x \<Longrightarrow> main_inv y"
proof (induction rule: main_step.induct)
  case (ms_signal unmounts sig p s goon p' s' pc)
  then have inv: "process_ok p" "\<not> pr_closed p" "pc \<noteq> Exited" "pc = Serving \<or> \<not> pr_serving p"
    by (auto simp: main_inv_def)
  show ?case
  proof (cases "exit_signal sig")
    case True
    then obtain m1 where "DelMount env (pr_mount p) s = Ret (m1, s')" and p': "\<not> goon"
        "p' = p\<lparr> pr_serving := pr_serving p \<and> \<not> unmounts, pr_mount := m1, pr_closed := True \<rparr>"
      using ms_signal(1) exitSign_unmounts [OF True inv(2), of env unmounts s] by (auto simp: go_simps)
    moreover from this(1) have "m_MountStu m1 = MountStuDel" by (rule DelMount_ends)
    ultimately show ?thesis using inv by (auto simp: main_inv_def process_ok_def)
  next
    case False
    then show ?thesis
      using ms_signal(1) inv exitSign_goes_on [OF inv(1) False, of env unmounts s] by (auto simp: main_inv_def)
  qed
qed (auto simp: main_inv_def process_ok_def)

interpretation client_process: invariant_system main_init "main_step env" main_inv for env
  by unfold_locales (auto simp: main_init_def main_inv_def dest: main_step_inv)

text \<open>
  The process ends only after a signal to exit has been handled, with the mount deleted and nothing
  served any more. So a file system that is taken away from outside leaves the process waiting, with
  whatever the write cache holds.
\<close>

theorem process_exits_unmounted:
  assumes "main_init x" and "(main_step env)\<^sup>*\<^sup>* x (pc, running, p, s)"
  shows "process_ok p \<and> (pc = Exited \<longrightarrow> \<not> running \<and> m_MountStu (pr_mount p) = MountStuDel \<and> \<not> pr_serving p)"
  using client_process.inv_reachable [OF assms] by (auto simp: main_inv_def)

section \<open>Witness\<close>

definition wit_process :: "CfaMountInfo \<Rightarrow> Process" where
  "wit_process m =
     (let (log1, st1) = DefaultLogger []; (log2, st2) = NewLogger (BuildLogCfg Map.empty) st1
      in \<lparr> pr_FuseLog = log1, pr_mountLog = log2, pr_levels = st2, pr_debug = False, pr_serving = True, pr_mount = m,
           pr_closed = False \<rparr>)"

lemma strToLevel_bounds: "DebugLevel \<le> strToLevel l" "strToLevel l \<le> FatalLevel"
  by (simp_all add: strToLevel_def Let_def level_defs)

lemma wit_process_ok: "process_ok (wit_process m)" "pr_mount (wit_process m) = m" "\<not> pr_closed (wit_process m)"
  using strToLevel_bounds
  by (simp_all add: wit_process_def DefaultLogger_def NewLogger_def new_core_def process_ok_def levels_ok_def logger_ok_def)


end
