(* ===== verification/Cfa_Ls.thy ===== *)
theory Cfa_Ls
  imports Cfa_Fuse
begin

text \<open>
  Listing a directory, end to end: \<^verbatim>\<open>OpenDir\<close> of the FUSE layer, \<^verbatim>\<open>Readdir\<close> and the fetching goroutine run
  interleaved against a server that answers \<^verbatim>\<open>ReadDirEx\<close> page by page. Every entry is delivered once and
  in order, and a reader that waits is woken.
\<close>

section \<open>What the client relies on\<close>

text \<open>The entries after a name, all of them for the empty name.\<close>

definition after :: "string \<Rightarrow> Dentry list \<Rightarrow> Dentry list" where
  "after key L = (if key = [] then L else tl (dropWhile (\<lambda>d. d_Name d \<noteq> key) L))"

definition reply_page :: "json \<Rightarrow> Dentry list option" where
  "reply_page j =
     (case j of
        JObj ms \<Rightarrow>
          (case jmember ''data'' ms of
             Some v \<Rightarrow> (case dec_list dec_Dentry zero_Dentry v [] of (ds, ok) \<Rightarrow> if ok then Some ds else None)
           | None \<Rightarrow> None)
      | _ \<Rightarrow> None)"

text \<open>A server whose successful replies are the next entries of the listing \<open>L\<close>, as many as asked for.\<close>

definition listing_ok :: "'s poster \<Rightarrow> ProxyClient \<Rightarrow> string \<Rightarrow> Dentry list \<Rightarrow> bool" where
  "listing_ok post c path L \<longleftrightarrow>
     0 \<le> pc_RetryTimes c \<and>
     (\<forall>s key n s' j.
        post s (pc_Host c @ UrlReaddirEx) (enc_ReaddirExRequest \<lparr> req_Path = path, rdx_StartKey = key, rdx_Count = n \<rparr>) = (s', Inr j) \<longrightarrow>
        reply_code j \<noteq> None \<and> (reply_code j = Some 0 \<longrightarrow> reply_page j = Some (take (unat n) (after key L))))"

text \<open>Names tell the entries apart and are not empty; every entry carries its attributes.\<close>

definition listing :: "Dentry list \<Rightarrow> bool" where
  "listing L \<longleftrightarrow> distinct (map d_Name L) \<and> (\<forall>d \<in> set L. d_Name d \<noteq> [] \<and> d_Info d \<noteq> None)"

definition listed :: "Dentry \<Rightarrow> DirEntry" where
  "listed d = \<lparr> de_Mode = ino_Mode (the (d_Info d)), de_Name = d_Name d, de_Ino = d_Inode d \<rparr>"

lemma dec_ReaddirResponse_page:
  assumes "dec_ReaddirResponse j old = (r, True)" and "reply_code j \<noteq> None"
  shows "reply_code j = Some (resp_Code r)" and "reply_page j = Some ds \<Longrightarrow> rd_Dentrys r = ds"
proof -
  obtain n ms where ms: "j = JObj ms" "jmember ''code'' ms = Some (JNum n)" "reply_code j = Some n"
    using assms(2) reply_code_Some by fastforce
  then show "reply_code j = Some (resp_Code r)" using assms(1)
    by (auto simp: dec_ReaddirResponse_def dec_struct_def jfield_def split: prod.splits if_splits)
  assume "reply_page j = Some ds"
  then obtain v where v: "jmember ''data'' ms = Some v" "dec_list dec_Dentry zero_Dentry v [] = (ds, True)"
    using ms(1) by (auto simp: reply_page_def split: option.splits prod.splits if_splits)
  then have "dec_list dec_Dentry zero_Dentry v old' = (ds, True)" for old'
    by (auto simp: dec_list_def split: json.splits)
  then show "rd_Dentrys r = ds" using assms(1) ms(1) v(1)
    by (auto simp: dec_ReaddirResponse_def dec_struct_def jfield_def split: prod.splits)
qed

lemma ReadDirEx_page:
  assumes ok: "listing_ok post c path L" and call: "px_ReadDirEx post c s path key n = (s', resp, None)"
    and code: "resp_Code resp = 0"
  shows "rd_Dentrys resp = take (unat n) (after key L)"
proof -
  let ?rq = "enc_ReaddirExRequest \<lparr> req_Path = path, rdx_StartKey = key, rdx_Count = n \<rparr>"
  have ne: "[0..pc_RetryTimes c] \<noteq> []" using ok by (simp add: listing_ok_def)
  obtain s0 r0 where d: "DoPostWithJson post dec_ReaddirResponse s0 (pc_Host c @ UrlReaddirEx) ?rq r0 = (s', resp, None)"
    using tryReqProxy_loop_last [where P = "\<lambda>_. True", OF _ ne _ call [unfolded px_ReadDirEx_def tryReqProxy_def]] by blast
  then obtain j where j: "post s0 (pc_Host c @ UrlReaddirEx) ?rq = (s', Inr j)" "dec_ReaddirResponse j r0 = (resp, True)"
    by (auto simp: DoPostWithJson_def split: prod.splits sum.splits if_splits)
  then have p: "reply_code j \<noteq> None" "reply_code j = Some 0 \<longrightarrow> reply_page j = Some (take (unat n) (after key L))"
    using ok by (auto simp: listing_ok_def)
  from dec_ReaddirResponse_page [OF j(2) p(1)] p(2) code show ?thesis by simp
qed

section \<open>Pages\<close>

definition key_of :: "Dentry list \<Rightarrow> string" where
  "key_of xs = (if xs = [] then [] else d_Name (last xs))"

lemma after_key_of:
  assumes L: "listing L" and k: "k \<le> length L"
  shows "after (key_of (take k L)) L = drop k L"
proof (cases "k = 0")
  case True
  then show ?thesis by (simp add: key_of_def after_def)
next
  case False
  then obtain i where i: "k = Suc i" by (cases k) auto
  have last: "last (take k L) = L ! i" using i k by (simp add: take_Suc_conv_app_nth)
  have name: "d_Name (L ! i) \<noteq> []" using L i k by (simp add: listing_def)
  have "d_Name (L ! j) \<noteq> d_Name (L ! i)" if "j < i" for j
    using L that i k nth_eq_iff_index_eq [of "map d_Name L" j i] by (simp add: listing_def)
  then have "\<forall>d \<in> set (take i L). d_Name d \<noteq> d_Name (L ! i)" using i k by (auto simp: in_set_conv_nth)
  then have "dropWhile (\<lambda>d. d_Name d \<noteq> d_Name (L ! i)) (take i L @ L ! i # drop (Suc i) L) = L ! i # drop (Suc i) L"
    by (simp add: dropWhile_append2)
  then have "tl (dropWhile (\<lambda>d. d_Name d \<noteq> d_Name (L ! i)) L) = drop (Suc i) L"
    using i k id_take_nth_drop [of i L] by simp
  moreover have "take k L \<noteq> []" using i k by (cases L) auto
  ultimately show ?thesis using last name i by (simp add: key_of_def after_def)
qed

lemma dir_entries_listed:
  "(\<forall>d \<in> set es. d_Info d \<noteq> None) \<Longrightarrow> dir_entries es = Ret (map listed es)"
  by (induction es) (auto simp: dir_entry_def listed_def)


section \<open>The invariant\<close>

text \<open>What has been fetched so far: the entries delivered and the entries in the queue.\<close>

definition fetched :: "Dentry list \<Rightarrow> 's ls_state \<Rightarrow> Dentry list" where
  "fetched L st = take (length (ls_stream st)) L @ dir_dirList (ls_dir st)"

definition part_of :: "Dentry list \<Rightarrow> Dentry list \<Rightarrow> bool" where
  "part_of xs L \<longleftrightarrow> xs = take (length xs) L"

definition fetch_inv :: "Dentry list \<Rightarrow> 's ls_state \<Rightarrow> bool" where
  "fetch_inv L st \<longleftrightarrow>
     (let dir = ls_dir st; xs = fetched L st; n = unat (dir_lsSize dir);
          going = (dir_lsStatus dir = LsFetching \<and> dir_startKey dir = key_of xs)
      in part_of xs L \<and>
         (case ls_fetch st of
            FTop \<Rightarrow> going
          | FAsk \<Rightarrow> going
          | FGot ds \<Rightarrow> going \<and> ds = take n (drop (length xs) L)
          | FNotify ds \<Rightarrow> if length ds < n then dir_lsStatus dir = LsDone \<and> xs = L else going
          | FCache ds \<Rightarrow> if length ds < n then dir_lsStatus dir = LsDone \<and> xs = L else going
          | FErr err \<Rightarrow> going \<and> err \<noteq> None
          | FErrNotify \<Rightarrow> dir_lsStatus dir = LsError \<and> dir_Error dir \<noteq> None
          | FEnd \<Rightarrow> dir_lsStatus dir = LsDone \<and> xs = L \<or> dir_lsStatus dir = LsError \<and> dir_Error dir \<noteq> None))"

text \<open>
  The reader: while it runs, its stream is a part of the listing; when it waits and there is no token,
  the goroutine is about to leave one, or goes on fetching and has too few entries for the reader.
\<close>

definition wake_inv :: "u64 \<Rightarrow> 's ls_state \<Rightarrow> bool" where
  "wake_inv count st \<longleftrightarrow>
     (ls_pc st = LsWait \<and> \<not> dir_ch (ls_dir st) \<longrightarrow>
        ls_fetch st = FErrNotify \<or> (\<exists>ds. ls_fetch st = FNotify ds) \<or>
        (dir_lsStatus (ls_dir st) = LsFetching \<and> of_nat (length (dir_dirList (ls_dir st))) < count \<and>
         count * 2 \<le> dir_cacheSize (ls_dir st)))"

definition ls_inv :: "int \<Rightarrow> Dentry list \<Rightarrow> 's ls_state \<Rightarrow> bool" where
  "ls_inv count L st \<longleftrightarrow>
     0 < unat (dir_lsSize (ls_dir st)) \<and>
     (case ls_pc st of
        LsReturn ds r \<Rightarrow> ds = map listed L \<and> r = fuse_OK \<or> ds = [] \<and> (\<exists>err. err \<noteq> None \<and> r = parseErr err)
      | _ \<Rightarrow> ls_stream st = map listed (take (length (ls_stream st)) L) \<and> fetch_inv L st \<and> wake_inv (word_of_int count) st)"

lemma part_of_drop: "part_of xs L \<Longrightarrow> xs @ drop (length xs) L = L"
  by (metis append_take_drop_id part_of_def)

lemma part_of_grow:
  assumes "part_of xs L"
  shows "part_of (xs @ take n (drop (length xs) L)) L"
    and "length (take n (drop (length xs) L)) < n \<Longrightarrow> xs @ take n (drop (length xs) L) = L"
proof -
  have L: "L = xs @ drop (length xs) L" using part_of_drop [OF assms] by simp
  let ?d = "drop (length xs) L"
  have "take (length (xs @ take n ?d)) (xs @ ?d) = xs @ take n ?d" by (cases "n \<le> length ?d") auto
  then show "part_of (xs @ take n ?d) L" using L by (metis part_of_def)
  show "xs @ take n ?d = L" if "length (take n ?d) < n"
    using that L by (metis append_self_conv length_take min.absorb_iff1 min_less_iff_conj nless_le not_less take_all)
qed

lemma part_of_key:
  "listing L \<Longrightarrow> part_of xs L \<Longrightarrow> after (key_of xs) L = drop (length xs) L"
  by (metis after_key_of length_take min.bounded_iff nat_le_linear part_of_def take_all)

lemma part_of_info: "listing L \<Longrightarrow> part_of xs L \<Longrightarrow> \<forall>d \<in> set xs. d_Info d \<noteq> None"
  by (metis in_set_takeD listing_def part_of_def)


section \<open>The steps keep it\<close>

lemma cache_entries_client [simp]: "m_proxyClient (cache_entries env path ds m) = m_proxyClient m"
  by (induction ds arbitrary: m) (simp_all add: cache_entries_def dentry_Set_def)

lemma fetch_step_returns:
  assumes "0 < unat (dir_lsSize dir)"
  shows "\<exists>pc' dir' m' s'. fetch_step env path pc dir m s = Ret (pc', dir', m', s') \<and>
     dir_lsSize dir' = dir_lsSize dir \<and> m_proxyClient m' = m_proxyClient m"
  using assms by (cases pc) (auto simp: fetch_step_def ch_notify_def Let_def split: prod.splits)

lemma fetched_same:
  "length (ls_stream st') = length (ls_stream st) \<Longrightarrow> dir_dirList (ls_dir st') = dir_dirList (ls_dir st) \<Longrightarrow>
   fetched L st' = fetched L st"
  by (simp add: fetched_def)

lemma take_min_length [simp]: "take (min (length xs) n) xs = take n xs"
  by (simp add: min_def)

text \<open>A step of the goroutine, seen from a reader that has not returned.\<close>

lemma fetch_inv_step:
  assumes ok: "listing_ok (env_post env) (m_proxyClient (ls_mount st)) path L" and L: "listing L"
    and n: "0 < unat (dir_lsSize (ls_dir st))" and inv: "fetch_inv L st"
    and step: "ls_fetch_step env path st = Ret st'"
  shows "fetch_inv L st'"
proof -
  define xs where "xs = fetched L st"
  define k where "k = unat (dir_lsSize (ls_dir st))"
  have part: "part_of xs L" using inv by (simp add: fetch_inv_def xs_def Let_def)
  show ?thesis
  proof (cases "ls_fetch st")
    case FTop
    then show ?thesis using inv step
      by (auto simp: ls_fetch_step_def fetch_step_def fetch_inv_def Let_def fetched_def split: if_splits)
  next
    case FAsk
    then have key: "dir_startKey (ls_dir st) = key_of xs" "dir_lsStatus (ls_dir st) = LsFetching"
      using inv by (simp_all add: fetch_inv_def xs_def Let_def)
    obtain s' resp err where call:
      "px_ReadDirEx (env_post env) (m_proxyClient (ls_mount st)) (ls_server st) path (key_of xs) (dir_lsSize (ls_dir st)) = (s', resp, err)"
      by (metis prod_cases3)
    have "rd_Dentrys resp = take k (drop (length xs) L)" if "err = None" "resp_Code resp = 0"
      using ReadDirEx_page [OF ok, of "ls_server st" "key_of xs"] call that part_of_key [OF L part] by (simp add: k_def)
    moreover have "st' = st\<lparr> ls_fetch := (if err \<noteq> None \<or> resp_Code resp \<noteq> 0 then FErr (toErr err (resp_Code resp)) else FGot (rd_Dentrys resp)),
        ls_server := s' \<rparr>"
      using FAsk step call key by (cases "err \<noteq> None \<or> resp_Code resp \<noteq> 0") (simp_all add: ls_fetch_step_def fetch_step_def)
    moreover from this have "fetched L st' = xs" "ls_dir st' = ls_dir st" by (simp_all add: fetched_def xs_def)
    moreover have "toErr err (resp_Code resp) \<noteq> None" if "err \<noteq> None \<or> resp_Code resp \<noteq> 0" using that toErr_None_iff by blast
    ultimately show ?thesis using key part
      by (cases "err \<noteq> None \<or> resp_Code resp \<noteq> 0") (simp_all add: fetch_inv_def Let_def k_def)
  next
    case (FGot ds)
    then have ds: "ds = take k (drop (length xs) L)" and st: "dir_lsStatus (ls_dir st) = LsFetching"
      using inv by (simp_all add: fetch_inv_def xs_def k_def Let_def)
    have xs': "fetched L st' = xs @ ds" "ls_fetch st' = FNotify ds" "dir_lsSize (ls_dir st') = dir_lsSize (ls_dir st)"
        "dir_lsStatus (ls_dir st') = (if length ds < k then LsDone else LsFetching)"
        "\<not> length ds < k \<longrightarrow> ds \<noteq> [] \<and> dir_startKey (ls_dir st') = d_Name (last ds)"
      using FGot step st
      by (auto simp: ls_fetch_step_def fetch_step_def Let_def fetched_def xs_def k_def last_conv_nth split: if_splits)
    have p: "part_of (xs @ ds) L" and q: "length ds < k \<Longrightarrow> xs @ ds = L"
      unfolding ds by (rule part_of_grow [OF part])+
    have key: "ds \<noteq> [] \<Longrightarrow> key_of (xs @ ds) = d_Name (last ds)" by (simp add: key_of_def)
    show ?thesis
    proof (cases "length ds < k")
      case True
      then show ?thesis using xs'(1-4) p q by (simp add: fetch_inv_def Let_def k_def)
    next
      case False
      then show ?thesis using xs' p key by (simp add: fetch_inv_def Let_def k_def)
    qed
  next
    case (FNotify ds)
    then show ?thesis using inv step
      by (auto simp: ls_fetch_step_def fetch_step_def fetch_inv_def Let_def fetched_def ch_notify_def)
  next
    case (FCache ds)
    then show ?thesis using inv step
      by (auto simp: ls_fetch_step_def fetch_step_def fetch_inv_def Let_def fetched_def split: if_splits)
  next
    case (FErr err)
    then show ?thesis using inv step
      by (auto simp: ls_fetch_step_def fetch_step_def fetch_inv_def Let_def fetched_def)
  next
    case FErrNotify
    then show ?thesis using inv step
      by (auto simp: ls_fetch_step_def fetch_step_def fetch_inv_def Let_def fetched_def ch_notify_def)
  next
    case FEnd
    then show ?thesis using inv step
      by (auto simp: ls_fetch_step_def fetch_step_def fetch_inv_def Let_def fetched_def)
  qed
qed

lemma wake_inv_step:
  assumes wake: "wake_inv count st" and inv: "fetch_inv L st" and step: "ls_fetch_step env path st = Ret st'"
  shows "wake_inv count st'"
proof (cases "ls_fetch st")
  case FTop
  then show ?thesis using wake step
    by (auto simp: ls_fetch_step_def fetch_step_def wake_inv_def split: if_splits)
next
  case FAsk
  then show ?thesis using wake step
    by (auto simp: ls_fetch_step_def fetch_step_def wake_inv_def split: prod.splits if_splits)
next
  case (FGot ds)
  then show ?thesis using wake step
    by (auto simp: ls_fetch_step_def fetch_step_def wake_inv_def Let_def split: if_splits)
next
  case (FNotify ds)
  then show ?thesis using step by (auto simp: ls_fetch_step_def fetch_step_def wake_inv_def ch_notify_def)
next
  case (FCache ds)
  then show ?thesis using wake step by (auto simp: ls_fetch_step_def fetch_step_def wake_inv_def)
next
  case (FErr err)
  then have "err \<noteq> None" using inv by (auto simp: fetch_inv_def Let_def)
  then show ?thesis using FErr step by (auto simp: ls_fetch_step_def fetch_step_def wake_inv_def)
next
  case FErrNotify
  then show ?thesis using step by (auto simp: ls_fetch_step_def fetch_step_def wake_inv_def ch_notify_def)
next
  case FEnd
  then show ?thesis using wake step by (auto simp: ls_fetch_step_def fetch_step_def wake_inv_def)
qed


lemma Readdir_round_ok:
  assumes "Readdir_round w dir = Ret (r, dir')"
  shows "dir_lsSize dir' = dir_lsSize dir \<and> dir_lsStatus dir' = dir_lsStatus dir \<and> dir_startKey dir' = dir_startKey dir \<and>
     dir_Error dir' = dir_Error dir \<and> dir_ch dir' = dir_ch dir \<and>
     (case r of
        RdError err \<Rightarrow> (dir_lsStatus dir = LsError \<or> dir_lsStatus dir = LsUserAbort) \<and> err = dir_Error dir
      | RdWaits \<Rightarrow> dir_lsStatus dir = LsFetching \<and> of_nat (length (dir_dirList dir)) < w \<and> dir_dirList dir' = dir_dirList dir \<and>
          w * 2 \<le> dir_cacheSize dir'
      | RdEntries es \<Rightarrow> (dir_lsStatus dir = LsFetching \<or> dir_lsStatus dir = LsDone) \<and> dir_dirList dir = es @ dir_dirList dir' \<and>
          (length es < unat w \<longrightarrow> dir_lsStatus dir = LsDone \<and> dir_dirList dir' = []))"
proof -
  have enough: "unat w \<le> length (dir_dirList dir)" if "\<not> of_nat (length (dir_dirList dir)) < w"
  proof -
    have "unat w \<le> unat (of_nat (length (dir_dirList dir)) :: u64)" using that by (simp add: word_le_nat_alt not_less)
    also have "\<dots> \<le> length (dir_dirList dir)" by (simp add: unat_of_nat)
    finally show ?thesis .
  qed
  have "make_Dentrys w = Ret ()" using assms by (auto simp: Readdir_round_def make_Dentrys_def split: if_splits)
  then show ?thesis using assms enough
    by (cases "dir_lsStatus dir") (auto simp: Readdir_round_def Let_def min_def split: if_splits)
qed

lemma fetch_inv_reader:
  assumes inv: "fetch_inv L st" and "fetched L st' = fetched L st" and "ls_fetch st' = ls_fetch st"
    and "dir_lsSize (ls_dir st') = dir_lsSize (ls_dir st)" and "dir_lsStatus (ls_dir st') = dir_lsStatus (ls_dir st)"
    and "dir_startKey (ls_dir st') = dir_startKey (ls_dir st)" and "dir_Error (ls_dir st') = dir_Error (ls_dir st)"
  shows "fetch_inv L st'"
  using assms unfolding fetch_inv_def Let_def by (cases "ls_fetch st") simp_all

lemma fetch_inv_status:
  assumes "fetch_inv L st"
  shows "dir_lsStatus (ls_dir st) \<noteq> LsUserAbort" and "dir_lsStatus (ls_dir st) = LsError \<Longrightarrow> dir_Error (ls_dir st) \<noteq> None"
    and "dir_lsStatus (ls_dir st) = LsDone \<Longrightarrow> fetched L st = L" and "part_of (fetched L st) L"
  using assms by (auto simp: fetch_inv_def Let_def split: fetch_pc.splits if_splits)

lemma ls_round_entries:
  assumes L: "listing L" and inv: "fetch_inv L st" and str: "ls_stream st = map listed (take (length (ls_stream st)) L)"
    and q: "dir_dirList (ls_dir st) = es @ rest"
  defines "stream \<equiv> ls_stream st @ map listed es"
  shows "dir_entries es = Ret (map listed es) \<and> stream = map listed (take (length stream) L) \<and>
     take (length stream) L @ rest = fetched L st"
proof -
  let ?n = "length (ls_stream st)"
  have n: "length (take ?n L) = ?n" using str by (metis length_map)
  have f: "fetched L st = take ?n L @ es @ rest" using q by (simp add: fetched_def)
  note part = fetch_inv_status(4) [OF inv]
  have "\<forall>d \<in> set es. d_Info d \<noteq> None" using part_of_info [OF L part] f by simp
  then have e: "dir_entries es = Ret (map listed es)" by (rule dir_entries_listed)
  have "length (take ?n L @ es @ rest) \<ge> length stream" using n by (simp add: stream_def)
  then have "take (length stream) L = take (length stream) (take ?n L @ es @ rest)"
    using part f by (metis min.absorb1 part_of_def take_take)
  also have "\<dots> = take ?n L @ es" using n by (simp add: stream_def)
  finally have t: "take (length stream) L = take ?n L @ es" .
  then have "map listed (take (length stream) L) = ls_stream st @ map listed es" using str by simp
  then show ?thesis using e t f by (simp add: stream_def)
qed

lemma ls_step_ok:
  assumes count: "0 < count" "count * 40 \<le> 2 ^ 48" and L: "listing L" and inv: "ls_inv count L st"
  shows "okG (ls_pc st = LsWait \<and> \<not> dir_ch (ls_dir st)) (ls_step count st) (\<lambda>st'. ls_inv count L st' \<and> ls_mount st' = ls_mount st)"
proof (cases "ls_pc st")
  case LsWait
  then show ?thesis
  proof (cases "dir_ch (ls_dir st)")
    case True
    then show ?thesis using LsWait inv
      by (auto simp: ls_step_def ch_receive_def ls_inv_def wake_inv_def intro!: fetch_inv_reader [of L st] simp: fetched_def)
  next
    case False
    then show ?thesis using LsWait by (simp add: ls_step_def ch_receive_def)
  qed
next
  case (LsReturn ds r)
  then show ?thesis using inv by (simp add: ls_step_def)
next
  case LsRound
  let ?w = "word_of_int count :: u64"
  have w: "uint ?w = count" using count by (simp add: uint_word_of_int)
  then have uw: "int (unat ?w) = count" by simp
  have mk: "make_Dentrys ?w = Ret ()" using count(2) w by (simp add: make_Dentrys_def)
  have "\<exists>x. Readdir_round ?w (ls_dir st) = Ret x" using mk by (simp add: Readdir_round_def Let_def)
  then obtain r dir' where rd: "Readdir_round ?w (ls_dir st) = Ret (r, dir')" by auto
  note d = Readdir_round_ok [OF rd]
  have n: "0 < unat (dir_lsSize (ls_dir st))" and f: "fetch_inv L st"
    and str: "ls_stream st = map listed (take (length (ls_stream st)) L)"
    using inv LsRound by (simp_all add: ls_inv_def)
  show ?thesis
  proof (cases r)
    case (RdError err)
    then have e: "err \<noteq> None" using d fetch_inv_status(1,2) [OF f] by auto
    then have "ls_inv count L (st\<lparr> ls_pc := LsReturn [] (parseErr err), ls_dir := dir'\<lparr> dir_lsStatus := LsUserAbort \<rparr> \<rparr>)"
      using n d by (auto simp: ls_inv_def)
    then show ?thesis using LsRound rd RdError e by (simp add: ls_step_def CloseDir_def)
  next
    case RdWaits
    then have "fetch_inv L (st\<lparr> ls_pc := LsWait, ls_dir := dir' \<rparr>)"
      using d by (intro fetch_inv_reader [OF f]) (simp_all add: fetched_def)
    then have "ls_inv count L (st\<lparr> ls_pc := LsWait, ls_dir := dir' \<rparr>)"
      using RdWaits d n str by (simp add: ls_inv_def wake_inv_def)
    then show ?thesis using LsRound rd RdWaits by (simp add: ls_step_def)
  next
    case (RdEntries es)
    then have q: "dir_dirList (ls_dir st) = es @ dir_dirList dir'" using d by simp
    note e = ls_round_entries [OF L f str q]
    let ?s = "ls_stream st @ map listed es"
    show ?thesis
    proof (cases "int (length es) < count")
      case True
      then have "length es < unat ?w" using uw by linarith
      then have fin: "dir_lsStatus (ls_dir st) = LsDone" "dir_dirList dir' = []" using d RdEntries by simp_all
      then have "?s = map listed L"
        using e fetch_inv_status(3) [OF f fin(1)] by simp
      then have "ls_inv count L (st\<lparr> ls_pc := LsReturn ?s fuse_OK, ls_stream := ?s, ls_dir := dir'\<lparr> dir_lsStatus := LsUserAbort \<rparr> \<rparr>)"
        using n d by (simp add: ls_inv_def)
      then show ?thesis using LsRound rd RdEntries e True by (simp add: ls_step_def CloseDir_def Let_def)
    next
      case False
      have "fetched L (st\<lparr> ls_stream := ?s, ls_dir := dir' \<rparr>) = fetched L st"
        using conjunct2 [OF conjunct2 [OF e]] by (simp add: fetched_def)
      then have "fetch_inv L (st\<lparr> ls_stream := ?s, ls_dir := dir' \<rparr>)"
        using d by (intro fetch_inv_reader [OF f]) simp_all
      then have "ls_inv count L (st\<lparr> ls_stream := ?s, ls_dir := dir' \<rparr>)"
        using d n e LsRound by (simp add: ls_inv_def wake_inv_def)
      then show ?thesis using LsRound rd RdEntries e False by (simp add: ls_step_def)
    qed
  qed
qed


section \<open>Properties\<close>

text \<open>Interleavings of the caller and the goroutine, from a directory that \<^verbatim>\<open>Opendir\<close> let in.\<close>

inductive lstep :: "'s Env \<Rightarrow> string \<Rightarrow> int \<Rightarrow> 's ls_state \<Rightarrow> 's ls_state \<Rightarrow> bool"
  for env path count where
  caller: "ls_step count st = Ret st' \<Longrightarrow> lstep env path count st st'"
| goroutine: "ls_fetch_step env path st = Ret st' \<Longrightarrow> lstep env path count st st'"

inductive_cases lstepE: "lstep env path count st st'"

lemma ls_fetch_step_ok:
  assumes ok: "listing_ok (env_post env) (m_proxyClient (ls_mount st)) path L" and L: "listing L" and inv: "ls_inv count L st"
  shows "okG False (ls_fetch_step env path st)
     (\<lambda>st'. ls_inv count L st' \<and> m_proxyClient (ls_mount st') = m_proxyClient (ls_mount st))"
proof -
  have n: "0 < unat (dir_lsSize (ls_dir st))" using inv by (simp add: ls_inv_def)
  obtain pc' dir' m' s' where f: "fetch_step env path (ls_fetch st) (ls_dir st) (ls_mount st) (ls_server st) = Ret (pc', dir', m', s')"
      "dir_lsSize dir' = dir_lsSize (ls_dir st)" "m_proxyClient m' = m_proxyClient (ls_mount st)"
    using fetch_step_returns [OF n] by metis
  let ?st = "st\<lparr> ls_fetch := pc', ls_dir := dir', ls_mount := m', ls_server := s' \<rparr>"
  have step: "ls_fetch_step env path st = Ret ?st" using f(1) by (simp add: ls_fetch_step_def)
  have "ls_inv count L ?st"
  proof (cases "\<exists>ds r. ls_pc st = LsReturn ds r")
    case True
    then show ?thesis using inv n f(2) by (auto simp: ls_inv_def)
  next
    case False
    then have "fetch_inv L st" "wake_inv (word_of_int count) st"
      using inv by (cases "ls_pc st"; simp add: ls_inv_def)+
    then have "fetch_inv L ?st" "wake_inv (word_of_int count) ?st"
      using fetch_inv_step [OF ok L n _ step] wake_inv_step [OF _ _ step] by blast+
    then show ?thesis using inv f(2) False by (cases "ls_pc st") (simp_all add: ls_inv_def)
  qed
  then show ?thesis using step f(3) by simp
qed

definition ls_start :: "'s Env \<Rightarrow> string \<Rightarrow> string \<Rightarrow> Dentry list \<Rightarrow> 's ls_state \<Rightarrow> bool" where
  "ls_start env root name L st \<longleftrightarrow>
     (\<exists>m s. fs_OpenDir root name m s = Inr st \<and> m_LsSize m \<noteq> 0 \<and>
        listing_ok (env_post env) (m_proxyClient m) (genPath root name) L)"

definition ls_ok :: "'s Env \<Rightarrow> string \<Rightarrow> int \<Rightarrow> Dentry list \<Rightarrow> 's ls_state \<Rightarrow> bool" where
  "ls_ok env path count L st \<longleftrightarrow>
     listing L \<and> 0 < count \<and> count * 40 \<le> 2 ^ 48 \<and> listing_ok (env_post env) (m_proxyClient (ls_mount st)) path L \<and> ls_inv count L st"

lemma ls_start_ok:
  assumes "ls_start env root name L st" and "listing L" and "0 < count" and "count * 40 \<le> 2 ^ 48"
  shows "ls_ok env (genPath root name) count L st"
proof -
  obtain m s where m: "fs_OpenDir root name m s = Inr st" "m_LsSize m \<noteq> 0"
      "listing_ok (env_post env) (m_proxyClient m) (genPath root name) L"
    using assms(1) by (auto simp: ls_start_def)
  then have "ls_inv count L st" "ls_mount st = m"
    by (auto simp: fs_OpenDir_def Opendir_def ls_inv_def fetch_inv_def wake_inv_def fetched_def part_of_def key_of_def
        Let_def unat_gt_0 split: if_splits)
  then show ?thesis using m assms by (simp add: ls_ok_def)
qed

lemma ls_ok_step: "lstep env path count st st' \<Longrightarrow> ls_ok env path count L st \<Longrightarrow> ls_ok env path count L st'"
proof (erule lstepE)
  assume inv: "ls_ok env path count L st" and step: "ls_step count st = Ret st'"
  then show "ls_ok env path count L st'"
    using ls_step_ok [of count L st] by (auto simp: ls_ok_def)
next
  assume inv: "ls_ok env path count L st" and step: "ls_fetch_step env path st = Ret st'"
  then show "ls_ok env path count L st'"
    using ls_fetch_step_ok [of env st path L count] by (auto simp: ls_ok_def)
qed

interpretation directory_listing: invariant_system
  "\<lambda>st. ls_start env root name L st \<and> listing L \<and> 0 < count \<and> count * 40 \<le> 2 ^ 48"
  "lstep env (genPath root name) count" "ls_ok env (genPath root name) count L"
  for env :: "'s Env" and root name and count :: int and L
  by unfold_locales (auto intro: ls_start_ok ls_ok_step)


lemma parseErr_not_OK: "err \<noteq> None \<Longrightarrow> parseErr err \<noteq> fuse_OK"
  by (auto simp: parseErr_def ToFuseStatus_cases posix_errnos_def posix_defs sys_EIO_def fuse_OK_def
      split: go_error.splits if_splits)

text \<open>
  C10: Listing a directory through FUSE. In every interleaving of \<^verbatim>\<open>OpenDir\<close> with the fetching goroutine,
  neither panics; when \<^verbatim>\<open>OpenDir\<close> returns with status OK, its stream is the listing of the server, every
  entry once and in order, and when it returns another status it returns no entry.
\<close>

theorem directory_listing_exact:
  assumes "ls_start env root name L st0" and "listing L" and "0 < count" and "count * 40 \<le> 2 ^ 48"
    and "(lstep env (genPath root name) count)\<^sup>*\<^sup>* st0 st"
  shows "ls_step count st \<noteq> Panic \<and> ls_fetch_step env (genPath root name) st \<noteq> Panic \<and>
     (\<forall>ds r. ls_pc st = LsReturn ds r \<longrightarrow> ds = (if r = fuse_OK then map listed L else []))"
proof -
  have ok: "ls_ok env (genPath root name) count L st"
    using directory_listing.inv_reachable [of env root name L st0 count st] assms by blast
  then have inv: "ls_inv count L st" and lok: "listing_ok (env_post env) (m_proxyClient (ls_mount st)) (genPath root name) L"
    by (simp_all add: ls_ok_def)
  have "ls_step count st \<noteq> Panic" using ls_step_ok [OF assms(3) _ assms(2) inv] assms(4) by auto
  moreover have "ls_fetch_step env (genPath root name) st \<noteq> Panic" using ls_fetch_step_ok [OF lok assms(2) inv] by auto
  moreover have "ds = (if r = fuse_OK then map listed L else [])" if "ls_pc st = LsReturn ds r" for ds r
    using inv that parseErr_not_OK by (auto simp: ls_inv_def)
  ultimately show ?thesis by blast
qed

text \<open>Steps of the goroutine alone.\<close>

primrec fetch_steps :: "nat \<Rightarrow> 's Env \<Rightarrow> string \<Rightarrow> 's ls_state \<Rightarrow> 's ls_state go" where
  "fetch_steps 0 env path st = Ret st"
| "fetch_steps (Suc k) env path st = bindG (ls_fetch_step env path st) (fetch_steps k env path)"

definition wakes :: "nat \<Rightarrow> 's Env \<Rightarrow> string \<Rightarrow> 's ls_state \<Rightarrow> bool" where
  "wakes k env path st \<longleftrightarrow> (\<exists>st'. fetch_steps k env path st = Ret st' \<and> dir_ch (ls_dir st'))"

lemma wakes_Suc: "ls_fetch_step env path st = Ret st' \<Longrightarrow> wakes k env path st' \<Longrightarrow> wakes (Suc k) env path st"
  by (simp add: wakes_def)

lemma wakes_notify: "ls_fetch st = FErrNotify \<or> ls_fetch st = FNotify ds \<Longrightarrow> wakes (Suc 0) env path st"
  by (auto simp: wakes_def ls_fetch_step_def fetch_step_def ch_notify_def)

lemma wakes_got:
  assumes "0 < unat (dir_lsSize (ls_dir st))" and "ls_fetch st = FGot ds \<or> (ls_fetch st = FErr err \<and> err \<noteq> None)"
  shows "wakes (Suc (Suc 0)) env path st"
proof -
  obtain st' where st': "ls_fetch_step env path st = Ret st'" "ls_fetch st' = FErrNotify \<or> ls_fetch st' = FNotify ds"
    using assms by (cases "length ds < unat (dir_lsSize (ls_dir st))"; cases "ds = []"; force simp: ls_fetch_step_def fetch_step_def Let_def)
  show ?thesis by (rule wakes_Suc [OF st'(1) wakes_notify [OF st'(2)]])
qed

lemma wakes_ask:
  assumes "0 < unat (dir_lsSize (ls_dir st))" and "ls_fetch st = FAsk"
  shows "wakes (Suc (Suc (Suc 0))) env path st"
proof -
  obtain s' resp err where call: "px_ReadDirEx (env_post env) (m_proxyClient (ls_mount st)) (ls_server st) path
      (dir_startKey (ls_dir st)) (dir_lsSize (ls_dir st)) = (s', resp, err)" by (metis prod_cases3)
  let ?bad = "err \<noteq> None \<or> resp_Code resp \<noteq> 0"
  let ?st = "st\<lparr> ls_fetch := (if ?bad then FErr (toErr err (resp_Code resp)) else FGot (rd_Dentrys resp)), ls_server := s' \<rparr>"
  have step: "ls_fetch_step env path st = Ret ?st"
    using call assms(2) by (cases ?bad) (simp_all add: ls_fetch_step_def fetch_step_def)
  have "ls_fetch ?st = FGot (rd_Dentrys resp) \<or> (ls_fetch ?st = FErr (toErr err (resp_Code resp)) \<and> toErr err (resp_Code resp) \<noteq> None)"
    using toErr_None_iff [of err "resp_Code resp"] by simp
  then have "wakes (Suc (Suc 0)) env path ?st" using assms(1) by (intro wakes_got) simp
  then show ?thesis by (rule wakes_Suc [OF step])
qed

lemma wakes_top:
  assumes "0 < unat (dir_lsSize (ls_dir st))" and "ls_fetch st = FTop" and "dir_lsStatus (ls_dir st) = LsFetching"
    and "of_nat (length (dir_dirList (ls_dir st))) \<le> dir_cacheSize (ls_dir st)"
  shows "wakes (Suc (Suc (Suc (Suc 0)))) env path st"
proof -
  have step: "ls_fetch_step env path st = Ret (st\<lparr> ls_fetch := FAsk \<rparr>)"
    using assms by (simp add: ls_fetch_step_def fetch_step_def)
  show ?thesis by (rule wakes_Suc [OF step wakes_ask]) (use assms in simp_all)
qed



section \<open>A run\<close>

text \<open>A server that holds one directory, a mount of it with pages of one entry, and a schedule.\<close>

definition demo_entry :: "string \<Rightarrow> u64 \<Rightarrow> Dentry" where
  "demo_entry name ino = \<lparr> d_Name = name, d_Inode = ino, d_Type = 1, d_Info = Some zero_InoInfo \<rparr>"

definition demo_dir :: "Dentry list" where
  "demo_dir = [demo_entry ''a'' 5, demo_entry ''b'' 6]"

definition enc_entry :: "Dentry \<Rightarrow> json" where
  "enc_entry d = JObj [(''name'', JStr (d_Name d)), (''ino'', enc_word (d_Inode d)), (''type'', enc_word (d_Type d)), (''info'', JObj [])]"

definition list_server :: "Dentry list \<Rightarrow> unit poster" where
  "list_server L s url j =
     (if url = UrlReaddirEx then
        (case dec_ReaddirExRequest j \<lparr> req_Path = [], rdx_StartKey = [], rdx_Count = 0 \<rparr> of (r, _) \<Rightarrow>
           (s, Inr (JObj [(''code'', JNum 0),
              (''data'', JArr (map enc_entry (take (unat (rdx_Count r)) (after (rdx_StartKey r) L))))])))
      else (s, Inl (ErrNew ''refused'')))"

definition demo_mount :: CfaMountInfo where
  "demo_mount =
     \<lparr> m_Path = ''/'', m_MountStu = MountStuMounted, m_MountMode = MountModeRead OR MountModeWrite OR MountModeDel,
       m_LsSize = 1, m_fileCache = NewFileCache 2, m_dentryCache = NewDentryCache 0 0, m_rwCache = None,
       m_proxyClient = mem_client, m_stopped = False \<rparr>"

definition demo_env :: "unit Env" where
  "demo_env = \<lparr> env_post = list_server demo_dir, env_now = 0, env_ord = rev, env_sched = rev, env_recv = rev, env_wait = no_waits \<rparr>"

definition demo_ls :: "unit ls_state" where
  "demo_ls = \<lparr> ls_pc = LsRound, ls_stream = [], ls_fetch = FTop, ls_dir = the (fst (Opendir ''/'' demo_mount)),
     ls_mount = demo_mount, ls_server = () \<rparr>"

text \<open>A schedule: \<^const>\<open>True\<close> for a step of the goroutine.\<close>

primrec ls_schedule :: "'s Env \<Rightarrow> string \<Rightarrow> int \<Rightarrow> bool list \<Rightarrow> 's ls_state \<Rightarrow> 's ls_state go" where
  "ls_schedule env path count [] st = Ret st"
| "ls_schedule env path count (b # bs) st =
     bindG (if b then ls_fetch_step env path st else ls_step count st) (ls_schedule env path count bs)"

lemma ls_schedule_reach:
  "ls_schedule env path count bs st = Ret st' \<Longrightarrow> (lstep env path count)\<^sup>*\<^sup>* st st'"
proof (induction bs arbitrary: st)
  case (Cons b bs)
  obtain st1 where "(if b then ls_fetch_step env path st else ls_step count st) = Ret st1"
      "ls_schedule env path count bs st1 = Ret st'"
    using Cons.prems by (auto simp: bindG_Ret_iff)
  then have "lstep env path count st st1" "(lstep env path count)\<^sup>*\<^sup>* st1 st'"
    using Cons.IH by (auto intro: lstep.intros split: if_splits)
  then show ?case by simp
qed simp

lemma dec_enc_entry: "d \<in> set demo_dir \<Longrightarrow> dec_Dentry (enc_entry d) zero_Dentry = (d, True)"
  by (auto simp: demo_dir_def demo_entry_def dec_Dentry_def enc_entry_def zero_Dentry_def dec_InoInfo_ptr_def dec_InoInfo_def
      json_simps zero_InoInfo_def)

lemma after_subset: "set (after key L) \<subseteq> set L"
proof -
  have "set (tl xs) \<subseteq> set xs" for xs :: "Dentry list" by (cases xs) auto
  then have "set (tl (dropWhile P L)) \<subseteq> set L" for P by (meson set_dropWhileD subsetD subsetI)
  then show ?thesis by (simp add: after_def)
qed

lemma demo_listing: "listing demo_dir" "listing_ok (list_server demo_dir) mem_client path demo_dir"
proof -
  show "listing demo_dir" by (simp add: listing_def demo_dir_def demo_entry_def)
  have page: "dec_list dec_Dentry zero_Dentry (JArr (map enc_entry ds)) [] = (ds, True)" if "set ds \<subseteq> set demo_dir" for ds
    using that dec_enc_entry by (induction ds) (auto simp: dec_list_def)
  have "set (take k (after key demo_dir)) \<subseteq> set demo_dir" for k key
    using after_subset [of key demo_dir] set_take_subset [of k "after key demo_dir"] by blast
  then show "listing_ok (list_server demo_dir) mem_client path demo_dir"
    using page by (auto simp: listing_ok_def mem_client_def list_server_def dec_enc_ReaddirExRequest reply_code_def
        reply_page_def json_simps)
qed

lemma demo_start: "ls_start demo_env ''/'' [] demo_dir demo_ls"
proof -
  have g: "genPath ''/'' [] = ''/''" by (simp add: genPath_def)
  have "fs_OpenDir ''/'' [] demo_mount () = Inr demo_ls" by code_simp
  moreover have "m_LsSize demo_mount \<noteq> 0" by (simp add: demo_mount_def)
  moreover have "listing_ok (env_post demo_env) (m_proxyClient demo_mount) (genPath ''/'' []) demo_dir"
    using demo_listing(2) by (simp add: demo_env_def demo_mount_def)
  ultimately show ?thesis unfolding ls_start_def by blast
qed

theorem directory_listing_exact_witness:
  "\<exists>st. (lstep demo_env (genPath ''/'' []) 2)\<^sup>*\<^sup>* demo_ls st \<and> ls_pc st = LsReturn (map listed demo_dir) fuse_OK"
proof -
  let ?bs = "[False, True, True, True, True, False, False, True, True, True, True, True, True, True, False, False, True, True, True, False, False]"
  obtain st ds where run: "ls_schedule demo_env (genPath ''/'' []) 2 ?bs demo_ls = Ret st" and ret: "ls_pc st = LsReturn ds fuse_OK"
  proof -
    have "case ls_schedule demo_env (genPath ''/'' []) 2 ?bs demo_ls of
        Ret st \<Rightarrow> (case ls_pc st of LsReturn ds r \<Rightarrow> r = fuse_OK | _ \<Rightarrow> False) | _ \<Rightarrow> False"
      by code_simp
    then show ?thesis using that by (auto split: go.splits ls_pc.splits)
  qed
  note reach = ls_schedule_reach [OF run]
  from directory_listing_exact [OF demo_start demo_listing(1) _ _ reach] ret
  have "ds = map listed demo_dir" by simp
  then show ?thesis using reach ret by blast
qed


end
