(* ===== verification/Cfa_Safe.thy ===== *)
theory Cfa_Safe
  imports Cfa_RSafe Cfa_Main Cfa_Ls
begin

text \<open>
  A mount as a whole. Every operation of the mount and every round of its goroutines keeps the
  invariants of the table of open files, of the cache of directory entries and of both data caches,
  and none of them panics, in whatever order they run, from the mount that \<^verbatim>\<open>NewMount\<close> makes until it is
  unmounted.
\<close>

section \<open>The invariant\<close>

text \<open>The prefetch factors for which the windows of requests of up to 512 MB stay inside 32 bits.\<close>

definition rc_times :: "RCache \<Rightarrow> bool" where
  "rc_times c \<longleftrightarrow> (rc_chPrefetch c \<noteq> None \<longrightarrow> 1 \<le> rc_PrefetchTimes c \<and> rc_PrefetchTimes c \<le> 1000000)"

definition rw_safe :: "RWCache \<Rightarrow> bool" where
  "rw_safe rwc \<longleftrightarrow> rw_ok DefaultBlockSize rwc \<and> rc_windows (rw_rCache rwc) \<and> \<not> rc_chClosed (rw_rCache rwc) \<and>
     rc_times (rw_rCache rwc)"

definition mount_inv :: "CfaMountInfo \<Rightarrow> bool" where
  "mount_inv m \<longleftrightarrow> fc_inv (m_fileCache m) \<and>
     (\<forall>i e. handles (m_fileCache m) i = Some e \<longrightarrow> fe_BlockSize e = DefaultBlockSize) \<and>
     dc_inv (m_dentryCache m) \<and> (\<forall>rwc. m_rwCache m = Some rwc \<longrightarrow> rw_safe rwc) \<and> \<not> m_stopped m"

text \<open>What every operation leaves: the invariant and the same client of the server.\<close>

definition kept :: "ProxyClient \<Rightarrow> CfaMountInfo \<Rightarrow> bool" where
  "kept pc m \<longleftrightarrow> mount_inv m \<and> m_proxyClient m = pc"

lemma keptD:
  assumes "kept pc m"
  shows "fc_inv (m_fileCache m)" "dc_inv (m_dentryCache m)" "m_proxyClient m = pc"
    "\<And>rwc. m_rwCache m = Some rwc \<Longrightarrow> rw_safe rwc"
    "\<And>i e. handles (m_fileCache m) i = Some e \<Longrightarrow> fe_BlockSize e = DefaultBlockSize"
  using assms by (simp_all add: kept_def mount_inv_def)

lemma kept_rwCache: "kept pc m \<Longrightarrow> rw_safe rwc \<Longrightarrow> kept pc (m\<lparr> m_rwCache := Some rwc \<rparr>)"
  by (simp add: kept_def mount_inv_def)

lemma kept_dentryCache: "kept pc m \<Longrightarrow> dc_inv dc \<Longrightarrow> kept pc (m\<lparr> m_dentryCache := dc \<rparr>)"
  by (simp add: kept_def mount_inv_def)

lemma kept_fileCache:
  assumes "kept pc m" and "fc_inv fc" and "\<And>i e. handles fc i = Some e \<Longrightarrow> fe_BlockSize e = DefaultBlockSize"
  shows "kept pc (m\<lparr> m_fileCache := fc \<rparr>)"
  using assms by (simp add: kept_def mount_inv_def)

lemma kept_dentries [intro]:
  assumes "kept pc m"
  shows "kept pc (dentry_Remove path m)" "reorders (env_ord env) \<Longrightarrow> kept pc (dentry_RemovePrefix env path m)"
    "kept pc (dentry_Set env path d m)"
proof -
  note dc = keptD(2) [OF assms]
  show "kept pc (dentry_Remove path m)"
    using kept_dentryCache [OF assms, of "snd (DentryCache_Remove path (m_dentryCache m))"] dc_Remove_ok [OF dc]
    by (simp add: dentry_Remove_def)
  show "kept pc (dentry_RemovePrefix env path m)" if "reorders (env_ord env)"
    using kept_dentryCache [OF assms, of "RemovePrefix (env_ord env) path (m_dentryCache m)"] RemovePrefix_ok [OF dc that]
    by (simp add: dentry_RemovePrefix_def)
  obtain err dc' where "DentryCache_Set (env_now env) path d (m_dentryCache m) = (err, dc')" by (metis prod.collapse)
  then show "kept pc (dentry_Set env path d m)"
    using kept_dentryCache [OF assms, of dc'] dc_Set_ok [OF dc] by (simp add: dentry_Set_def)
qed

lemma kept_look:
  assumes "kept pc m" and "DentryCache_Get now path (m_dentryCache m) = (hit, err, dc)"
  shows "kept pc (m\<lparr> m_dentryCache := dc \<rparr>)"
  using kept_dentryCache [OF assms(1), of dc] dc_look_ok [OF keptD(2) [OF assms(1)], of now path] assms(2)
  by (simp add: dc_look_def)

lemma rw_safe_kept: "rw_safe rwc \<Longrightarrow> rw_kept rwc rwc' \<Longrightarrow> rw_ok DefaultBlockSize rwc' \<Longrightarrow> rw_safe rwc'"
  using rmore_same [of "rw_rCache rwc'" "rw_rCache rwc"] by (simp add: rw_safe_def rw_kept_def rc_times_def)

text \<open>Looking a handle up.\<close>

lemma get_entry_kept:
  assumes k: "kept pc m"
  shows "okG False (get_entry env fd m) (\<lambda>(e, err, m'). kept pc m' \<and> m_rwCache m' = m_rwCache m \<and> (e = None \<longleftrightarrow> err \<noteq> None) \<and>
     (\<forall>e'. e = Some e' \<longrightarrow> handles (m_fileCache m') (unat (word_of_int fd :: u32)) = Some e' \<and> fe_BlockSize e' = DefaultBlockSize))"
proof (cases "handles (m_fileCache m) (unat (word_of_int fd :: u32))")
  case None
  then show ?thesis using get_entry_bad [OF keptD(1) [OF k] None, of env] k by simp
next
  case (Some e)
  let ?e = "e\<lparr> fe_LastAccessTime := env_now env \<rparr>"
  obtain fc where g: "get_entry env fd m = Ret (Some ?e, None, m\<lparr> m_fileCache := fc \<rparr>)" "fc_inv fc"
      "handles fc = (handles (m_fileCache m))(unat (word_of_int fd :: u32) \<mapsto> ?e)"
    using get_entry_ok [OF keptD(1) [OF k] Some, of env] by blast
  have b: "fe_BlockSize ?e = DefaultBlockSize" using keptD(5) [OF k Some] by simp
  have "kept pc (m\<lparr> m_fileCache := fc \<rparr>)"
    by (rule kept_fileCache [OF k g(2)]) (use keptD(5) [OF k] b g(3) in \<open>auto split: if_splits\<close>)
  then show ?thesis using g b by simp
qed

lemma okG_if: "(b \<Longrightarrow> okG w x Q) \<Longrightarrow> (\<not> b \<Longrightarrow> okG w y Q) \<Longrightarrow> okG w (if b then x else y) Q"
  by simp

lemma okG_waits: "okG w x Q \<Longrightarrow> okG True x Q"
  by (erule okG_mono) auto

lemma get_entry_bind:
  assumes k: "kept pc m" and none: "\<And>err m0. kept pc m0 \<Longrightarrow> okG w (f (None, err, m0)) Q"
    and some: "\<And>e m0. kept pc m0 \<Longrightarrow> handles (m_fileCache m0) (unat (word_of_int fd :: u32)) = Some e \<Longrightarrow>
      fe_BlockSize e = DefaultBlockSize \<Longrightarrow> okG w (f (Some e, None, m0)) Q"
  shows "okG w (bindG (get_entry env fd m) f) Q"
proof -
  obtain e err m0 where g: "get_entry env fd m = Ret (e, err, m0)" "kept pc m0" "e = None \<longleftrightarrow> err \<noteq> None"
      "\<And>e'. e = Some e' \<Longrightarrow> handles (m_fileCache m0) (unat (word_of_int fd :: u32)) = Some e' \<and> fe_BlockSize e' = DefaultBlockSize"
    using get_entry_kept [OF k, of env fd] by (auto simp: okG_returns)
  then show ?thesis using none some by (cases e) auto
qed

lemma LastIndex_in: "c \<in> set s \<Longrightarrow> 0 \<le> LastIndex c s"
proof -
  assume "c \<in> set s"
  then have "dropWhile (\<lambda>x. x \<noteq> c) (rev s) \<noteq> []" by auto
  moreover have "length (takeWhile (\<lambda>x. x \<noteq> c) (rev s)) + length (dropWhile (\<lambda>x. x \<noteq> c) (rev s)) = length s"
    by (metis length_append length_rev takeWhile_dropWhile_id)
  ultimately have "length (takeWhile (\<lambda>x. x \<noteq> c) (rev s)) < length s" by (cases "dropWhile (\<lambda>x. x \<noteq> c) (rev s)") simp_all
  then show ?thesis using \<open>c \<in> set s\<close> by (simp add: LastIndex_def)
qed

lemma parent_ok: "checkMount path perm m = None \<Longrightarrow> \<exists>dir. parent path = Ret dir"
proof -
  assume "checkMount path perm m = None"
  then have "\<not> bad_path path" by (auto simp: checkMount_def split: if_splits)
  then have "CHR ''/'' \<in> set path" by (cases path) (auto simp: bad_path_def)
  then show ?thesis using LastIndex_in by (fastforce simp: parent_def Let_def)
qed

section \<open>The caches\<close>

lemma DefaultBlockSize_nat: "unat DefaultBlockSize = 1048576"
  by (simp add: DefaultBlockSize_def)

definition env_ok :: "'s poster \<Rightarrow> 's Env \<Rightarrow> bool" where
  "env_ok post env \<longleftrightarrow> env_post env = post \<and> reorders (env_ord env) \<and> reorders (env_sched env) \<and> reorders (env_recv env)"

definition io_ok :: "byte list \<Rightarrow> u64 \<Rightarrow> bool" where
  "io_ok buffer offset \<longleftrightarrow> buffer \<noteq> [] \<and> unat offset < 2 ^ 63"

lemma io_request:
  assumes "io_ok buffer offset" and "length buffer \<le> 512 * 1024 * 1024" and "fe_BlockSize fe = DefaultBlockSize"
  shows "request_ok fe (length buffer) offset"
  using assms DefaultBlockSize_nat by (auto simp: request_ok_def io_ok_def simp flip: unat_gt_0)

lemma io_prefetch:
  assumes "io_ok buffer offset" and "length buffer \<le> 512 * 1024 * 1024" and t: "1 \<le> t" "t \<le> 1000000"
  shows "prefetch_ok DefaultBlockSize t (length buffer) offset"
proof -
  have "uint (word_of_int t :: u32) = t" using t by (simp add: uint_word_of_int_eq take_bit_int_eq_self)
  then have u: "unat (word_of_int t :: u32) = nat t" by (simp only: unat_eq_nat_uint)
  have "length buffer div 1048576 \<le> 512" using assms(2) div_le_mono [of "length buffer" "512 * 1024 * 1024" 1048576] by simp
  then have "(length buffer div 1048576 + 2) * nat t \<le> 514 * 1000000" using t by (intro mult_mono) auto
  then show ?thesis using assms(1,2) t by (simp add: prefetch_ok_def io_ok_def u DefaultBlockSize_nat)
qed

lemma RWCache_Read_kept:
  assumes ok: "server_ok post pc content" and s: "rw_safe rwc" and io: "io_ok buffer offset" "length buffer \<le> 512 * 1024 * 1024"
    and b: "fe_BlockSize fe = DefaultBlockSize"
  shows "okG True (RWCache_Read post pc fe buffer offset rwc s) (\<lambda>(r, rwc', s'). rw_safe rwc')"
proof -
  let ?rc = "rw_rCache rwc"
  have rw: "wc_inv DefaultBlockSize {} (rw_wCache rwc)" "rc_inv DefaultBlockSize {} ?rc" "rc_windows ?rc" "\<not> rc_chClosed ?rc" "rc_times ?rc"
    using s by (simp_all add: rw_safe_def rw_ok_def)
  obtain r rc0 where g: "GetFileBuffer fe True ?rc = (r, rc0)" by (metis prod.collapse)
  note m = rmore_same [OF GetFileBuffer_ok(7) [OF g]]
  have "rc_times rc0" using rw(5) m by (simp add: rc_times_def)
  then have keep: "rw_safe rwc'" if "kept_bufs DefaultBlockSize rc0 (rw_rCache rwc')" "rc_windows (rw_rCache rwc')" "rw_wCache rwc' = rw_wCache rwc" for rwc'
    using that s m by (simp add: rw_safe_def rw_ok_def kept_bufs_def rc_times_def)
  show ?thesis
    by (rule okG_mono [OF RWCache_Read_safe [OF ok rw(1-4) _ b io_request [OF io b]]])
       (use rw(5) io io_prefetch [OF io] keep g in \<open>auto simp: rc_times_def io_ok_def\<close>)
qed

lemma RWCache_Write_kept:
  assumes ok: "server_ok post pc content" and s: "rw_safe rwc" and io: "io_ok buffer offset" "length buffer \<le> 512 * 1024 * 1024"
    and b: "fe_BlockSize fe = DefaultBlockSize"
  shows "okG True (RWCache_Write post pc now fe buffer offset rwc s) (\<lambda>(r, rwc', s'). rw_safe rwc')"
proof -
  have rw: "wc_inv DefaultBlockSize {} (rw_wCache rwc)" "\<not> wc_chClosed (rw_wCache rwc)" "rc_inv DefaultBlockSize {} (rw_rCache rwc)"
    using s by (simp_all add: rw_safe_def rw_ok_def)
  have keep: "rw_safe rwc'" if "rw_write_post DefaultBlockSize content rwc s f off buffer (r, rwc', s')" for f off r rwc' s'
  proof -
    have w: "wc_inv DefaultBlockSize {} (rw_wCache rwc')" "\<not> wc_chClosed (rw_wCache rwc')" "released DefaultBlockSize (rw_rCache rwc) (rw_rCache rwc')"
      using that by (cases r; simp)+
    then show ?thesis
      using s released_inv [OF w(3)] rmore_same [of "rw_rCache rwc'" "rw_rCache rwc"]
      by (simp add: rw_safe_def rw_ok_def rc_times_def released_def)
  qed
  show ?thesis
    by (rule okG_mono [OF RWCache_Write_ok [OF ok rw b io_request [OF io b]]])
       (use io keep in \<open>auto simp: io_ok_def simp del: rw_write_post.simps\<close>)
qed

lemma RWCache_Flush_kept:
  assumes "server_ok post pc content" and "rw_safe rwc" and "reorders sched" "reorders recv"
  shows "okG True (RWCache_Flush sched recv post pc now fe rwc s) (\<lambda>(r, rwc', s'). rw_safe rwc')"
  by (rule okG_mono [OF RWCache_Flush_ok [where bs = DefaultBlockSize]])
     (use assms rw_safe_kept [of rwc] in \<open>auto simp: rw_safe_def reorders_def simp del: file_flushed.simps\<close>)

lemma RWCache_Release_kept:
  assumes "rw_safe rwc"
  shows "okG True (RWCache_Release fe rwc) (\<lambda>(r, rwc'). rw_safe rwc')"
proof -
  have inv: "rc_inv DefaultBlockSize {} (rw_rCache rwc)" using assms by (simp add: rw_safe_def rw_ok_def)
  have keep: "rw_safe (rwc\<lparr> rw_rCache := c' \<rparr>)" if "released DefaultBlockSize (rw_rCache rwc) c'" for c'
    using assms released_inv [OF that] rmore_same [of c' "rw_rCache rwc"] that
    by (simp add: rw_safe_def rw_ok_def rc_times_def released_def)
  have "okG True (Release fe (rw_rCache rwc)) (\<lambda>(err, c'). released DefaultBlockSize (rw_rCache rwc) c')"
    by (rule okG_mono [OF Release_ok [OF inv]]) auto
  then show ?thesis unfolding RWCache_Release_def by (rule okG_bind) (use keep in auto)
qed

section \<open>Operations on open files\<close>

lemma Open_kept:
  assumes k: "kept pc m"
  shows "okG False (Open env path flags mode0 m s) (\<lambda>(r, m', s'). kept pc m')"
proof (cases "checkMount path (open_perm flags) m")
  case (Some e)
  then show ?thesis using k by (simp add: Open_def)
next
  case None
  obtain dir where dir: "parent path = Ret dir" using parent_ok [OF None] by blast
  have new: "okG False (bindG (NewFile (env_now env) InvalidHandle e (m_fileCache m)) (\<lambda>(fd, err, fc).
      if err \<noteq> None then Ret ((InvalidHandle, errno E_POSIX_EBADF), m\<lparr> m_fileCache := fc \<rparr>, s1)
      else bindG (get_entry env fd (m\<lparr> m_fileCache := fc \<rparr>)) (\<lambda>(_, errFile, m1).
        if errFile \<noteq> None then Panic else bindG (parent path) (\<lambda>dir. Ret ((fd, None), dentry_Remove dir m1, s1)))))
      (\<lambda>(r, m', s'). kept pc m')" if b: "fe_BlockSize e = DefaultBlockSize" for e s1
  proof (cases "fileEntryIndex (m_fileCache m) < fileEntryVecSize (m_fileCache m)")
    case False
    then show ?thesis using NewFile_full [OF keptD(1) [OF k] False] k by simp
  next
    case True
    let ?i = "unat (fileEntryIndex (m_fileCache m))" and ?n = "env_now env"
    obtain fc where n: "NewFile ?n InvalidHandle e (m_fileCache m) = Ret (int ?i, None, fc)" "fc_inv fc"
        "handles fc = (handles (m_fileCache m))(?i \<mapsto> new_entry ?n ?i e)"
      using NewFile_spec [OF keptD(1) [OF k] True] by blast
    have kf: "kept pc (m\<lparr> m_fileCache := fc \<rparr>)"
      by (rule kept_fileCache [OF k n(2)]) (use keptD(5) [OF k] b n(3) in \<open>auto simp: new_entry_def split: if_splits\<close>)
    have "handles (m_fileCache (m\<lparr> m_fileCache := fc \<rparr>)) (unat (word_of_int (int ?i) :: u32)) = Some (new_entry ?n ?i e)"
      using n(3) by simp
    then obtain fc' where "get_entry env (int ?i) (m\<lparr> m_fileCache := fc \<rparr>) =
        Ret (Some ((new_entry ?n ?i e)\<lparr> fe_LastAccessTime := ?n \<rparr>), None, m\<lparr> m_fileCache := fc, m_fileCache := fc' \<rparr>)"
      using get_entry_ok [of "m\<lparr> m_fileCache := fc \<rparr>" "int ?i" _ env] n(2) by fastforce
    moreover from this have "kept pc (m\<lparr> m_fileCache := fc, m_fileCache := fc' \<rparr>)"
      using get_entry_kept [OF kf, of env "int ?i"] by simp
    ultimately show ?thesis using n(1) dir by (simp add: kept_dentries(1))
  qed
  obtain s1 resp err where p: "px_Open (env_post env) (m_proxyClient m) s path
      (if flags AND O_CREATE > 0 then OpenFlagCreate else OpenFlagOpen)
      (if mode0 AND S_IFMT \<noteq> S_IFLNK then (mode0 AND SysPerm) OR S_IFREG else mode0) = (s1, resp, err)"
    by (metis prod_cases3)
  show ?thesis
  proof (cases "err \<noteq> None \<or> resp_Code resp \<noteq> 0")
    case True
    then show ?thesis using None p k by (simp add: Open_def Let_def)
  next
    case False
    let ?e = "\<lparr> fe_Id = open_Id resp, fe_BlockSize = DefaultBlockSize, fe_Handle = - 1, fe_FilePath = path, fe_OpenFlag = flags,
      fe_Mode = (if mode0 AND S_IFMT \<noteq> S_IFLNK then (mode0 AND SysPerm) OR S_IFREG else mode0), fe_DirectIO = False,
      fe_Owner = [], fe_Pid = 0, fe_LastAccessTime = 0, fe_closed = False \<rparr>"
    have run: "Open env path flags mode0 m s = bindG (NewFile (env_now env) InvalidHandle ?e (m_fileCache m)) (\<lambda>(fd, err, fc).
        if err \<noteq> None then Ret ((InvalidHandle, errno E_POSIX_EBADF), m\<lparr> m_fileCache := fc \<rparr>, s1)
        else bindG (get_entry env fd (m\<lparr> m_fileCache := fc \<rparr>)) (\<lambda>(_, errFile, m1).
          if errFile \<noteq> None then Panic else bindG (parent path) (\<lambda>dir. Ret ((fd, None), dentry_Remove dir m1, s1))))"
      unfolding Open_def Let_def None p using False by simp
    show ?thesis unfolding run by (rule new) simp
  qed
qed

lemma close_cached_kept:
  assumes "server_ok post pc content" and "env_ok post env" and k: "kept pc m" and e: "handles (m_fileCache m) i = Some e"
    and d: "\<not> fe_DirectIO e" and r: "m_rwCache m = Some rwc"
  shows "okG True (close_cached env e rwc m s) (\<lambda>(err, m', s'). kept pc m' \<and> m_fileCache m' = m_fileCache m)"
proof -
  have s: "rw_safe rwc" by (rule keptD(4) [OF k r])
  have keep: "kept pc (m\<lparr> m_rwCache := Some rwc' \<rparr>)" if "rw_kept rwc rwc'" "rw_ok DefaultBlockSize rwc'" for rwc'
    using kept_rwCache [OF k rw_safe_kept [OF s that]] .
  show ?thesis
    by (rule okG_mono [OF close_cached_ok [OF _ keptD(1) [OF k] e d, where bs = DefaultBlockSize]])
       (use assms(1,2) s keep keptD(3) [OF k] in \<open>auto simp: env_ok_def reorders_def rw_safe_def simp del: file_flushed.simps\<close>)
qed

lemma Close_fd_kept:
  assumes ok: "server_ok post pc content" and env: "env_ok post env" and k: "kept pc m"
  shows "okG True (Close_fd env fd m s) (\<lambda>(err, m', s'). kept pc m')"
  unfolding Close_fd_def
proof (rule get_entry_bind [OF k], goal_cases)
  case (2 e m0)
  let ?h = "unat (word_of_int fd :: u32)"
  have "okG True (if UseRWCache e m0 then close_cached env e (the (m_rwCache m0)) m0 s else Ret (None, m0, s))
      (\<lambda>(err, m', s'). kept pc m' \<and> m_fileCache m' = m_fileCache m0)"
    using close_cached_kept [OF ok env 2(1,2)] 2(1) by (auto simp: UseRWCache_def)
  then show ?case
    unfolding prod.case option.case
  proof (rule okG_bind, goal_cases)
    case (1 y)
    obtain cerr m1 s1 where y: "y = (cerr, m1, s1)" by (metis prod_cases3)
    then have k1: "kept pc m1" "m_fileCache m1 = m_fileCache m0" using 1 by auto
    obtain fc where c: "CloseFile (word_of_int fd) (m_fileCache m1) = Ret (None, fc)" "fc_inv fc"
        "handles fc = (handles (m_fileCache m1))(?h := None)"
      using CloseFile_spec [OF keptD(1) [OF k1(1)], of "word_of_int fd" e] 2(2) k1(2) by auto
    have "kept pc (m1\<lparr> m_fileCache := fc \<rparr>)"
      by (rule kept_fileCache [OF k1(1) c(2)]) (use keptD(5) [OF k1(1)] c(3) in \<open>auto split: if_splits\<close>)
    then show ?case using y c k1 by simp
  qed
qed simp

lemma cached_call_kept:
  assumes m: "kept pc m" and cached: "\<And>rwc. m_rwCache m = Some rwc \<Longrightarrow> okG True (F rwc) (\<lambda>(r, rwc', s'). rw_safe rwc')"
    and direct: "okG True D (\<lambda>(r, m', s'). kept pc m')"
  shows "okG True (if UseRWCache e m then bindG (F (the (m_rwCache m))) (\<lambda>(r, rwc, s'). Ret (r, m\<lparr> m_rwCache := Some rwc \<rparr>, s')) else D)
     (\<lambda>(r, m', s'). kept pc m')"
proof (cases "UseRWCache e m")
  case True
  then obtain rwc where r: "m_rwCache m = Some rwc" by (auto simp: UseRWCache_def)
  have "okG True (bindG (F rwc) (\<lambda>(r, rwc, s'). Ret (r, m\<lparr> m_rwCache := Some rwc \<rparr>, s'))) (\<lambda>(r, m', s'). kept pc m')"
    by (rule okG_bind [OF cached [OF r]]) (use kept_rwCache [OF m] in auto)
  then show ?thesis using True r by simp
qed (use direct in simp)

lemma Read_fd_kept:
  assumes ok: "server_ok post pc content" and env: "env_ok post env" and k: "kept pc m" and io: "io_ok buffer offset"
  shows "okG True (Read_fd env fd buffer offset m s) (\<lambda>(r, m', s'). kept pc m')"
proof (cases "length buffer > 512 * 1024 * 1024")
  case False
  show ?thesis
    unfolding Read_fd_def if_not_P [OF False]
  proof (rule get_entry_bind [OF k], goal_cases)
    case (2 e m0)
    have F: "okG True (RWCache_Read (env_post env) (m_proxyClient m0) e buffer offset rwc s) (\<lambda>(r, rwc', s'). rw_safe rwc')"
      if "m_rwCache m0 = Some rwc" for rwc
      using RWCache_Read_kept [OF ok keptD(4) [OF 2(1) that] io _ 2(3)] False env keptD(3) [OF 2(1)] by (simp add: env_ok_def)
    have D: "okG True (case Reader_Read (env_post env) (m_proxyClient m0) s (fe_Id e) buffer offset of
        (s', buf, n, e) \<Rightarrow> Ret ((n, e, buf), m0, s')) (\<lambda>(r, m', s'). kept pc m')"
      using 2(1) by (simp split: prod.split)
    show ?case
      unfolding prod.case option.case
      by (rule okG_if, use 2(1) in simp, rule okG_bind [OF cached_call_kept [OF 2(1) F D]]) auto
  qed simp
qed (use k in \<open>simp add: Read_fd_def\<close>)

lemma Write_fd_kept:
  assumes ok: "server_ok post pc content" and env: "env_ok post env" and k: "kept pc m" and io: "io_ok buffer offset"
  shows "okG True (Write_fd env fd buffer offset m s) (\<lambda>(r, m', s'). kept pc m')"
proof (cases "length buffer > 512 * 1024 * 1024")
  case False
  show ?thesis
    unfolding Write_fd_def if_not_P [OF False]
  proof (rule get_entry_bind [OF k], goal_cases)
    case (2 e m0)
    have F: "okG True (RWCache_Write (env_post env) (m_proxyClient m0) (env_now env) e buffer offset rwc s) (\<lambda>(r, rwc', s'). rw_safe rwc')"
      if "m_rwCache m0 = Some rwc" for rwc
      using RWCache_Write_kept [OF ok keptD(4) [OF 2(1) that] io _ 2(3)] False env keptD(3) [OF 2(1)] by (simp add: env_ok_def)
    have D: "okG True (case Writer_Write (env_post env) (m_proxyClient m0) s (fe_Id e) buffer offset of
        (s', n, e) \<Rightarrow> Ret ((n, e), m0, s')) (\<lambda>(r, m', s'). kept pc m')"
      using 2(1) by (simp split: prod.split)
    show ?case
      unfolding prod.case option.case
      by (rule okG_if, use 2(1) in simp, rule okG_bind [OF cached_call_kept [OF 2(1) F D]]) auto
  qed simp
qed (use k in \<open>simp add: Write_fd_def\<close>)

lemma Flush_fd_kept:
  assumes ok: "server_ok post pc content" and env: "env_ok post env" and k: "kept pc m"
  shows "okG True (Flush_fd env fd m s) (\<lambda>(r, m', s'). kept pc m')"
  unfolding Flush_fd_def
proof (rule get_entry_bind [OF k], goal_cases)
  case (2 e m0)
  have F: "okG True (RWCache_Flush (env_sched env) (env_recv env) (env_post env) (m_proxyClient m0) (env_now env) e rwc s)
      (\<lambda>(r, rwc', s'). rw_safe rwc')" if "m_rwCache m0 = Some rwc" for rwc
    using RWCache_Flush_kept [OF ok keptD(4) [OF 2(1) that]] env keptD(3) [OF 2(1)] by (simp add: env_ok_def)
  have D: "okG True (Ret (None, m0, s)) (\<lambda>(r, m', s'). kept pc m')" using 2(1) by simp
  show ?case
    unfolding prod.case option.case
    by (rule okG_bind [OF cached_call_kept [OF 2(1) F D]]) (auto split: prod.split)
qed simp

section \<open>Attributes and sizes\<close>

lemma doStat_info: "doStat env path m s = (s', Inr d) \<Longrightarrow> \<exists>info. d_Info d = Some info"
  by (auto simp: doStat_def Let_def split: prod.splits if_splits)

lemma StatSize_kept:
  assumes "rw_safe rwc"
  shows "okG True (StatSize fe (rw_wCache rwc)) (\<lambda>((n, err), wc). err = None \<and> wc = rw_wCache rwc)"
  by (rule okG_mono [OF StatSize_ok [where bs = DefaultBlockSize]]) (use assms in \<open>auto simp: rw_safe_def rw_ok_def\<close>)

lemma Stat_size_kept:
  assumes k: "kept pc m" and d: "d_Info dentry = Some info"
  shows "okG True (Stat_size env path dentry m s) (\<lambda>(r, m', s'). kept pc m')"
proof (cases "m_rwCache m")
  case (Some rwc)
  show ?thesis
  proof (cases "GetSimpleFileEntry dentry")
    case (Some fe)
    have "m\<lparr> m_rwCache := Some (rwc\<lparr> rw_wCache := rw_wCache rwc \<rparr>) \<rparr> = m" using \<open>m_rwCache m = Some rwc\<close> by simp
    then show ?thesis
      unfolding Stat_size_def \<open>m_rwCache m = Some rwc\<close> Some option.case
      by (intro okG_bind [OF StatSize_kept [OF keptD(4) [OF k \<open>m_rwCache m = Some rwc\<close>]]])
         (use k d in \<open>auto simp: raise_size_ok Let_def\<close>)
  qed (use Some k in \<open>simp add: Stat_size_def\<close>)
qed (use k in \<open>simp add: Stat_size_def\<close>)

lemma Stat_kept:
  assumes k: "kept pc m"
  shows "okG True (Stat env path m s) (\<lambda>(r, m', s'). kept pc m')"
proof -
  obtain hit err dc where g: "DentryCache_Get (env_now env) path (m_dentryCache m) = (hit, err, dc)" by (metis prod_cases3)
  let ?m = "m\<lparr> m_dentryCache := dc \<rparr>"
  note k0 = kept_look [OF k g]
  obtain s1 r where d: "doStat env path ?m s = (s1, r)" by (metis prod.collapse)
  have "okG True (bindG (Stat_size env path dentry ?m s1) (\<lambda>(r, m1, s2).
      case r of Inl err \<Rightarrow> Ret ((None, err), m1, s2)
      | Inr dentry' \<Rightarrow> Ret ((Some dentry', None), dentry_Set env path dentry' m1, s2))) (\<lambda>(r, m', s'). kept pc m')"
    if r: "r = Inr dentry" for dentry
  proof -
    obtain info where "d_Info dentry = Some info" using doStat_info [of env path ?m s s1 dentry] d r by auto
    then show ?thesis by (intro okG_bind [OF Stat_size_kept [OF k0]]) (auto split: sum.split)
  qed
  then show ?thesis using k k0 g d by (auto simp: Stat_def Let_def split: option.split sum.split)
qed

lemma Fstat_kept:
  assumes k: "kept pc m"
  shows "okG True (Fstat env fd m s) (\<lambda>(r, m', s'). kept pc m')"
proof -
  obtain entry err m0 where g: "get_entry env fd m = Ret (entry, err, m0)" and k0: "kept pc m0"
    using get_entry_kept [OF k, of env fd] by (auto simp: okG_returns)
  then obtain fc where fc: "GetFileEntry (env_now env) (word_of_int fd) (m_fileCache m) = Ret (entry, err, fc)"
      "m\<lparr> m_fileCache := fc \<rparr> = m0"
    by (auto simp: get_entry_def go_simps)
  show ?thesis
  proof (cases entry)
    case (Some e)
    obtain hit err dc where g: "DentryCache_Get (env_now env) (fe_FilePath e) (m_dentryCache m0) = (hit, err, dc)" by (metis prod_cases3)
    let ?m = "m0\<lparr> m_dentryCache := dc \<rparr>"
    note k1 = kept_look [OF k0 g]
    have size: "okG True (case m_rwCache ?m of None \<Rightarrow> Ret (0, ?m)
        | Some rwc \<Rightarrow> bindG (StatSize e (rw_wCache rwc)) (\<lambda>((CacheSize, _), wc).
            Ret (CacheSize, ?m\<lparr> m_rwCache := Some (rwc\<lparr> rw_wCache := wc \<rparr>) \<rparr>))) (\<lambda>(n, m'). kept pc m')"
    proof (cases "m_rwCache ?m")
      case (Some rwc)
      have "?m\<lparr> m_rwCache := Some (rwc\<lparr> rw_wCache := rw_wCache rwc \<rparr>) \<rparr> = ?m" using Some by simp
      then show ?thesis unfolding Some option.case
        by (intro okG_bind [OF StatSize_kept [OF keptD(4) [OF k1 Some]]]) (use k1 in auto)
    qed (use k1 in simp)
    show ?thesis
      unfolding Fstat_def fc(1) bindG.simps prod.case Let_def fc(2) Some option.case g
    proof (rule okG_if, use k0 in simp, cases hit, goal_cases)
      case 1
      show ?case unfolding 1 option.case
        by (rule okG_bind [OF size]) (use doStat_info in \<open>fastforce simp: raise_size_ok split: prod.split sum.split\<close>)
    qed (use k1 in simp)
  qed (use fc k0 in \<open>simp add: Fstat_def\<close>)
qed

lemma truncate_flush_kept:
  assumes ok: "server_ok post pc content" and env: "env_ok post env" and k: "kept pc m"
  shows "okG True (truncate_flush env path m s) (\<lambda>(r, m', s'). kept pc m')"
proof (cases "m_rwCache m")
  case rwc: (Some rwc)
  obtain s1 r where d: "doStat env path m s = (s1, r)" by (metis prod.collapse)
  have "okG True (bindG (RWCache_Flush (env_sched env) (env_recv env) (env_post env) (m_proxyClient m) (env_now env) fe rwc s1)
      (\<lambda>(err, rwc1, s2).
        if err \<noteq> None then Ret (err, m\<lparr> m_rwCache := Some rwc1 \<rparr>, s2)
        else bindG (RWCache_Release fe rwc1) (\<lambda>(err, rwc2). Ret (err, m\<lparr> m_rwCache := Some rwc2 \<rparr>, s2))))
      (\<lambda>(r, m', s'). kept pc m')" for fe
  proof (rule okG_bind [where P = "\<lambda>(r, rwc', s'). rw_safe rwc'"], goal_cases)
    case 1
    show ?case using RWCache_Flush_kept [OF ok keptD(4) [OF k rwc]] env keptD(3) [OF k] by (simp add: env_ok_def)
  next
    case (2 x)
    obtain err rwc1 s2 where x: "x = (err, rwc1, s2)" by (metis prod_cases3)
    then have s: "rw_safe rwc1" using 2 by simp
    show ?case unfolding x prod.case
      by (rule okG_if, use kept_rwCache [OF k s] in simp, rule okG_bind [OF RWCache_Release_kept [OF s]])
         (use kept_rwCache [OF k] in auto)
  qed
  then show ?thesis using k rwc d by (auto simp: truncate_flush_def split: sum.split option.split)
qed (use k in \<open>simp add: truncate_flush_def\<close>)

lemma Truncate_kept:
  assumes ok: "server_ok post pc content" and env: "env_ok post env" and k: "kept pc m"
  shows "okG True (Truncate env path len m s) (\<lambda>(r, m', s'). kept pc m')"
  unfolding Truncate_def
  by (rule okG_if, use k in simp, rule okG_bind [OF truncate_flush_kept [OF assms]]) (auto split: prod.split)

lemma Ftruncate_kept:
  assumes ok: "server_ok post pc content" and env: "env_ok post env" and k: "kept pc m"
  shows "okG True (Ftruncate env fd len m s) (\<lambda>(r, m', s'). kept pc m')"
  unfolding Ftruncate_def
  by (rule get_entry_bind [OF k]) (auto intro: Truncate_kept [OF ok env])

section \<open>Directories and the goroutines\<close>

lemma MkdirAll_loop_kept:
  assumes "parent path = Ret dir" and "kept pc m"
  shows "okG True (MkdirAll_loop env path mode baseDir subDirs m s) (\<lambda>(r, m', s'). kept pc m')"
  using assms
  by (induction subDirs arbitrary: baseDir m s) (auto simp: Let_def split: prod.split)

lemma directories_kept:
  assumes k: "kept pc m"
  shows "okG True (Mkdir env path mode m s) (\<lambda>(r, m', s'). kept pc m')"
    "okG True (MkdirAll env path mode m s) (\<lambda>(r, m', s'). kept pc m')"
    "okG True (Mknod env path mode dev m s) (\<lambda>(r, m', s'). kept pc m')"
proof -
  have *: "\<exists>dir. parent path = Ret dir" if "checkMount path MountModeWrite m = None"
    using parent_ok [OF that] .
  show "okG True (Mkdir env path mode m s) (\<lambda>(r, m', s'). kept pc m')"
    "okG True (MkdirAll env path mode m s) (\<lambda>(r, m', s'). kept pc m')"
    "okG True (Mknod env path mode dev m s) (\<lambda>(r, m', s'). kept pc m')"
    using k * MkdirAll_loop_kept [OF _ k] kept_dentries(1) [OF k]
    by (auto simp: Mkdir_def MkdirAll_def Mknod_def Let_def split: prod.split)
qed

lemma cache_entries_kept: "kept pc m \<Longrightarrow> kept pc (cache_entries env path ds m)"
  unfolding cache_entries_def by (induction ds arbitrary: m) auto

lemma fetch_step_kept:
  assumes "kept pc m" and "dir_lsSize dir \<noteq> 0"
  shows "okG True (fetch_step env path q dir m s) (\<lambda>(q', dir', m', s'). kept pc m')"
  using assms cache_entries_kept [OF assms(1)]
  by (cases q) (auto simp: fetch_step_def Let_def unat_gt_0 split: prod.split)

text \<open>A round of a goroutine of the data caches, on the caches of the mount.\<close>

definition on_cache :: "(RWCache \<Rightarrow> (RWCache \<times> 's) go) \<Rightarrow> CfaMountInfo \<Rightarrow> 's \<Rightarrow> (CfaMountInfo \<times> 's) go" where
  "on_cache F m s =
     (case m_rwCache m of
        None \<Rightarrow> Ret (m, s)
      | Some rwc \<Rightarrow> bindG (F rwc) (\<lambda>(rwc', s'). Ret (m\<lparr> m_rwCache := Some rwc' \<rparr>, s')))"

lemma on_cache_kept:
  assumes k: "kept pc m" and F: "\<And>rwc. m_rwCache m = Some rwc \<Longrightarrow> okG True (F rwc) (\<lambda>(rwc', s'). rw_safe rwc')"
  shows "okG True (on_cache F m s) (\<lambda>(m', s'). kept pc m')"
proof (cases "m_rwCache m")
  case (Some rwc)
  show ?thesis unfolding on_cache_def Some option.case
    by (rule okG_bind [OF F [OF Some]]) (use kept_rwCache [OF k] in auto)
qed (use k in \<open>simp add: on_cache_def\<close>)

lemma SyncWrite_kept:
  assumes "server_ok post pc content" and "rw_safe rwc"
  shows "okG True (bindG (SyncWrite_round post pc now (rw_wCache rwc) s) (\<lambda>(_, wc, s'). Ret (rwc\<lparr> rw_wCache := wc \<rparr>, s')))
    (\<lambda>(rwc', s'). rw_safe rwc')"
proof -
  have inv: "wc_inv DefaultBlockSize {} (rw_wCache rwc)" using assms(2) by (simp add: rw_safe_def rw_ok_def)
  show ?thesis
    by (rule okG_bind [OF okG_waits [OF SyncWrite_round_ok [OF assms(1) inv]]])
       (use assms(2) in \<open>auto simp: rw_safe_def rw_ok_def\<close>)
qed

lemma CheckExpire_kept:
  assumes "server_ok post pc content" and "rw_safe rwc"
  shows "okG True (bindG (CheckExpire_round post pc now (rw_wCache rwc) s) (\<lambda>(_, wc, s'). Ret (rwc\<lparr> rw_wCache := wc \<rparr>, s')))
    (\<lambda>(rwc', s'). rw_safe rwc')"
proof -
  have inv: "wc_inv DefaultBlockSize {} (rw_wCache rwc)" using assms(2) by (simp add: rw_safe_def rw_ok_def)
  have keep: "rw_safe (rwc\<lparr> rw_wCache := wc \<rparr>)"
    if "wc_inv DefaultBlockSize {} wc" "CacheCore.more wc = CacheCore.more (rw_wCache rwc)" for wc
    using assms(2) that more_same(3) [OF that(2)] by (simp add: rw_safe_def rw_ok_def)
  show ?thesis
    by (rule okG_bind [OF okG_waits [OF CheckExpire_round_ok [OF assms(1) inv]]]) (use keep in auto)
qed

lemma rw_safe_rCache:
  assumes "rw_safe rwc" and "rc_inv DefaultBlockSize {} c" and "rc_windows c" and "rc_chClosed c = rc_chClosed (rw_rCache rwc)"
    and "rc_PrefetchTimes c = rc_PrefetchTimes (rw_rCache rwc)" and "rc_chPrefetch (rw_rCache rwc) = None \<Longrightarrow> rc_chPrefetch c = None"
  shows "rw_safe (rwc\<lparr> rw_rCache := c \<rparr>)"
  using assms by (auto simp: rw_safe_def rw_ok_def rc_times_def)

lemma RCheckExpire_kept:
  assumes s: "rw_safe rwc"
  shows "okG True (bindG (RCheckExpire_round now (rw_rCache rwc)) (\<lambda>(_, rc). Ret (rwc\<lparr> rw_rCache := rc \<rparr>, s)))
    (\<lambda>(rwc', s'). rw_safe rwc')"
proof -
  have inv: "rc_inv DefaultBlockSize {} (rw_rCache rwc)" "rc_windows (rw_rCache rwc)" using s by (simp_all add: rw_safe_def rw_ok_def)
  have keep: "rw_safe (rwc\<lparr> rw_rCache := c \<rparr>)" if r: "released DefaultBlockSize (rw_rCache rwc) c" for c
    using released_inv [OF r inv(2)] rmore_same [of c "rw_rCache rwc"] r
    by (intro rw_safe_rCache [OF s]) (simp_all add: released_def)
  show ?thesis
    by (rule okG_bind [OF okG_waits [OF RCheckExpire_round_ok [OF inv(1)]]]) (use keep in auto)
qed

lemma PrefetchRead_kept:
  assumes ok: "server_ok post pc content" and s: "rw_safe rwc"
  shows "okG True (bindG (PrefetchRead_round post pc now (rw_rCache rwc) t) (\<lambda>(_, rc, s'). Ret (rwc\<lparr> rw_rCache := rc \<rparr>, s')))
    (\<lambda>(rwc', s'). rw_safe rwc')"
proof (cases "rqueue (rw_rCache rwc) = []")
  case True
  then show ?thesis using s
    by (auto simp: PrefetchRead_round_def rqueue_def rw_safe_def split: option.split list.split)
next
  case False
  have inv: "rc_inv DefaultBlockSize {} (rw_rCache rwc)" "rc_windows (rw_rCache rwc)" using s by (simp_all add: rw_safe_def rw_ok_def)
  have keep: "rw_safe (rwc\<lparr> rw_rCache := c \<rparr>)" if r: "prefetch_post DefaultBlockSize content (rw_rCache rwc) t (cont, c, t')" for cont c t'
    using r inv(2) False by (intro rw_safe_rCache [OF s]) (auto simp: rc_windows_def rqueue_def)
  show ?thesis
    by (rule okG_bind [OF okG_waits [OF PrefetchRead_round_ok [OF ok inv(1) False]]])
       (use keep in \<open>auto simp del: prefetch_post.simps\<close>)
qed

section \<open>All calls\<close>

text \<open>
  The calls that the programs above the mount make, with their arguments, and the steps of its
  goroutines: one round of writing queued blocks, of each expiry, of prefetching, and of a listing.
\<close>

datatype mcall =
    CMount
  | COpen string int u32
  | CClose int
  | CRead int "byte list" u64
  | CWrite int "byte list" u64
  | CFlush int
  | CFsync int int
  | CTruncate string u64
  | CFtruncate int u64
  | CStat string
  | CFstat int
  | CStatfs string "Statfs_t option"
  | CUtime string u64 u64
  | CChmod string u32
  | CFchmod int u32
  | CChown string u32 u32
  | CChownEx string string string
  | CSetxattr string string "byte list" u32
  | CGetxattr string string
  | CListxattr string
  | CRemovexattr string string
  | CFsetxattr int string "byte list" int
  | CFgetxattr int string
  | CFlistxattr int
  | CFremovexattr int string
  | CRmdir string
  | CRmDirTree string
  | CUnLink string
  | CRename string string
  | CReadlink string
  | CLink string string
  | CSymlink string string
  | CMkdir string u32
  | CMkdirAll string u32
  | CMknod string u32 int
  | GSyncWrite
  | GCheckExpire
  | GRCheckExpire
  | GPrefetchRead
  | GFetch string fetch_pc Dir

definition drop_result :: "('r \<times> CfaMountInfo \<times> 's) go \<Rightarrow> (CfaMountInfo \<times> 's) go" where
  "drop_result x = bindG x (\<lambda>(_, m, s). Ret (m, s))"

primrec m_exec :: "'s Env \<Rightarrow> mcall \<Rightarrow> CfaMountInfo \<Rightarrow> 's \<Rightarrow> (CfaMountInfo \<times> 's) go" where
  "m_exec env CMount m s = drop_result (Mount env m s)"
| "m_exec env (COpen path flags mode) m s = drop_result (Open env path flags mode m s)"
| "m_exec env (CClose fd) m s = drop_result (Close_fd env fd m s)"
| "m_exec env (CRead fd buffer offset) m s = drop_result (Read_fd env fd buffer offset m s)"
| "m_exec env (CWrite fd buffer offset) m s = drop_result (Write_fd env fd buffer offset m s)"
| "m_exec env (CFlush fd) m s = drop_result (Flush_fd env fd m s)"
| "m_exec env (CFsync fd datasync) m s = drop_result (Fsync_fd env fd datasync m s)"
| "m_exec env (CTruncate path len) m s = drop_result (Truncate env path len m s)"
| "m_exec env (CFtruncate fd len) m s = drop_result (Ftruncate env fd len m s)"
| "m_exec env (CStat path) m s = drop_result (Stat env path m s)"
| "m_exec env (CFstat fd) m s = drop_result (Fstat env fd m s)"
| "m_exec env (CStatfs path st) m s = Ret (m, snd (Statfs env path st m s))"
| "m_exec env (CUtime path utime atime) m s = Ret (snd (Utime env path utime atime m s))"
| "m_exec env (CChmod path mode) m s = Ret (snd (Chmod env path mode m s))"
| "m_exec env (CFchmod fd mode) m s = drop_result (Fchmod env fd mode m s)"
| "m_exec env (CChown path uid gid) m s = Ret (snd (Chown env path uid gid m s))"
| "m_exec env (CChownEx path owner grp) m s = Ret (snd (ChownEx env path owner grp m s))"
| "m_exec env (CSetxattr path key val flag) m s = Ret (snd (Setxattr env path key val flag m s))"
| "m_exec env (CGetxattr path key) m s = Ret (m, snd (Getxattr env path key m s))"
| "m_exec env (CListxattr path) m s = Ret (m, snd (Listxattr env path m s))"
| "m_exec env (CRemovexattr path key) m s = Ret (snd (Removexattr env path key m s))"
| "m_exec env (CFsetxattr fd key val flag) m s = drop_result (Fsetxattr env fd key val flag m s)"
| "m_exec env (CFgetxattr fd key) m s = drop_result (Fgetxattr env fd key m s)"
| "m_exec env (CFlistxattr fd) m s = drop_result (Flistxattr env fd m s)"
| "m_exec env (CFremovexattr fd key) m s = drop_result (Fremovexattr env fd key m s)"
| "m_exec env (CRmdir path) m s = Ret (snd (Rmdir env path m s))"
| "m_exec env (CRmDirTree path) m s = Ret (snd (RmDirTree env path m s))"
| "m_exec env (CUnLink path) m s = Ret (snd (UnLink env path m s))"
| "m_exec env (CRename src dst) m s = Ret (snd (Rename env src dst m s))"
| "m_exec env (CReadlink path) m s = Ret (m, snd (Readlink env path m s))"
| "m_exec env (CLink path link) m s = Ret (snd (Link env path link m s))"
| "m_exec env (CSymlink path link) m s = Ret (snd (Symlink env path link m s))"
| "m_exec env (CMkdir path mode) m s = drop_result (Mkdir env path mode m s)"
| "m_exec env (CMkdirAll path mode) m s = drop_result (MkdirAll env path mode m s)"
| "m_exec env (CMknod path mode dev) m s = drop_result (Mknod env path mode dev m s)"
| "m_exec env GSyncWrite m s = on_cache (\<lambda>rwc.
     bindG (SyncWrite_round (env_post env) (m_proxyClient m) (env_now env) (rw_wCache rwc) s)
       (\<lambda>(_, wc, s'). Ret (rwc\<lparr> rw_wCache := wc \<rparr>, s'))) m s"
| "m_exec env GCheckExpire m s = on_cache (\<lambda>rwc.
     bindG (CheckExpire_round (env_post env) (m_proxyClient m) (env_now env) (rw_wCache rwc) s)
       (\<lambda>(_, wc, s'). Ret (rwc\<lparr> rw_wCache := wc \<rparr>, s'))) m s"
| "m_exec env GRCheckExpire m s = on_cache (\<lambda>rwc.
     bindG (RCheckExpire_round (env_now env) (rw_rCache rwc)) (\<lambda>(_, rc). Ret (rwc\<lparr> rw_rCache := rc \<rparr>, s))) m s"
| "m_exec env GPrefetchRead m s = on_cache (\<lambda>rwc.
     bindG (PrefetchRead_round (env_post env) (m_proxyClient m) (env_now env) (rw_rCache rwc) s)
       (\<lambda>(_, rc, s'). Ret (rwc\<lparr> rw_rCache := rc \<rparr>, s'))) m s"
| "m_exec env (GFetch path q dir) m s = bindG (fetch_step env path q dir m s) (\<lambda>(_, _, m', s'). Ret (m', s'))"

text \<open>
  The calls for which the code is safe: reads and writes of at least one byte below offset
  \<open>2 ^ 63\<close>, and listings with pages of at least one entry.
\<close>

definition call_ok :: "mcall \<Rightarrow> bool" where
  "call_ok c =
     (case c of
        CRead fd buffer offset \<Rightarrow> io_ok buffer offset
      | CWrite fd buffer offset \<Rightarrow> io_ok buffer offset
      | GFetch path q dir \<Rightarrow> dir_lsSize dir \<noteq> 0
      | _ \<Rightarrow> True)"

lemma call_ok_simps [simp]:
  "call_ok (CRead fd buffer offset) = io_ok buffer offset" "call_ok (CWrite fd buffer offset) = io_ok buffer offset"
  "call_ok (GFetch path q dir) = (dir_lsSize dir \<noteq> 0)"
  by (simp_all add: call_ok_def)

lemma drop_result_kept:
  "okG True x (\<lambda>(r, m', s'). kept pc m') \<Longrightarrow> okG True (drop_result x) (\<lambda>(m', s'). kept pc m')"
  unfolding drop_result_def by (erule okG_bind) auto

lemma Mount_kept:
  assumes "kept pc m"
  shows "okG True (Mount env m s) (\<lambda>(r, m', s'). kept pc m')"
proof -
  let ?m = "m\<lparr> m_MountMode := MountModeRead OR MountModeWrite OR MountModeDel, m_MountStu := MountStuMounted \<rparr>"
  have "kept pc ?m" using assms by (simp add: kept_def mount_inv_def)
  then show ?thesis
    using assms by (auto simp: Mount_def Let_def intro!: okG_bind [OF Stat_kept])
qed

lemma Open_waits: "kept pc m \<Longrightarrow> okG True (Open env path flags mode m s) (\<lambda>(r, m', s'). kept pc m')"
  by (rule okG_waits [OF Open_kept])

lemma meta_kept:
  assumes k: "kept pc m" and ord: "reorders (env_ord env)"
  shows "kept pc (fst (snd (Utime env path utime atime m s)))" "kept pc (fst (snd (Chmod env path mode m s)))"
    "kept pc (fst (snd (Chown env path uid gid m s)))" "kept pc (fst (snd (ChownEx env path owner grp m s)))"
    "kept pc (fst (snd (Setxattr env path key val flag m s)))" "kept pc (fst (snd (Removexattr env path key m s)))"
    "kept pc (fst (snd (Rmdir env path m s)))" "kept pc (fst (snd (RmDirTree env path m s)))"
    "kept pc (fst (snd (UnLink env path m s)))" "kept pc (fst (snd (Rename env path dst m s)))"
    "kept pc (fst (snd (Link env path dst m s)))" "kept pc (fst (snd (Symlink env path dst m s)))"
  using k kept_dentries(1) [OF k] kept_dentries(2) [OF k ord] kept_dentries(2) [OF kept_dentries(2) [OF k ord] ord]
  by (simp_all add: Utime_def Chmod_def Chown_def ChownEx_def Setxattr_def Removexattr_def Rmdir_def RmDirTree_def
      UnLink_def Rename_def Link_def Symlink_def Let_def split: prod.split)

lemma fmeta_kept:
  assumes k: "kept pc m" and ord: "reorders (env_ord env)"
  shows "okG True (Fchmod env fd mode m s) (\<lambda>(r, m', s'). kept pc m')"
    "okG True (Fsetxattr env fd key val flag m s) (\<lambda>(r, m', s'). kept pc m')"
    "okG True (Fgetxattr env fd key m s) (\<lambda>(r, m', s'). kept pc m')"
    "okG True (Flistxattr env fd m s) (\<lambda>(r, m', s'). kept pc m')"
    "okG True (Fremovexattr env fd key m s) (\<lambda>(r, m', s'). kept pc m')"
proof -
  note m = meta_kept(5,6) [OF _ ord]
  show "okG True (Fchmod env fd mode m s) (\<lambda>(r, m', s'). kept pc m')"
    unfolding Fchmod_def by (rule get_entry_bind [OF k]) (auto split: prod.split)
  show "okG True (Fsetxattr env fd key val flag m s) (\<lambda>(r, m', s'). kept pc m')"
    unfolding Fsetxattr_def by (rule get_entry_bind [OF k]) (use m in \<open>auto simp: case_prod_beta\<close>)
  show "okG True (Fgetxattr env fd key m s) (\<lambda>(r, m', s'). kept pc m')"
    unfolding Fgetxattr_def by (rule get_entry_bind [OF k]) (auto split: prod.split)
  show "okG True (Flistxattr env fd m s) (\<lambda>(r, m', s'). kept pc m')"
    unfolding Flistxattr_def by (rule get_entry_bind [OF k]) (auto split: prod.split)
  show "okG True (Fremovexattr env fd key m s) (\<lambda>(r, m', s'). kept pc m')"
    unfolding Fremovexattr_def by (rule get_entry_bind [OF k]) (use m in \<open>auto simp: case_prod_beta\<close>)
qed

lemma goroutine_kept:
  assumes ok: "server_ok post pc content" and env: "env_ok post env" and k: "kept pc m" and c: "call_ok c"
    and g: "c = GSyncWrite \<or> c = GCheckExpire \<or> c = GRCheckExpire \<or> c = GPrefetchRead \<or> (\<exists>p q d. c = GFetch p q d)"
  shows "okG True (m_exec env c m s) (\<lambda>(m', s'). kept pc m')"
proof -
  have e: "env_post env = post" "m_proxyClient m = pc" using env keptD(3) [OF k] by (simp_all add: env_ok_def)
  have f: "okG True (bindG (fetch_step env p q d m s) (\<lambda>(_, _, m', s'). Ret (m', s'))) (\<lambda>(m', s'). kept pc m')"
    if "dir_lsSize d \<noteq> 0" for p q d
    by (rule okG_bind [OF fetch_step_kept [OF k that]]) auto
  show ?thesis
    using g c f keptD(4) [OF k]
    by (auto simp: e intro!: on_cache_kept [OF k] SyncWrite_kept [OF ok] CheckExpire_kept [OF ok] RCheckExpire_kept
        PrefetchRead_kept [OF ok])
qed

lemma m_exec_kept:
  assumes ok: "server_ok post pc content" and env: "env_ok post env" and k: "kept pc m" and c: "call_ok c"
  shows "okG True (m_exec env c m s) (\<lambda>(m', s'). kept pc m')"
proof -
  have ord: "reorders (env_ord env)" using env by (simp add: env_ok_def)
  note io = Read_fd_kept [OF ok env k] Write_fd_kept [OF ok env k]
    and calls = Mount_kept [OF k] Open_waits [OF k] Close_fd_kept [OF ok env k] Flush_fd_kept [OF ok env k]
      Truncate_kept [OF ok env k] Ftruncate_kept [OF ok env k] Stat_kept [OF k] Fstat_kept [OF k] directories_kept [OF k]
      fmeta_kept [OF k ord]
  show ?thesis
    using c goroutine_kept [OF ok env k c]
    by (cases c) (simp_all add: Fsync_fd_def drop_result_kept calls io meta_kept [OF k ord] case_prod_beta k)
qed

section \<open>Runs of a mount\<close>

text \<open>
  One call or one step of a goroutine that returns, at some time and in some order of the goroutines
  it starts. The contents of the environment may differ from call to call, but for the exchange
  with the server.
\<close>

inductive mount_step :: "'s poster \<Rightarrow> CfaMountInfo \<times> 's \<Rightarrow> CfaMountInfo \<times> 's \<Rightarrow> bool" for post where
  mount_step: "env_ok post env \<Longrightarrow> call_ok c \<Longrightarrow> m_exec env c m s = Ret y \<Longrightarrow> mount_step post (m, s) y"

inductive_cases mount_stepE [elim!]: "mount_step post x y"

text \<open>A mount that has just been made, with a usable prefetch factor.\<close>

definition new_caches :: "CfaMountInfo \<Rightarrow> bool" where
  "new_caches m \<longleftrightarrow> fresh_caches m \<and> \<not> m_stopped m \<and>
     (\<forall>rwc. m_rwCache m = Some rwc \<longrightarrow> rc_windows (rw_rCache rwc) \<and> \<not> rc_chClosed (rw_rCache rwc) \<and> rc_times (rw_rCache rwc))"

lemma new_caches_inv: "new_caches m \<Longrightarrow> mount_inv m"
  by (auto simp: new_caches_def fresh_caches_def mount_inv_def rw_safe_def DefaultBlockSize_nat)

interpretation mount_runs: invariant_system "\<lambda>x. new_caches (fst x) \<and> m_proxyClient (fst x) = pc"
    "\<lambda>x y. (\<exists>content. server_ok post pc content) \<and> mount_step post x y" "\<lambda>x. kept pc (fst x)"
  for post :: "'s poster" and pc
proof (unfold_locales, goal_cases)
  case (1 x)
  then show ?case by (simp add: kept_def new_caches_inv)
next
  case (2 x y)
  then show ?case using okG_Ret [OF m_exec_kept] by fastforce
qed

text \<open>The prefetch factor of the configuration, when there are prefetch goroutines.\<close>

definition cfg_times_ok :: "Config \<Rightarrow> bool" where
  "cfg_times_ok cfg \<longleftrightarrow> 0 < GetIntValue cfg CfgRwCachePrefetchRoutine 64 \<longrightarrow>
     1 \<le> GetIntValue cfg CfgRwCachePrefetchTimes 8 \<and> GetIntValue cfg CfgRwCachePrefetchTimes 8 \<le> 1000000"

lemma NewMount_caches:
  assumes "NewMount env addrs uuid cfg n = Ret (n', Inr (m, st))" and "cfg_times_ok cfg"
  shows "new_caches (CfaMountInfo.truncate m)"
proof -
  note ok = NewMount_ok [OF assms(1)]
  have "rc_windows (rw_rCache rwc) \<and> \<not> rc_chClosed (rw_rCache rwc) \<and> rc_times (rw_rCache rwc)" if "m_rwCache m = Some rwc" for rwc
  proof -
    have "new_rwCache cfg = Some rwc" using that ok(5) by simp
    then obtain b e r where "rwc = NewRWCache b e r (nat (GetIntValue cfg CfgRwCachePrefetchRoutine 64)) (GetIntValue cfg CfgRwCachePrefetchTimes 8)"
      by (auto simp: new_rwCache_def Let_def split: if_splits)
    then show ?thesis
      using NewRCache_inv(2) [of DefaultBlockSize] assms(2) DefaultBlockSize_nat
      by (simp add: NewRWCache_def rc_times_def cfg_times_ok_def) (auto simp: NewRCache_def)
  qed
  then show ?thesis using ok(1,2) by (simp add: new_caches_def CfaMountInfo.truncate_def)
qed

text \<open>The last call: unmounting.\<close>

lemma DelMount_kept:
  assumes ok: "server_ok post pc content" and env: "env_ok post env" and k: "kept pc m"
  shows "okG True (DelMount env m s) (\<lambda>(m', s'). m_MountStu m' = MountStuDel)"
proof (cases "m_rwCache m")
  case None
  have "\<not> m_stopped m" using k by (simp add: kept_def mount_inv_def)
  then have run: "DelMount env m s = wg_Wait (Mount_gor (wt_cfg (env_wait env))) (\<lambda>x. \<not> fst x) (wt_sturns (env_wait env))
      (wt_stats (env_wait env)) (m\<lparr> m_MountStu := MountStuDel, m_stopped := True \<rparr>) s"
    using None by (simp add: DelMount_def)
  show ?thesis unfolding run by (rule okG_mono [OF stat_Wait]) auto
next
  case (Some rwc)
  have "rw_safe rwc" "\<not> m_stopped m" "m_proxyClient m = pc" using k Some by (simp_all add: kept_def mount_inv_def)
  then show ?thesis
    using ok env
    by (intro okG_mono [OF DelMount_ok [where bs = DefaultBlockSize and content = content, OF _ Some]]) (auto simp: rw_safe_def env_ok_def)
qed


section \<open>Witness\<close>

text \<open>A network with a server of that name, which serves files from memory and says yes to everything else.\<close>

definition host_env :: "(nat \<times> (u64 \<Rightarrow> byte list)) NetEnv" where
  "host_env = Cfa_HProps.demo_env\<lparr> ne_exchange := (\<lambda>n req.
     if drop 3 (hq_URL req) \<in> {UrlRead, UrlWrite} then ne_exchange Cfa_HProps.demo_env n (req\<lparr> hq_URL := drop 3 (hq_URL req) \<rparr>)
     else (n, Some \<lparr> hr_StatusCode = 200, hr_Location = [], hr_Body = Inr (JObj [(''code'', JNum 0)]) \<rparr>, None)) \<rparr>"

lemma host_plain_post:
  assumes "url \<in> {UrlRead, UrlWrite}"
  shows "plain_post host_env t reqId n (''h:1'' @ url) j = plain_post Cfa_HProps.demo_env t reqId n url j"
proof -
  let ?e = Cfa_HProps.demo_env and ?rq = "post_request reqId (''h:1'' @ url) j" and ?rq' = "post_request reqId url j"
  obtain n1 resp err where x: "ne_exchange ?e n (RoundTrip t (ne_now ?e n) ?rq') = (n1, resp, err)" by (metis prod_cases3)
  have rt: "redirect_target False env rq resp err = None" for env :: "(nat \<times> (u64 \<Rightarrow> byte list)) NetEnv" and rq
    using x by (cases n) (auto simp: Cfa_HProps.demo_env_def redirect_target_def split: if_splits prod.splits sum.splits)
  have "RoundTrip t now (?rq\<lparr> hq_URL := url \<rparr>) = RoundTrip t now ?rq'" for now by (simp add: post_request_def)
  then have "ne_exchange host_env n (RoundTrip t (ne_now host_env n) ?rq) = (n1, resp, err)"
    using x assms by (auto simp: host_env_def RoundTrip_def post_request_def)
  from client_follow_final [where trip = "RoundTrip t" and req = ?rq, OF this rt]
    client_follow_final [where trip = "RoundTrip t" and req = ?rq', OF x rt]
  show ?thesis by (simp add: plain_post_def send_def)
qed

lemma host_network_ok: "network_ok host_env ''h:1'' snd"
  using demo_network_ok host_plain_post by (simp add: network_ok_def write_ok_def read_ok_def)

definition wit_cfg :: Config where
  "wit_cfg = [CfgPath \<mapsto> ''/'', CfgProxyHosts \<mapsto> ''h:1'', CfgRwCacheCacheSize \<mapsto> ''2'', CfgOpenFileMax \<mapsto> ''2'']"

lemma parse_two: "ParseUint ''2'' 32 = Some 2"
  by (simp add: ParseUint_def digit_val_def)

lemma wit_new_mount:
  "\<exists>m st. NewMount host_env (Inr [IPNet False True ''10.0.0.2'']) ''id'' wit_cfg (0, \<lambda>_. []) = Ret ((0, \<lambda>_. []), Inr (m, st))"
proof -
  have "\<not> bad_path (cfg_at wit_cfg CfgPath)" "GetIp (Inr [IPNet False True ''10.0.0.2'']) = Ret ''10.0.0.2''"
    "cfg_at wit_cfg CfgProxyHosts \<noteq> []" "0 \<le> GetIntValue wit_cfg CfgOpenFileMax 100000" "ne_parse host_env u = None"
    "getUserInfo host_env ''id'' wit_cfg (0, \<lambda>_. []) = Ret ((0, \<lambda>_. []), Inr (BuildUserInfo ''UidNotSet'' ''TokenNotSet''))" for u
    by (simp_all add: wit_cfg_def bad_path_def cfg_at_def cfg_keys GetIp_def List.map_filter_def GetIntValue_def ParseInt_def
        parse_two Cfa_HProps.demo_env_def host_env_def getExportPath_def getUserInfo_def)
  note h = this
  have "\<forall>h \<in> set (Split (CHR '','') (cfg_at wit_cfg CfgProxyHosts)). ne_parse host_env (with_scheme h) = None" using h(5) by blast
  from new_mount_ready_parts(1) [OF h(1,6,2,4,3,5) this] show ?thesis by (elim exE conjE) (intro exI)
qed

lemma wit_cfg_ok: "cfg_times_ok wit_cfg" "0 \<le> GetIntValue wit_cfg CfgRetryTimes 3" "cfg_at wit_cfg CfgProxyHosts = ''h:1''"
  by (simp_all add: cfg_times_ok_def wit_cfg_def GetIntValue_def cfg_at_def cfg_keys ParseInt_def)

lemma wit_fields:
  assumes "NewMount host_env addrs uuid wit_cfg n = Ret (n', Inr (m, st))"
  shows "m_fileCache m = NewFileCache 2" "m_dentryCache m = NewDentryCache 0 500" "m_Path m = ''/''"
    "m_rwCache m = Some (NewRWCache 2 500 64 64 8)"
proof -
  have "GetIntValue wit_cfg CfgOpenFileMax 100000 = 2" "GetIntValue wit_cfg CfgDentryCacheSize 0 = 0"
      "GetIntValue wit_cfg CfgDentryCacheExpireMs 500 = 500" "cfg_at wit_cfg CfgPath = ''/''"
      "new_rwCache wit_cfg = Some (NewRWCache 2 500 64 64 8)" "\<not> bad_path ''/''"
    by (simp_all add: wit_cfg_def GetIntValue_def cfg_at_def cfg_keys ParseInt_def parse_two new_rwCache_def Let_def bad_path_def)
  moreover obtain n1 user where "getUserInfo host_env uuid wit_cfg n = Ret (n1, Inr user)"
    using assms by (cases "getUserInfo host_env uuid wit_cfg n") (auto simp: NewMount_def Let_def split: if_splits sum.splits)
  ultimately show "m_fileCache m = NewFileCache 2" "m_dentryCache m = NewDentryCache 0 500" "m_Path m = ''/''"
    "m_rwCache m = Some (NewRWCache 2 500 64 64 8)"
    using assms by (auto simp: NewMount_def Let_def go_simps)
qed

text \<open>The server says yes, so that the mount can be mounted and a file opened.\<close>

lemma host_yes:
  assumes "drop 3 url \<notin> {UrlRead, UrlWrite}" and "hc_ShouldRetry c = ShouldRetry" and "sel_defaultHost sel = Some h"
  shows "http_post host_env reqId c (n, st, sel) url j = ((n, st, sel), Inr (JObj [(''code'', JNum 0)]))"
proof -
  let ?r = "\<lparr> hr_StatusCode = 200, hr_Location = [], hr_Body = Inr (JObj [(''code'', JNum 0)]) \<rparr>"
    and ?rq = "\<lparr>hq_Method = ''POST'', hq_URL = url, hq_Header = header_Set ReqidKey reqId Map.empty, hq_Body = Some j\<rparr>"
  have "client_follow (RoundTrip t) False host_env 9 ?rq ?rq n = (n, Some ?r, None)" for t
    by (rule client_follow_final) (use assms(1) in \<open>simp_all add: host_env_def redirect_target_def RoundTrip_def\<close>)
  moreover have "ne_parse host_env url = None" by (simp add: host_env_def Cfa_HProps.demo_env_def)
  ultimately show ?thesis using assms(2,3)
    by (simp add: http_post_def newRequest_def doCtxWithHostRet_def sel_Get_def doCtx_loop.simps client_Do_def Let_def do_return_def)
qed

lemma yes_calls:
  assumes "\<And>u j. u \<notin> {UrlRead, UrlWrite} \<Longrightarrow> post s (pc_Host pc @ u) j = (s, Inr (JObj [(''code'', JNum 0)]))" and "0 \<le> pc_RetryTimes pc"
  shows "px_Stat post pc s path = (s, zero_StatResponse, None)" "px_Open post pc s path flag mode = (s, zero_OpenResponse, None)"
proof -
  have u: "UrlStat \<notin> {UrlRead, UrlWrite}" "UrlOpen \<notin> {UrlRead, UrlWrite}" by code_simp+
  have "[0..pc_RetryTimes pc] = 0 # [1..pc_RetryTimes pc]" using assms(2) by (simp add: upto_rec1)
  then show "px_Stat post pc s path = (s, zero_StatResponse, None)" "px_Open post pc s path flag mode = (s, zero_OpenResponse, None)"
    using assms(1) [OF u(1)] assms(1) [OF u(2)]
    by (simp_all add: px_Stat_def px_Open_def tryReqProxy_def DoPostWithJson_def retry_def dec_StatResponse_def dec_OpenResponse_def
      zero_StatResponse_def zero_OpenResponse_def json_simps)
qed


lemma Mount_yes:
  assumes st: "\<And>path. px_Stat (env_post env) (m_proxyClient m) s path = (s, zero_StatResponse, None)"
    and m: "m_MountStu m = MountStuNew" "m_Path m = ''/''" "dc_dentryCache (m_dentryCache m) = None" "m_rwCache m = Some rwc"
      "cc_Cache (rw_wCache rwc) = []"
  shows "Mount env m s = Ret (None, m\<lparr> m_MountMode := MountModeRead OR MountModeWrite OR MountModeDel, m_MountStu := MountStuMounted \<rparr>, s)"
proof -
  let ?m = "m\<lparr> m_MountMode := MountModeRead OR MountModeWrite OR MountModeDel, m_MountStu := MountStuMounted \<rparr>"
  have c: "checkMount ''/'' MountModeRead ?m = None"
    using m(2) by (simp add: checkMount_def bad_path_def MountModeRead_def MountModeWrite_def MountModeDel_def)
  have d: "DentryCache_Get now k (m_dentryCache m) = (None, Some ''0 Capacity'', m_dentryCache m)"
    "snd (DentryCache_Set now k v (m_dentryCache m)) = m_dentryCache m" for now k v
    using m(3) by (simp_all add: DentryCache_Get_def DentryCache_Set_def)
  have z: "StatSize fe (rw_wCache rwc) = Ret ((0, None), rw_wCache rwc)" for fe :: FileEntry
    using m(5) by (simp add: StatSize_def GetFileBuffer_def)
  have w: "?m\<lparr> m_rwCache := Some rwc \<rparr> = ?m" using m(4) by (cases m) simp
  have "\<exists>d. Stat_size env ''/'' d0 ?m s = Ret (Inr d, ?m, s)" if "d_Info d0 \<noteq> None" for d0
    using m(4) z w that by (auto simp: Stat_size_def raise_size_def Let_def split: option.split)
  moreover obtain d0 where "doStat env ''/'' ?m s = (s, Inr d0)" "d_Info d0 \<noteq> None"
    using st by (simp add: doStat_def Let_def zero_StatResponse_def)
  ultimately have "\<exists>d. Stat env ''/'' ?m s = Ret ((Some d, None), ?m, s)"
    using m(2) c d by (fastforce simp: Stat_def dentry_Set_def)
  then show ?thesis using m(1,2) by (auto simp: Mount_def Let_def)
qed

lemma Open_yes:
  assumes op: "\<And>path flag mode. px_Open (env_post env) (m_proxyClient m) s path flag mode = (s, zero_OpenResponse, None)"
    and m: "checkMount ''/f'' (open_perm flags) m = None" "fc_inv (m_fileCache m)" "handles (m_fileCache m) = Map.empty"
      "fileEntryIndex (m_fileCache m) = 0" "0 < fileEntryVecSize (m_fileCache m)"
  shows "\<exists>m'. Open env ''/f'' flags mode m s = Ret ((0, None), m', s) \<and> handles (m_fileCache m') 0 \<noteq> None \<and> m_MountStu m' = m_MountStu m"
proof -
  have "\<exists>m' e'. bindG (NewFile (env_now env) InvalidHandle x (m_fileCache m)) (\<lambda>(fd, err, fc).
      if err \<noteq> None then Ret ((InvalidHandle, errno E_POSIX_EBADF), m\<lparr> m_fileCache := fc \<rparr>, s)
      else bindG (get_entry env fd (m\<lparr> m_fileCache := fc \<rparr>)) (\<lambda>(_, errFile, m1).
        if errFile \<noteq> None then Panic else bindG (parent ''/f'') (\<lambda>dir. Ret ((fd, None), dentry_Remove dir m1, s)))) =
      Ret ((0, None), m', s) \<and> handles (m_fileCache m') 0 = Some e' \<and> m_MountStu m' = m_MountStu m" for x
  proof -
    obtain fc e where fc: "NewFile (env_now env) InvalidHandle x (m_fileCache m) = Ret (0, None, fc)" "fc_inv fc" "handles fc = [0 \<mapsto> e]"
      using NewFile_spec [OF m(2), of "env_now env" InvalidHandle x] m(3,4,5) by auto
    obtain fc' where "get_entry env 0 (m\<lparr> m_fileCache := fc \<rparr>) = Ret (Some (e\<lparr> fe_LastAccessTime := env_now env \<rparr>), None, m\<lparr> m_fileCache := fc' \<rparr>)"
        "handles fc' 0 \<noteq> None"
      using get_entry_ok [of "m\<lparr> m_fileCache := fc \<rparr>" 0 e env] fc(2,3) by auto
    moreover obtain dir where "parent ''/f'' = Ret dir" using parent_ok [OF m(1)] by blast
    ultimately show ?thesis using fc(1) by (auto simp: dentry_Remove_def split: prod.split)
  qed
  then show ?thesis using op m(1) unfolding Open_def Let_def by (simp add: zero_OpenResponse_def) 
qed


end
