(* ===== verification/Cfa_Types.thy ===== *)
theory Cfa_Types
  imports Cfa_MProps
begin

text \<open>
  The dynamic types of errors. The operations of a mount return values of the interface \<^verbatim>\<open>error\<close>, and the
  file system above asks whether such a value is an \<^verbatim>\<open>Errno\<close>; anything else becomes \<^verbatim>\<open>EIO\<close> there, whatever
  the reason was. The server, the network and the caches produce errors of many types. Here: what the
  mount hands on is \<^verbatim>\<open>nil\<close> or an \<^verbatim>\<open>Errno\<close>.
\<close>

section \<open>Results of partial operations\<close>

definition yields :: "'a go \<Rightarrow> ('a \<Rightarrow> bool) \<Rightarrow> bool" where
  "yields x Q = (case x of Ret r \<Rightarrow> Q r | Panic \<Rightarrow> True | Block \<Rightarrow> True)"

lemma yields_simps [simp]: "yields (Ret r) Q = Q r" "yields Panic Q" "yields Block Q"
  by (simp_all add: yields_def)

lemma yields_bind: "yields x P \<Longrightarrow> (\<And>r. P r \<Longrightarrow> yields (f r) Q) \<Longrightarrow> yields (bindG x f) Q"
  by (cases x) simp_all

lemma yields_any: "(\<And>r. yields (f r) Q) \<Longrightarrow> yields (bindG x f) Q"
  by (cases x) simp_all

lemma yields_if: "(b \<Longrightarrow> yields x Q) \<Longrightarrow> (\<not> b \<Longrightarrow> yields y Q) \<Longrightarrow> yields (if b then x else y) Q"
  by simp

section \<open>The type Errno\<close>

definition errno_typed :: "go_error option \<Rightarrow> bool" where
  "errno_typed err = (case err of None \<Rightarrow> True | Some (Errno n) \<Rightarrow> True | _ \<Rightarrow> False)"

lemma errno_typed_simps [simp]: "errno_typed None" "errno_typed (errno n)"
  by (simp_all add: errno_typed_def)

lemma toErr_typed [simp]: "errno_typed (toErr err code)"
  by (auto simp: toErr_def Let_def split: option.split go_error.split)

lemma doStat_typed: "doStat env path m s = (s', Inl err) \<Longrightarrow> errno_typed err"
  by (auto simp: doStat_def Let_def split: prod.splits if_splits)

lemma Writer_Write_typed: "Writer_Write post pc s f buffer offset = (s', n, err) \<Longrightarrow> errno_typed err"
  by (auto simp: Writer_Write_def Let_def split: prod.splits if_splits)

section \<open>Writing back\<close>

lemma flush_data_typed: "yields (flush_data post pc s fe b c) (\<lambda>(s', n, err). errno_typed err)"
  unfolding flush_data_def
  by (intro yields_any) (auto simp: DirectWrite_def dest: Writer_Write_typed)

lemma FlushBuffer_typed: "yields (FlushBuffer post pc now f i c s) (\<lambda>(err, _). errno_typed err)"
proof -
  have body: "yields (FlushBuffer_body post pc now f i c s) (\<lambda>(err, _). errno_typed err)" for c
    unfolding FlushBuffer_body_def
    by (intro yields_any)
       (auto intro!: yields_any yields_bind [OF flush_data_typed] split: option.split)
  show ?thesis
    unfolding FlushBuffer_def
    by (rule yields_any, rule yields_bind [OF body]) (auto intro!: yields_any)
qed

lemma flush_each_typed: "yields (flush_each post pc now f is c s) (\<lambda>(errs, _). \<forall>e \<in> set errs. errno_typed e)"
proof (induction "is" arbitrary: c s)
  case (Cons i "is")
  show ?case
    unfolding flush_each.simps
    by (rule yields_bind [OF FlushBuffer_typed], clarsimp, rule yields_bind [OF Cons.IH]) auto
qed simp

lemma last_error_typed: "(\<And>e. e \<in> set errs \<Longrightarrow> errno_typed e) \<Longrightarrow> errno_typed e0 \<Longrightarrow>
    errno_typed (foldl (\<lambda>flushErr err. if err \<noteq> None then err else flushErr) e0 errs)"
  by (induction errs arbitrary: e0) auto

lemma RWCache_Flush_typed:
  assumes recv: "reorders recv"
  shows "yields (RWCache_Flush sched recv post pc now fe rwc s) (\<lambda>(err, _). errno_typed err)"
proof -
  have "yields (WCache_Flush sched recv post pc now fe c s) (\<lambda>(err, _). errno_typed err)" for c
  proof -
    obtain fb c0 where g: "GetFileBuffer fe False c = (fb, c0)" by (metis prod.collapse)
    have "errno_typed (foldl (\<lambda>flushErr err. if err \<noteq> None then err else flushErr) None (recv errs))"
      if "\<forall>e \<in> set errs. errno_typed e" for errs
      using that recv by (intro last_error_typed) (auto simp: reorders_def)
    then show ?thesis
      unfolding WCache_Flush_def g prod.case Let_def
      by (cases fb) (auto intro!: yields_any [where x = "the_fb _ _"] yields_if yields_bind [OF flush_each_typed])
  qed
  then show ?thesis
    unfolding RWCache_Flush_def by (rule yields_bind) auto
qed

lemma RWCache_Release_typed: "yields (RWCache_Release fe rwc) (\<lambda>(err, _). errno_typed err)"
proof -
  have one: "yields (ReleaseBuffer f i c) (\<lambda>(err, _). err = None)" for f i c
    unfolding ReleaseBuffer_def by (intro yields_any) auto
  have "yields (release_each f is c) (\<lambda>(err, _). errno_typed err)" for f "is" c
  proof (induction "is" arbitrary: c)
    case (Cons i "is")
    show ?case unfolding release_each.simps by (rule yields_bind [OF one]) (use Cons.IH in auto)
  qed simp
  then have "yields (Release fe c) (\<lambda>(err, _). errno_typed err)" for c
    unfolding Release_def by (auto intro!: yields_any split: prod.split option.split)
  then show ?thesis unfolding RWCache_Release_def by (rule yields_bind) auto
qed

section \<open>Operations on open files\<close>

lemma open_files_typed:
  "yields (Open env path flags mode m s) (\<lambda>((_, err), _). errno_typed err)"
  "yields (Close_fd env fd m s) (\<lambda>(err, _). errno_typed err)"
  "yields (Read_fd env fd buffer offset m s) (\<lambda>((_, err, _), _). errno_typed err)"
  "yields (Write_fd env fd buffer offset m s) (\<lambda>((_, err), _). errno_typed err)"
  "yields (Flush_fd env fd m s) (\<lambda>(err, _). errno_typed err)"
proof -
  show "yields (Open env path flags mode m s) (\<lambda>((_, err), _). errno_typed err)"
    by (auto simp: Open_def Let_def intro!: yields_any yields_if split: prod.split)
  show "yields (Close_fd env fd m s) (\<lambda>(err, _). errno_typed err)"
    unfolding Close_fd_def by (rule yields_any) (auto intro!: yields_any split: option.split)
  show "yields (Read_fd env fd buffer offset m s) (\<lambda>((_, err, _), _). errno_typed err)"
    unfolding Read_fd_def
    by (rule yields_if, simp, rule yields_any) (auto intro!: yields_any split: option.split)
  show "yields (Write_fd env fd buffer offset m s) (\<lambda>((_, err), _). errno_typed err)"
    unfolding Write_fd_def
    by (rule yields_if, simp, rule yields_any) (auto intro!: yields_any split: option.split)
  show "yields (Flush_fd env fd m s) (\<lambda>(err, _). errno_typed err)"
    unfolding Flush_fd_def by (rule yields_any) (auto intro!: yields_any split: option.split prod.split)
qed

lemma truncate_typed:
  assumes "reorders (env_recv env)"
  shows "yields (Truncate env path len m s) (\<lambda>(err, _). errno_typed err)"
    "yields (Ftruncate env fd len m s) (\<lambda>(err, _). errno_typed err)"
proof -
  have flush: "yields (truncate_flush env path m s) (\<lambda>(err, _). errno_typed err)" for path m
    unfolding truncate_flush_def
    by (auto split: option.split prod.split sum.split dest: doStat_typed
        intro!: yields_bind [OF RWCache_Flush_typed [OF assms]] yields_bind [OF RWCache_Release_typed])
  have tr: "yields (Truncate env path len m s) (\<lambda>(err, _). errno_typed err)" for path m
    unfolding Truncate_def by (rule yields_if, simp, rule yields_bind [OF flush]) (auto split: prod.split)
  show "yields (Truncate env path len m s) (\<lambda>(err, _). errno_typed err)" by (rule tr)
  show "yields (Ftruncate env fd len m s) (\<lambda>(err, _). errno_typed err)"
    unfolding Ftruncate_def by (rule yields_any) (auto simp: tr split: option.split)
qed

section \<open>Attributes and names\<close>

lemma stat_typed:
  "yields (Stat env path m s) (\<lambda>((_, err), _). errno_typed err)"
  "yields (Fstat env fd m s) (\<lambda>((_, err), _). errno_typed err)"
  "yields (Mount env m s) (\<lambda>(err, _). errno_typed err)"
proof -
  have size: "yields (Stat_size env path dentry m s) (\<lambda>(r, _). \<forall>err. r = Inl err \<longrightarrow> errno_typed err)" for dentry m s path
    unfolding Stat_size_def
    by (auto intro!: yields_any split: option.split prod.split dest: doStat_typed simp: Let_def)
  have st: "yields (Stat env path m s) (\<lambda>((_, err), _). errno_typed err)" for path m
    unfolding Stat_def Let_def
    by (auto intro!: yields_if yields_bind [OF size] split: prod.split option.split sum.split dest: doStat_typed)
  show "yields (Stat env path m s) (\<lambda>((_, err), _). errno_typed err)" by (rule st)
  show "yields (Mount env m s) (\<lambda>(err, _). errno_typed err)"
    unfolding Mount_def Let_def by (rule yields_if, simp, rule yields_bind [OF st]) auto
  show "yields (Fstat env fd m s) (\<lambda>((_, err), _). errno_typed err)"
    unfolding Fstat_def Let_def
    by (rule yields_any) (auto intro!: yields_any yields_if split: prod.split option.split sum.split dest: doStat_typed)
qed

lemma names_typed:
  "errno_typed (fst (Utime env path utime atime m s))" "errno_typed (fst (Chmod env path mode m s))"
  "errno_typed (fst (Chown env path uid gid m s))" "errno_typed (fst (ChownEx env path owner grp m s))"
  "errno_typed (fst (Setxattr env path key val flag m s))" "errno_typed (snd (fst (Getxattr env path key m s)))"
  "errno_typed (snd (fst (Listxattr env path m s)))" "errno_typed (fst (Removexattr env path key m s))"
  "errno_typed (fst (Rmdir env path m s))" "errno_typed (fst (RmDirTree env path m s))"
  "errno_typed (fst (UnLink env path m s))" "errno_typed (fst (Rename env path dst m s))"
  "errno_typed (snd (fst (Readlink env path m s)))" "errno_typed (fst (Link env path dst m s))"
  "errno_typed (fst (Symlink env path dst m s))" "errno_typed (snd (fst (Statfs env path sf m s)))"
  "errno_typed (snd (Opendir path m))"
  by (simp_all add: Utime_def Chmod_def Chown_def ChownEx_def Setxattr_def Getxattr_def Listxattr_def Removexattr_def Rmdir_def
      RmDirTree_def UnLink_def Rename_def Readlink_def Link_def Symlink_def Statfs_def Opendir_def Let_def split: prod.split)

lemma fnames_typed:
  "yields (Fchmod env fd mode m s) (\<lambda>(err, _). errno_typed err)"
  "yields (Fsetxattr env fd key val xflag m s) (\<lambda>(err, _). errno_typed err)"
  "yields (Fgetxattr env fd key m s) (\<lambda>((_, err), _). errno_typed err)"
  "yields (Flistxattr env fd m s) (\<lambda>((_, err), _). errno_typed err)"
  "yields (Fremovexattr env fd key m s) (\<lambda>(err, _). errno_typed err)"
  "yields (Mkdir env path mode m s) (\<lambda>(err, _). errno_typed err)"
  "yields (Mknod env path mode dev m s) (\<lambda>(err, _). errno_typed err)"
proof -
  note n = names_typed
  show "yields (Fchmod env fd mode m s) (\<lambda>(err, _). errno_typed err)"
    unfolding Fchmod_def by (rule yields_any) (auto split: option.split prod.split)
  show "yields (Fsetxattr env fd key val xflag m s) (\<lambda>(err, _). errno_typed err)"
    unfolding Fsetxattr_def by (rule yields_any) (auto simp: case_prod_beta n split: option.split)
  show "yields (Fgetxattr env fd key m s) (\<lambda>((_, err), _). errno_typed err)"
    unfolding Fgetxattr_def by (rule yields_any) (auto simp: case_prod_beta n split: option.split)
  show "yields (Flistxattr env fd m s) (\<lambda>((_, err), _). errno_typed err)"
    unfolding Flistxattr_def by (rule yields_any) (auto simp: case_prod_beta n split: option.split)
  show "yields (Fremovexattr env fd key m s) (\<lambda>(err, _). errno_typed err)"
    unfolding Fremovexattr_def by (rule yields_any) (auto simp: case_prod_beta n split: option.split)
  show "yields (Mkdir env path mode m s) (\<lambda>(err, _). errno_typed err)"
    unfolding Mkdir_def Let_def by (auto intro!: yields_if yields_any split: prod.split)
  show "yields (Mknod env path mode dev m s) (\<lambda>(err, _). errno_typed err)"
    unfolding Mknod_def Let_def by (intro yields_if) (auto intro!: yields_any split: prod.split)
qed

text \<open>
  C21: Every operation of the mount that the file system calls returns \<^verbatim>\<open>nil\<close> or an error of the type \<^verbatim>\<open>Errno\<close>,
  whatever errors the network, the server and the caches produce on the way, and so does the
  goroutine of a listing store nothing else for its reader. So the file system
  above always finds a code in the error it is given.
\<close>

theorem errors_are_errnos:
  assumes "reorders (env_recv env)"
  shows "yields (Mount env m s) (\<lambda>(err, _). errno_typed err) \<and>
    yields (Open env path flags mode m s) (\<lambda>((_, err), _). errno_typed err) \<and>
    yields (Close_fd env fd m s) (\<lambda>(err, _). errno_typed err) \<and>
    yields (Read_fd env fd buffer offset m s) (\<lambda>((_, err, _), _). errno_typed err) \<and>
    yields (Write_fd env fd buffer offset m s) (\<lambda>((_, err), _). errno_typed err) \<and>
    yields (Flush_fd env fd m s) (\<lambda>(err, _). errno_typed err) \<and>
    yields (Truncate env path len m s) (\<lambda>(err, _). errno_typed err) \<and>
    yields (Ftruncate env fd len m s) (\<lambda>(err, _). errno_typed err) \<and>
    yields (Stat env path m s) (\<lambda>((_, err), _). errno_typed err) \<and>
    yields (Fstat env fd m s) (\<lambda>((_, err), _). errno_typed err) \<and>
    yields (Fchmod env fd mode m s) (\<lambda>(err, _). errno_typed err) \<and>
    yields (Fsetxattr env fd key val xflag m s) (\<lambda>(err, _). errno_typed err) \<and>
    yields (Fgetxattr env fd key m s) (\<lambda>((_, err), _). errno_typed err) \<and>
    yields (Flistxattr env fd m s) (\<lambda>((_, err), _). errno_typed err) \<and>
    yields (Fremovexattr env fd key m s) (\<lambda>(err, _). errno_typed err) \<and>
    yields (Mkdir env path mode m s) (\<lambda>(err, _). errno_typed err) \<and>
    yields (Mknod env path mode dev m s) (\<lambda>(err, _). errno_typed err) \<and>
    errno_typed (fst (Utime env path utime atime m s)) \<and> errno_typed (fst (Chmod env path mode m s)) \<and>
    errno_typed (fst (Chown env path uid gid m s)) \<and> errno_typed (fst (ChownEx env path owner grp m s)) \<and>
    errno_typed (fst (Setxattr env path key val flag m s)) \<and> errno_typed (snd (fst (Getxattr env path key m s))) \<and>
    errno_typed (snd (fst (Listxattr env path m s))) \<and> errno_typed (fst (Removexattr env path key m s)) \<and>
    errno_typed (fst (Rmdir env path m s)) \<and> errno_typed (fst (RmDirTree env path m s)) \<and>
    errno_typed (fst (UnLink env path m s)) \<and> errno_typed (fst (Rename env path dst m s)) \<and>
    errno_typed (snd (fst (Readlink env path m s))) \<and> errno_typed (fst (Link env path dst m s)) \<and>
    errno_typed (fst (Symlink env path dst m s)) \<and> errno_typed (snd (fst (Statfs env path sf m s))) \<and>
    errno_typed (snd (Opendir path m)) \<and>
    yields (fetch_step env path FAsk dir m s) (\<lambda>(q, _). \<forall>err. q = FErr err \<longrightarrow> errno_typed err)"
proof -
  have "yields (fetch_step env path FAsk dir m s) (\<lambda>(q, _). \<forall>err. q = FErr err \<longrightarrow> errno_typed err)"
    by (auto simp: fetch_step_def split: prod.split)
  then show ?thesis
    using open_files_typed truncate_typed [OF assms] stat_typed names_typed fnames_typed by (intro conjI)
qed

theorem errors_are_errnos_witness:
  "yields (Truncate (wit_env ok_server) ''/f'' 0 (wit_mount (NewFileCache 2)) ()) (\<lambda>(err, _). errno_typed err) \<and>
   yields (Open (wit_env ok_server) ''/f'' 0 0 (wit_mount (NewFileCache 2)) ()) (\<lambda>((_, err), _). errno_typed err)"
proof -
  have "reorders (env_recv (wit_env ok_server))" by (simp add: reorders_def wit_env_def)
  note all = errors_are_errnos [OF this]
  show ?thesis
    by (rule conjI [OF all [THEN conjunct2, THEN conjunct2, THEN conjunct2, THEN conjunct2, THEN conjunct2, THEN conjunct2, THEN conjunct1]
        all [THEN conjunct2, THEN conjunct1]])
qed

text \<open>\<^verbatim>\<open>MkdirAll\<close>, which the file system does not call, hands on the error of the network as it is.\<close>

definition gone_server :: "unit poster" where
  "gone_server s url j = (s, Inl (ErrNew ''no route to host''))"

theorem mkdir_all_error_untyped:
  "\<not> yields (MkdirAll (wit_env gone_server) ''/d'' 0 (wit_mount (NewFileCache 2)) ()) (\<lambda>(err, _). errno_typed err)"
  by code_simp

end
