(* ===== verification/Cfa_Ident.thy ===== *)
theory Cfa_Ident
  imports Cfa_Fuse Cfa_Conf
begin

text \<open>
  Who and what: the types of entries and their names, access control entries and the groups of a
  process (\<^verbatim>\<open>lib/proto/proxy_proto.go\<close>, \<^verbatim>\<open>client/cfafuse/fuse_op.go\<close>, \<^verbatim>\<open>client/cfafuse/file.go\<close>), and the methods that
  the FUSE library asks of an open file and of the file system beside those that go to the mount.
\<close>

section \<open>Types of entries\<close>

definition DentryTypeFifo :: DentryType where "DentryTypeFifo = 4"

definition DentryTypeSock :: DentryType where "DentryTypeSock = 5"

definition DentryType_String :: "DentryType \<Rightarrow> string" where
  "DentryType_String d =
     (if d = DentryTypeFile then ''regular''
      else if d = DentryTypeDir then ''directory''
      else if d = DentryTypeLink then ''link''
      else if d = DentryTypeFifo then ''fifo''
      else if d = DentryTypeSock then ''socket''
      else ''unknown'')"

definition SetXattrFlagCreate :: u32 where "SetXattrFlagCreate = 1"

definition SetXattrFlagReplace :: u32 where "SetXattrFlagReplace = 2"

text \<open>The names tell the types apart, and what \<^verbatim>\<open>Stat\<close> puts into an entry has a name of its own.\<close>

lemmas dentry_types = DentryTypeFile_def DentryTypeDir_def DentryTypeLink_def DentryTypeFifo_def DentryTypeSock_def

lemma DentryType_String_inj:
  assumes "DentryType_String d = DentryType_String d'" and "DentryType_String d \<noteq> ''unknown''"
  shows "d = d'"
  using assms by (auto simp: DentryType_String_def split: if_splits)

lemma doStat_type: "doStat env path m s = (s', Inr d) \<Longrightarrow> DentryType_String (ucast (d_Type d)) \<in> {''regular'', ''directory'', ''link''}"
  by (auto simp: doStat_def DentryType_String_def dentry_types Let_def split: prod.splits if_splits)

section \<open>Replies\<close>

definition GetCode :: "'a ProxyResponse_scheme \<Rightarrow> int" where "GetCode r = resp_Code r"

definition Msg :: "'a ProxyResponse_scheme \<Rightarrow> string" where "Msg r = resp_Message r"

text \<open>The error that the statistics of a request are given.\<close>

definition toStatErrno :: "go_error option \<Rightarrow> int \<Rightarrow> go_error option" where
  "toStatErrno err code = (if err \<noteq> None then err else if code = 0 then None else errno code)"

section \<open>Access control\<close>

definition AclUseUidGid :: u32 where "AclUseUidGid = 1"

definition AclUseOwnerGroup :: u32 where "AclUseOwnerGroup = 2"

definition InvalidUid :: int where "InvalidUid = 4294967295"

definition InvalidGid :: int where "InvalidGid = 4294967295"

record Acl =
  acl_UseFlag :: u32
  acl_Uid :: int
  acl_Gid :: int
  acl_Owner :: string
  acl_Group :: string
  acl_Groups :: "string list"

definition formAclFromNode :: "Dentry \<Rightarrow> Acl go" where
  "formAclFromNode node =
     (case d_Info node of
        None \<Rightarrow> Panic
      | Some info \<Rightarrow>
          Ret \<lparr> acl_UseFlag = AclUseUidGid, acl_Uid = uint (ino_Uid info), acl_Gid = uint (ino_Gid info),
                acl_Owner = [], acl_Group = [], acl_Groups = [] \<rparr>)"

section \<open>Groups of a process\<close>

definition fuse_ENOENT :: int where "fuse_ENOENT = 2"

definition fuse_EINVAL :: int where "fuse_EINVAL = 22"

text \<open>\<^verbatim>\<open>strings.TrimSpace\<close> on the characters of ASCII.\<close>

definition is_space :: "char \<Rightarrow> bool" where
  "is_space c \<longleftrightarrow> of_char c \<in> {9, 10, 11, 12, 13, 32 :: nat}"

definition TrimSpace :: "string \<Rightarrow> string" where
  "TrimSpace s = rev (dropWhile is_space (rev (dropWhile is_space s)))"

text \<open>\<^verbatim>\<open>getGroups\<close> over the status file of the process: the error of opening it, or its lines as \<^verbatim>\<open>ReadLine\<close> gives them up to the end of the file.\<close>

fun group_line :: "string list \<Rightarrow> string list \<times> int" where
  "group_line [] = ([], fuse_EINVAL)"
| "group_line (line # rest) =
     (if prefix ''Groups:'' line \<and> length line > 8
      then (Split (CHR '' '') (TrimSpace (drop 8 line)), fuse_OK)
      else group_line rest)"

definition getGroups :: "go_error + string list \<Rightarrow> string list \<times> int" where
  "getGroups file = (case file of Inl _ \<Rightarrow> ([], fuse_ENOENT) | Inr ls \<Rightarrow> group_line ls)"

lemma Join_ends:
  assumes "ws \<noteq> []" and "\<forall>w \<in> set ws. w \<noteq> []"
  shows "Join sep ws \<noteq> [] \<and> hd (Join sep ws) = hd (hd ws) \<and> last (Join sep ws) = last (last ws)"
  using assms by (induction sep ws rule: Join.induct) auto

lemma TrimSpace_inner:
  assumes "s \<noteq> []" and "\<not> is_space (hd s)" and "\<not> is_space (last s)" and "is_space c"
  shows "TrimSpace (s @ [c]) = s"
proof -
  have "dropWhile is_space (s @ [c]) = s @ [c]" using assms(1,2) by (cases s) simp_all
  moreover have "dropWhile is_space (c # rev s) = rev s"
    using assms by (cases s rule: rev_cases) simp_all
  ultimately show ?thesis by (simp add: TrimSpace_def)
qed

text \<open>The kernel writes the groups after a tabulator, each followed by a space; they come back as they are.\<close>

theorem groups_parsed:
  assumes "gs \<noteq> []" and "\<forall>g \<in> set gs. g \<noteq> [] \<and> (\<forall>c \<in> set g. \<not> is_space c)"
    and "\<forall>l \<in> set before. \<not> prefix ''Groups:'' l"
  shows "getGroups (Inr (before @ (''Groups:'' @ CHR 0x09 # Join (CHR '' '') gs @ '' '') # after)) = (gs, fuse_OK)"
proof -
  let ?j = "Join (CHR '' '') gs"
  have skip: "group_line (before @ rest) = group_line rest" for rest
    using assms(3) by (induction before) auto
  have ends: "?j \<noteq> []" "hd ?j = hd (hd gs)" "last ?j = last (last gs)" using Join_ends [of gs] assms(1,2) by auto
  have "hd gs \<in> set gs" "last gs \<in> set gs" using assms(1) by simp_all
  then have sp: "\<not> is_space (hd ?j)" "\<not> is_space (last ?j)" using ends assms(2) by (metis hd_in_set, metis last_in_set)
  have blank: "is_space (CHR '' '')" by (simp add: is_space_def)
  have "TrimSpace (?j @ '' '') = ?j" by (rule TrimSpace_inner [OF ends(1) sp blank])
  moreover have "Split (CHR '' '') ?j = gs" using assms(1,2) blank by (intro Split_Join) auto
  ultimately show ?thesis using ends(1) by (simp add: getGroups_def skip)
qed

text \<open>A process without groups gets one, without a name.\<close>

theorem no_groups_parsed: "getGroups (Inr [''Groups:'' @ [CHR 0x09, CHR '' '']]) = ([[]], fuse_OK)"
  by (simp add: getGroups_def TrimSpace_def is_space_def)

text \<open>The name of the host, given by the system or an error of it.\<close>

definition GetHostName :: "go_error + string \<Rightarrow> string go" where
  "GetHostName hostname = (case hostname of Inl _ \<Rightarrow> Panic | Inr h \<Rightarrow> Ret h)"

section \<open>Open files and the file system\<close>

text \<open>Locks on ranges of a file are granted and not kept.\<close>

definition file_NewFile :: "int \<Rightarrow> string \<Rightarrow> Dentry \<Rightarrow> fuse_file" where
  "file_NewFile fd path node = \<lparr> ff_fd = fd, ff_path = path, ff_node = node \<rparr>"

definition file_InnerFile :: "fuse_file \<Rightarrow> fuse_file option" where "file_InnerFile f = None"

definition file_String :: "fuse_file \<Rightarrow> string" where "file_String f = ''file''"

definition file_GetLk :: "u64 \<Rightarrow> 'lk \<Rightarrow> u32 \<Rightarrow> 'lk \<Rightarrow> fuse_file \<Rightarrow> int \<times> 'lk" where
  "file_GetLk owner lk flags out f = (fuse_OK, out)"

definition file_SetLk :: "u64 \<Rightarrow> 'lk \<Rightarrow> u32 \<Rightarrow> fuse_file \<Rightarrow> int" where "file_SetLk owner lk flags f = fuse_OK"

definition file_SetLkw :: "u64 \<Rightarrow> 'lk \<Rightarrow> u32 \<Rightarrow> fuse_file \<Rightarrow> int" where "file_SetLkw owner lk flags f = fuse_OK"

definition FuseLib_SetLkw :: "'lkin \<Rightarrow> int" where "FuseLib_SetLkw input = fuse_OK"

record cfaFS =
  cf_options :: FuseConf
  cf_mountInfo :: CfaMountInfo

definition NewCfaFS :: "FuseConf \<Rightarrow> CfaMountInfo \<Rightarrow> cfaFS option \<times> go_error option" where
  "NewCfaFS options mountInfo = (Some \<lparr> cf_options = options, cf_mountInfo = mountInfo \<rparr>, None)"

definition cfaFS_String :: "cfaFS \<Rightarrow> string" where "cfaFS_String fs = ''cfaFS''"

definition OnMount :: "cfaFS \<Rightarrow> cfaFS" where "OnMount fs = fs"

definition OnUnmount :: "cfaFS \<Rightarrow> cfaFS" where "OnUnmount fs = fs"

definition GetProxyClient :: "CfaMountInfo \<Rightarrow> ProxyClient" where "GetProxyClient m = m_proxyClient m"

definition pw_GetStart :: "PrefetchWindow \<Rightarrow> u64" where "pw_GetStart pw = BlkStart pw"

definition pw_GetEnd :: "PrefetchWindow \<Rightarrow> u64" where "pw_GetEnd pw = BlkEnd pw"

end
