(* ===== verification/Spec2Isabelle.thy ===== *)
theory Spec2Isabelle
  imports Cfa_Safe Cfa_Ls Cfa_NProps Cfa_Main Cfa_Expire Cfa_Types Cfa_Ident
begin

text \<open>
  A verification library for the Go client of CubeFS for Android.

  \<^bold>\<open>The program.\<close> The client mounts a directory of a CubeFS cluster through FUSE. The FUSE layer
  (\<^verbatim>\<open>src/client/cfafuse\<close>) turns names into paths and calls a mount (\<^verbatim>\<open>src/lib/libfs\<close>). The mount checks the
  path and the handle, asks the proxy of the cluster over HTTP (\<^verbatim>\<open>src/lib/libfs/api\<close>, protocol in
  \<^verbatim>\<open>src/lib/proto\<close>), and keeps four caches: the table of open files, the directory entries, a write-back
  cache of data blocks, and a read cache that prefetches. Goroutines write expired and full blocks
  back, prefetch blocks, flush the blocks of a file in parallel, and fetch the pages of a directory.

  \<^bold>\<open>Conventions.\<close> A call is a function that takes the state of its component and of the server and
  returns the results and the new states; \<open>Panic\<close> and \<open>Block\<close> are outcomes beside \<open>Ret\<close> (\<^theory_text>\<open>Cfa_Prelude\<close>),
  Go errors are values. Fixed-width integers are words, Go's \<^verbatim>\<open>int\<close> is \<^typ>\<open>int\<close> where its width cannot be
  reached, pointers into a pool are indices into a store. What is outside of \<^verbatim>\<open>src\<close> is a parameter: the
  exchange \<open>post\<close> with the server (in \<^theory_text>\<open>Cfa_Http\<close>, the sending of one HTTP request), the clock, the order in which Go ranges over a map and in which
  goroutines run. What the code relies on of the server is stated as \<open>server_ok\<close> (reads and writes) and
  \<open>listing_ok\<close> (pages of a directory) and is satisfied by the concrete servers of the witnesses. \<open>okG w c Q\<close>
  says that the call \<open>c\<close> does not panic, that its result satisfies \<open>Q\<close>, and that it waits only if \<open>w\<close>.

  \<^bold>\<open>The theories\<close>, in the order of their imports:

  \<^item> \<^theory_text>\<open>Cfa_Prelude\<close>: machine types, outcomes, slices, generic lemmas, the locales of transition systems with an
    invariant (\<open>invariant_system\<close>) and of simulations.
  \<^item> \<^theory_text>\<open>Cfa_Errors\<close> (\<^verbatim>\<open>proto/err_code.go\<close>, \<^verbatim>\<open>posix_code.go\<close>, \<^verbatim>\<open>client/lib/code.go\<close>, \<^verbatim>\<open>toErr\<close>, \<^verbatim>\<open>parseErr\<close>): errors, their texts,
    and the status FUSE is told.
  \<^item> \<^theory_text>\<open>Cfa_FileCache\<close> (\<^verbatim>\<open>filecache.go\<close>): handles and reference counts; the table never panics, gives the
    least free handle, and counts references exactly.
  \<^item> \<^theory_text>\<open>Cfa_Buffers\<close> (\<^verbatim>\<open>cache.go\<close>): buffers, block locks, prefetch windows; mutual exclusion of the locks.
  \<^item> \<^theory_text>\<open>Cfa_Slice\<close>: cutting a request into block operations, for both caches, behind one locale.
  \<^item> \<^theory_text>\<open>Cfa_Proto\<close> (\<^verbatim>\<open>proxy_proto.go\<close>, \<^verbatim>\<open>consts.go\<close>), \<^theory_text>\<open>Cfa_Proxy\<close> (\<^verbatim>\<open>proxyclient.go\<close>): documents of the protocol with their round
    trips; the retry loop and all calls.
  \<^item> \<^theory_text>\<open>Cfa_IO\<close> (\<^verbatim>\<open>read.go\<close>, \<^verbatim>\<open>write.go\<close>): direct reads and writes, the contract of the server.
  \<^item> \<^theory_text>\<open>Cfa_Pool\<close>, \<^theory_text>\<open>Cfa_View\<close>: the pool of buffers that both caches have, and what a client sees (\<open>wview\<close>: cached
    bytes over the bytes of the server).
  \<^item> \<^theory_text>\<open>Cfa_WCache\<close>, \<^theory_text>\<open>Cfa_WInv\<close>, \<^theory_text>\<open>Cfa_WSteps\<close> (\<^verbatim>\<open>wcache.go\<close>): the write cache, its invariant, and all interleavings of its
    operations, which refine a plain store of files.
  \<^item> \<^theory_text>\<open>Cfa_RCache\<close>, \<^theory_text>\<open>Cfa_RWCache\<close>, \<^theory_text>\<open>Cfa_Read\<close>, \<^theory_text>\<open>Cfa_RInv\<close>, \<^theory_text>\<open>Cfa_RSteps\<close>, \<^theory_text>\<open>Cfa_RSafe\<close> (\<^verbatim>\<open>rcache.go\<close>, \<^verbatim>\<open>rwcache.go\<close>):
    the read cache and the two together; reads return what a client sees, with and without prefetching,
    writes invalidate; runs that show where the code falls short of that; and what a read keeps even then.
  \<^item> \<^theory_text>\<open>Cfa_Lru\<close> (\<^verbatim>\<open>lib/cache/lru.go\<close>, \<^verbatim>\<open>dentrycache.go\<close>): the LRU cache refines a list in order of use; the locale
    \<open>bounded_cache\<close> states what a client of a cache relies on, and both caches are interpretations of it.
  \<^item> \<^theory_text>\<open>Cfa_Mount\<close> (\<^verbatim>\<open>mount.go\<close>, \<^verbatim>\<open>stat.go\<close>), \<^theory_text>\<open>Cfa_File\<close> (\<^verbatim>\<open>file.go\<close>), \<^theory_text>\<open>Cfa_Meta\<close> (\<^verbatim>\<open>acl.go\<close>, \<^verbatim>\<open>attr.go\<close>, \<^verbatim>\<open>rm.go\<close>, \<^verbatim>\<open>rename.go\<close>, \<^verbatim>\<open>link.go\<close>),
    \<^theory_text>\<open>Cfa_Dir\<close> (\<^verbatim>\<open>dir.go\<close>), \<^theory_text>\<open>Cfa_Fuse\<close> (\<^verbatim>\<open>fuse_op.go\<close>, \<^verbatim>\<open>cfafuse/file.go\<close>): the operations of the mount and of the file system.
  \<^item> \<^theory_text>\<open>Cfa_Ls\<close>: a listing end to end; every entry once and in order, no reader sleeps for ever.
  \<^item> \<^theory_text>\<open>Cfa_MProps\<close>: refused paths, writing and closing through a handle, sizes with cached data, dropped
    directory entries, the life cycle of a mount, paths of FUSE.
  \<^item> \<^theory_text>\<open>Cfa_Conf\<close> (\<^verbatim>\<open>conf/cfg.go\<close>, \<^verbatim>\<open>libfs/config.go\<close>, \<^verbatim>\<open>conf/consts.go\<close>, \<^verbatim>\<open>client/fuseconf.go\<close>): configuration files, with
    their comments, hosts, numbers and defaults; comments go and nothing else, numbers are the numbers
    written.
  \<^item> \<^theory_text>\<open>Cfa_Http\<close>, \<^theory_text>\<open>Cfa_HProps\<close> (\<^verbatim>\<open>http/selector.go\<close>, \<^verbatim>\<open>http.go\<close>, \<^verbatim>\<open>transport.go\<close>): choice of a host, the loop of attempts, headers and
    replies; the loop ends, every host gets its turn, and the client meets the contract that the proxy
    client relies on (the parameter \<open>post\<close> of the other theories, here a definition over the exchange of
    one request).
  \<^item> \<^theory_text>\<open>Cfa_NewMount\<close>, \<^theory_text>\<open>Cfa_NProps\<close> (\<^verbatim>\<open>NewMount\<close> and \<^verbatim>\<open>getUserInfo\<close> of \<^verbatim>\<open>mount.go\<close>, \<^verbatim>\<open>thirdparty_proto.go\<close>, \<^verbatim>\<open>accountserver.go\<close>): a mount
    built from a configuration, the user asked of an account server, and that such a mount satisfies
    what the theories above assume of one.
  \<^item> \<^theory_text>\<open>Cfa_Unmount\<close> (\<^verbatim>\<open>CloseAll\<close> of both caches, \<^verbatim>\<open>DelMount\<close>): unmounting writes every file back whose closing reports no error.
  \<^item> \<^theory_text>\<open>Cfa_Log\<close> (\<^verbatim>\<open>lib/log/logger.go\<close>, \<^verbatim>\<open>util/logger.go\<close>, \<^verbatim>\<open>fuselog.go\<close>): levels of loggers, loggers of requests, and request identifiers,
    which decode to what they were made of.
  \<^item> \<^theory_text>\<open>Cfa_Main\<close> (\<^verbatim>\<open>client/main.go\<close>): building the mount, the goroutine for signals and the main goroutine as a
    transition system; an exit signal unmounts and releases the process.
  \<^item> \<^theory_text>\<open>Cfa_Expire\<close> (\<^verbatim>\<open>CheckExpire\<close> of both caches, \<^verbatim>\<open>SyncWrite\<close>, \<^verbatim>\<open>StatTo\<close> of \<^verbatim>\<open>mount.go\<close>, \<^verbatim>\<open>stat/statistic.go\<close>): the loops of the
    background goroutines and that they end when a mount is deleted; a run in which one does not.
  \<^item> \<^theory_text>\<open>Cfa_Types\<close>: the errors that the mount hands to the file system are of the type \<^verbatim>\<open>Errno\<close>.
  \<^item> \<^theory_text>\<open>Cfa_Ident\<close> (the rest of \<^verbatim>\<open>proxy_proto.go\<close>, \<^verbatim>\<open>fuse_op.go\<close> and \<^verbatim>\<open>cfafuse/file.go\<close>): types of entries, access control
    entries, the groups of a process, calls that only answer.
  \<^item> \<^theory_text>\<open>Cfa_Safe\<close>: the mount as a whole; every interleaving of its operations and of its goroutines, from
    \<^verbatim>\<open>NewMount\<close> on, keeps the invariants of all components together, and no call panics.

  \<^bold>\<open>Loops, waiting and bounds.\<close> Loops of the code that always end are total functions. The spinning loops of
  the locks and the endless loops of the goroutines are modelled by one round (in \<^theory_text>\<open>Cfa_Expire\<close> also as whole loops); a round that has to
  wait is the outcome \<open>Block\<close>, and the interleavings of rounds are inductive step relations. The loop of
  attempts of the HTTP client is a \<^verbatim>\<open>partial_function\<close> to \<open>option\<close>, proved to return. No fuel is used. Requests are limited as \<open>request_ok\<close> and \<open>prefetch_ok\<close> say: their range and one block (with
  prefetching, the largest window) stay inside 64 bits, which every file of less than 8 EiB satisfies.

  \<^bold>\<open>Not modelled.\<close> The texts that are logged and the constructors of log fields, which only pass their
  arguments on to the zap library; closing of connections and bodies of HTTP replies; the command line
  and the FUSE server of the main program; the interface \<^verbatim>\<open>ProxyAPI\<close>, which has no bodies; the vendored packages.
  The sending of one HTTP request, the JSON text behind the documents of the protocol, the parsing of
  URLs, the files under \<^verbatim>\<open>/proc\<close> and the clock are parameters.
\<close>

end
